(* ===== verification/Rovenue_Prelude.thy ===== *)
theory Rovenue_Prelude
  imports Main "HOL-Library.AList" "HOL-Library.Sublist" "HOL-Library.Multiset"
begin

text \<open>
  The prelude of the development: the types every component shares, the lemma collections
  the component proofs draw on, and the generic facts about lists, options and association
  lists they need.

  A JavaScript \<^verbatim>\<open>Date\<close> is its \<^verbatim>\<open>getTime()\<close> value, an integer number of
  milliseconds; \<^verbatim>\<open>Date | null\<close> is an option. Primary keys that the database
  generates (\<^verbatim>\<open>createId()\<close>) are opaque, and a table draws them from a counter. A JavaScript
  \<^verbatim>\<open>Map\<close> (and a plain object used as a dictionary) is an association list with
  \<^term>\<open>AList.update\<close> as \<^verbatim>\<open>set\<close>: an existing key keeps its position and a new key goes
  to the end, which is the iteration order of the language.
\<close>

type_synonym timestamp = int
type_synonym row_id = nat
type_synonym ('k, 'v) js_map = "('k \<times> 'v) list"

named_theorems status_simps \<open>evaluation of the subscription status tables\<close>
named_theorems row_simps \<open>projections of updated table rows\<close>

text \<open>A nullable string used as a condition: null and the empty string are false.\<close>

definition truthy :: "string option \<Rightarrow> bool" where
  "truthy s = (s \<noteq> None \<and> s \<noteq> Some [])"

section \<open>Lists and finds\<close>

lemma find_Some_iff_mem: "find P xs = Some x \<Longrightarrow> x \<in> set xs \<and> P x"
  by (induction xs) (auto split: if_splits)

lemma find_None_iff_all: "(find P xs = None) = (\<forall>x \<in> set xs. \<not> P x)"
  by (induction xs) auto

lemma find_map_same:
  "(\<And>x. x \<in> set xs \<Longrightarrow> P (f x) = P x) \<Longrightarrow> find P (map f xs) = map_option f (find P xs)"
  by (induction xs) auto

lemma find_append: "find P (xs @ ys) = (case find P xs of None \<Rightarrow> find P ys | Some x \<Rightarrow> Some x)"
  by (induction xs) auto

lemma find_unique:
  assumes "x \<in> set xs" and "P x" and "\<And>y. y \<in> set xs \<Longrightarrow> P y \<Longrightarrow> y = x"
  shows "find P xs = Some x"
proof (cases "find P xs")
  case None
  then have "\<not> P x" using assms(1) by (simp add: find_None_iff_all)
  with assms(2) show ?thesis by simp
next
  case (Some y)
  from find_Some_iff_mem [OF this] have "y = x" using assms(3) by blast
  with Some show ?thesis by simp
qed

lemma distinct_map_filterI: "distinct (map f xs) \<Longrightarrow> distinct (map f (filter P xs))"
  by (simp add: distinct_map_filter)

lemma distinct_map_eqD:
  "distinct (map f xs) \<Longrightarrow> x \<in> set xs \<Longrightarrow> y \<in> set xs \<Longrightarrow> f x = f y \<Longrightarrow> x = y"
  by (simp add: distinct_map inj_on_def)

lemma sorted_map_le_last: "sorted (map f xs) \<Longrightarrow> x \<in> set xs \<Longrightarrow> f x \<le> f (last xs)"
  by (induction xs) auto

lemma take_sortD: "x \<in> set (take n (sort_key f xs)) \<Longrightarrow> x \<in> set xs"
  by (drule in_set_takeD) simp

text \<open>
  A loop that returns the first result that is not null, and \<^verbatim>\<open>Array.prototype.findIndex\<close> with
  \<open>None\<close> for \<^verbatim>\<open>-1\<close>.
\<close>

fun first_some :: "'a option list \<Rightarrow> 'a option" where
  "first_some [] = None"
| "first_some (None # xs) = first_some xs"
| "first_some (Some x # xs) = Some x"

lemma first_some_Cons: "first_some (x # xs) = (case x of None \<Rightarrow> first_some xs | Some y \<Rightarrow> Some y)"
  by (cases x) simp_all

lemma first_some_None: "(first_some xs = None) = (\<forall>x \<in> set xs. x = None)"
  by (induction xs rule: first_some.induct) auto

lemma first_some_append [simp]:
  "first_some (xs @ ys) = (case first_some xs of None \<Rightarrow> first_some ys | Some x \<Rightarrow> Some x)"
  by (induction xs rule: first_some.induct) auto

lemma first_some_mem: "first_some xs = Some x \<Longrightarrow> Some x \<in> set xs"
  by (induction xs rule: first_some.induct) auto

lemma first_some_only:
  "i < length xs \<Longrightarrow> xs ! i = Some x \<Longrightarrow> (\<And>j. j < length xs \<Longrightarrow> j \<noteq> i \<Longrightarrow> xs ! j = None) \<Longrightarrow> first_some xs = Some x"
proof (induction xs arbitrary: i)
  case (Cons a xs)
  show ?case
  proof (cases i)
    case 0
    then show ?thesis using Cons.prems(2) by simp
  next
    case (Suc k)
    have "a = None" using Cons.prems(3) [of 0] Suc by simp
    moreover have "first_some xs = Some x"
      using Cons.prems Cons.prems(3) [of "Suc _"] Suc by (intro Cons.IH [of k]) auto
    ultimately show ?thesis by simp
  qed
qed simp

fun opt_list :: "'a option \<Rightarrow> 'a list" where
  "opt_list None = []"
| "opt_list (Some x) = [x]"

lemma opt_list_simps [simp]:
  "set (opt_list x) = set_option x"
  "map f (opt_list x) = opt_list (map_option f x)"
  by (cases x; simp)+

fun find_index :: "('a \<Rightarrow> bool) \<Rightarrow> 'a list \<Rightarrow> nat option" where
  "find_index P [] = None"
| "find_index P (x # xs) = (if P x then Some 0 else map_option Suc (find_index P xs))"

lemma find_index_None: "(find_index P xs = None) = (\<forall>x \<in> set xs. \<not> P x)"
  by (induction xs) auto

lemma find_index_Some: "find_index P xs = Some i \<Longrightarrow> i < length xs \<and> P (xs ! i)"
  by (induction xs arbitrary: i) (auto split: if_splits)

lemma find_index_append [simp]:
  "\<forall>x \<in> set xs. \<not> P x \<Longrightarrow> P y \<Longrightarrow> find_index P (xs @ y # ys) = Some (length xs)"
  by (induction xs) simp_all

text \<open>\<^verbatim>\<open>Array.prototype.join\<close>.\<close>

fun join_text :: "string \<Rightarrow> string list \<Rightarrow> string" where
  "join_text sep [] = []"
| "join_text sep [s] = s"
| "join_text sep (s # t # ss) = s @ sep @ join_text sep (t # ss)"

text \<open>
  White space as \<^verbatim>\<open>trim\<close> and \<^verbatim>\<open>\\s\<close> see it in one-byte characters, \<^verbatim>\<open>String.prototype.trim\<close>, and
  \<^verbatim>\<open>split\<close> at a one-character separator.
\<close>

definition js_space :: "char \<Rightarrow> bool" where
  "js_space c = (let n = (of_char c :: nat) in (9 \<le> n \<and> n \<le> 13) \<or> n = 32 \<or> n = 160)"

definition js_trim :: "string \<Rightarrow> string" where
  "js_trim s = rev (dropWhile js_space (rev (dropWhile js_space s)))"

fun js_split :: "char \<Rightarrow> string \<Rightarrow> string list" where
  "js_split c [] = [[]]"
| "js_split c (x # xs) =
     (if x = c then [] # js_split c xs
      else (case js_split c xs of [] \<Rightarrow> [[x]] | s # ss \<Rightarrow> (x # s) # ss))"

lemma js_split_not_Nil [simp]: "js_split c s \<noteq> []"
  by (induction s) (auto split: list.split)

lemma js_split_append: "js_split c (s @ c # t) = js_split c s @ js_split c t"
  by (induction s) (auto split: list.split)

text \<open>A column of an update whose patch may not mention it.\<close>

definition patched :: "'a option \<Rightarrow> 'a \<Rightarrow> 'a" where
  "patched v old = (case v of None \<Rightarrow> old | Some x \<Rightarrow> x)"

text \<open>
  Loops over an explicit stack end because the value taken off is replaced by smaller ones.
\<close>

definition stack_rel :: "('a \<Rightarrow> nat) \<Rightarrow> ('a list \<times> 'a list) set" where
  "stack_rel f = inv_image (mult less_than) (\<lambda>st. mset (map f st))"

lemma wf_stack_rel [simp, intro]: "wf (stack_rel f)"
  by (simp add: stack_rel_def wf_mult)

lemma stack_rel_push:
  assumes "\<And>y. y \<in> set ys \<Longrightarrow> f y < f x"
  shows "(ys @ st, x # st) \<in> stack_rel f"
proof -
  have "(mset (map f st) + mset (map f ys), add_mset (f x) (mset (map f st))) \<in> mult1 less_than"
    using assms by (intro mult1I) auto
  then show ?thesis by (simp add: stack_rel_def mult_def union_commute r_into_trancl')
qed

lemma stack_rel_pop: "(st, x # st) \<in> stack_rel f"
  using stack_rel_push [of "[]" f x st] by simp

section \<open>Keeping the best value per key\<close>

text \<open>
  Two loops of the program keep, for every key, the entry that no later entry beats: the
  desired-access computation and the active-access read. The loop is written once here, over
  an arbitrary comparison, and the locale states what it computes when the comparison is a
  strict weak order.
\<close>

definition keep_best_step :: "('v \<Rightarrow> 'v \<Rightarrow> bool) \<Rightarrow> 'k \<times> 'v \<Rightarrow> ('k, 'v) js_map \<Rightarrow> ('k, 'v) js_map" where
  "keep_best_step better kv m =
     (case map_of m (fst kv) of
        None \<Rightarrow> AList.update (fst kv) (snd kv) m
      | Some e \<Rightarrow> if better (snd kv) e then AList.update (fst kv) (snd kv) m else m)"

definition keep_best :: "('v \<Rightarrow> 'v \<Rightarrow> bool) \<Rightarrow> ('k \<times> 'v) list \<Rightarrow> ('k, 'v) js_map \<Rightarrow> ('k, 'v) js_map" where
  "keep_best better kvs m = fold (keep_best_step better) kvs m"

lemma keep_best_simps [simp]:
  "keep_best better [] m = m"
  "keep_best better (kv # kvs) m = keep_best better kvs (keep_best_step better kv m)"
  by (simp_all add: keep_best_def)

lemma keep_best_append: "keep_best better (xs @ ys) m = keep_best better ys (keep_best better xs m)"
  by (simp add: keep_best_def)

lemma distinct_keep_best: "distinct (map fst m) \<Longrightarrow> distinct (map fst (keep_best better kvs m))"
proof (induction kvs arbitrary: m)
  case (Cons kv kvs)
  have "distinct (map fst (keep_best_step better kv m))"
    using Cons.prems by (auto simp: keep_best_step_def distinct_update split: option.split)
  then show ?case by (simp add: Cons.IH)
qed simp

locale strict_weak =
  fixes better :: "'v \<Rightarrow> 'v \<Rightarrow> bool"
  assumes asym: "better a b \<Longrightarrow> \<not> better b a"
    and neg_trans: "better a c \<Longrightarrow> better a b \<or> better b c"
begin

lemma irrefl [simp]: "\<not> better a a"
  using asym by blast

lemma trans: "better a b \<Longrightarrow> better b c \<Longrightarrow> better a c"
  using asym neg_trans by blast

lemma not_better_trans: "\<not> better a b \<Longrightarrow> \<not> better b c \<Longrightarrow> \<not> better a c"
  using neg_trans by blast

lemma keep_best_sound:
  assumes "map_of (keep_best better kvs m) k = Some v"
  shows "((k, v) \<in> set kvs \<or> map_of m k = Some v)
    \<and> (\<forall>w. (k, w) \<in> set kvs \<longrightarrow> \<not> better w v)
    \<and> (\<forall>w. map_of m k = Some w \<longrightarrow> \<not> better w v)"
  using assms
proof (induction kvs arbitrary: m)
  case Nil
  then show ?case by simp
next
  case (Cons kv kvs)
  obtain k' w' where kv: "kv = (k', w')" by (cases kv)
  let ?m = "keep_best_step better kv m"
  from Cons.prems have res: "map_of (keep_best better kvs ?m) k = Some v" by simp
  note IH = Cons.IH [OF res]
  show ?case
  proof (cases "k' = k")
    case False
    then have "map_of ?m k = map_of m k"
      by (auto simp: keep_best_step_def kv update_conv' split: option.split)
    with IH False show ?thesis by (auto simp: kv)
  next
    case True
    show ?thesis
    proof (cases "\<exists>e. map_of m k = Some e \<and> \<not> better w' e")
      case True
      then obtain e where e: "map_of m k = Some e" "\<not> better w' e" by blast
      then have "map_of ?m k = Some e"
        using \<open>k' = k\<close> by (simp add: keep_best_step_def kv)
      with IH have ev: "\<not> better e v" and "\<forall>w. (k, w) \<in> set kvs \<longrightarrow> \<not> better w v"
        and "(k, v) \<in> set kvs \<or> map_of m k = Some v"
        using e(1) by auto
      moreover have "\<not> better w' v"
        by (rule not_better_trans [OF e(2) ev])
      ultimately show ?thesis using \<open>k' = k\<close> e(1) by (auto simp: kv)
    next
      case False
      then have m: "map_of ?m k = Some w'"
        using \<open>k' = k\<close> by (auto simp: keep_best_step_def kv update_conv' split: option.split)
      have "\<not> better e v" if "map_of m k = Some e" for e
      proof -
        from False that have "better w' e" by blast
        with IH m asym not_better_trans show ?thesis by blast
      qed
      with IH m show ?thesis using \<open>k' = k\<close> by (auto simp: kv)
    qed
  qed
qed

lemma keep_best_none:
  "(map_of (keep_best better kvs m) k = None) = (k \<notin> fst ` set kvs \<and> map_of m k = None)"
proof (induction kvs arbitrary: m)
  case (Cons kv kvs)
  have "(map_of (keep_best_step better kv m) k = None) = (k \<noteq> fst kv \<and> map_of m k = None)"
    by (auto simp: keep_best_step_def update_conv' split: option.split)
  with Cons.IH show ?case by auto
qed simp

end

end
