(* ===== verification/Subscription_Status.thy ===== *)
theory Subscription_Status
  imports Rovenue_Prelude
begin

text \<open>
  \<^verbatim>\<open>packages/shared/src/subscription-status.ts\<close>: the statuses of a purchase, the table of
  what each one means, and the lists every consumer derives from that table.
\<close>

section \<open>Statuses and their meaning\<close>

datatype subscription_status =
  TRIAL | ACTIVE | EXPIRED | REFUNDED | REVOKED | PAUSED | GRACE_PERIOD | BILLING_ISSUE

definition SUBSCRIPTION_STATUSES :: "subscription_status list" where
  "SUBSCRIPTION_STATUSES =
     [TRIAL, ACTIVE, EXPIRED, REFUNDED, REVOKED, PAUSED, GRACE_PERIOD, BILLING_ISSUE]"

record status_semantics =
  grantsAccess :: bool
  isLive :: bool
  isTerminal :: bool
  sweepable :: bool
  reconcilable :: bool
  involuntary :: bool

fun SUBSCRIPTION_STATUS_SEMANTICS :: "subscription_status \<Rightarrow> status_semantics" where
  "SUBSCRIPTION_STATUS_SEMANTICS TRIAL =
     \<lparr>grantsAccess = True, isLive = True, isTerminal = False,
      sweepable = True, reconcilable = True, involuntary = False\<rparr>"
| "SUBSCRIPTION_STATUS_SEMANTICS ACTIVE =
     \<lparr>grantsAccess = True, isLive = True, isTerminal = False,
      sweepable = True, reconcilable = True, involuntary = False\<rparr>"
| "SUBSCRIPTION_STATUS_SEMANTICS GRACE_PERIOD =
     \<lparr>grantsAccess = True, isLive = True, isTerminal = False,
      sweepable = True, reconcilable = True, involuntary = True\<rparr>"
| "SUBSCRIPTION_STATUS_SEMANTICS PAUSED =
     \<lparr>grantsAccess = False, isLive = False, isTerminal = False,
      sweepable = True, reconcilable = True, involuntary = False\<rparr>"
| "SUBSCRIPTION_STATUS_SEMANTICS BILLING_ISSUE =
     \<lparr>grantsAccess = False, isLive = True, isTerminal = False,
      sweepable = False, reconcilable = True, involuntary = True\<rparr>"
| "SUBSCRIPTION_STATUS_SEMANTICS EXPIRED =
     \<lparr>grantsAccess = False, isLive = False, isTerminal = False,
      sweepable = False, reconcilable = False, involuntary = False\<rparr>"
| "SUBSCRIPTION_STATUS_SEMANTICS REFUNDED =
     \<lparr>grantsAccess = False, isLive = False, isTerminal = True,
      sweepable = False, reconcilable = False, involuntary = False\<rparr>"
| "SUBSCRIPTION_STATUS_SEMANTICS REVOKED =
     \<lparr>grantsAccess = False, isLive = False, isTerminal = True,
      sweepable = False, reconcilable = False, involuntary = False\<rparr>"

definition statusesWhere :: "(status_semantics \<Rightarrow> bool) \<Rightarrow> subscription_status list" where
  "statusesWhere predicate =
     filter (\<lambda>status. predicate (SUBSCRIPTION_STATUS_SEMANTICS status)) SUBSCRIPTION_STATUSES"

definition ACCESS_GRANTING_STATUSES :: "subscription_status list" where
  "ACCESS_GRANTING_STATUSES = statusesWhere grantsAccess"

definition LIVE_STATUSES :: "subscription_status list" where
  "LIVE_STATUSES = statusesWhere isLive"

definition EXPIRY_SWEEP_STATUSES :: "subscription_status list" where
  "EXPIRY_SWEEP_STATUSES = statusesWhere sweepable"

definition RECONCILABLE_STATUSES :: "subscription_status list" where
  "RECONCILABLE_STATUSES = statusesWhere reconcilable"

definition TERMINAL_STATUSES :: "subscription_status list" where
  "TERMINAL_STATUSES = statusesWhere isTerminal"

definition INVOLUNTARY_STATUSES :: "subscription_status list" where
  "INVOLUNTARY_STATUSES = statusesWhere involuntary"

definition BILLING_ISSUE_AGEING_STATUSES :: "subscription_status list" where
  "BILLING_ISSUE_AGEING_STATUSES = statusesWhere (\<lambda>s. involuntary s \<and> \<not> sweepable s)"

fun status_name :: "subscription_status \<Rightarrow> string" where
  "status_name TRIAL = ''TRIAL''"
| "status_name ACTIVE = ''ACTIVE''"
| "status_name EXPIRED = ''EXPIRED''"
| "status_name REFUNDED = ''REFUNDED''"
| "status_name REVOKED = ''REVOKED''"
| "status_name PAUSED = ''PAUSED''"
| "status_name GRACE_PERIOD = ''GRACE_PERIOD''"
| "status_name BILLING_ISSUE = ''BILLING_ISSUE''"

definition statusSqlList :: "subscription_status list \<Rightarrow> string" where
  "statusSqlList statuses =
     join_text '', '' (map (\<lambda>s. [CHR 0x27] @ status_name s @ [CHR 0x27]) statuses)"

definition APPLE_FAMILY_SHARED_OWNERSHIP_TYPE :: string where
  "APPLE_FAMILY_SHARED_OWNERSHIP_TYPE = ''FAMILY_SHARED''"

section \<open>Facts about the table\<close>

lemmas status_list_defs =
  statusesWhere_def ACCESS_GRANTING_STATUSES_def LIVE_STATUSES_def EXPIRY_SWEEP_STATUSES_def
  RECONCILABLE_STATUSES_def TERMINAL_STATUSES_def INVOLUNTARY_STATUSES_def
  BILLING_ISSUE_AGEING_STATUSES_def SUBSCRIPTION_STATUSES_def

lemma every_status_listed [simp]: "s \<in> set SUBSCRIPTION_STATUSES"
  by (cases s) (simp_all add: SUBSCRIPTION_STATUSES_def)

lemma mem_statusesWhere [simp]:
  "s \<in> set (statusesWhere P) \<longleftrightarrow> P (SUBSCRIPTION_STATUS_SEMANTICS s)"
  by (simp add: statusesWhere_def)

lemma mem_status_lists [status_simps]:
  "s \<in> set ACCESS_GRANTING_STATUSES \<longleftrightarrow> grantsAccess (SUBSCRIPTION_STATUS_SEMANTICS s)"
  "s \<in> set EXPIRY_SWEEP_STATUSES \<longleftrightarrow> sweepable (SUBSCRIPTION_STATUS_SEMANTICS s)"
  "s \<in> set TERMINAL_STATUSES \<longleftrightarrow> isTerminal (SUBSCRIPTION_STATUS_SEMANTICS s)"
  "s \<in> set BILLING_ISSUE_AGEING_STATUSES \<longleftrightarrow>
     involuntary (SUBSCRIPTION_STATUS_SEMANTICS s) \<and> \<not> sweepable (SUBSCRIPTION_STATUS_SEMANTICS s)"
  by (simp_all add: ACCESS_GRANTING_STATUSES_def EXPIRY_SWEEP_STATUSES_def
      TERMINAL_STATUSES_def BILLING_ISSUE_AGEING_STATUSES_def)

lemma status_lists_enumerated [status_simps]:
  "ACCESS_GRANTING_STATUSES = [TRIAL, ACTIVE, GRACE_PERIOD]"
  "EXPIRY_SWEEP_STATUSES = [TRIAL, ACTIVE, PAUSED, GRACE_PERIOD]"
  "TERMINAL_STATUSES = [REFUNDED, REVOKED]"
  "INVOLUNTARY_STATUSES = [GRACE_PERIOD, BILLING_ISSUE]"
  "BILLING_ISSUE_AGEING_STATUSES = [BILLING_ISSUE]"
  by (simp_all add: status_list_defs)

lemma grantsAccess_iff [status_simps]:
  "grantsAccess (SUBSCRIPTION_STATUS_SEMANTICS s) \<longleftrightarrow> s \<in> {TRIAL, ACTIVE, GRACE_PERIOD}"
  by (cases s) simp_all

lemma isTerminal_iff [status_simps]:
  "isTerminal (SUBSCRIPTION_STATUS_SEMANTICS s) \<longleftrightarrow> s \<in> {REFUNDED, REVOKED}"
  by (cases s) simp_all

lemma status_name_inject: "status_name s = status_name t \<longleftrightarrow> s = t"
  by (cases s; cases t) simp_all

end
