(* ===== verification/Subscription_State.thy ===== *)
theory Subscription_State
  imports Subscription_Status
begin

text \<open>
  \<^verbatim>\<open>apps/api/src/services/subscription-state.ts\<close>: the graph of allowed status transitions,
  the decision every ingestion path takes before it writes a status, and the column patch
  that records when a payment failure was detected.

  The locale \<open>absorbing_machine\<close> states what a client of the transition graph relies on
  (a terminal state has no way out); the guarded-run lemmas are proved there once and reach
  the program through its interpretation on \<open>validateTransition\<close>.
\<close>

section \<open>The transition graph\<close>

fun TRANSITIONS :: "subscription_status \<Rightarrow> subscription_status list" where
  "TRANSITIONS TRIAL = [TRIAL, ACTIVE, EXPIRED, REVOKED, REFUNDED, BILLING_ISSUE]"
| "TRANSITIONS ACTIVE =
     [ACTIVE, TRIAL, GRACE_PERIOD, EXPIRED, REFUNDED, REVOKED, PAUSED, BILLING_ISSUE]"
| "TRANSITIONS GRACE_PERIOD =
     [GRACE_PERIOD, ACTIVE, EXPIRED, REFUNDED, REVOKED, BILLING_ISSUE]"
| "TRANSITIONS BILLING_ISSUE = [BILLING_ISSUE, ACTIVE, EXPIRED, REFUNDED, REVOKED]"
| "TRANSITIONS PAUSED = [PAUSED, ACTIVE, EXPIRED, REVOKED]"
| "TRANSITIONS EXPIRED = [EXPIRED, ACTIVE, TRIAL]"
| "TRANSITIONS REFUNDED = [REFUNDED]"
| "TRANSITIONS REVOKED = [REVOKED]"

definition validateTransition :: "subscription_status \<Rightarrow> subscription_status \<Rightarrow> bool" where
  "validateTransition from to = (to \<in> set (TRANSITIONS from))"

definition allowedTransitions :: "subscription_status \<Rightarrow> subscription_status set" where
  "allowedTransitions from = set (TRANSITIONS from)"

record transition_decision =
  td_apply :: bool
  td_from :: "subscription_status option"
  td_to :: subscription_status

definition decideTransition ::
  "subscription_status option \<Rightarrow> subscription_status \<Rightarrow> transition_decision" where
  "decideTransition from to =
     (case from of
        None \<Rightarrow> \<lparr>td_apply = True, td_from = from, td_to = to\<rparr>
      | Some f \<Rightarrow> \<lparr>td_apply = validateTransition f to, td_from = from, td_to = to\<rparr>)"

text \<open>
  The patch object of the source either has the key \<^verbatim>\<open>billingIssueDetectedAt\<close> or
  not, and the value of the key may be null: \<open>None\<close> is the empty object,
  \<open>Some None\<close> the explicit null.
\<close>

definition billingIssueStamp ::
  "subscription_status option \<Rightarrow> subscription_status \<Rightarrow> timestamp \<Rightarrow> timestamp option option" where
  "billingIssueStamp from to now =
     (if to = BILLING_ISSUE
      then (if from = Some BILLING_ISSUE then None else Some (Some now))
      else if from = Some BILLING_ISSUE \<and> grantsAccess (SUBSCRIPTION_STATUS_SEMANTICS to)
      then Some None
      else None)"

section \<open>Guarded runs over an absorbing machine\<close>

definition machine_write :: "('s \<Rightarrow> 's \<Rightarrow> bool) \<Rightarrow> 's \<Rightarrow> 's \<Rightarrow> 's" where
  "machine_write allowed cur to = (if allowed cur to then to else cur)"

definition machine_run :: "('s \<Rightarrow> 's \<Rightarrow> bool) \<Rightarrow> 's \<Rightarrow> 's list \<Rightarrow> 's" where
  "machine_run allowed cur tos = foldl (machine_write allowed) cur tos"

locale absorbing_machine =
  fixes allowed :: "'s \<Rightarrow> 's \<Rightarrow> bool" and terminal :: "'s \<Rightarrow> bool"
  assumes absorb: "terminal s \<Longrightarrow> allowed s t \<Longrightarrow> t = s"
begin

lemma write_terminal: "terminal s \<Longrightarrow> machine_write allowed s t = s"
  using absorb by (auto simp: machine_write_def)

lemma run_terminal: "terminal s \<Longrightarrow> machine_run allowed s ts = s"
  by (induction ts) (auto simp: machine_run_def write_terminal)

lemma run_append: "machine_run allowed s (ts @ us) = machine_run allowed (machine_run allowed s ts) us"
  by (simp add: machine_run_def)

lemma run_keeps_terminal:
  "terminal (machine_run allowed s ts) \<Longrightarrow> machine_run allowed s (ts @ us) = machine_run allowed s ts"
  by (simp add: run_append run_terminal)

end

lemma validateTransition_refl [simp]: "validateTransition s s"
  by (cases s) (simp_all add: validateTransition_def)

lemma validateTransition_terminal:
  "isTerminal (SUBSCRIPTION_STATUS_SEMANTICS s) \<Longrightarrow> validateTransition s t \<Longrightarrow> t = s"
  by (cases s) (simp_all add: validateTransition_def)

interpretation sm: absorbing_machine validateTransition
  "\<lambda>s. isTerminal (SUBSCRIPTION_STATUS_SEMANTICS s)"
  by unfold_locales (rule validateTransition_terminal)

lemma no_direct_entry_into_grace_but_active:
  "validateTransition s GRACE_PERIOD \<Longrightarrow> s \<in> {ACTIVE, GRACE_PERIOD}"
  by (cases s) (simp_all add: validateTransition_def)

lemma decideTransition_simps [simp]:
  "td_apply (decideTransition None to)"
  "td_apply (decideTransition (Some f) to) = validateTransition f to"
  "td_from (decideTransition from to) = from"
  "td_to (decideTransition from to) = to"
  by (simp_all add: decideTransition_def split: option.split)

section \<open>Reachability in the graph\<close>

inductive status_step :: "subscription_status \<Rightarrow> subscription_status \<Rightarrow> bool" where
  edge: "validateTransition s t \<Longrightarrow> status_step s t"

inductive_cases status_stepE: "status_step s t"
inductive_simps status_step_iff: "status_step s t"

lemma status_steps_terminal:
  "status_step\<^sup>*\<^sup>* s t \<Longrightarrow> isTerminal (SUBSCRIPTION_STATUS_SEMANTICS s) \<Longrightarrow> t = s"
  by (induction rule: rtranclp_induct) (auto elim!: status_stepE dest: validateTransition_terminal)

lemma status_step_active:
  "\<not> isTerminal (SUBSCRIPTION_STATUS_SEMANTICS s) \<Longrightarrow> status_step s ACTIVE"
  by (cases s) (simp_all add: status_step_iff validateTransition_def)

lemma status_steps_from_active: "status_step\<^sup>*\<^sup>* ACTIVE t"
  by (cases t) (auto simp: status_step_iff validateTransition_def intro!: r_into_rtranclp)

section \<open>The stamp along a run\<close>

text \<open>
  One status write as every ingestion path performs it: the decision, then the status and
  the stamp patch together.
\<close>

record stamped =
  sp_status :: "subscription_status option"
  sp_stamp :: "timestamp option"

definition stamped_write :: "stamped \<Rightarrow> subscription_status \<times> timestamp \<Rightarrow> stamped" where
  "stamped_write st w =
     (if td_apply (decideTransition (sp_status st) (fst w))
      then \<lparr>sp_status = Some (fst w),
            sp_stamp = (case billingIssueStamp (sp_status st) (fst w) (snd w) of
                          None \<Rightarrow> sp_stamp st | Some v \<Rightarrow> v)\<rparr>
      else st)"

definition stamped_run :: "(subscription_status \<times> timestamp) list \<Rightarrow> stamped" where
  "stamped_run ws = foldl stamped_write \<lparr>sp_status = None, sp_stamp = None\<rparr> ws"

text \<open>The time of the write that opened the payment-failure episode a run is in, if it is in one.\<close>

fun episode_start :: "subscription_status option \<Rightarrow> timestamp option \<Rightarrow>
    (subscription_status \<times> timestamp) list \<Rightarrow> timestamp option" where
  "episode_start cur start [] = (if cur = Some BILLING_ISSUE then start else None)"
| "episode_start cur start ((to, now) # ws) =
     (if td_apply (decideTransition cur to)
      then episode_start (Some to) (if cur = Some BILLING_ISSUE then start else Some now) ws
      else episode_start cur start ws)"

lemma stamped_run_episode:
  assumes "sp_status st = Some BILLING_ISSUE \<Longrightarrow> sp_stamp st = start"
    and "sp_status (foldl stamped_write st ws) = Some BILLING_ISSUE"
  shows "sp_stamp (foldl stamped_write st ws) = episode_start (sp_status st) start ws"
  using assms
proof (induction ws arbitrary: st start)
  case Nil
  then show ?case by simp
next
  case (Cons w ws)
  obtain to now where w: "w = (to, now)" by (cases w)
  show ?case
  proof (cases "td_apply (decideTransition (sp_status st) to)")
    case False
    then have "stamped_write st w = st" by (simp add: stamped_write_def w)
    with Cons.prems False show ?thesis using Cons.IH [of st start] by (simp add: w)
  next
    case True
    let ?st = "stamped_write st w"
    let ?start = "if sp_status st = Some BILLING_ISSUE then start else Some now"
    have status: "sp_status ?st = Some to" using True by (simp add: stamped_write_def w)
    have stamp: "sp_stamp ?st = ?start" if "to = BILLING_ISSUE"
      using True that Cons.prems(1) by (auto simp: stamped_write_def w billingIssueStamp_def)
    have "sp_stamp (foldl stamped_write ?st ws) = episode_start (sp_status ?st) ?start ws"
      using stamp status Cons.prems(2) by (intro Cons.IH) auto
    with True status show ?thesis by (simp add: w)
  qed
qed

text \<open>A lapse keeps the stamp, a recovery out of the failure clears it.\<close>

lemma stamped_write_lapse:
  "sp_status st = Some BILLING_ISSUE \<Longrightarrow> sp_stamp (stamped_write st (EXPIRED, now)) = sp_stamp st"
  by (simp add: stamped_write_def billingIssueStamp_def status_simps)

lemma stamped_write_recovery:
  "sp_status st = Some BILLING_ISSUE \<Longrightarrow> stamped_write st (ACTIVE, now) = \<lparr>sp_status = Some ACTIVE, sp_stamp = None\<rparr>"
  by (simp add: stamped_write_def billingIssueStamp_def validateTransition_def status_simps)

section \<open>Properties\<close>

lemma stamped_write_terminal:
  assumes "sp_status st = Some s" and "isTerminal (SUBSCRIPTION_STATUS_SEMANTICS s)"
  shows "stamped_write st w = st"
proof (cases "validateTransition s (fst w)")
  case True
  then have "fst w = s" using validateTransition_terminal assms(2) by blast
  with assms show ?thesis
    by (auto simp: stamped_write_def billingIssueStamp_def status_simps)
next
  case False
  with assms(1) show ?thesis by (simp add: stamped_write_def)
qed

text \<open>
  The transition graph has exactly the terminal statuses as dead ends: a status is reachable
  from another by allowed transitions unless the first is refunded or revoked, and from those
  only itself is.
\<close>

lemma status_reachable_iff:
  "status_step\<^sup>*\<^sup>* s t \<longleftrightarrow> s = t \<or> \<not> isTerminal (SUBSCRIPTION_STATUS_SEMANTICS s)"
proof
  assume "status_step\<^sup>*\<^sup>* s t"
  then show "s = t \<or> \<not> isTerminal (SUBSCRIPTION_STATUS_SEMANTICS s)" using status_steps_terminal by blast
next
  assume "s = t \<or> \<not> isTerminal (SUBSCRIPTION_STATUS_SEMANTICS s)"
  then show "status_step\<^sup>*\<^sup>* s t"
    using status_step_active status_steps_from_active by (metis converse_rtranclp_into_rtranclp rtranclp.rtrancl_refl)
qed

text \<open>
  Once the decided writes of a purchase have reached a refund or a revocation, no later
  sequence of store events moves its status or its payment-failure stamp.
\<close>

lemma stamped_run_terminal:
  assumes "sp_status (stamped_run ws) = Some s" and "isTerminal (SUBSCRIPTION_STATUS_SEMANTICS s)"
  shows "stamped_run (ws @ us) = stamped_run ws"
proof -
  have "foldl stamped_write st us = st" if "sp_status st = Some s" for st
    using that by (induction us) (simp_all add: stamped_write_terminal [OF _ assms(2)])
  with assms(1) show ?thesis by (simp add: stamped_run_def)
qed

text \<open>
  The payment-failure stamp dates the episode: while a purchase is in BILLING_ISSUE its stamp
  is the time of the write that entered the current episode, however often the store repeats
  the signal and whatever was refused in between.
\<close>

lemma stamped_run_dates_episode:
  assumes "sp_status (stamped_run ws) = Some BILLING_ISSUE"
  shows "sp_stamp (stamped_run ws) = episode_start None None ws"
  using stamped_run_episode [of "\<lparr>sp_status = None, sp_stamp = None\<rparr>" None ws] assms
  by (simp add: stamped_run_def)

end
