(* ===== verification/Purchase_Store.thy ===== *)
theory Purchase_Store
  imports Subscription_State
begin

text \<open>
  \<^verbatim>\<open>packages/db/src/drizzle/repositories/purchases.ts\<close> and the sweep queries of
  \<^verbatim>\<open>purchases-ext.ts\<close>: the purchases table and every write the ingestion paths and the
  workers issue against it.

  The table is a list of rows in the order the database would return them when the statement
  has no ORDER BY; nothing proved here depends on that order. The columns kept are the ones
  the modelled operations read or write. An update patch is a record of options:
  \<open>None\<close> is a key the caller did not pass (or passed as undefined).
\<close>

section \<open>Rows and patches\<close>

datatype store = APP_STORE | PLAY_STORE | STRIPE | MANUAL

text \<open>The direction of an announced plan change (\<^verbatim>\<open>subscription-status.ts\<close>).\<close>

datatype plan_change_type = UPGRADE | DOWNGRADE

record purchase =
  pu_id :: row_id
  pu_projectId :: string
  pu_subscriberId :: string
  pu_productId :: string
  pu_store :: store
  pu_storeTransactionId :: string
  pu_originalTransactionId :: string
  pu_status :: subscription_status
  pu_expiresDate :: "timestamp option"
  pu_gracePeriodExpires :: "timestamp option"
  pu_autoRenewStatus :: "bool option"
  pu_cancellationDate :: "timestamp option"
  pu_refundDate :: "timestamp option"
  pu_lastStoreEventAt :: "timestamp option"
  pu_billingIssueDetectedAt :: "timestamp option"
  pu_googlePurchaseToken :: "string option"
  pu_priceCurrency :: "string option"
  pu_ownershipType :: "string option"
  pu_priceAmount :: "string option"
  pu_pendingProductId :: "string option"
  pu_pendingChangeType :: "plan_change_type option"
  pu_pendingChangeEffectiveAt :: "timestamp option"
  pu_purchaseDate :: timestamp
  pu_createdAt :: timestamp

record purchase_patch =
  pp_status :: "subscription_status option"
  pp_productId :: "string option"
  pp_expiresDate :: "timestamp option option"
  pp_gracePeriodExpires :: "timestamp option option"
  pp_autoRenewStatus :: "bool option option"
  pp_cancellationDate :: "timestamp option option"
  pp_refundDate :: "timestamp option option"
  pp_lastStoreEventAt :: "timestamp option option"
  pp_billingIssueDetectedAt :: "timestamp option option"
  pp_priceAmount :: "string option option"
  pp_priceCurrency :: "string option option"
  pp_pendingProductId :: "string option option"
  pp_pendingChangeType :: "plan_change_type option option"
  pp_pendingChangeEffectiveAt :: "timestamp option option"

definition empty_patch :: purchase_patch where
  "empty_patch = \<lparr>pp_status = None, pp_productId = None, pp_expiresDate = None,
     pp_gracePeriodExpires = None, pp_autoRenewStatus = None, pp_cancellationDate = None,
     pp_refundDate = None, pp_lastStoreEventAt = None, pp_billingIssueDetectedAt = None,
     pp_priceAmount = None, pp_priceCurrency = None, pp_pendingProductId = None, pp_pendingChangeType = None,
     pp_pendingChangeEffectiveAt = None\<rparr>"

definition apply_patch :: "purchase_patch \<Rightarrow> purchase \<Rightarrow> purchase" where
  "apply_patch p r = r\<lparr>
     pu_status := patched (pp_status p) (pu_status r),
     pu_productId := patched (pp_productId p) (pu_productId r),
     pu_expiresDate := patched (pp_expiresDate p) (pu_expiresDate r),
     pu_gracePeriodExpires := patched (pp_gracePeriodExpires p) (pu_gracePeriodExpires r),
     pu_autoRenewStatus := patched (pp_autoRenewStatus p) (pu_autoRenewStatus r),
     pu_cancellationDate := patched (pp_cancellationDate p) (pu_cancellationDate r),
     pu_refundDate := patched (pp_refundDate p) (pu_refundDate r),
     pu_lastStoreEventAt := patched (pp_lastStoreEventAt p) (pu_lastStoreEventAt r),
     pu_billingIssueDetectedAt :=
       patched (pp_billingIssueDetectedAt p) (pu_billingIssueDetectedAt r),
     pu_priceAmount := patched (pp_priceAmount p) (pu_priceAmount r),
     pu_priceCurrency := patched (pp_priceCurrency p) (pu_priceCurrency r),
     pu_pendingProductId := patched (pp_pendingProductId p) (pu_pendingProductId r),
     pu_pendingChangeType := patched (pp_pendingChangeType p) (pu_pendingChangeType r),
     pu_pendingChangeEffectiveAt := patched (pp_pendingChangeEffectiveAt p) (pu_pendingChangeEffectiveAt r)\<rparr>"

record purchase_db =
  pd_rows :: "purchase list"
  pd_next :: row_id

definition REPO_TERMINAL_STATUSES :: "subscription_status list" where
  "REPO_TERMINAL_STATUSES = [REFUNDED, REVOKED]"

section \<open>Writes\<close>

text \<open>
  The set clause \<^verbatim>\<open>CASE WHEN status IN ('REFUNDED', 'REVOKED') THEN status ELSE new END\<close>
  is evaluated against the row being updated.
\<close>

definition set_clause :: "bool \<Rightarrow> purchase_patch \<Rightarrow> purchase \<Rightarrow> purchase" where
  "set_clause guardTerminalStatus p r =
     (if guardTerminalStatus \<and> pp_status p \<noteq> None \<and> pu_status r \<in> set REPO_TERMINAL_STATUSES
      then apply_patch (p\<lparr>pp_status := Some (pu_status r)\<rparr>) r
      else apply_patch p r)"

definition natural_key :: "store \<Rightarrow> string \<Rightarrow> purchase \<Rightarrow> bool" where
  "natural_key st txn r = (pu_store r = st \<and> pu_storeTransactionId r = txn)"

definition chain_match :: "string \<Rightarrow> string \<Rightarrow> purchase \<Rightarrow> bool" where
  "chain_match projectId originalTransactionId r =
     (pu_projectId r = projectId \<and> pu_originalTransactionId r = originalTransactionId)"

definition update_where :: "(purchase \<Rightarrow> bool) \<Rightarrow> (purchase \<Rightarrow> purchase) \<Rightarrow> purchase_db \<Rightarrow> purchase_db" where
  "update_where P f db = db\<lparr>pd_rows := map (\<lambda>r. if P r then f r else r) (pd_rows db)\<rparr>"

definition upsertPurchase ::
  "purchase_db \<Rightarrow> purchase \<Rightarrow> purchase_patch \<Rightarrow> bool \<Rightarrow> purchase \<times> purchase_db" where
  "upsertPurchase db create update guardTerminalStatus =
     (let key = natural_key (pu_store create) (pu_storeTransactionId create) in
      case find key (pd_rows db) of
        None \<Rightarrow>
          (let row = create\<lparr>pu_id := pd_next db\<rparr>
           in (row, \<lparr>pd_rows = pd_rows db @ [row], pd_next = Suc (pd_next db)\<rparr>))
      | Some old \<Rightarrow>
          (set_clause guardTerminalStatus update old,
           update_where key (set_clause guardTerminalStatus update) db))"

definition findPurchaseByStoreTransaction :: "purchase_db \<Rightarrow> store \<Rightarrow> string \<Rightarrow> purchase option" where
  "findPurchaseByStoreTransaction db st txn = find (natural_key st txn) (pd_rows db)"

definition lockPurchaseStatusByStoreTransaction ::
  "purchase_db \<Rightarrow> store \<Rightarrow> string \<Rightarrow> purchase option" where
  "lockPurchaseStatusByStoreTransaction db st txn = find (natural_key st txn) (pd_rows db)"

definition updatePurchase ::
  "purchase_db \<Rightarrow> row_id \<Rightarrow> purchase_patch \<Rightarrow> bool \<Rightarrow> purchase option \<times> purchase_db" where
  "updatePurchase db rid patch guardTerminalStatus =
     (if patch = empty_patch then (None, db)
      else (map_option (set_clause guardTerminalStatus patch)
              (find (\<lambda>r. pu_id r = rid) (pd_rows db)),
            update_where (\<lambda>r. pu_id r = rid) (set_clause guardTerminalStatus patch) db))"

text \<open>
  \<^verbatim>\<open>ORDER BY createdAt DESC, purchaseDate DESC, id DESC LIMIT 1\<close> over the chain of one store
  (or of all stores).
\<close>

definition newer_purchase :: "purchase \<Rightarrow> purchase \<Rightarrow> bool" where
  "newer_purchase a b =
     (pu_createdAt b < pu_createdAt a
      \<or> (pu_createdAt b = pu_createdAt a
          \<and> (pu_purchaseDate b < pu_purchaseDate a
              \<or> (pu_purchaseDate b = pu_purchaseDate a \<and> pu_id b < pu_id a))))"

definition newest_step :: "purchase \<Rightarrow> purchase option \<Rightarrow> purchase option" where
  "newest_step r best = (case best of None \<Rightarrow> Some r | Some b \<Rightarrow> if newer_purchase r b then Some r else best)"

definition findPurchaseByOriginalTransaction ::
  "purchase_db \<Rightarrow> string \<Rightarrow> string \<Rightarrow> store option \<Rightarrow> purchase option" where
  "findPurchaseByOriginalTransaction db projectId otxn st =
     fold newest_step
       (filter (\<lambda>r. chain_match projectId otxn r \<and> (case st of None \<Rightarrow> True | Some s \<Rightarrow> pu_store r = s))
          (pd_rows db)) None"

definition findProjectPurchaseByStoreTransaction ::
  "purchase_db \<Rightarrow> string \<Rightarrow> store \<Rightarrow> string \<Rightarrow> purchase option" where
  "findProjectPurchaseByStoreTransaction db projectId st txn =
     find (\<lambda>r. pu_projectId r = projectId \<and> natural_key st txn r) (pd_rows db)"

definition listPurchasesByOriginalTransaction :: "purchase_db \<Rightarrow> string \<Rightarrow> string \<Rightarrow> purchase list" where
  "listPurchasesByOriginalTransaction db projectId otxn = filter (chain_match projectId otxn) (pd_rows db)"

definition updatePurchasesByOriginalTransaction ::
  "purchase_db \<Rightarrow> string \<Rightarrow> string \<Rightarrow> purchase_patch \<Rightarrow> purchase_db" where
  "updatePurchasesByOriginalTransaction db projectId otxn patch =
     (if patch = empty_patch then db
      else update_where (chain_match projectId otxn) (apply_patch patch) db)"

definition findSubscriberIdsByOriginalTransaction :: "purchase_db \<Rightarrow> string \<Rightarrow> string \<Rightarrow> string list" where
  "findSubscriberIdsByOriginalTransaction db projectId otxn =
     remdups (map pu_subscriberId (filter (chain_match projectId otxn) (pd_rows db)))"

record guarded_chain_update =
  gc_updatedIds :: "row_id list"
  gc_skippedTerminalIds :: "row_id list"

text \<open>
  The skipped rows are selected by a second statement, which sees the table as the first
  statement left it.
\<close>

definition updateChainStatusGuarded ::
  "purchase_db \<Rightarrow> string \<Rightarrow> string \<Rightarrow> purchase_patch \<Rightarrow> guarded_chain_update \<times> purchase_db" where
  "updateChainStatusGuarded db projectId otxn patch =
     (if patch = empty_patch then (\<lparr>gc_updatedIds = [], gc_skippedTerminalIds = []\<rparr>, db)
      else
        let guardsStatus = (pp_status patch \<noteq> None);
            chain = chain_match projectId otxn;
            hit = (if guardsStatus
                   then (\<lambda>r. chain r \<and> pu_status r \<notin> set REPO_TERMINAL_STATUSES)
                   else chain);
            updatedIds = map pu_id (filter hit (pd_rows db));
            db' = update_where hit (apply_patch patch) db
        in if \<not> guardsStatus
           then (\<lparr>gc_updatedIds = updatedIds, gc_skippedTerminalIds = []\<rparr>, db')
           else (\<lparr>gc_updatedIds = updatedIds,
                  gc_skippedTerminalIds =
                    map pu_id (filter (\<lambda>r. chain r \<and> pu_status r \<in> set REPO_TERMINAL_STATUSES)
                                 (pd_rows db'))\<rparr>, db'))"

definition updatePurchaseByStoreTransaction ::
  "purchase_db \<Rightarrow> store \<Rightarrow> string \<Rightarrow> purchase_patch \<Rightarrow> purchase_db" where
  "updatePurchaseByStoreTransaction db st txn patch =
     (if patch = empty_patch then db else update_where (natural_key st txn) (apply_patch patch) db)"

definition updatePurchaseStatusIf ::
  "purchase_db \<Rightarrow> row_id \<Rightarrow> subscription_status \<Rightarrow> subscription_status \<Rightarrow> nat \<times> purchase_db" where
  "updatePurchaseStatusIf db rid expectedStatus newStatus =
     (let hit = (\<lambda>r. pu_id r = rid \<and> pu_status r = expectedStatus)
      in (length (filter hit (pd_rows db)),
          update_where hit (\<lambda>r. r\<lparr>pu_status := newStatus\<rparr>) db))"

definition findActiveStripeSubscriptionIds :: "purchase_db \<Rightarrow> string \<Rightarrow> string list" where
  "findActiveStripeSubscriptionIds db subscriberId =
     remdups (map pu_storeTransactionId
       (filter (\<lambda>r. pu_subscriberId r = subscriberId \<and> pu_store r = STRIPE
                  \<and> pu_status r \<in> {ACTIVE, TRIAL, GRACE_PERIOD, BILLING_ISSUE}
                  \<and> take 3 (pu_storeTransactionId r) = ''sub'' \<and> 4 \<le> length (pu_storeTransactionId r))
          (pd_rows db)))"

text \<open>
  Stamping a Google purchase token: every refusal is a predicate of the statement itself.
  \<open>erased\<close> is the set of subscribers whose \<^verbatim>\<open>deletedAt\<close> is set; \<open>btrim\<close> removes
  spaces from both ends.
\<close>

definition btrim :: "string \<Rightarrow> string" where
  "btrim s = rev (dropWhile (\<lambda>c. c = CHR '' '') (rev (dropWhile (\<lambda>c. c = CHR '' '') s)))"

definition enrichGooglePurchaseTokens ::
  "purchase_db \<Rightarrow> (string \<Rightarrow> bool) \<Rightarrow> string \<Rightarrow> row_id list \<Rightarrow> string \<Rightarrow>
     (row_id \<times> string) list \<times> purchase_db" where
  "enrichGooglePurchaseTokens db erased projectId purchaseIds token =
     (if purchaseIds = [] then ([], db)
      else
        let hit = (\<lambda>r. pu_projectId r = projectId \<and> pu_id r \<in> set purchaseIds
                     \<and> pu_store r = PLAY_STORE
                     \<and> (case pu_googlePurchaseToken r of
                          None \<Rightarrow> True | Some t \<Rightarrow> btrim t = [] \<or> t = token)
                     \<and> \<not> erased (pu_subscriberId r))
        in (map (\<lambda>r. (pu_id r, pu_storeTransactionId r)) (filter hit (pd_rows db)),
            update_where hit (\<lambda>r. r\<lparr>pu_googlePurchaseToken := Some token\<rparr>) db))"

section \<open>Sweep queries\<close>

definition date_key :: "timestamp option \<Rightarrow> timestamp" where
  "date_key d = (case d of None \<Rightarrow> 0 | Some t \<Rightarrow> t)"

definition overdue :: "timestamp \<Rightarrow> subscription_status list \<Rightarrow> purchase \<Rightarrow> bool" where
  "overdue now statuses r =
     (pu_status r \<in> set statuses
      \<and> (case pu_expiresDate r of None \<Rightarrow> False | Some e \<Rightarrow> e \<le> now)
      \<and> (pu_status r \<noteq> GRACE_PERIOD
         \<or> (case pu_gracePeriodExpires r of None \<Rightarrow> True | Some g \<Rightarrow> g \<le> now)))"

definition findOverduePurchases ::
  "purchase_db \<Rightarrow> timestamp \<Rightarrow> subscription_status list \<Rightarrow> nat \<Rightarrow> purchase list" where
  "findOverduePurchases db now statuses limit =
     take limit (sort_key (\<lambda>r. date_key (pu_expiresDate r)) (filter (overdue now statuses) (pd_rows db)))"

definition aged_billing_issue :: "timestamp \<Rightarrow> purchase \<Rightarrow> bool" where
  "aged_billing_issue cutoff r =
     (pu_status r = BILLING_ISSUE
      \<and> (case pu_billingIssueDetectedAt r of None \<Rightarrow> False | Some t \<Rightarrow> t < cutoff))"

definition findAgedBillingIssuePurchases :: "purchase_db \<Rightarrow> timestamp \<Rightarrow> nat \<Rightarrow> purchase list" where
  "findAgedBillingIssuePurchases db cutoff limit =
     take limit (sort_key (\<lambda>r. date_key (pu_billingIssueDetectedAt r))
                   (filter (aged_billing_issue cutoff) (pd_rows db)))"

definition covers_later :: "purchase \<Rightarrow> purchase \<Rightarrow> bool" where
  "covers_later later lapsed =
     (pu_projectId later = pu_projectId lapsed \<and> pu_store later = pu_store lapsed
      \<and> pu_originalTransactionId later = pu_originalTransactionId lapsed
      \<and> pu_id later \<noteq> pu_id lapsed
      \<and> (case (pu_expiresDate lapsed, pu_expiresDate later) of
           (Some a, Some b) \<Rightarrow> a < b | _ \<Rightarrow> False))"

definition findSupersededPurchaseIds :: "purchase_db \<Rightarrow> row_id list \<Rightarrow> row_id list" where
  "findSupersededPurchaseIds db ids =
     (if ids = [] then []
      else map pu_id (filter (\<lambda>lapsed. pu_id lapsed \<in> set ids
                                \<and> list_ex (\<lambda>later. covers_later later lapsed) (pd_rows db))
                        (pd_rows db)))"

text \<open>A subscription row and a one-row table, the inputs of the examples below.\<close>

definition sample_purchase :: "subscription_status \<Rightarrow> timestamp \<Rightarrow> purchase" where
  "sample_purchase status expires =
     \<lparr>pu_id = 0, pu_projectId = ''prj'', pu_subscriberId = ''sub'', pu_productId = ''prod'',
      pu_store = APP_STORE, pu_storeTransactionId = ''t1'', pu_originalTransactionId = ''o1'',
      pu_status = status, pu_expiresDate = Some expires, pu_gracePeriodExpires = None,
      pu_autoRenewStatus = Some True, pu_cancellationDate = None, pu_refundDate = None,
      pu_lastStoreEventAt = Some 100, pu_billingIssueDetectedAt = None,
      pu_googlePurchaseToken = None, pu_priceCurrency = Some ''USD'', pu_ownershipType = None,
      pu_priceAmount = Some ''9.99'', pu_pendingProductId = None, pu_pendingChangeType = None,
      pu_pendingChangeEffectiveAt = None, pu_purchaseDate = 50, pu_createdAt = 60\<rparr>"

definition sample_table :: "subscription_status \<Rightarrow> timestamp \<Rightarrow> purchase_db" where
  "sample_table status expires = \<lparr>pd_rows = [sample_purchase status expires], pd_next = 1\<rparr>"

section \<open>The table invariant\<close>

text \<open>
  The primary key and the unique index on (store, storeTransactionId), with fresh keys drawn
  above every key in use.
\<close>

definition purchase_db_ok :: "purchase_db \<Rightarrow> bool" where
  "purchase_db_ok db =
     (distinct (map pu_id (pd_rows db))
      \<and> distinct (map (\<lambda>r. (pu_store r, pu_storeTransactionId r)) (pd_rows db))
      \<and> (\<forall>r \<in> set (pd_rows db). pu_id r < pd_next db))"

lemma apply_patch_key [row_simps, simp]:
  "pu_id (apply_patch p r) = pu_id r"
  "pu_store (apply_patch p r) = pu_store r"
  "pu_storeTransactionId (apply_patch p r) = pu_storeTransactionId r"
  "pu_projectId (apply_patch p r) = pu_projectId r"
  "pu_originalTransactionId (apply_patch p r) = pu_originalTransactionId r"
  "pu_subscriberId (apply_patch p r) = pu_subscriberId r"
  "pu_status (apply_patch p r) = patched (pp_status p) (pu_status r)"
  by (simp_all add: apply_patch_def)

lemma set_clause_key [row_simps, simp]:
  "pu_id (set_clause g p r) = pu_id r"
  "pu_store (set_clause g p r) = pu_store r"
  "pu_storeTransactionId (set_clause g p r) = pu_storeTransactionId r"
  "pu_projectId (set_clause g p r) = pu_projectId r"
  "pu_originalTransactionId (set_clause g p r) = pu_originalTransactionId r"
  by (simp_all add: set_clause_def)

lemma set_clause_terminal:
  "pu_status r \<in> {REFUNDED, REVOKED} \<Longrightarrow> pu_status (set_clause True p r) = pu_status r"
  by (auto simp: set_clause_def REPO_TERMINAL_STATUSES_def patched_def)

lemma update_where_keys:
  assumes "\<And>r. pu_id (f r) = pu_id r" and "\<And>r. pu_store (f r) = pu_store r"
    and "\<And>r. pu_storeTransactionId (f r) = pu_storeTransactionId r"
  shows "map pu_id (pd_rows (update_where P f db)) = map pu_id (pd_rows db)"
    and "map (\<lambda>r. (pu_store r, pu_storeTransactionId r)) (pd_rows (update_where P f db))
       = map (\<lambda>r. (pu_store r, pu_storeTransactionId r)) (pd_rows db)"
    and "pd_next (update_where P f db) = pd_next db"
  using assms by (simp_all add: update_where_def)

lemma update_where_ok:
  assumes "\<And>r. pu_id (f r) = pu_id r" and "\<And>r. pu_store (f r) = pu_store r"
    and "\<And>r. pu_storeTransactionId (f r) = pu_storeTransactionId r"
    and "purchase_db_ok db"
  shows "purchase_db_ok (update_where P f db)"
proof -
  note keys = update_where_keys [of f P db, OF assms(1-3)]
  have "set (map pu_id (pd_rows (update_where P f db))) = set (map pu_id (pd_rows db))"
    by (simp only: keys(1))
  moreover have "\<forall>i \<in> set (map pu_id (pd_rows db)). i < pd_next db"
    using assms(4) by (auto simp: purchase_db_ok_def)
  ultimately have "\<forall>i \<in> set (map pu_id (pd_rows (update_where P f db))). i < pd_next db"
    by (simp only:)
  then have "\<forall>r \<in> set (pd_rows (update_where P f db)). pu_id r < pd_next db"
    by simp
  with keys assms(4) show ?thesis by (simp add: purchase_db_ok_def)
qed

lemma natural_key_absent:
  "find (natural_key st txn) rs = None \<Longrightarrow>
     (st, txn) \<notin> set (map (\<lambda>r. (pu_store r, pu_storeTransactionId r)) rs)"
  by (auto simp: natural_key_def find_None_iff_all)

lemma upsertPurchase_ok:
  assumes "purchase_db_ok db"
  shows "purchase_db_ok (snd (upsertPurchase db create update g))"
proof (cases "find (natural_key (pu_store create) (pu_storeTransactionId create)) (pd_rows db)")
  case None
  with assms natural_key_absent [OF None] show ?thesis
    by (auto simp: upsertPurchase_def purchase_db_ok_def Let_def less_Suc_eq)
next
  case (Some old)
  with assms show ?thesis by (auto simp: upsertPurchase_def Let_def intro!: update_where_ok)
qed

lemma updatePurchase_ok: "purchase_db_ok db \<Longrightarrow> purchase_db_ok (snd (updatePurchase db i p g))"
  by (auto simp: updatePurchase_def intro!: update_where_ok)

lemma updatePurchaseStatusIf_ok:
  "purchase_db_ok db \<Longrightarrow> purchase_db_ok (snd (updatePurchaseStatusIf db i a b))"
  by (auto simp: updatePurchaseStatusIf_def Let_def intro!: update_where_ok)

lemma updateChainStatusGuarded_ok:
  "purchase_db_ok db \<Longrightarrow> purchase_db_ok (snd (updateChainStatusGuarded db pr ot p))"
  by (auto simp: updateChainStatusGuarded_def Let_def intro!: update_where_ok)

section \<open>Terminal rows survive every guarded write\<close>

definition row_status :: "purchase_db \<Rightarrow> row_id \<Rightarrow> subscription_status option" where
  "row_status db rid = map_option pu_status (find (\<lambda>r. pu_id r = rid) (pd_rows db))"

lemma row_status_update_where:
  assumes "\<And>r. pu_id (f r) = pu_id r"
  shows "row_status (update_where P f db) rid =
    map_option (\<lambda>r. pu_status (if P r then f r else r)) (find (\<lambda>r. pu_id r = rid) (pd_rows db))"
proof -
  have "find (\<lambda>r. pu_id r = rid) (map (\<lambda>r. if P r then f r else r) (pd_rows db))
    = map_option (\<lambda>r. if P r then f r else r) (find (\<lambda>r. pu_id r = rid) (pd_rows db))"
    by (rule find_map_same) (simp add: assms)
  then show ?thesis
    by (simp add: row_status_def update_where_def option.map_comp comp_def)
qed

lemma row_status_kept:
  assumes "\<And>r. pu_id (f r) = pu_id r"
    and "\<And>r. pu_status r = s \<Longrightarrow> P r \<Longrightarrow> pu_status (f r) = s"
    and "row_status db rid = Some s"
  shows "row_status (update_where P f db) rid = Some s"
proof -
  have "row_status (update_where P f db) rid =
    map_option (\<lambda>r. pu_status (if P r then f r else r)) (find (\<lambda>r. pu_id r = rid) (pd_rows db))"
    by (rule row_status_update_where) (rule assms(1))
  with assms(2,3) show ?thesis by (auto simp: row_status_def)
qed

lemma row_status_insert:
  "row_status db rid = Some s \<Longrightarrow> row_status \<lparr>pd_rows = pd_rows db @ [row], pd_next = n\<rparr> rid = Some s"
proof -
  have "find P xs = Some x \<Longrightarrow> find P (xs @ ys) = Some x" for P :: "purchase \<Rightarrow> bool" and xs ys x
    by (induction xs) auto
  then show "row_status db rid = Some s \<Longrightarrow> ?thesis" by (auto simp: row_status_def)
qed

text \<open>The guarded writes of the repository, as one step relation on the table.\<close>

inductive guarded_table_step :: "purchase_db \<Rightarrow> purchase_db \<Rightarrow> bool" where
  upsert: "guarded_table_step db (snd (upsertPurchase db create update True))"
| update: "guarded_table_step db (snd (updatePurchase db rid patch True))"
| chain: "pp_status patch \<noteq> None \<Longrightarrow>
     guarded_table_step db (snd (updateChainStatusGuarded db projectId otxn patch))"
| cas: "\<not> isTerminal (SUBSCRIPTION_STATUS_SEMANTICS expected) \<Longrightarrow>
     guarded_table_step db (snd (updatePurchaseStatusIf db rid' expected new))"

lemma guarded_table_step_terminal:
  assumes "guarded_table_step db db'" and "row_status db rid = Some s" and "s \<in> {REFUNDED, REVOKED}"
  shows "row_status db' rid = Some s"
  using assms
proof (induction rule: guarded_table_step.induct)
  case (upsert db create update)
  then show ?case
    by (auto simp: upsertPurchase_def Let_def set_clause_terminal row_status_insert
        intro!: row_status_kept split: option.split)
next
  case (update db i patch)
  then show ?case
    by (auto simp: updatePurchase_def set_clause_terminal intro!: row_status_kept)
next
  case (chain patch db projectId otxn)
  then show ?case
    by (auto simp: updateChainStatusGuarded_def Let_def REPO_TERMINAL_STATUSES_def
        intro!: row_status_kept)
next
  case (cas expected db i new)
  then show ?case
    by (auto simp: updatePurchaseStatusIf_def Let_def status_simps intro!: row_status_kept)
qed

lemma guarded_table_steps_terminal:
  assumes "guarded_table_step\<^sup>*\<^sup>* db db'" and "row_status db rid = Some s" and "s \<in> {REFUNDED, REVOKED}"
  shows "row_status db' rid = Some s"
  using assms by (induction rule: rtranclp_induct) (auto intro: guarded_table_step_terminal)

section \<open>Properties\<close>

text \<open>
  C3. A refund or a revocation is final in the table: no sequence of guarded upserts, guarded
  updates, guarded chain updates and status exchanges changes the status of the row.
\<close>

theorem terminal_rows_final:
  assumes "guarded_table_step\<^sup>*\<^sup>* db db'" and "row_status db rid = Some s"
    and "isTerminal (SUBSCRIPTION_STATUS_SEMANTICS s)"
  shows "row_status db' rid = Some s"
  using assms guarded_table_steps_terminal by (auto simp: isTerminal_iff)

theorem terminal_rows_final_witness:
  "row_status (snd (upsertPurchase (sample_table REFUNDED 500) (sample_purchase ACTIVE 900)
     (empty_patch\<lparr>pp_status := Some ACTIVE\<rparr>) True)) 0 = Some REFUNDED"
proof (rule terminal_rows_final)
  show "guarded_table_step\<^sup>*\<^sup>* (sample_table REFUNDED 500)
      (snd (upsertPurchase (sample_table REFUNDED 500) (sample_purchase ACTIVE 900)
        (empty_patch\<lparr>pp_status := Some ACTIVE\<rparr>) True))"
    by (intro r_into_rtranclp guarded_table_step.upsert)
  show "row_status (sample_table REFUNDED 500) 0 = Some REFUNDED"
    by (simp add: row_status_def sample_table_def sample_purchase_def)
qed simp

text \<open>
  The upsert keeps the table's keys unique and answers with what it stored: the row it
  returns is found under its natural key afterwards, a conflict updates the existing row in
  place under its old primary key, and rows with other natural keys are untouched.
\<close>

lemma upsertPurchase_lookup:
  assumes "purchase_db_ok db" and "upsertPurchase db create update g = (row, db')"
  shows "purchase_db_ok db'
    \<and> findPurchaseByStoreTransaction db' (pu_store create) (pu_storeTransactionId create) = Some row
    \<and> (\<forall>old. findPurchaseByStoreTransaction db (pu_store create) (pu_storeTransactionId create) = Some old
         \<longrightarrow> row = set_clause g update old \<and> pu_id row = pu_id old)
    \<and> (\<forall>st txn. (st, txn) \<noteq> (pu_store create, pu_storeTransactionId create)
         \<longrightarrow> findPurchaseByStoreTransaction db' st txn = findPurchaseByStoreTransaction db st txn)"
proof -
  let ?key = "natural_key (pu_store create) (pu_storeTransactionId create)"
  have ok: "purchase_db_ok db'" using upsertPurchase_ok [OF assms(1), of create update g] assms(2) by simp
  show ?thesis
  proof (cases "find ?key (pd_rows db)")
    case None
    then have row: "row = create\<lparr>pu_id := pd_next db\<rparr>" and rows: "pd_rows db' = pd_rows db @ [row]"
      using assms(2) by (auto simp: upsertPurchase_def Let_def)
    have append: "find P (xs @ [y]) = (case find P xs of None \<Rightarrow> if P y then Some y else None | Some x \<Rightarrow> Some x)"
      for P :: "purchase \<Rightarrow> bool" and xs y by (induction xs) auto
    show ?thesis using None ok
      by (auto simp: findPurchaseByStoreTransaction_def rows append row natural_key_def split: option.split)
  next
    case (Some old)
    then have row: "row = set_clause g update old" and db': "db' = update_where ?key (set_clause g update) db"
      using assms(2) by (auto simp: upsertPurchase_def Let_def)
    let ?f = "\<lambda>r. if ?key r then set_clause g update r else r"
    have keep: "find (natural_key st txn) (pd_rows db') = map_option ?f (find (natural_key st txn) (pd_rows db))" for st txn
      unfolding db' update_where_def by (simp, rule find_map_same) (simp add: natural_key_def)
    have other: "?f r = r" if "find (natural_key st txn) (pd_rows db) = Some r"
      "(st, txn) \<noteq> (pu_store create, pu_storeTransactionId create)" for st txn r
      using find_Some_iff_mem [OF that(1)] that(2) by (auto simp: natural_key_def)
    have "find (natural_key st txn) (pd_rows db') = find (natural_key st txn) (pd_rows db)"
      if "(st, txn) \<noteq> (pu_store create, pu_storeTransactionId create)" for st txn
      using keep [of st txn] other [OF _ that] by (cases "find (natural_key st txn) (pd_rows db)") auto
    moreover have "?key old" using find_Some_iff_mem [OF Some] by simp
    ultimately show ?thesis
      using Some ok row keep [of "pu_store create" "pu_storeTransactionId create"]
      by (simp add: findPurchaseByStoreTransaction_def)
  qed
qed

end
