(* ===== verification/Transition_Guard.thy ===== *)
theory Transition_Guard
  imports Purchase_Store
begin

text \<open>
  \<^verbatim>\<open>apps/api/src/services/subscription-transition-guard.ts\<close>: the guard every ingestion path
  runs, on the row it holds \<^verbatim>\<open>FOR UPDATE\<close>, before it writes a status. It returns whether
  the caller may include the status in its write, and the audit entries it appended.
  Logging is not modelled.
\<close>

section \<open>The guard\<close>

record guard_args =
  ga_projectId :: string
  ga_store :: store
  ga_storeTransactionId :: string
  ga_to :: subscription_status
  ga_allowFrom :: "subscription_status list option"
  ga_eventTime :: "timestamp option"

record guard_previous =
  gp_status :: subscription_status
  gp_productId :: string
  gp_autoRenewStatus :: "bool option"

record guard_result =
  gr_apply :: bool
  gr_purchaseId :: "row_id option"
  gr_from :: "subscription_status option"
  gr_to :: subscription_status
  gr_previous :: "guard_previous option"

datatype resource_id = Row_Resource row_id | Transaction_Resource string

record guard_audit =
  au_projectId :: string
  au_userId :: string
  au_action :: string
  au_resource :: string
  au_resourceId :: resource_id
  au_before :: "subscription_status option"
  au_after :: subscription_status
  au_stale :: "(timestamp \<times> timestamp) option"

definition rejection :: "string \<Rightarrow> resource_id \<Rightarrow> subscription_status option \<Rightarrow>
    subscription_status \<Rightarrow> (timestamp \<times> timestamp) option \<Rightarrow> guard_audit" where
  "rejection projectId rid before after stale =
     \<lparr>au_projectId = projectId, au_userId = ''system'',
      au_action = ''subscription.transition_rejected'', au_resource = ''purchase'',
      au_resourceId = rid, au_before = before, au_after = after, au_stale = stale\<rparr>"

definition stale_event :: "guard_args \<Rightarrow> purchase option \<Rightarrow> (timestamp \<times> timestamp) option" where
  "stale_event args current =
     (case (ga_eventTime args, Option.bind current pu_lastStoreEventAt) of
        (Some t, Some l) \<Rightarrow> if t < l then Some (t, l) else None
      | _ \<Rightarrow> None)"

definition before_image :: "purchase \<Rightarrow> guard_previous" where
  "before_image r = \<lparr>gp_status = pu_status r, gp_productId = pu_productId r,
     gp_autoRenewStatus = pu_autoRenewStatus r\<rparr>"

definition guardStatusWrite :: "purchase_db \<Rightarrow> guard_args \<Rightarrow> guard_result \<times> guard_audit list" where
  "guardStatusWrite db args =
     (let current = lockPurchaseStatusByStoreTransaction db (ga_store args) (ga_storeTransactionId args);
          previous = map_option before_image current;
          result = (\<lambda>apply from. \<lparr>gr_apply = apply, gr_purchaseId = map_option pu_id current,
                      gr_from = from, gr_to = ga_to args, gr_previous = previous\<rparr>)
      in case (current, stale_event args current) of
           (Some cur, Some stale) \<Rightarrow>
             (result False (Some (pu_status cur)),
              [rejection (ga_projectId args) (Row_Resource (pu_id cur)) (Some (pu_status cur))
                 (ga_to args) (Some stale)])
         | _ \<Rightarrow>
             (let decision = decideTransition (map_option pu_status current) (ga_to args) in
              if \<not> td_apply decision \<and> (\<exists>cur \<in> set_option current.
                    \<exists>allow \<in> set_option (ga_allowFrom args). pu_status cur \<in> set allow)
              then (result True (td_from decision), [])
              else if \<not> td_apply decision
              then (result False (td_from decision),
                    [rejection (ga_projectId args)
                       (case current of Some cur \<Rightarrow> Row_Resource (pu_id cur)
                                      | None \<Rightarrow> Transaction_Resource (ga_storeTransactionId args))
                       (td_from decision) (td_to decision) None])
              else (result True (td_from decision), [])))"

section \<open>What the guard decides\<close>

lemma stale_event_iff:
  "stale_event args (Some cur) \<noteq> None \<longleftrightarrow>
     (\<exists>t l. ga_eventTime args = Some t \<and> pu_lastStoreEventAt cur = Some l \<and> t < l)"
  by (auto simp: stale_event_def split: option.splits if_splits)

lemma stale_event_none [simp]: "stale_event args None = None"
  by (simp add: stale_event_def split: option.split)

lemma guardStatusWrite_new_row:
  assumes "lockPurchaseStatusByStoreTransaction db (ga_store args) (ga_storeTransactionId args) = None"
  shows "gr_apply (fst (guardStatusWrite db args))" and "snd (guardStatusWrite db args) = []"
  using assms by (simp_all add: guardStatusWrite_def Let_def)

lemma guardStatusWrite_existing:
  assumes "lockPurchaseStatusByStoreTransaction db (ga_store args) (ga_storeTransactionId args) = Some cur"
  shows "gr_apply (fst (guardStatusWrite db args)) \<longleftrightarrow>
      stale_event args (Some cur) = None \<and>
      (validateTransition (pu_status cur) (ga_to args) \<or>
       (\<exists>allow. ga_allowFrom args = Some allow \<and> pu_status cur \<in> set allow))"
    and "length (snd (guardStatusWrite db args)) =
      (if gr_apply (fst (guardStatusWrite db args)) then 0 else 1)"
    and "gr_from (fst (guardStatusWrite db args)) = Some (pu_status cur)"
  using assms by (auto simp: guardStatusWrite_def Let_def split: option.splits)

section \<open>Properties\<close>

text \<open>
  C13. The guard, decided: a status may be written exactly when the row is new, or when the event
  is not older than the last applied one and the transition is an edge of the graph or the
  caller explicitly allowed it from the current status. A refusal appends one audit entry
  that names the row, the current and the requested status; an approval appends none.
\<close>

theorem guardStatusWrite_decides:
  assumes "lockPurchaseStatusByStoreTransaction db (ga_store args) (ga_storeTransactionId args) = current"
    and "guardStatusWrite db args = (result, audits)"
  shows "(gr_apply result \<longleftrightarrow>
      (case current of
         None \<Rightarrow> True
       | Some cur \<Rightarrow>
           \<not> (\<exists>t l. ga_eventTime args = Some t \<and> pu_lastStoreEventAt cur = Some l \<and> t < l)
           \<and> (validateTransition (pu_status cur) (ga_to args)
              \<or> (\<exists>allow. ga_allowFrom args = Some allow \<and> pu_status cur \<in> set allow))))
    \<and> (gr_apply result \<longrightarrow> audits = [])
    \<and> (\<not> gr_apply result \<longrightarrow> (\<exists>cur e. current = Some cur \<and> audits = [e]
         \<and> au_resourceId e = Row_Resource (pu_id cur) \<and> au_before e = Some (pu_status cur)
         \<and> au_after e = ga_to args \<and> au_action e = ''subscription.transition_rejected''))"
proof (cases current)
  case None
  with assms guardStatusWrite_new_row [of db args] show ?thesis by simp
next
  case (Some cur)
  have "result = fst (guardStatusWrite db args)" "audits = snd (guardStatusWrite db args)"
    using assms(2) by simp_all
  moreover have "\<not> gr_apply (fst (guardStatusWrite db args)) \<Longrightarrow>
      \<exists>stale. snd (guardStatusWrite db args) = [rejection (ga_projectId args) (Row_Resource (pu_id cur))
         (Some (pu_status cur)) (ga_to args) stale]"
    using assms(1) Some by (auto simp: guardStatusWrite_def Let_def split: option.splits if_splits)
  ultimately show ?thesis
    using guardStatusWrite_existing [OF assms(1) [unfolded Some]] Some stale_event_iff [of args cur]
    by (auto simp: rejection_def)
qed

theorem guardStatusWrite_decides_witness:
  "\<not> gr_apply (fst (guardStatusWrite (sample_table REFUNDED 500)
     \<lparr>ga_projectId = ''prj'', ga_store = APP_STORE, ga_storeTransactionId = ''t1'', ga_to = ACTIVE,
      ga_allowFrom = None, ga_eventTime = Some 200\<rparr>))"
proof -
  let ?args = "\<lparr>ga_projectId = ''prj'', ga_store = APP_STORE, ga_storeTransactionId = ''t1'',
    ga_to = ACTIVE, ga_allowFrom = None, ga_eventTime = Some 200\<rparr>"
  have "lockPurchaseStatusByStoreTransaction (sample_table REFUNDED 500) (ga_store ?args)
      (ga_storeTransactionId ?args) = Some (sample_purchase REFUNDED 500)"
    by (simp add: lockPurchaseStatusByStoreTransaction_def sample_table_def sample_purchase_def natural_key_def)
  from guardStatusWrite_decides [OF this prod.collapse [symmetric]]
  show ?thesis by (simp add: sample_purchase_def validateTransition_def)
qed

end
