(* ===== verification/Access_Engine.thy ===== *)
theory Access_Engine
  imports Purchase_Store
begin

text \<open>
  \<^verbatim>\<open>apps/api/src/services/access-engine.ts\<close>, the access queries of
  \<^verbatim>\<open>packages/db/src/drizzle/repositories/access.ts\<close> and the drift detection of
  \<^verbatim>\<open>apps/api/src/workers/access-reconciliation.ts\<close>: which entitlements a subscriber should
  have, the rows that store them, how the rows are reconciled and how they are read.

  \<open>syncAccess\<close> runs in one transaction under a per-subscriber advisory lock, so it is one
  atomic step here. Both loops that pick the longest-lived grant per access id are instances
  of the prelude's \<open>keep_best\<close>, through the interpretations of \<open>strict_weak\<close>.
\<close>

section \<open>When an entitlement ends\<close>

definition isLaterExpiry :: "timestamp option \<Rightarrow> timestamp option \<Rightarrow> bool" where
  "isLaterExpiry a b =
     (case (a, b) of
        (None, None) \<Rightarrow> False
      | (None, Some _) \<Rightarrow> True
      | (Some _, None) \<Rightarrow> False
      | (Some x, Some y) \<Rightarrow> x > y)"

definition entitlementExpiry ::
  "subscription_status \<Rightarrow> timestamp option \<Rightarrow> timestamp option \<Rightarrow> timestamp option" where
  "entitlementExpiry status expiresDate gracePeriodExpires =
     (if status \<noteq> GRACE_PERIOD then expiresDate
      else case expiresDate of
             None \<Rightarrow> None
           | Some e \<Rightarrow> (case gracePeriodExpires of
                          None \<Rightarrow> expiresDate
                        | Some g \<Rightarrow> if g > e then gracePeriodExpires else expiresDate))"

section \<open>The desired set\<close>

record purchase_access =
  pa_id :: row_id
  pa_status :: subscription_status
  pa_expiresDate :: "timestamp option"
  pa_gracePeriodExpires :: "timestamp option"
  pa_store :: store
  pa_accessIds :: "string list"

record desired_access =
  da_purchaseId :: row_id
  da_expiresDate :: "timestamp option"
  da_store :: store

definition pa_expiry :: "purchase_access \<Rightarrow> timestamp option" where
  "pa_expiry p = entitlementExpiry (pa_status p) (pa_expiresDate p) (pa_gracePeriodExpires p)"

definition desired_of :: "purchase_access \<Rightarrow> desired_access" where
  "desired_of p = \<lparr>da_purchaseId = pa_id p, da_expiresDate = pa_expiry p, da_store = pa_store p\<rparr>"

definition grant_step ::
  "purchase_access \<Rightarrow> string \<Rightarrow> (string, desired_access) js_map \<Rightarrow> (string, desired_access) js_map" where
  "grant_step p accessId desired =
     (case map_of desired accessId of
        None \<Rightarrow> AList.update accessId (desired_of p) desired
      | Some existing \<Rightarrow>
          if isLaterExpiry (pa_expiry p) (da_expiresDate existing)
          then AList.update accessId (desired_of p) desired else desired)"

definition counts_now :: "timestamp \<Rightarrow> purchase_access \<Rightarrow> bool" where
  "counts_now now p =
     (pa_status p \<in> set ACCESS_GRANTING_STATUSES
      \<and> (case pa_expiry p of None \<Rightarrow> True | Some e \<Rightarrow> \<not> e < now))"

definition computeDesiredAccess ::
  "purchase_access list \<Rightarrow> timestamp \<Rightarrow> (string, desired_access) js_map" where
  "computeDesiredAccess purchases now =
     fold (\<lambda>p desired. if counts_now now p then fold (grant_step p) (pa_accessIds p) desired else desired)
       purchases []"

section \<open>The access table\<close>

record access_row =
  ar_id :: row_id
  ar_subscriberId :: string
  ar_purchaseId :: row_id
  ar_accessId :: string
  ar_isActive :: bool
  ar_expiresDate :: "timestamp option"
  ar_store :: store

record access_db =
  ad_rows :: "access_row list"
  ad_next :: row_id

definition findAllAccessBySubscriber :: "access_db \<Rightarrow> string \<Rightarrow> access_row list" where
  "findAllAccessBySubscriber db sub = filter (\<lambda>r. ar_subscriberId r = sub) (ad_rows db)"

definition findActiveAccess :: "access_db \<Rightarrow> string \<Rightarrow> timestamp \<Rightarrow> access_row list" where
  "findActiveAccess db sub now =
     filter (\<lambda>r. ar_subscriberId r = sub \<and> ar_isActive r
               \<and> (case ar_expiresDate r of None \<Rightarrow> True | Some e \<Rightarrow> e > now)) (ad_rows db)"

definition setAccessActive :: "row_id \<Rightarrow> bool \<Rightarrow> access_db \<Rightarrow> access_db" where
  "setAccessActive rid active db =
     db\<lparr>ad_rows := map (\<lambda>r. if ar_id r = rid then r\<lparr>ar_isActive := active\<rparr> else r) (ad_rows db)\<rparr>"

definition setAccessActiveAndExpiry :: "row_id \<Rightarrow> bool \<Rightarrow> timestamp option \<Rightarrow> access_db \<Rightarrow> access_db" where
  "setAccessActiveAndExpiry rid active expires db =
     db\<lparr>ad_rows := map (\<lambda>r. if ar_id r = rid
                            then r\<lparr>ar_isActive := active, ar_expiresDate := expires\<rparr> else r) (ad_rows db)\<rparr>"

definition createAccess ::
  "string \<Rightarrow> row_id \<Rightarrow> string \<Rightarrow> bool \<Rightarrow> timestamp option \<Rightarrow> store \<Rightarrow> access_db \<Rightarrow> access_db" where
  "createAccess sub purchaseId accessId active expires st db =
     \<lparr>ad_rows = ad_rows db @
        [\<lparr>ar_id = ad_next db, ar_subscriberId = sub, ar_purchaseId = purchaseId,
          ar_accessId = accessId, ar_isActive = active, ar_expiresDate = expires, ar_store = st\<rparr>],
      ad_next = Suc (ad_next db)\<rparr>"

definition findPurchasesWithAccessIds ::
  "purchase_db \<Rightarrow> (string \<rightharpoonup> string list) \<Rightarrow> string \<Rightarrow> purchase_access list" where
  "findPurchasesWithAccessIds db products sub =
     List.map_filter (\<lambda>r. if pu_subscriberId r = sub
        then map_option (\<lambda>ids. \<lparr>pa_id = pu_id r, pa_status = pu_status r,
               pa_expiresDate = pu_expiresDate r, pa_gracePeriodExpires = pu_gracePeriodExpires r,
               pa_store = pu_store r, pa_accessIds = ids\<rparr>) (products (pu_productId r))
        else None) (pd_rows db)"

definition revokeAccessByPurchaseId :: "row_id \<Rightarrow> access_db \<Rightarrow> access_db" where
  "revokeAccessByPurchaseId purchaseId db =
     db\<lparr>ad_rows := map (\<lambda>r. if ar_purchaseId r = purchaseId then r\<lparr>ar_isActive := False\<rparr> else r)
                     (ad_rows db)\<rparr>"

definition revokeAccessByOriginalTransaction ::
  "purchase_db \<Rightarrow> string \<Rightarrow> string \<Rightarrow> access_db \<Rightarrow> access_db" where
  "revokeAccessByOriginalTransaction pdb projectId otxn db =
     (let ids = map ar_id (filter (\<lambda>a. list_ex (\<lambda>p. pu_id p = ar_purchaseId a
                                    \<and> chain_match projectId otxn p) (pd_rows pdb)) (ad_rows db))
      in if ids = [] then db
         else db\<lparr>ad_rows := map (\<lambda>r. if ar_id r \<in> set ids then r\<lparr>ar_isActive := False\<rparr> else r)
                              (ad_rows db)\<rparr>)"

section \<open>Reconciling the rows\<close>

text \<open>
  Both loops read the rows as they were before the first write (\<open>current\<close>) and write to
  the table.
\<close>

definition deactivate_step ::
  "(string, desired_access) js_map \<Rightarrow> access_row \<Rightarrow> access_db \<Rightarrow> access_db" where
  "deactivate_step desired record db =
     (let isSource = (map_option da_purchaseId (map_of desired (ar_accessId record))
                        = Some (ar_purchaseId record))
      in if \<not> isSource \<and> ar_isActive record then setAccessActive (ar_id record) False db else db)"

definition grants_target :: "string \<Rightarrow> desired_access \<Rightarrow> access_row \<Rightarrow> bool" where
  "grants_target accessId target r = (ar_accessId r = accessId \<and> ar_purchaseId r = da_purchaseId target)"

definition activate_step ::
  "string \<Rightarrow> access_row list \<Rightarrow> string \<times> desired_access \<Rightarrow> access_db \<Rightarrow> access_db" where
  "activate_step sub current entry db =
     (let accessId = fst entry; target = snd entry in
      case find (grants_target accessId target) current of
        Some existing \<Rightarrow>
          (let expiryChanged = (ar_expiresDate existing \<noteq> da_expiresDate target)
           in if \<not> ar_isActive existing \<or> expiryChanged
              then setAccessActiveAndExpiry (ar_id existing) True (da_expiresDate target) db
              else db)
      | None \<Rightarrow>
          createAccess sub (da_purchaseId target) accessId True (da_expiresDate target)
            (da_store target) db)"

definition sync_rows ::
  "string \<Rightarrow> (string, desired_access) js_map \<Rightarrow> access_db \<Rightarrow> access_db" where
  "sync_rows sub desired db =
     (let current = findAllAccessBySubscriber db sub
      in fold (activate_step sub current) desired (fold (deactivate_step desired) current db))"

definition syncAccess ::
  "purchase_db \<Rightarrow> (string \<rightharpoonup> string list) \<Rightarrow> string \<Rightarrow> timestamp \<Rightarrow> access_db \<Rightarrow> access_db" where
  "syncAccess pdb products sub now db =
     sync_rows sub (computeDesiredAccess (findPurchasesWithAccessIds pdb products sub) now) db"

section \<open>Reading\<close>

definition hasAccess :: "access_db \<Rightarrow> string \<Rightarrow> string \<Rightarrow> timestamp \<Rightarrow> bool" where
  "hasAccess db sub accessId now =
     list_ex (\<lambda>r. ar_accessId r = accessId) (findActiveAccess db sub now)"

record active_access_entry =
  ae_isActive :: bool
  ae_expiresDate :: "timestamp option"
  ae_store :: store
  ae_purchaseId :: row_id

definition entry_of :: "access_row \<Rightarrow> active_access_entry" where
  "entry_of r = \<lparr>ae_isActive = ar_isActive r, ae_expiresDate = ar_expiresDate r,
     ae_store = ar_store r, ae_purchaseId = ar_purchaseId r\<rparr>"

definition read_step ::
  "access_row \<Rightarrow> (string, active_access_entry) js_map \<Rightarrow> (string, active_access_entry) js_map" where
  "read_step r result =
     (case map_of result (ar_accessId r) of
        None \<Rightarrow> AList.update (ar_accessId r) (entry_of r) result
      | Some existing \<Rightarrow>
          if isLaterExpiry (ar_expiresDate r) (ae_expiresDate existing)
          then AList.update (ar_accessId r) (entry_of r) result else result)"

definition getActiveAccess :: "access_db \<Rightarrow> string \<Rightarrow> timestamp \<Rightarrow> (string, active_access_entry) js_map" where
  "getActiveAccess db sub now = fold read_step (findActiveAccess db sub now) []"

section \<open>Drift detection\<close>

datatype drift_class = missing_grant | stale_grant | wrong_expiry | orphan_row

definition DRIFT_CLASSES :: "drift_class list" where
  "DRIFT_CLASSES = [missing_grant, stale_grant, wrong_expiry, orphan_row]"

definition target_drift :: "access_row list \<Rightarrow> string \<times> desired_access \<Rightarrow> drift_class set" where
  "target_drift activeStored entry =
     (case find (grants_target (fst entry) (snd entry)) activeStored of
        None \<Rightarrow> {missing_grant}
      | Some m \<Rightarrow> if ar_expiresDate m \<noteq> da_expiresDate (snd entry) then {wrong_expiry} else {})"

definition row_drift ::
  "(string, desired_access) js_map \<Rightarrow> row_id list \<Rightarrow> access_row \<Rightarrow> drift_class set" where
  "row_drift desired purchaseIds row =
     (if ar_purchaseId row \<notin> set purchaseIds then {orphan_row}
      else case map_of desired (ar_accessId row) of
             None \<Rightarrow> {stale_grant}
           | Some target \<Rightarrow> if da_purchaseId target \<noteq> ar_purchaseId row then {stale_grant} else {})"

definition detectDrift ::
  "purchase_db \<Rightarrow> (string \<rightharpoonup> string list) \<Rightarrow> access_db \<Rightarrow> string \<Rightarrow> timestamp \<Rightarrow> drift_class list" where
  "detectDrift pdb products db sub now =
     (let purchases = findPurchasesWithAccessIds pdb products sub;
          desired = computeDesiredAccess purchases now;
          activeStored = filter ar_isActive (findAllAccessBySubscriber db sub);
          classes = \<Union> (set (map (target_drift activeStored) desired))
                    \<union> \<Union> (set (map (row_drift desired (map pa_id purchases)) activeStored))
      in filter (\<lambda>c. c \<in> classes) DRIFT_CLASSES)"

end
