(* ===== verification/Access_Sync.thy ===== *)
theory Access_Sync
  imports Access_Engine
begin

text \<open>
  What the access engine guarantees. The reference definition \<open>settle\<close> says for one row
  what reconciliation must leave there; \<open>sync_rows_closed\<close> shows that the two write loops
  compute exactly it, and the guarantees about reads, repeated runs and drift detection
  follow from that closed form.
\<close>

section \<open>The longest-lived grant per access id\<close>

definition later_desired :: "desired_access \<Rightarrow> desired_access \<Rightarrow> bool" where
  "later_desired a b = isLaterExpiry (da_expiresDate a) (da_expiresDate b)"

definition later_entry :: "active_access_entry \<Rightarrow> active_access_entry \<Rightarrow> bool" where
  "later_entry a b = isLaterExpiry (ae_expiresDate a) (ae_expiresDate b)"

lemma isLaterExpiry_asym: "isLaterExpiry a b \<Longrightarrow> \<not> isLaterExpiry b a"
  by (auto simp: isLaterExpiry_def split: option.splits)

lemma isLaterExpiry_neg_trans: "isLaterExpiry a c \<Longrightarrow> isLaterExpiry a b \<or> isLaterExpiry b c"
  by (auto simp: isLaterExpiry_def split: option.splits)

interpretation ld: strict_weak later_desired
  by unfold_locales
    (simp_all add: later_desired_def isLaterExpiry_asym isLaterExpiry_neg_trans)

interpretation le: strict_weak later_entry
  by unfold_locales
    (simp_all add: later_entry_def isLaterExpiry_asym isLaterExpiry_neg_trans)

definition grant_pairs :: "purchase_access \<Rightarrow> (string \<times> desired_access) list" where
  "grant_pairs p = map (\<lambda>a. (a, desired_of p)) (pa_accessIds p)"

lemma grant_step_keep_best: "grant_step p a = keep_best_step later_desired (a, desired_of p)"
  by (rule ext)
    (simp add: grant_step_def keep_best_step_def later_desired_def desired_of_def split: option.split)

lemma fold_grant_step: "fold (grant_step p) as m = keep_best later_desired (map (\<lambda>a. (a, desired_of p)) as) m"
  by (induction as arbitrary: m) (simp_all add: grant_step_keep_best)

lemma computeDesiredAccess_keep_best:
  "computeDesiredAccess ps now =
     keep_best later_desired (concat (map grant_pairs (filter (counts_now now) ps))) []"
proof -
  have "fold (\<lambda>p d. if counts_now now p then fold (grant_step p) (pa_accessIds p) d else d) ps m
    = keep_best later_desired (concat (map grant_pairs (filter (counts_now now) ps))) m" for m
    by (induction ps arbitrary: m) (simp_all add: fold_grant_step grant_pairs_def keep_best_append)
  then show ?thesis by (simp add: computeDesiredAccess_def)
qed

lemma distinct_desired: "distinct (map fst (computeDesiredAccess ps now))"
  by (simp add: computeDesiredAccess_keep_best distinct_keep_best)

lemma grant_pairs_mem:
  "(a, d) \<in> set (concat (map grant_pairs (filter (counts_now now) ps))) \<longleftrightarrow>
     (\<exists>p \<in> set ps. counts_now now p \<and> a \<in> set (pa_accessIds p) \<and> d = desired_of p)"
  by (auto simp: grant_pairs_def)

lemma desired_Some:
  assumes "map_of (computeDesiredAccess ps now) a = Some d"
  shows "\<exists>p \<in> set ps. counts_now now p \<and> a \<in> set (pa_accessIds p) \<and> d = desired_of p"
    and "\<And>q. q \<in> set ps \<Longrightarrow> counts_now now q \<Longrightarrow> a \<in> set (pa_accessIds q) \<Longrightarrow>
           \<not> isLaterExpiry (pa_expiry q) (da_expiresDate d)"
proof -
  let ?kvs = "concat (map grant_pairs (filter (counts_now now) ps))"
  from assms have "map_of (keep_best later_desired ?kvs []) a = Some d"
    by (simp only: computeDesiredAccess_keep_best)
  from ld.keep_best_sound [OF this]
  have mem: "(a, d) \<in> set ?kvs" and best: "\<And>w. (a, w) \<in> set ?kvs \<Longrightarrow> \<not> later_desired w d"
    by auto
  from mem show "\<exists>p \<in> set ps. counts_now now p \<and> a \<in> set (pa_accessIds p) \<and> d = desired_of p"
    by (simp only: grant_pairs_mem)
  fix q assume "q \<in> set ps" "counts_now now q" "a \<in> set (pa_accessIds q)"
  then have "(a, desired_of q) \<in> set ?kvs" using grant_pairs_mem by blast
  from best [OF this] show "\<not> isLaterExpiry (pa_expiry q) (da_expiresDate d)"
    by (simp add: later_desired_def desired_of_def)
qed

lemma desired_None:
  "map_of (computeDesiredAccess ps now) a = None \<longleftrightarrow>
     (\<forall>p \<in> set ps. counts_now now p \<longrightarrow> a \<notin> set (pa_accessIds p))"
proof -
  have "fst ` set (concat (map grant_pairs (filter (counts_now now) ps)))
    = {a. \<exists>p \<in> set ps. counts_now now p \<and> a \<in> set (pa_accessIds p)}"
    by (force simp: grant_pairs_def)
  then show ?thesis by (auto simp: computeDesiredAccess_keep_best ld.keep_best_none)
qed

section \<open>The closed form of reconciliation\<close>

text \<open>What the primary key gives. Nothing in the schema keeps two rows of one grant apart.\<close>

definition access_db_ok :: "access_db \<Rightarrow> bool" where
  "access_db_ok db = (distinct (map ar_id (ad_rows db)) \<and> (\<forall>r \<in> set (ad_rows db). ar_id r < ad_next db))"

definition one_row_per_grant :: "access_db \<Rightarrow> bool" where
  "one_row_per_grant db = distinct (map (\<lambda>r. (ar_subscriberId r, ar_accessId r, ar_purchaseId r)) (ad_rows db))"

definition target_for :: "(string, desired_access) js_map \<Rightarrow> access_row \<Rightarrow> desired_access option" where
  "target_for desired r =
     (case map_of desired (ar_accessId r) of
        None \<Rightarrow> None
      | Some d \<Rightarrow> if da_purchaseId d = ar_purchaseId r then Some d else None)"

text \<open>
  A row that is no source is switched off; of the rows of a source the first takes the target's
  window, and further rows of the same grant are left as they are.
\<close>

definition settle :: "string \<Rightarrow> (string, desired_access) js_map \<Rightarrow> access_row list \<Rightarrow> access_row \<Rightarrow> access_row" where
  "settle sub desired current r =
     (if ar_subscriberId r \<noteq> sub then r
      else case target_for desired r of
             None \<Rightarrow> r\<lparr>ar_isActive := False\<rparr>
           | Some d \<Rightarrow> if find (grants_target (ar_accessId r) d) current = Some r
                       then r\<lparr>ar_isActive := True, ar_expiresDate := da_expiresDate d\<rparr> else r)"

fun created :: "string \<Rightarrow> row_id \<Rightarrow> (string \<times> desired_access) list \<Rightarrow> access_row list" where
  "created sub n [] = []"
| "created sub n ((a, d) # es) =
     \<lparr>ar_id = n, ar_subscriberId = sub, ar_purchaseId = da_purchaseId d, ar_accessId = a,
      ar_isActive = True, ar_expiresDate = da_expiresDate d, ar_store = da_store d\<rparr>
     # created sub (Suc n) es"

definition unmatched :: "access_row list \<Rightarrow> string \<times> desired_access \<Rightarrow> bool" where
  "unmatched current e = (find (grants_target (fst e) (snd e)) current = None)"

definition must_off :: "(string, desired_access) js_map \<Rightarrow> access_row \<Rightarrow> bool" where
  "must_off desired r = (target_for desired r = None \<and> ar_isActive r)"

definition off_if :: "(access_row \<Rightarrow> bool) \<Rightarrow> access_row \<Rightarrow> access_row" where
  "off_if P r = (if P r then r\<lparr>ar_isActive := False\<rparr> else r)"

lemma off_if_keys [simp]:
  "ar_id (off_if P r) = ar_id r" "ar_subscriberId (off_if P r) = ar_subscriberId r"
  "ar_accessId (off_if P r) = ar_accessId r" "ar_purchaseId (off_if P r) = ar_purchaseId r"
  "ar_expiresDate (off_if P r) = ar_expiresDate r"
  by (simp_all add: off_if_def)

lemma deactivate_step_alt:
  "deactivate_step desired c db =
     (if must_off desired c then setAccessActive (ar_id c) False db else db)"
  by (auto simp: deactivate_step_def must_off_def target_for_def split: option.splits)

lemma fold_deactivate:
  "fold (deactivate_step desired) cs db =
     db\<lparr>ad_rows := map (off_if (\<lambda>r. \<exists>c \<in> set cs. ar_id c = ar_id r \<and> must_off desired c)) (ad_rows db)\<rparr>"
proof (induction cs arbitrary: db)
  case Nil
  have "off_if (\<lambda>r. False) = id" by (auto simp: off_if_def)
  then show ?case by simp
next
  case (Cons c cs)
  show ?case
  proof (cases "must_off desired c")
    case True
    then have step: "deactivate_step desired c db = db\<lparr>ad_rows := map (off_if (\<lambda>r. ar_id c = ar_id r)) (ad_rows db)\<rparr>"
      by (auto simp: deactivate_step_alt setAccessActive_def off_if_def)
    have "off_if (\<lambda>r. \<exists>c \<in> set cs. ar_id c = ar_id r \<and> must_off desired c) (off_if (\<lambda>r. ar_id c = ar_id r) r)
      = off_if (\<lambda>r. \<exists>c' \<in> set (c # cs). ar_id c' = ar_id r \<and> must_off desired c') r" for r
      using True by (auto simp: off_if_def)
    then show ?thesis by (simp add: step Cons.IH comp_def del: bex_simps)
  next
    case False
    then have "deactivate_step desired c db = db" by (simp add: deactivate_step_alt)
    then show ?thesis by (simp add: Cons.IH) (auto simp: off_if_def False)
  qed
qed

definition touch :: "access_row list \<Rightarrow> string \<times> desired_access \<Rightarrow> access_row \<Rightarrow> access_row" where
  "touch current e r =
     (case find (grants_target (fst e) (snd e)) current of
        None \<Rightarrow> r
      | Some ex \<Rightarrow>
          if ar_id r = ar_id ex \<and> (\<not> ar_isActive ex \<or> ar_expiresDate ex \<noteq> da_expiresDate (snd e))
          then r\<lparr>ar_isActive := True, ar_expiresDate := da_expiresDate (snd e)\<rparr> else r)"

lemma touch_id [simp]: "ar_id (touch current e r) = ar_id r"
  by (simp add: touch_def split: option.split)

lemma touch_keys [simp]:
  "ar_subscriberId (touch current e r) = ar_subscriberId r"
  "ar_accessId (touch current e r) = ar_accessId r" "ar_purchaseId (touch current e r) = ar_purchaseId r"
  by (simp_all add: touch_def split: option.split)

lemma touch_above:
  "\<forall>c \<in> set current. ar_id c < n \<Longrightarrow> n \<le> ar_id r \<Longrightarrow> fold (touch current) es r = r"
proof (induction es)
  case (Cons e es)
  have "touch current e r = r"
    using Cons.prems by (force simp: touch_def dest: find_Some_iff_mem split: option.split)
  with Cons show ?case by simp
qed simp

lemma fold_activate:
  assumes "\<forall>c \<in> set current. ar_id c < ad_next db"
  shows "fold (activate_step sub current) es db =
    \<lparr>ad_rows = map (fold (touch current) es) (ad_rows db)
               @ created sub (ad_next db) (filter (unmatched current) es),
     ad_next = ad_next db + length (filter (unmatched current) es)\<rparr>"
  using assms
proof (induction es arbitrary: db)
  case Nil
  show ?case by simp
next
  case (Cons e es)
  obtain a d where e: "e = (a, d)" by (cases e)
  show ?case
  proof (cases "find (grants_target a d) current")
    case (Some ex)
    have "touch current e = (\<lambda>r. if ar_id r = ar_id ex \<and> (\<not> ar_isActive ex \<or> ar_expiresDate ex \<noteq> da_expiresDate d)
        then r\<lparr>ar_isActive := True, ar_expiresDate := da_expiresDate d\<rparr> else r)"
      by (rule ext) (auto simp: touch_def e Some)
    then have "activate_step sub current e db = db\<lparr>ad_rows := map (touch current e) (ad_rows db)\<rparr>"
      by (auto simp: activate_step_def e Some Let_def setAccessActiveAndExpiry_def)
    moreover have "\<not> unmatched current e" by (simp add: unmatched_def e Some)
    ultimately show ?thesis
      using Cons.IH [of "db\<lparr>ad_rows := map (touch current e) (ad_rows db)\<rparr>"] Cons.prems by simp
  next
    case None
    let ?row = "\<lparr>ar_id = ad_next db, ar_subscriberId = sub, ar_purchaseId = da_purchaseId d,
       ar_accessId = a, ar_isActive = True, ar_expiresDate = da_expiresDate d, ar_store = da_store d\<rparr>"
    let ?db = "\<lparr>ad_rows = ad_rows db @ [?row], ad_next = Suc (ad_next db)\<rparr>"
    have step: "activate_step sub current e db = ?db"
      by (simp add: activate_step_def e None Let_def createAccess_def)
    have touch: "touch current e = id" by (rule ext) (simp add: touch_def e None)
    have new: "unmatched current e" by (simp add: unmatched_def e None)
    have "fold (touch current) es ?row = ?row"
      using Cons.prems by (intro touch_above [where n = "ad_next db"]) auto
    moreover have "\<forall>c \<in> set current. ar_id c < ad_next ?db"
      using Cons.prems by (auto simp: less_Suc_eq)
    ultimately show ?thesis
      using Cons.IH [of ?db] by (simp add: step [unfolded e] touch [unfolded e] new [unfolded e] e)
  qed
qed

lemma fold_touch_once:
  assumes "distinct (map fst es)"
    and "\<And>e ex. e \<in> set es \<Longrightarrow> find (grants_target (fst e) (snd e)) current = Some ex \<Longrightarrow>
           ar_id ex = ar_id r \<Longrightarrow> fst e = a"
  shows "fold (touch current) es r = (case map_of es a of None \<Rightarrow> r | Some d \<Rightarrow> touch current (a, d) r)"
  using assms
proof (induction es arbitrary: r)
  case (Cons e es)
  obtain b d where e: "e = (b, d)" by (cases e)
  show ?case
  proof (cases "b = a")
    case True
    then have none: "map_of es a = None"
      using Cons.prems(1) by (force simp: e map_of_eq_None_iff)
    have "fold (touch current) es (touch current e r) =
      (case map_of es a of None \<Rightarrow> touch current e r | Some d \<Rightarrow> touch current (a, d) (touch current e r))"
      using Cons.prems by (intro Cons.IH) auto
    with none True show ?thesis by (simp add: e)
  next
    case False
    then have "touch current e r = r"
      using Cons.prems(2) [of e] by (auto simp: touch_def e split: option.split)
    moreover have "fold (touch current) es r =
      (case map_of es a of None \<Rightarrow> r | Some d \<Rightarrow> touch current (a, d) r)"
      using Cons.prems by (intro Cons.IH) auto
    ultimately show ?thesis using False by (simp add: e)
  qed
qed simp

lemma grants_target_target_for:
  "map_of desired (ar_accessId r) = Some d \<Longrightarrow>
     grants_target (ar_accessId r) d r \<longleftrightarrow> target_for desired r = Some d"
  by (auto simp: grants_target_def target_for_def)

lemma settle_touch:
  fixes sub :: string
  assumes ok: "access_db_ok db" and r: "r \<in> set (ad_rows db)" and keys: "distinct (map fst desired)"
  defines "current \<equiv> findAllAccessBySubscriber db sub"
  shows "fold (touch current) desired
      (off_if (\<lambda>r. \<exists>c \<in> set current. ar_id c = ar_id r \<and> must_off desired c) r) = settle sub desired current r"
proof -
  let ?off = "off_if (\<lambda>r. \<exists>c \<in> set current. ar_id c = ar_id r \<and> must_off desired c) r"
  have same: "c = r" if "c \<in> set current" "ar_id c = ar_id r" for c
    using ok r that
    by (auto simp: access_db_ok_def current_def findAllAccessBySubscriber_def dest: distinct_map_eqD)
  have cur: "r \<in> set current \<longleftrightarrow> ar_subscriberId r = sub"
    using r by (simp add: current_def findAllAccessBySubscriber_def)
  have off: "?off = (if ar_subscriberId r = sub \<and> must_off desired r then r\<lparr>ar_isActive := False\<rparr> else r)"
    using same cur by (auto simp: off_if_def)
  have once: "fold (touch current) desired ?off =
    (case map_of desired (ar_accessId r) of
       None \<Rightarrow> ?off | Some d \<Rightarrow> touch current (ar_accessId r, d) ?off)"
    using keys by (intro fold_touch_once) (auto dest!: find_Some_iff_mem same simp: grants_target_def)
  note once' = once [unfolded off]
  show ?thesis
  proof (cases "ar_subscriberId r = sub")
    case False
    then have "\<And>e. touch current e r = r"
      using same cur by (auto simp: touch_def dest!: find_Some_iff_mem split: option.split)
    then show ?thesis
      using False unfolding once by (simp add: settle_def off split: option.split)
  next
    case True
    with cur have mem: "r \<in> set current" by simp
    show ?thesis
    proof (cases "target_for desired r")
      case None
      have "touch current (ar_accessId r, d) r' = r'"
        if "map_of desired (ar_accessId r) = Some d" "ar_id r' = ar_id r" for d r'
        using None grants_target_target_for [OF that(1)] that(2) same
        by (auto simp: touch_def dest!: find_Some_iff_mem split: option.split)
      with True None show ?thesis unfolding off once'
        by (auto simp: settle_def must_off_def split: option.split)
    next
      case (Some d)
      then have d: "map_of desired (ar_accessId r) = Some d"
        by (auto simp: target_for_def split: option.splits if_splits)
      have off_r: "?off = r" using True Some unfolding off by (simp add: must_off_def)
      have goal: "fold (touch current) desired ?off = touch current (ar_accessId r, d) r"
        unfolding once using d off_r by simp
      show ?thesis
      proof (cases "find (grants_target (ar_accessId r) d) current = Some r")
        case first: True
        then show ?thesis using True Some unfolding goal by (auto simp: touch_def settle_def)
      next
        case False
        then have "ar_id r \<noteq> ar_id ex" if "find (grants_target (ar_accessId r) d) current = Some ex" for ex
          using that same find_Some_iff_mem [OF that] by auto
        then have "touch current (ar_accessId r, d) r = r" by (auto simp: touch_def split: option.split)
        then show ?thesis using False True Some unfolding goal by (simp add: settle_def)
      qed
    qed
  qed
qed

lemma sync_rows_closed:
  assumes "access_db_ok db" and "distinct (map fst desired)"
  shows "sync_rows sub desired db =
    (let fresh = filter (unmatched (findAllAccessBySubscriber db sub)) desired in
     \<lparr>ad_rows = map (settle sub desired (findAllAccessBySubscriber db sub)) (ad_rows db) @ created sub (ad_next db) fresh,
      ad_next = ad_next db + length fresh\<rparr>)"
proof -
  let ?current = "findAllAccessBySubscriber db sub"
  have "\<forall>c \<in> set ?current. ar_id c < ad_next db"
    using assms(1) by (auto simp: access_db_ok_def findAllAccessBySubscriber_def)
  moreover have "map (fold (touch ?current) desired)
      (map (off_if (\<lambda>r. \<exists>c \<in> set ?current. ar_id c = ar_id r \<and> must_off desired c)) (ad_rows db))
    = map (settle sub desired ?current) (ad_rows db)"
    using settle_touch [OF assms(1) _ assms(2)] by (simp del: bex_simps)
  ultimately show ?thesis
    by (simp add: sync_rows_def Let_def fold_deactivate fold_activate del: map_map)
qed

section \<open>Invariant, idempotence and the stored view\<close>

lemma settle_keys [simp]:
  "ar_id (settle sub desired c r) = ar_id r" "ar_subscriberId (settle sub desired c r) = ar_subscriberId r"
  "ar_accessId (settle sub desired c r) = ar_accessId r" "ar_purchaseId (settle sub desired c r) = ar_purchaseId r"
  by (simp_all add: settle_def split: option.split)

lemma created_mem:
  "r \<in> set (created sub n es) \<Longrightarrow>
     \<exists>(a, d) \<in> set es. ar_subscriberId r = sub \<and> ar_accessId r = a \<and> ar_purchaseId r = da_purchaseId d
       \<and> ar_isActive r \<and> ar_expiresDate r = da_expiresDate d \<and> ar_store r = da_store d
       \<and> n \<le> ar_id r \<and> ar_id r < n + length es"
  by (induction sub n es rule: created.induct) force+

lemma created_covers:
  "(a, d) \<in> set es \<Longrightarrow> \<exists>r \<in> set (created sub n es). ar_subscriberId r = sub \<and> ar_accessId r = a
     \<and> ar_purchaseId r = da_purchaseId d \<and> ar_isActive r \<and> ar_expiresDate r = da_expiresDate d
     \<and> ar_store r = da_store d"
  by (induction sub n es rule: created.induct) auto

lemma created_ids: "map ar_id (created sub n es) = [n..<n + length es]"
proof (induction sub n es rule: created.induct)
  case (2 sub n a d es)
  then show ?case by (simp add: upt_conv_Cons del: upt_Suc)
qed simp

lemma created_triples:
  "map (\<lambda>r. (ar_subscriberId r, ar_accessId r, ar_purchaseId r)) (created sub n es)
     = map (\<lambda>(a, d). (sub, a, da_purchaseId d)) es"
  by (induction sub n es rule: created.induct) auto

lemma distinct_created_triples:
  "distinct (map fst es) \<Longrightarrow> distinct (map (\<lambda>(a, d). (sub, a, da_purchaseId d)) es)"
  by (induction es) (auto simp: image_iff)

lemma sync_rows_ok:
  assumes ok: "access_db_ok db" and keys: "distinct (map fst desired)"
  shows "access_db_ok (sync_rows sub desired db)"
proof -
  let ?fresh = "filter (unmatched (findAllAccessBySubscriber db sub)) desired"
  have "distinct (map ar_id (ad_rows db @ created sub (ad_next db) ?fresh))"
    using ok by (auto simp: access_db_ok_def created_ids dest!: created_mem)
  moreover have "\<forall>r \<in> set (ad_rows db @ created sub (ad_next db) ?fresh). ar_id r < ad_next db + length ?fresh"
    using ok by (auto simp: access_db_ok_def trans_less_add1 dest!: created_mem)
  ultimately show ?thesis
    by (simp add: sync_rows_closed [OF ok keys] access_db_ok_def Let_def comp_def ball_Un)
qed

lemma sync_rows_unique:
  assumes ok: "access_db_ok db" and keys: "distinct (map fst desired)" and one: "one_row_per_grant db"
  shows "one_row_per_grant (sync_rows sub desired db)"
proof -
  let ?cur = "findAllAccessBySubscriber db sub"
  let ?fresh = "filter (unmatched ?cur) desired"
  let ?new = "created sub (ad_next db) ?fresh"
  let ?triple = "\<lambda>r. (ar_subscriberId r, ar_accessId r, ar_purchaseId r)"
  have "?triple r \<noteq> ?triple n" if "r \<in> set (ad_rows db)" "n \<in> set ?new" for r n
  proof
    assume eq: "?triple r = ?triple n"
    from created_mem [OF that(2)] obtain a d where ad: "(a, d) \<in> set ?fresh"
      and n: "ar_subscriberId n = sub" "ar_accessId n = a" "ar_purchaseId n = da_purchaseId d" by auto
    from eq n that(1) have "r \<in> set ?cur" "grants_target a d r"
      by (auto simp: findAllAccessBySubscriber_def grants_target_def)
    with ad show False by (auto simp: unmatched_def find_None_iff_all)
  qed
  moreover have "distinct (map ?triple ?new)"
    unfolding created_triples by (rule distinct_created_triples) (simp add: distinct_map_filterI keys)
  ultimately have "distinct (map ?triple (ad_rows db @ ?new))"
    using one by (auto simp: one_row_per_grant_def image_iff)
  then show ?thesis by (simp add: sync_rows_closed [OF ok keys] one_row_per_grant_def Let_def comp_def)
qed

text \<open>The rows of the subscriber afterwards.\<close>

lemma rows_after_sync:
  assumes ok: "access_db_ok db" and keys: "distinct (map fst desired)"
  shows "findAllAccessBySubscriber (sync_rows sub desired db) sub =
    map (settle sub desired (findAllAccessBySubscriber db sub)) (findAllAccessBySubscriber db sub)
    @ created sub (ad_next db) (filter (unmatched (findAllAccessBySubscriber db sub)) desired)"
proof -
  have mine: "filter (\<lambda>r. ar_subscriberId r = sub) (created sub n es) = created sub n es" for n es
    by (induction sub n es rule: created.induct) auto
  have "filter (\<lambda>r. ar_subscriberId r = sub) (map (settle sub desired c) rs)
      = map (settle sub desired c) (filter (\<lambda>r. ar_subscriberId r = sub) rs)" for c rs
    by (induction rs) simp_all
  then show ?thesis
    by (simp add: sync_rows_closed [OF ok keys] Let_def findAllAccessBySubscriber_def mine)
qed

text \<open>
  The subscriber's rows say what the desired set says: the first row of each desired grant is active
  with the target's window, and an active row belongs to a desired grant.
\<close>

definition rows_settled :: "(string, desired_access) js_map \<Rightarrow> access_row list \<Rightarrow> bool" where
  "rows_settled desired rows \<longleftrightarrow>
     (\<forall>(a, d) \<in> set desired. \<exists>r. find (grants_target a d) rows = Some r \<and> ar_isActive r \<and> ar_expiresDate r = da_expiresDate d)
     \<and> (\<forall>r \<in> set rows. ar_isActive r \<longrightarrow> target_for desired r \<noteq> None)"

lemma find_created:
  assumes "distinct (map fst es)" and "(a, d) \<in> set es"
  shows "\<exists>r. find (grants_target a d) (created sub n es) = Some r \<and> ar_isActive r \<and> ar_expiresDate r = da_expiresDate d"
  using assms
proof (induction sub n es rule: created.induct)
  case (2 sub n b e es)
  show ?case
  proof (cases "b = a")
    case True
    then have "e = d" using 2(2,3) by (auto simp: image_iff)
    then show ?thesis using True by (simp add: grants_target_def)
  next
    case False
    then show ?thesis using 2 by (auto simp: grants_target_def)
  qed
qed simp

lemma settled_after_sync:
  assumes ok: "access_db_ok db" and keys: "distinct (map fst desired)"
  shows "rows_settled desired (findAllAccessBySubscriber (sync_rows sub desired db) sub)"
proof -
  let ?cur = "findAllAccessBySubscriber db sub"
  let ?f = "settle sub desired ?cur"
  have found: "\<exists>r. find (grants_target a d) (map ?f ?cur @ created sub (ad_next db) (filter (unmatched ?cur) desired)) = Some r
      \<and> ar_isActive r \<and> ar_expiresDate r = da_expiresDate d" if e: "(a, d) \<in> set desired" for a d
  proof (cases "find (grants_target a d) ?cur")
    case None
    then have "(a, d) \<in> set (filter (unmatched ?cur) desired)" using e by (simp add: unmatched_def)
    then have "\<exists>r. find (grants_target a d) (created sub (ad_next db) (filter (unmatched ?cur) desired)) = Some r
        \<and> ar_isActive r \<and> ar_expiresDate r = da_expiresDate d"
      using keys by (intro find_created) (simp_all add: distinct_map_filterI)
    then show ?thesis using None by (simp add: find_append find_map_same grants_target_def)
  next
    case (Some r)
    note r = find_Some_iff_mem [OF Some]
    have "map_of desired a = Some d" using e keys by (simp add: map_of_eq_Some_iff)
    then have "target_for desired r = Some d" and a: "ar_accessId r = a" using r by (auto simp: target_for_def grants_target_def)
    moreover have "ar_subscriberId r = sub" using r by (simp add: findAllAccessBySubscriber_def)
    ultimately have "?f r = r\<lparr>ar_isActive := True, ar_expiresDate := da_expiresDate d\<rparr>"
      using Some by (simp add: settle_def)
    then show ?thesis using Some by (simp add: find_append find_map_same grants_target_def)
  qed
  have "target_for desired r \<noteq> None"
    if r: "r \<in> set (map ?f ?cur @ created sub (ad_next db) (filter (unmatched ?cur) desired))" "ar_isActive r" for r
  proof -
    from r(1) consider q where "q \<in> set ?cur" "r = ?f q" | "r \<in> set (created sub (ad_next db) (filter (unmatched ?cur) desired))"
      by auto
    then show ?thesis
    proof cases
      case 1
      then show ?thesis using r(2)
        by (auto simp: settle_def target_for_def findAllAccessBySubscriber_def split: option.splits if_splits)
    next
      case 2
      from created_mem [OF this] keys show ?thesis by (auto simp: target_for_def map_of_eq_Some_iff)
    qed
  qed
  then show ?thesis using found unfolding rows_settled_def rows_after_sync [OF ok keys] by blast
qed

lemma settled_noop:
  assumes ok: "access_db_ok db" and keys: "distinct (map fst desired)"
    and settled: "rows_settled desired (findAllAccessBySubscriber db sub)"
  shows "sync_rows sub desired db = db"
proof -
  let ?cur = "findAllAccessBySubscriber db sub"
  have same: "settle sub desired ?cur r = r" if r: "r \<in> set (ad_rows db)" for r
  proof (cases "ar_subscriberId r = sub")
    case True
    then have mem: "r \<in> set ?cur" using r by (simp add: findAllAccessBySubscriber_def)
    show ?thesis
    proof (cases "target_for desired r")
      case None
      then have "\<not> ar_isActive r" using settled mem by (auto simp: rows_settled_def)
      then show ?thesis using None True by (simp add: settle_def)
    next
      case (Some d)
      then have "(ar_accessId r, d) \<in> set desired"
        by (auto simp: target_for_def map_of_SomeD split: option.splits if_splits)
      then obtain q where q: "find (grants_target (ar_accessId r) d) ?cur = Some q" "ar_isActive q" "ar_expiresDate q = da_expiresDate d"
        using settled by (fastforce simp: rows_settled_def)
      then show ?thesis using Some True by (auto simp: settle_def)
    qed
  qed (simp add: settle_def)
  have "\<not> unmatched ?cur e" if "e \<in> set desired" for e
    using settled that by (cases e) (fastforce simp: rows_settled_def unmatched_def)
  then have "filter (unmatched ?cur) desired = []" by simp
  then show ?thesis using same by (simp add: sync_rows_closed [OF ok keys] Let_def map_idI)
qed

lemma sync_rows_noop_iff:
  assumes "access_db_ok db" and "distinct (map fst desired)"
  shows "sync_rows sub desired db = db \<longleftrightarrow> rows_settled desired (findAllAccessBySubscriber db sub)"
  using settled_noop [OF assms] settled_after_sync [OF assms, of sub] by metis

lemma sync_rows_idem:
  assumes "access_db_ok db" and "distinct (map fst desired)"
  shows "sync_rows sub desired (sync_rows sub desired db) = sync_rows sub desired db"
  using sync_rows_noop_iff [OF sync_rows_ok [OF assms] assms(2)] settled_after_sync [OF assms] by blast

text \<open>With one row per grant, an active row has the target's window.\<close>

lemma settled_unique:
  assumes "rows_settled desired rows" and "distinct (map (\<lambda>r. (ar_subscriberId r, ar_accessId r, ar_purchaseId r)) rows)"
    and "r \<in> set rows" and "ar_isActive r" and "\<And>q. q \<in> set rows \<Longrightarrow> ar_subscriberId q = sub"
  shows "\<exists>d. map_of desired (ar_accessId r) = Some d \<and> da_purchaseId d = ar_purchaseId r \<and> ar_expiresDate r = da_expiresDate d"
proof -
  obtain d where d: "map_of desired (ar_accessId r) = Some d" "da_purchaseId d = ar_purchaseId r"
    using assms(1,3,4) by (fastforce simp: rows_settled_def target_for_def split: option.splits if_splits)
  then obtain q where q: "find (grants_target (ar_accessId r) d) rows = Some q" "ar_expiresDate q = da_expiresDate d"
    using assms(1) map_of_SomeD [OF d(1)] by (fastforce simp: rows_settled_def)
  have "q = r"
    using find_Some_iff_mem [OF q(1)] assms(2,3,5) d(2) by (auto simp: grants_target_def dest: distinct_map_eqD)
  then show ?thesis using d q(2) by blast
qed

section \<open>A worked instance\<close>

text \<open>A catalogue, and a table whose only row stems from an earlier purchase.\<close>

definition sample_products :: "string \<rightharpoonup> string list" where
  "sample_products = [''prod'' \<mapsto> [''pro'']]"

definition sample_access :: access_db where
  "sample_access = \<lparr>ad_rows = [\<lparr>ar_id = 0, ar_subscriberId = ''sub'', ar_purchaseId = 7,
      ar_accessId = ''pro'', ar_isActive = True, ar_expiresDate = Some 300, ar_store = STRIPE\<rparr>],
     ad_next = 1\<rparr>"

lemma sample_access_ok: "access_db_ok sample_access"
  by (simp add: sample_access_def access_db_ok_def)

lemma sample_purchases:
  "findPurchasesWithAccessIds (sample_table ACTIVE 500) sample_products ''sub'' =
     [\<lparr>pa_id = 0, pa_status = ACTIVE, pa_expiresDate = Some 500, pa_gracePeriodExpires = None,
       pa_store = APP_STORE, pa_accessIds = [''pro'']\<rparr>]"
  by (simp add: findPurchasesWithAccessIds_def sample_table_def sample_purchase_def sample_products_def
      List.map_filter_def)

lemma sample_desired:
  "computeDesiredAccess (findPurchasesWithAccessIds (sample_table ACTIVE 500) sample_products ''sub'') 200
     = [(''pro'', \<lparr>da_purchaseId = 0, da_expiresDate = Some 500, da_store = APP_STORE\<rparr>)]"
  unfolding sample_purchases
  by (simp add: computeDesiredAccess_def counts_now_def pa_expiry_def entitlementExpiry_def
      status_simps grant_step_def desired_of_def)

section \<open>Reads after a reconciliation\<close>

definition served :: "timestamp \<Rightarrow> timestamp option \<Rightarrow> bool" where
  "served now expires = (case expires of None \<Rightarrow> True | Some e \<Rightarrow> now < e)"

lemma findActiveAccess_served:
  "r \<in> set (findActiveAccess db sub now) \<longleftrightarrow>
     r \<in> set (ad_rows db) \<and> ar_subscriberId r = sub \<and> ar_isActive r \<and> served now (ar_expiresDate r)"
  by (auto simp: findActiveAccess_def served_def split: option.splits)

lemma served_later: "served now a \<Longrightarrow> \<not> isLaterExpiry a b \<Longrightarrow> served now b"
  by (auto simp: served_def isLaterExpiry_def split: option.splits)

lemma served_counts: "served now (pa_expiry p) \<Longrightarrow> pa_status p \<in> {TRIAL, ACTIVE, GRACE_PERIOD} \<Longrightarrow> counts_now now p"
  by (auto simp: served_def counts_now_def status_simps split: option.splits)

text \<open>The longest-lived grant of an access id is served exactly when some grant of it is.\<close>

lemma desired_served:
  "(\<exists>d. map_of (computeDesiredAccess ps now) a = Some d \<and> served now (da_expiresDate d)) \<longleftrightarrow>
     (\<exists>p \<in> set ps. pa_status p \<in> {TRIAL, ACTIVE, GRACE_PERIOD} \<and> a \<in> set (pa_accessIds p)
        \<and> served now (pa_expiry p))" (is "?L \<longleftrightarrow> ?R")
proof
  assume ?L
  then show ?R by (auto dest!: desired_Some(1) simp: counts_now_def status_simps desired_of_def)
next
  assume ?R
  then obtain p where p: "p \<in> set ps" "counts_now now p" "a \<in> set (pa_accessIds p)" "served now (pa_expiry p)"
    using served_counts by blast
  then obtain d where d: "map_of (computeDesiredAccess ps now) a = Some d"
    using desired_None [of ps now a] by fastforce
  from desired_Some(2) [OF d p(1-3)] p(4) have "served now (da_expiresDate d)"
    by (blast intro: served_later)
  with d show ?L by blast
qed

text \<open>
  The purchases of the subscriber that grant an access id: with a window that is open, and with one
  that has not ended before (a window that ends at this very instant is in the second only).
\<close>

definition open_grant :: "purchase_db \<Rightarrow> (string \<rightharpoonup> string list) \<Rightarrow> string \<Rightarrow> string \<Rightarrow> timestamp \<Rightarrow> bool" where
  "open_grant pdb products sub a t \<longleftrightarrow>
     (\<exists>p \<in> set (findPurchasesWithAccessIds pdb products sub).
        pa_status p \<in> {TRIAL, ACTIVE, GRACE_PERIOD} \<and> a \<in> set (pa_accessIds p) \<and> served t (pa_expiry p))"

definition unended_grant :: "purchase_db \<Rightarrow> (string \<rightharpoonup> string list) \<Rightarrow> string \<Rightarrow> string \<Rightarrow> timestamp \<Rightarrow> bool" where
  "unended_grant pdb products sub a t \<longleftrightarrow>
     (\<exists>p \<in> set (findPurchasesWithAccessIds pdb products sub).
        pa_status p \<in> {TRIAL, ACTIVE, GRACE_PERIOD} \<and> a \<in> set (pa_accessIds p)
        \<and> (case pa_expiry p of None \<Rightarrow> True | Some e \<Rightarrow> t \<le> e))"

definition desired_for :: "purchase_db \<Rightarrow> (string \<rightharpoonup> string list) \<Rightarrow> string \<Rightarrow> timestamp \<Rightarrow> (string, desired_access) js_map" where
  "desired_for pdb products sub t = computeDesiredAccess (findPurchasesWithAccessIds pdb products sub) t"

lemma distinct_desired_for: "distinct (map fst (desired_for pdb products sub t))"
  by (simp add: desired_for_def distinct_desired)

lemma syncAccess_desired: "syncAccess pdb products sub t db = sync_rows sub (desired_for pdb products sub t) db"
  by (simp add: syncAccess_def desired_for_def)

lemma hasAccess_rows:
  "hasAccess db sub a t \<longleftrightarrow>
     (\<exists>r \<in> set (findAllAccessBySubscriber db sub). ar_isActive r \<and> ar_accessId r = a \<and> served t (ar_expiresDate r))"
  by (auto simp: hasAccess_def list_ex_iff findActiveAccess_served findAllAccessBySubscriber_def)

text \<open>What settled rows serve, duplicates included.\<close>

lemma settled_opens:
  assumes "rows_settled (desired_for pdb products sub t) (findAllAccessBySubscriber db sub)"
    and "open_grant pdb products sub a t"
  shows "hasAccess db sub a t"
proof -
  let ?desired = "desired_for pdb products sub t"
  have "\<exists>d. map_of ?desired a = Some d \<and> served t (da_expiresDate d)"
    using assms(2) unfolding open_grant_def desired_for_def by (rule desired_served [THEN iffD2])
  then obtain d where d: "map_of ?desired a = Some d" "served t (da_expiresDate d)" by blast
  obtain r where r: "find (grants_target a d) (findAllAccessBySubscriber db sub) = Some r" "ar_isActive r"
    "ar_expiresDate r = da_expiresDate d"
    using assms(1) map_of_SomeD [OF d(1)] unfolding rows_settled_def by fast
  have "r \<in> set (findAllAccessBySubscriber db sub)" "ar_accessId r = a"
    using find_Some_iff_mem [OF r(1)] by (simp_all add: grants_target_def)
  then show ?thesis using r(2,3) d(2) unfolding hasAccess_rows by auto
qed

lemma settled_closes:
  assumes "rows_settled (desired_for pdb products sub t) (findAllAccessBySubscriber db sub)"
    and "hasAccess db sub a t"
  shows "unended_grant pdb products sub a t"
proof -
  obtain r where "r \<in> set (findAllAccessBySubscriber db sub)" "ar_isActive r" "ar_accessId r = a"
    using assms(2) unfolding hasAccess_rows by blast
  then have "target_for (desired_for pdb products sub t) r \<noteq> None" "ar_accessId r = a"
    using assms(1) by (auto simp: rows_settled_def)
  then obtain d where "map_of (desired_for pdb products sub t) a = Some d"
    by (auto simp: target_for_def split: option.splits)
  from desired_Some(1) [OF this [unfolded desired_for_def]] obtain p
    where p: "p \<in> set (findPurchasesWithAccessIds pdb products sub)" "counts_now t p" "a \<in> set (pa_accessIds p)" by blast
  then show ?thesis unfolding unended_grant_def
    by (intro bexI [OF _ p(1)]) (auto simp: counts_now_def status_simps not_less split: option.splits)
qed

lemma settled_exact:
  assumes "rows_settled (desired_for pdb products sub t) (findAllAccessBySubscriber db sub)"
    and "one_row_per_grant db"
  shows "hasAccess db sub a t \<longleftrightarrow> open_grant pdb products sub a t"
proof
  let ?ps = "findPurchasesWithAccessIds pdb products sub"
  let ?rows = "findAllAccessBySubscriber db sub"
  assume "hasAccess db sub a t"
  then obtain r where r: "r \<in> set ?rows" "ar_isActive r" "ar_accessId r = a" "served t (ar_expiresDate r)"
    unfolding hasAccess_rows by blast
  have "distinct (map (\<lambda>r. (ar_subscriberId r, ar_accessId r, ar_purchaseId r)) ?rows)"
    using assms(2) by (simp add: one_row_per_grant_def findAllAccessBySubscriber_def distinct_map_filterI)
  moreover have "\<And>q. q \<in> set ?rows \<Longrightarrow> ar_subscriberId q = sub" by (simp add: findAllAccessBySubscriber_def)
  ultimately obtain d where "map_of (desired_for pdb products sub t) a = Some d" "ar_expiresDate r = da_expiresDate d"
    using settled_unique [OF assms(1) _ r(1,2), of sub] r(3) by blast
  then have "\<exists>d. map_of (desired_for pdb products sub t) a = Some d \<and> served t (da_expiresDate d)"
    using r(4) by auto
  then show "open_grant pdb products sub a t"
    unfolding open_grant_def desired_for_def by (rule desired_served [THEN iffD1])
qed (rule settled_opens [OF assms(1)])

lemmas settled_access = settled_opens settled_closes settled_exact

lemma settled_after_syncAccess:
  assumes "access_db_ok db"
  shows "rows_settled (desired_for pdb products sub t) (findAllAccessBySubscriber (syncAccess pdb products sub t db) sub)"
  unfolding syncAccess_desired by (rule settled_after_sync [OF assms distinct_desired_for])

lemma syncAccess_unique:
  "access_db_ok db \<Longrightarrow> one_row_per_grant db \<Longrightarrow> one_row_per_grant (syncAccess pdb products sub t db)"
  unfolding syncAccess_desired by (rule sync_rows_unique [OF _ distinct_desired_for])



text \<open>
  C20. The two write loops of the reconciliation compute the reference result, in every table: each
  row of the subscriber that is not of the chosen source of its access id is inactive, the first row
  of each source is active with the target expiry, further rows of the same source are as they
  were, each desired entry without a row gets exactly one new row, and rows of other subscribers
  are untouched.
\<close>

theorem syncAccess_closed_form:
  assumes "access_db_ok db"
  shows "syncAccess pdb products sub now db =
    (let desired = computeDesiredAccess (findPurchasesWithAccessIds pdb products sub) now;
         current = findAllAccessBySubscriber db sub;
         fresh = filter (unmatched current) desired
     in \<lparr>ad_rows = map (settle sub desired current) (ad_rows db) @ created sub (ad_next db) fresh,
         ad_next = ad_next db + length fresh\<rparr>)"
  unfolding syncAccess_def using sync_rows_closed [OF assms distinct_desired] by (simp add: Let_def)

theorem syncAccess_closed_form_witness:
  "map ar_isActive (ad_rows (syncAccess (sample_table ACTIVE 500) sample_products ''sub'' 200 sample_access))
     = [False, True]"
  unfolding syncAccess_closed_form [OF sample_access_ok] sample_desired
  by (simp add: sample_access_def findAllAccessBySubscriber_def unmatched_def grants_target_def settle_def
      target_for_def)

text \<open>
  The table of two rows of one grant, the second active with a later window than the purchase has:
  reconciliation at the instant at which the purchase's window ends leaves the second row serving.
\<close>

definition doubled_access :: access_db where
  "doubled_access = \<lparr>ad_rows = [
      \<lparr>ar_id = 0, ar_subscriberId = ''sub'', ar_purchaseId = 0, ar_accessId = ''pro'', ar_isActive = True,
       ar_expiresDate = Some 500, ar_store = APP_STORE\<rparr>,
      \<lparr>ar_id = 1, ar_subscriberId = ''sub'', ar_purchaseId = 0, ar_accessId = ''pro'', ar_isActive = True,
       ar_expiresDate = Some 900, ar_store = APP_STORE\<rparr>], ad_next = 2\<rparr>"

lemma double_row_outlives_grant:
  "hasAccess (syncAccess (sample_table ACTIVE 500) sample_products ''sub'' 500 doubled_access) ''sub'' ''pro'' 600"
  by code_simp

text \<open>
  Reconciliation preserves the primary keys and is idempotent: a second run at the same time
  writes nothing.
\<close>

lemma syncAccess_idempotent:
  assumes "access_db_ok db"
  shows "access_db_ok (syncAccess pdb products sub now db)
    \<and> syncAccess pdb products sub now (syncAccess pdb products sub now db) = syncAccess pdb products sub now db"
  unfolding syncAccess_def
  using sync_rows_ok [OF assms distinct_desired] sync_rows_idem [OF assms distinct_desired] by blast

lemma read_step_keep_best: "read_step r = keep_best_step later_entry (ar_accessId r, entry_of r)"
  by (rule ext)
    (simp add: read_step_def keep_best_step_def later_entry_def entry_of_def split: option.split)

lemma getActiveAccess_keep_best:
  "getActiveAccess db sub now =
     keep_best later_entry (map (\<lambda>r. (ar_accessId r, entry_of r)) (findActiveAccess db sub now)) []"
proof -
  have "fold read_step rs m = keep_best later_entry (map (\<lambda>r. (ar_accessId r, entry_of r)) rs) m" for rs m
    by (induction rs arbitrary: m) (simp_all add: read_step_keep_best)
  then show ?thesis by (simp add: getActiveAccess_def)
qed

section \<open>Drift\<close>

lemma filter_drift_empty: "filter (\<lambda>c. c \<in> A) DRIFT_CLASSES = [] \<longleftrightarrow> A = {}"
proof -
  have "c \<in> set DRIFT_CLASSES" for c by (cases c) (simp_all add: DRIFT_CLASSES_def)
  then show ?thesis by (auto simp: filter_empty_conv)
qed

lemma find_filter: "find P xs = Some r \<Longrightarrow> Q r \<Longrightarrow> find P (filter Q xs) = Some r"
  by (induction xs) (auto split: if_splits)

lemma row_drift_empty:
  assumes "\<And>d. map_of desired (ar_accessId r) = Some d \<Longrightarrow> da_purchaseId d \<in> set pids"
  shows "row_drift desired pids r = {} \<longleftrightarrow> target_for desired r \<noteq> None"
  using assms by (auto simp: row_drift_def target_for_def split: option.splits)

text \<open>Settled rows show no drift.\<close>

lemma settled_no_drift:
  assumes "rows_settled (desired_for pdb products sub t) (findAllAccessBySubscriber db sub)"
  shows "detectDrift pdb products db sub t = []"
proof -
  let ?ps = "findPurchasesWithAccessIds pdb products sub"
  let ?desired = "computeDesiredAccess ?ps t"
  let ?rows = "findAllAccessBySubscriber db sub"
  note settled = assms [unfolded desired_for_def rows_settled_def]
  have "target_drift (filter ar_isActive ?rows) e = {}" if "e \<in> set ?desired" for e
  proof -
    obtain a d where e: "e = (a, d)" by (cases e)
    then obtain r where "find (grants_target a d) ?rows = Some r" "ar_isActive r" "ar_expiresDate r = da_expiresDate d"
      using settled \<open>e \<in> set ?desired\<close> by fastforce
    then show ?thesis by (simp add: target_drift_def e find_filter)
  qed
  moreover have "row_drift ?desired (map pa_id ?ps) r = {}" if "r \<in> set (filter ar_isActive ?rows)" for r
  proof -
    have "da_purchaseId d \<in> set (map pa_id ?ps)" if "map_of ?desired (ar_accessId r) = Some d" for d
      using desired_Some(1) [OF that] by (auto simp: desired_of_def)
    then show ?thesis using settled that row_drift_empty by auto
  qed
  ultimately show ?thesis unfolding detectDrift_def Let_def filter_drift_empty by auto
qed

text \<open>
  Drift detection and the repair. When reconciliation at the same time would write nothing, no drift
  is reported; and with one row per grant the converse holds. (With two rows of a grant, the first
  inactive and the second right, nothing is reported although the repair would switch the first on.)
\<close>

lemma drift_sound:
  assumes "access_db_ok db" and "syncAccess pdb products sub now db = db"
  shows "detectDrift pdb products db sub now = []"
  using settled_no_drift settled_after_syncAccess [OF assms(1)] assms(2) by metis

lemma drift_complete:
  assumes ok: "access_db_ok db" and one: "one_row_per_grant db" and none: "detectDrift pdb products db sub now = []"
  shows "syncAccess pdb products sub now db = db"
proof -
  let ?ps = "findPurchasesWithAccessIds pdb products sub"
  let ?desired = "computeDesiredAccess ?ps now"
  let ?rows = "findAllAccessBySubscriber db sub"
  note empty = none [unfolded detectDrift_def Let_def filter_drift_empty]
  have "\<exists>r. find (grants_target a d) ?rows = Some r \<and> ar_isActive r \<and> ar_expiresDate r = da_expiresDate d"
    if "(a, d) \<in> set ?desired" for a d
  proof -
    have "target_drift (filter ar_isActive ?rows) (a, d) = {}" using empty that by auto
    then obtain r where r: "find (grants_target a d) (filter ar_isActive ?rows) = Some r" "ar_expiresDate r = da_expiresDate d"
      by (auto simp: target_drift_def split: option.splits if_splits)
    note mem = find_Some_iff_mem [OF r(1)]
    have "find (grants_target a d) ?rows = Some r"
    proof (rule find_unique)
      fix q assume q: "q \<in> set ?rows" "grants_target a d q"
      then have "(ar_subscriberId q, ar_accessId q, ar_purchaseId q) = (ar_subscriberId r, ar_accessId r, ar_purchaseId r)"
        using mem by (auto simp: findAllAccessBySubscriber_def grants_target_def)
      then show "q = r" using q(1) mem one
        by (auto simp: one_row_per_grant_def findAllAccessBySubscriber_def dest: distinct_map_eqD)
    qed (use mem in auto)
    then show ?thesis using r(2) mem by auto
  qed
  moreover have "target_for ?desired r \<noteq> None" if "r \<in> set ?rows" "ar_isActive r" for r
  proof -
    have "row_drift ?desired (map pa_id ?ps) r = {}" using empty that by auto
    then show ?thesis by (auto simp: row_drift_def target_for_def split: option.splits if_splits)
  qed
  ultimately have "rows_settled (desired_for pdb products sub now) ?rows" by (auto simp: rows_settled_def desired_for_def)
  then show ?thesis unfolding syncAccess_desired by (rule settled_noop [OF ok distinct_desired_for])
qed

end
