(* ===== verification/Json_Text.thy ===== *)
theory Json_Text
  imports Rovenue_Prelude "HOL-Library.List_Lexorder" "HOL-Library.Char_ord"
    "HOL-Library.Product_Lexorder"
begin

text \<open>
  JSON values as the program builds them, and decimal texts. An object is the list of its
  properties in insertion order; \<open>JDate\<close> is a \<^verbatim>\<open>Date\<close> object and \<open>JUndefined\<close> is
  \<^verbatim>\<open>undefined\<close>, which a value may hold before it is serialised. A date that the source puts
  into a payload through \<^verbatim>\<open>toISOString()\<close> is \<open>iso_json\<close> of its time value. Numbers are the
  integers: no modelled payload carries a fraction.
\<close>

datatype json =
  JNull | JUndefined | JBool bool | JNum int | JStr string | JDate timestamp
| JArr "json list" | JObj "(string \<times> json) list"

definition opt_str :: "string option \<Rightarrow> json" where
  "opt_str s = (case s of None \<Rightarrow> JNull | Some t \<Rightarrow> JStr t)"

text \<open>
  Property access \<^verbatim>\<open>v.k\<close>: \<open>None\<close> is undefined, on a non-object, for a missing key or for a
  property that holds undefined.
\<close>

definition jprop :: "json \<Rightarrow> string \<Rightarrow> json option" where
  "jprop v k =
     (case v of
        JObj ps \<Rightarrow> (case map_of ps k of Some JUndefined \<Rightarrow> None | x \<Rightarrow> x)
      | _ \<Rightarrow> None)"

definition str_prop :: "json \<Rightarrow> string \<Rightarrow> string option" where
  "str_prop v k = (case jprop v k of Some (JStr s) \<Rightarrow> Some s | _ \<Rightarrow> None)"

text \<open>\<^verbatim>\<open>typeof v === "object" && v !== null\<close>: arrays and dates are objects too.\<close>

definition is_object :: "json \<Rightarrow> bool" where
  "is_object v = (case v of JObj _ \<Rightarrow> True | JArr _ \<Rightarrow> True | JDate _ \<Rightarrow> True | _ \<Rightarrow> False)"

section \<open>Decimal texts\<close>

definition digit_char :: "nat \<Rightarrow> char" where
  "digit_char d = char_of (48 + d)"

fun nat_text :: "nat \<Rightarrow> string" where
  "nat_text n = (if n < 10 then [digit_char n] else nat_text (n div 10) @ [digit_char (n mod 10)])"

declare nat_text.simps [simp del]

definition digit_value :: "char \<Rightarrow> nat" where
  "digit_value c = of_char c - 48"

definition text_nat :: "string \<Rightarrow> nat" where
  "text_nat s = foldl (\<lambda>n c. 10 * n + digit_value c) 0 s"

lemma digit_value_digit_char [simp]: "d < 10 \<Longrightarrow> digit_value (digit_char d) = d"
  by (simp add: digit_value_def digit_char_def)

lemma text_nat_nat_text: "text_nat (nat_text n) = n"
proof (induction n rule: nat_text.induct)
  case (1 n)
  show ?case
  proof (cases "n < 10")
    case True
    then show ?thesis by (subst nat_text.simps) (simp add: text_nat_def)
  next
    case False
    then have "text_nat (nat_text n) = 10 * text_nat (nat_text (n div 10)) + n mod 10"
      by (subst nat_text.simps) (simp add: text_nat_def)
    with 1 False show ?thesis by simp
  qed
qed

lemma nat_text_inject [simp]: "nat_text m = nat_text n \<longleftrightarrow> m = n"
  by (metis text_nat_nat_text)

definition is_digit :: "char \<Rightarrow> bool" where
  "is_digit c = (48 \<le> (of_char c :: nat) \<and> (of_char c :: nat) \<le> 57)"

lemma is_digit_digit_char [simp]: "d < 10 \<Longrightarrow> is_digit (digit_char d)"
  by (simp add: is_digit_def digit_char_def)

lemma nat_text_digits: "c \<in> set (nat_text n) \<Longrightarrow> is_digit c"
proof (induction n rule: nat_text.induct)
  case (1 n)
  then show ?case by (subst (asm) (2) nat_text.simps) (auto split: if_splits)
qed

definition int_text :: "int \<Rightarrow> string" where
  "int_text i = (if i < 0 then ''-'' @ nat_text (nat (- i)) else nat_text (nat i))"

definition pad :: "nat \<Rightarrow> nat \<Rightarrow> string" where
  "pad w n = replicate (w - length (nat_text n)) (CHR ''0'') @ nat_text n"

section \<open>Dates\<close>

text \<open>
  \<^verbatim>\<open>toISOString()\<close>: the civil date of a number of days since 1970-01-01 (the days are
  counted in 400-year eras that begin on March 1), then the time of day. Times are those of the
  years 0 to 9999.
\<close>

definition civil :: "int \<Rightarrow> int \<times> int \<times> int" where
  "civil days =
     (let z = days + 719468;
          era = z div 146097;
          doe = z mod 146097;
          yoe = (doe - doe div 1460 + doe div 36524 - doe div 146096) div 365;
          doy = doe - (365 * yoe + yoe div 4 - yoe div 100);
          mp = (5 * doy + 2) div 153;
          d = doy - (153 * mp + 2) div 5 + 1;
          m = (if mp < 10 then mp + 3 else mp - 9)
      in (yoe + era * 400 + (if m \<le> 2 then 1 else 0), m, d))"

definition iso_day :: "timestamp \<Rightarrow> string" where
  "iso_day t = (case civil (t div 86400000) of
     (y, m, d) \<Rightarrow> pad 4 (nat y) @ ''-'' @ pad 2 (nat m) @ ''-'' @ pad 2 (nat d))"

definition toISOString :: "timestamp \<Rightarrow> string" where
  "toISOString t =
     (let ms = t mod 86400000
      in iso_day t @ ''T'' @ pad 2 (nat (ms div 3600000)) @ '':'' @ pad 2 (nat (ms div 60000 mod 60))
         @ '':'' @ pad 2 (nat (ms div 1000 mod 60)) @ ''.'' @ pad 3 (nat (ms mod 1000)) @ ''Z'')"

lemma toISOString_epoch: "toISOString 0 = ''1970-01-01T00:00:00.000Z''"
  by code_simp

lemma toISOString_leap_day: "toISOString 1709210096789 = ''2024-02-29T12:34:56.789Z''"
  by code_simp

section \<open>Serialisation\<close>

definition hex_digit :: "nat \<Rightarrow> char" where
  "hex_digit d = (if d < 10 then digit_char d else char_of (87 + d))"

definition json_char :: "char \<Rightarrow> string" where
  "json_char c =
     (if c = CHR 0x22 then [CHR 0x5C, CHR 0x22]
      else if c = CHR 0x5C then [CHR 0x5C, CHR 0x5C]
      else if c = CHR 0x08 then [CHR 0x5C, CHR ''b'']
      else if c = CHR 0x0C then [CHR 0x5C, CHR ''f'']
      else if c = CHR 0x0A then [CHR 0x5C, CHR ''n'']
      else if c = CHR 0x0D then [CHR 0x5C, CHR ''r'']
      else if c = CHR 0x09 then [CHR 0x5C, CHR ''t'']
      else if (of_char c :: nat) < 32
      then [CHR 0x5C] @ ''u00'' @ [hex_digit (of_char c div 16), hex_digit (of_char c mod 16)]
      else [c])"

definition json_quote :: "string \<Rightarrow> string" where
  "json_quote s = [CHR 0x22] @ concat (map json_char s) @ [CHR 0x22]"

definition iso_json :: "timestamp \<Rightarrow> json" where
  "iso_json t = JStr (toISOString t)"

text \<open>
  \<^verbatim>\<open>JSON.stringify\<close>: a date is its ISO text, an undefined property is left out and an undefined
  element is null. (A value that is undefined as a whole has no text; no caller passes one.)
\<close>

fun JSON_stringify :: "json \<Rightarrow> string" where
  "JSON_stringify JNull = ''null''"
| "JSON_stringify JUndefined = ''null''"
| "JSON_stringify (JBool b) = (if b then ''true'' else ''false'')"
| "JSON_stringify (JNum i) = int_text i"
| "JSON_stringify (JStr s) = json_quote s"
| "JSON_stringify (JDate t) = json_quote (toISOString t)"
| "JSON_stringify (JArr vs) = ''['' @ join_text '','' (map JSON_stringify vs) @ '']''"
| "JSON_stringify (JObj ps) =
     [CHR 0x7B]
       @ join_text '','' (concat (map (\<lambda>(k, v).
           if v = JUndefined then [] else [json_quote k @ '':'' @ JSON_stringify v]) ps))
       @ [CHR 0x7D]"

text \<open>What a \<^verbatim>\<open>jsonb\<close> column gives back for a value that was stored in it.\<close>

fun stored_json :: "json \<Rightarrow> json" where
  "stored_json JNull = JNull"
| "stored_json JUndefined = JUndefined"
| "stored_json (JBool b) = JBool b"
| "stored_json (JNum i) = JNum i"
| "stored_json (JStr s) = JStr s"
| "stored_json (JDate t) = iso_json t"
| "stored_json (JArr vs) = JArr (map (\<lambda>v. if v = JUndefined then JNull else stored_json v) vs)"
| "stored_json (JObj ps) =
     JObj (filter (\<lambda>kv. snd kv \<noteq> JUndefined) (map (\<lambda>(k, v). (k, stored_json v)) ps))"

text \<open>A value that is JSON already: no dates and nothing undefined in it.\<close>

fun plain_json :: "json \<Rightarrow> bool" where
  "plain_json JUndefined = False"
| "plain_json (JDate t) = False"
| "plain_json (JArr vs) = list_all plain_json vs"
| "plain_json (JObj ps) = list_all (\<lambda>(k, v). plain_json v) ps"
| "plain_json _ = True"

lemma stored_plain: "plain_json v \<Longrightarrow> stored_json v = v"
proof (induction v)
  case (JArr vs)
  then have "(if v = JUndefined then JNull else stored_json v) = v" if "v \<in> set vs" for v
    using that by (auto simp: list_all_iff)
  then show ?case by (simp add: map_idI)
next
  case (JObj ps)
  have plain: "plain_json (snd kv)" if "kv \<in> set ps" for kv using JObj.prems that by (auto simp: list_all_iff)
  have "stored_json (snd kv) = snd kv" if "kv \<in> set ps" for kv
    using JObj.IH [of kv "snd kv"] plain [OF that] that by (simp add: snds.intros)
  moreover have "snd kv \<noteq> JUndefined" if "kv \<in> set ps" for kv
    using plain [OF that] by (metis plain_json.simps(1))
  ultimately show ?case by (auto simp: case_prod_unfold map_idI intro!: filter_True)
qed simp_all

lemma stored_undefined [simp]: "stored_json v = JUndefined \<longleftrightarrow> v = JUndefined"
  by (cases v) (simp_all add: iso_json_def)

lemma stored_date_property:
  "map_of ps k = Some (JDate t) \<Longrightarrow> jprop (stored_json (JObj ps)) k = Some (iso_json t)"
  by (induction ps) (auto simp: jprop_def iso_json_def split: if_splits)

end
