(* ===== verification/Outbox.thy ===== *)
theory Outbox
  imports Json_Text
begin

text \<open>
  \<^verbatim>\<open>packages/db/src/drizzle/repositories/outbox.ts\<close> and
  \<^verbatim>\<open>apps/api/src/lib/outbox-topics.ts\<close>: the transactional outbox that every domain write
  appends to in its own transaction, and the topic each row is published on.
\<close>

section \<open>Rows and topics\<close>

datatype aggregate_type =
  EXPOSURE | REVENUE_EVENT | CREDIT_LEDGER | BILLING | NOTIFICATION | FUNNEL
| PAYWALL_EVENT | SUBSCRIPTION | MCP_ACCESS

fun AGGREGATE_TO_TOPIC :: "aggregate_type \<Rightarrow> string" where
  "AGGREGATE_TO_TOPIC EXPOSURE = ''rovenue.exposures''"
| "AGGREGATE_TO_TOPIC REVENUE_EVENT = ''rovenue.revenue''"
| "AGGREGATE_TO_TOPIC CREDIT_LEDGER = ''rovenue.credit''"
| "AGGREGATE_TO_TOPIC BILLING = ''rovenue.billing''"
| "AGGREGATE_TO_TOPIC NOTIFICATION = ''rovenue.notifications''"
| "AGGREGATE_TO_TOPIC FUNNEL = ''rovenue.funnel''"
| "AGGREGATE_TO_TOPIC PAYWALL_EVENT = ''rovenue.paywall_events''"
| "AGGREGATE_TO_TOPIC SUBSCRIPTION = ''rovenue.subscription''"
| "AGGREGATE_TO_TOPIC MCP_ACCESS = ''rovenue.mcp_access''"

fun aggregate_name :: "aggregate_type \<Rightarrow> string" where
  "aggregate_name EXPOSURE = ''EXPOSURE''"
| "aggregate_name REVENUE_EVENT = ''REVENUE_EVENT''"
| "aggregate_name CREDIT_LEDGER = ''CREDIT_LEDGER''"
| "aggregate_name BILLING = ''BILLING''"
| "aggregate_name NOTIFICATION = ''NOTIFICATION''"
| "aggregate_name FUNNEL = ''FUNNEL''"
| "aggregate_name PAYWALL_EVENT = ''PAYWALL_EVENT''"
| "aggregate_name SUBSCRIPTION = ''SUBSCRIPTION''"
| "aggregate_name MCP_ACCESS = ''MCP_ACCESS''"

definition all_aggregates :: "aggregate_type list" where
  "all_aggregates = [EXPOSURE, REVENUE_EVENT, CREDIT_LEDGER, BILLING, NOTIFICATION, FUNNEL,
     PAYWALL_EVENT, SUBSCRIPTION, MCP_ACCESS]"

definition topicForAggregateType :: "string \<Rightarrow> string option" where
  "topicForAggregateType name =
     map_option AGGREGATE_TO_TOPIC (find (\<lambda>a. aggregate_name a = name) all_aggregates)"

record outbox_event =
  ob_id :: string
  ob_aggregateType :: aggregate_type
  ob_aggregateId :: string
  ob_eventType :: string
  ob_payload :: json
  ob_createdAt :: timestamp
  ob_publishedAt :: "timestamp option"

type_synonym outbox = "outbox_event list"

section \<open>Operations of the repository\<close>

definition outbox_insert :: "outbox \<Rightarrow> outbox_event \<Rightarrow> outbox" where
  "outbox_insert ob row = ob @ [row]"

definition bridged :: "aggregate_type \<Rightarrow> string \<Rightarrow> string \<Rightarrow> string \<Rightarrow> string \<Rightarrow> outbox_event \<Rightarrow> bool" where
  "bridged ty aggregateId eventType key v r =
     (ob_aggregateType r = ty \<and> ob_aggregateId r = aggregateId \<and> ob_eventType r = eventType
      \<and> str_prop (ob_payload r) key = Some v)"

definition findByPurchaseAndType ::
  "outbox \<Rightarrow> aggregate_type \<Rightarrow> string \<Rightarrow> string \<Rightarrow> string \<Rightarrow> outbox_event option" where
  "findByPurchaseAndType ob ty aggregateId eventType purchaseId =
     find (bridged ty aggregateId eventType ''purchaseId'' purchaseId) ob"

definition findByWebhookEventAndType ::
  "outbox \<Rightarrow> aggregate_type \<Rightarrow> string \<Rightarrow> string \<Rightarrow> string \<Rightarrow> outbox_event option" where
  "findByWebhookEventAndType ob ty aggregateId eventType webhookEventId =
     find (bridged ty aggregateId eventType ''webhookEventId'' webhookEventId) ob"

definition unpublished :: "outbox \<Rightarrow> outbox_event list" where
  "unpublished ob = filter (\<lambda>r. ob_publishedAt r = None) ob"

definition claimBatch :: "outbox \<Rightarrow> nat \<Rightarrow> outbox_event list" where
  "claimBatch ob limit = take limit (sort_key ob_createdAt (unpublished ob))"

definition mark_row :: "timestamp \<Rightarrow> string list \<Rightarrow> outbox_event \<Rightarrow> outbox_event" where
  "mark_row now ids r =
     (if ob_id r \<in> set ids \<and> ob_publishedAt r = None then r\<lparr>ob_publishedAt := Some now\<rparr> else r)"

definition markPublished :: "outbox \<Rightarrow> timestamp \<Rightarrow> string list \<Rightarrow> outbox" where
  "markPublished ob now ids = (if ids = [] then ob else map (mark_row now ids) ob)"

definition countUnpublished :: "outbox \<Rightarrow> nat" where
  "countUnpublished ob = length (unpublished ob)"

text \<open>
  \<open>monthStart\<close> is the first instant of the current UTC month, so that comparing truncated
  months is comparing the creation time with it.
\<close>

definition deletable :: "timestamp \<Rightarrow> timestamp \<Rightarrow> aggregate_type list \<Rightarrow> outbox_event \<Rightarrow> bool" where
  "deletable monthStart cutoff retain r =
     ((case ob_publishedAt r of None \<Rightarrow> False | Some p \<Rightarrow> p < cutoff)
      \<and> (retain = [] \<or> ob_aggregateType r \<notin> set retain \<or> ob_createdAt r < monthStart))"

definition published_key :: "outbox_event \<Rightarrow> timestamp" where
  "published_key r = (case ob_publishedAt r of None \<Rightarrow> 0 | Some p \<Rightarrow> p)"

definition deletePublishedOlderThan ::
  "outbox \<Rightarrow> timestamp \<Rightarrow> timestamp \<Rightarrow> nat \<Rightarrow> aggregate_type list \<Rightarrow> nat \<times> outbox" where
  "deletePublishedOlderThan ob monthStart cutoff batchSize retain =
     (let victims = map ob_id (take batchSize
            (sort_key published_key (filter (deletable monthStart cutoff retain) ob)))
      in (length (filter (\<lambda>r. ob_id r \<in> set victims) ob),
          filter (\<lambda>r. ob_id r \<notin> set victims) ob))"

section \<open>Facts about the repository\<close>

definition outbox_ok :: "outbox \<Rightarrow> bool" where
  "outbox_ok ob = distinct (map ob_id ob)"

lemma topics_distinct: "AGGREGATE_TO_TOPIC a = AGGREGATE_TO_TOPIC b \<longleftrightarrow> a = b"
  by (cases a; cases b) simp_all

lemma topicForAggregateType_name: "topicForAggregateType (aggregate_name a) = Some (AGGREGATE_TO_TOPIC a)"
  by (cases a) (simp_all add: topicForAggregateType_def all_aggregates_def)

lemma mem_claimBatch: "r \<in> set (claimBatch ob n) \<Longrightarrow> r \<in> set ob \<and> ob_publishedAt r = None"
  by (auto simp: claimBatch_def unpublished_def dest: in_set_takeD)

lemma length_claimBatch: "length (claimBatch ob n) = min (countUnpublished ob) n"
  by (simp add: claimBatch_def countUnpublished_def min.commute)

lemma mark_row_keys [row_simps, simp]:
  "ob_id (mark_row now ids r) = ob_id r"
  "ob_aggregateType (mark_row now ids r) = ob_aggregateType r"
  "ob_createdAt (mark_row now ids r) = ob_createdAt r"
  "ob_payload (mark_row now ids r) = ob_payload r"
  by (simp_all add: mark_row_def)

lemma markPublished_map: "markPublished ob now ids = map (mark_row now ids) ob"
proof (cases "ids = []")
  case True
  then have "mark_row now ids = (\<lambda>r. r)" by (simp add: mark_row_def fun_eq_iff)
  with True show ?thesis by (simp add: markPublished_def)
qed (simp add: markPublished_def)

lemma markPublished_ok: "outbox_ok ob \<Longrightarrow> outbox_ok (markPublished ob now ids)"
  by (simp add: outbox_ok_def markPublished_map comp_def)

lemma unpublished_markPublished:
  "unpublished (markPublished ob now ids) = filter (\<lambda>r. ob_id r \<notin> set ids) (unpublished ob)"
  unfolding markPublished_map unpublished_def
  by (induction ob) (auto simp: mark_row_def)

end
