(* ===== verification/Credit_Ledger.thy ===== *)
theory Credit_Ledger
  imports Outbox
begin

text \<open>
  \<^verbatim>\<open>apps/api/src/services/credit-engine.ts\<close> over
  \<^verbatim>\<open>packages/db/src/drizzle/repositories/credit-ledger.ts\<close>: the append-only ledger of virtual
  currency, the running balance it carries, and the grants, spends and refunds written to it.

  One call is one transaction that holds the advisory lock of its wallet from before the first
  read to the commit, so calls on a wallet are sequential and a call is a function of the
  ledger it found. What the database and the id generator supply is an argument: the start
  time of the transaction (\<^verbatim>\<open>createdAt\<close> is \<^verbatim>\<open>DEFAULT now()\<close>, which is the time the
  transaction began, before it waited for the lock) and the fresh ids.
\<close>

section \<open>Rows, arguments and errors\<close>

datatype credit_ledger_type = CL_PURCHASE | CL_SPEND | CL_REFUND | CL_BONUS | CL_EXPIRE | CL_TRANSFER_IN | CL_TRANSFER_OUT

fun ledger_type_name :: "credit_ledger_type \<Rightarrow> string" where
  "ledger_type_name CL_PURCHASE = ''PURCHASE''"
| "ledger_type_name CL_SPEND = ''SPEND''"
| "ledger_type_name CL_REFUND = ''REFUND''"
| "ledger_type_name CL_BONUS = ''BONUS''"
| "ledger_type_name CL_EXPIRE = ''EXPIRE''"
| "ledger_type_name CL_TRANSFER_IN = ''TRANSFER_IN''"
| "ledger_type_name CL_TRANSFER_OUT = ''TRANSFER_OUT''"

record ledger_entry =
  le_projectId :: string
  le_subscriberId :: string
  le_currencyId :: string
  le_type :: credit_ledger_type
  le_amount :: int
  le_balance :: int
  le_referenceType :: "string option"
  le_referenceId :: "string option"
  le_description :: "string option"
  le_metadata :: "json option"

record ledger_row = ledger_entry +
  cl_id :: string
  cl_createdAt :: timestamp

record ledger_db =
  lg_rows :: "ledger_row list"
  lg_subscribers :: "(string \<times> string) list"
  lg_currencies :: "string list"
  lg_outbox :: outbox

record ledger_tx =
  lt_start :: timestamp
  lt_rowId :: string
  lt_outboxId :: string

datatype credit_error =
  Amount_Not_Positive
| Subscriber_Not_Found string
| InsufficientCreditsError int int
| Integer_Out_Of_Range
| Currency_Foreign_Key
| Balance_Check_Violation

record add_args =
  aa_subscriberId :: string
  aa_currencyId :: string
  aa_amount :: int
  aa_type :: "credit_ledger_type option"
  aa_referenceType :: "string option"
  aa_referenceId :: "string option"
  aa_description :: "string option"
  aa_metadata :: "json option"
  aa_dedupeOnReference :: bool

record spend_args =
  sa_subscriberId :: string
  sa_currencyId :: string
  sa_amount :: int
  sa_referenceType :: "string option"
  sa_referenceId :: "string option"
  sa_description :: "string option"
  sa_metadata :: "json option"
  sa_dedupeOnReference :: bool

record refund_args =
  ra_subscriberId :: string
  ra_currencyId :: string
  ra_amount :: int
  ra_referenceId :: string
  ra_referenceType :: "string option"
  ra_description :: "string option"
  ra_metadata :: "json option"

section \<open>The repository\<close>

definition in_wallet :: "string \<Rightarrow> string \<Rightarrow> ledger_row \<Rightarrow> bool" where
  "in_wallet s c r = (le_subscriberId r = s \<and> le_currencyId r = c)"

definition by_reference :: "string \<Rightarrow> string \<Rightarrow> string \<Rightarrow> string \<Rightarrow> ledger_row \<Rightarrow> bool" where
  "by_reference s referenceType referenceId c r =
     (le_subscriberId r = s \<and> le_referenceType r = Some referenceType
      \<and> le_referenceId r = Some referenceId \<and> le_currencyId r = c)"

definition findExistingCreditByReference ::
  "ledger_db \<Rightarrow> string \<Rightarrow> string \<Rightarrow> string \<Rightarrow> string \<Rightarrow> string option" where
  "findExistingCreditByReference db s referenceType referenceId c =
     map_option cl_id (find (by_reference s referenceType referenceId c) (lg_rows db))"

text \<open>\<^verbatim>\<open>ORDER BY createdAt DESC, id DESC LIMIT 1\<close>.\<close>

definition ledger_key :: "ledger_row \<Rightarrow> timestamp \<times> string" where
  "ledger_key r = (cl_createdAt r, cl_id r)"

definition latest_step :: "ledger_row \<Rightarrow> ledger_row option \<Rightarrow> ledger_row option" where
  "latest_step r best =
     (case best of None \<Rightarrow> Some r | Some b \<Rightarrow> if ledger_key b < ledger_key r then Some r else best)"

definition latest :: "ledger_row list \<Rightarrow> ledger_row option" where
  "latest rs = fold latest_step rs None"

definition findLatestBalance :: "ledger_db \<Rightarrow> string \<Rightarrow> string \<Rightarrow> int option" where
  "findLatestBalance db s c = map_option le_balance (latest (filter (in_wallet s c) (lg_rows db)))"

definition findAllBalances :: "ledger_db \<Rightarrow> string \<Rightarrow> (string \<times> int) list" where
  "findAllBalances db s =
     map (\<lambda>c. (c, case findLatestBalance db s c of None \<Rightarrow> 0 | Some b \<Rightarrow> b))
       (sort (remdups (map le_currencyId (filter (\<lambda>r. le_subscriberId r = s) (lg_rows db)))))"

definition int4 :: "int \<Rightarrow> bool" where
  "int4 n = (- (2 ^ 31) \<le> n \<and> n < 2 ^ 31)"

definition ledger_payload :: "ledger_row \<Rightarrow> json" where
  "ledger_payload r = JObj
     [(''creditLedgerId'', JStr (cl_id r)), (''projectId'', JStr (le_projectId r)),
      (''subscriberId'', JStr (le_subscriberId r)), (''currencyId'', JStr (le_currencyId r)),
      (''type'', JStr (ledger_type_name (le_type r))), (''amount'', JNum (le_amount r)),
      (''balance'', JNum (le_balance r)), (''referenceType'', opt_str (le_referenceType r)),
      (''referenceId'', opt_str (le_referenceId r)), (''createdAt'', iso_json (cl_createdAt r))]"

definition ledger_event :: "ledger_tx \<Rightarrow> ledger_row \<Rightarrow> outbox_event" where
  "ledger_event tx r = \<lparr>ob_id = lt_outboxId tx, ob_aggregateType = CREDIT_LEDGER,
     ob_aggregateId = cl_id r, ob_eventType = ''credit.ledger.appended'',
     ob_payload = ledger_payload r, ob_createdAt = lt_start tx, ob_publishedAt = None\<rparr>"

definition insertCreditLedger ::
  "ledger_tx \<Rightarrow> ledger_db \<Rightarrow> ledger_entry \<Rightarrow> credit_error + ledger_row \<times> ledger_db" where
  "insertCreditLedger tx db e =
     (if \<not> int4 (le_amount e) \<or> \<not> int4 (le_balance e) then Inl Integer_Out_Of_Range
      else if le_balance e < 0 then Inl Balance_Check_Violation
      else if le_currencyId e \<notin> set (lg_currencies db) then Inl Currency_Foreign_Key
      else
        let row = ledger_entry.extend e \<lparr>cl_id = lt_rowId tx, cl_createdAt = lt_start tx\<rparr>
        in Inr (row, db\<lparr>lg_rows := lg_rows db @ [row],
                        lg_outbox := outbox_insert (lg_outbox db) (ledger_event tx row)\<rparr>))"

section \<open>The engine\<close>

definition getBalance :: "ledger_db \<Rightarrow> string \<Rightarrow> string \<Rightarrow> int" where
  "getBalance db s c = (case findLatestBalance db s c of None \<Rightarrow> 0 | Some b \<Rightarrow> b)"

definition getAllBalances :: "ledger_db \<Rightarrow> string \<Rightarrow> (string \<times> int) list" where
  "getAllBalances db s = findAllBalances db s"

definition grant_duplicate :: "add_args \<Rightarrow> ledger_db \<Rightarrow> ledger_row option" where
  "grant_duplicate args db =
     (case (aa_referenceType args, aa_referenceId args) of
        (Some ty, Some rid) \<Rightarrow>
          if aa_dedupeOnReference args \<and> truthy (aa_referenceId args) \<and> truthy (aa_referenceType args)
          then find (by_reference (aa_subscriberId args) ty rid (aa_currencyId args)) (lg_rows db)
          else None
      | _ \<Rightarrow> None)"

definition addCredits ::
  "ledger_tx \<Rightarrow> ledger_db \<Rightarrow> add_args \<Rightarrow> credit_error + ledger_row \<times> ledger_db" where
  "addCredits tx db args =
     (if aa_amount args \<le> 0 then Inl Amount_Not_Positive
      else case map_of (lg_subscribers db) (aa_subscriberId args) of
        None \<Rightarrow> Inl (Subscriber_Not_Found (aa_subscriberId args))
      | Some projectId \<Rightarrow>
          (case grant_duplicate args db of
             Some existing \<Rightarrow> Inr (existing, db)
           | None \<Rightarrow>
               insertCreditLedger tx db
                 \<lparr>le_projectId = projectId, le_subscriberId = aa_subscriberId args,
                  le_currencyId = aa_currencyId args,
                  le_type = (case aa_type args of None \<Rightarrow> CL_PURCHASE | Some t \<Rightarrow> t),
                  le_amount = aa_amount args,
                  le_balance = getBalance db (aa_subscriberId args) (aa_currencyId args) + aa_amount args,
                  le_referenceType = aa_referenceType args, le_referenceId = aa_referenceId args,
                  le_description = aa_description args, le_metadata = aa_metadata args\<rparr>))"

definition spend_duplicate :: "spend_args \<Rightarrow> ledger_db \<Rightarrow> ledger_row option" where
  "spend_duplicate args db =
     (if sa_dedupeOnReference args \<and> truthy (sa_referenceId args)
      then find (\<lambda>r. in_wallet (sa_subscriberId args) (sa_currencyId args) r
                   \<and> le_type r = CL_SPEND \<and> le_referenceId r = sa_referenceId args) (lg_rows db)
      else None)"

definition spendCredits ::
  "ledger_tx \<Rightarrow> ledger_db \<Rightarrow> spend_args \<Rightarrow> credit_error + ledger_row \<times> ledger_db" where
  "spendCredits tx db args =
     (if sa_amount args \<le> 0 then Inl Amount_Not_Positive
      else case map_of (lg_subscribers db) (sa_subscriberId args) of
        None \<Rightarrow> Inl (Subscriber_Not_Found (sa_subscriberId args))
      | Some projectId \<Rightarrow>
          (case spend_duplicate args db of
             Some existing \<Rightarrow> Inr (existing, db)
           | None \<Rightarrow>
               (let prevBalance = getBalance db (sa_subscriberId args) (sa_currencyId args) in
                if prevBalance < sa_amount args
                then Inl (InsufficientCreditsError prevBalance (sa_amount args))
                else insertCreditLedger tx db
                  \<lparr>le_projectId = projectId, le_subscriberId = sa_subscriberId args,
                   le_currencyId = sa_currencyId args, le_type = CL_SPEND,
                   le_amount = - sa_amount args, le_balance = prevBalance - sa_amount args,
                   le_referenceType = sa_referenceType args, le_referenceId = sa_referenceId args,
                   le_description = sa_description args, le_metadata = sa_metadata args\<rparr>)))"

definition refund_as_add :: "refund_args \<Rightarrow> add_args" where
  "refund_as_add args =
     \<lparr>aa_subscriberId = ra_subscriberId args, aa_currencyId = ra_currencyId args,
      aa_amount = ra_amount args, aa_type = Some CL_REFUND,
      aa_referenceType = Some (case ra_referenceType args of None \<Rightarrow> ''refund'' | Some t \<Rightarrow> t),
      aa_referenceId = Some (ra_referenceId args), aa_description = ra_description args,
      aa_metadata = ra_metadata args, aa_dedupeOnReference = True\<rparr>"

definition refundCredits ::
  "ledger_tx \<Rightarrow> ledger_db \<Rightarrow> refund_args \<Rightarrow> credit_error + ledger_row \<times> ledger_db" where
  "refundCredits tx db args = addCredits tx db (refund_as_add args)"

section \<open>The latest row\<close>

lemma latest_append [simp]: "latest (rs @ [r]) = latest_step r (latest rs)"
  by (simp add: latest_def)

lemma latest_Nil [simp]: "latest [] = None"
  by (simp add: latest_def)

lemma latest_single [simp]: "latest [r] = Some r"
  by (simp add: latest_def latest_step_def)

lemma latest_Some:
  "latest rs = Some b \<Longrightarrow> b \<in> set rs \<and> (\<forall>r \<in> set rs. ledger_key r \<le> ledger_key b)"
proof (induction rs arbitrary: b rule: rev_induct)
  case (snoc r rs)
  show ?case
  proof (cases "latest rs")
    case None
    then have "rs = []" by (cases rs rule: rev_cases) (auto simp: latest_step_def split: option.splits if_splits)
    with snoc.prems show ?thesis by (auto simp: latest_step_def)
  next
    case (Some c)
    from snoc.IH [OF this] snoc.prems Some show ?thesis
      by (fastforce simp: latest_step_def split: if_splits)
  qed
qed simp

lemma latest_newest:
  assumes "\<And>x. x \<in> set rs \<Longrightarrow> ledger_key x < ledger_key r"
  shows "latest (rs @ [r]) = Some r"
  using assms latest_Some [of rs] by (auto simp: latest_step_def split: option.split)

lemma latest_stale:
  assumes "x \<in> set rs" and "ledger_key r < ledger_key x"
  shows "latest (rs @ [r]) = latest rs"
proof (cases "latest rs")
  case None
  have "rs \<noteq> []" using assms(1) by auto
  with None show ?thesis
    by (cases rs rule: rev_cases) (auto simp: latest_step_def split: option.splits if_splits)
next
  case (Some b)
  from latest_Some [OF Some] assms have "ledger_key r < ledger_key b" by (meson less_le_trans)
  with Some show ?thesis by (simp add: latest_step_def)
qed

section \<open>Wallets\<close>

definition wallet_rows :: "ledger_db \<Rightarrow> string \<Rightarrow> string \<Rightarrow> ledger_row list" where
  "wallet_rows db s c = filter (in_wallet s c) (lg_rows db)"

definition wallet_total :: "ledger_db \<Rightarrow> string \<Rightarrow> string \<Rightarrow> int" where
  "wallet_total db s c = sum_list (map le_amount (wallet_rows db s c))"

lemma getBalance_latest:
  "getBalance db s c = (case latest (wallet_rows db s c) of None \<Rightarrow> 0 | Some r \<Rightarrow> le_balance r)"
  by (simp add: getBalance_def findLatestBalance_def wallet_rows_def split: option.split)

text \<open>Every row of a wallet carries the sum of the amounts up to it.\<close>

fun running :: "int \<Rightarrow> ledger_row list \<Rightarrow> bool" where
  "running acc [] = True"
| "running acc (r # rs) = (le_balance r = acc + le_amount r \<and> 0 \<le> le_balance r \<and> running (le_balance r) rs)"

definition in_order :: "ledger_row list \<Rightarrow> bool" where
  "in_order rs = sorted_wrt (\<lambda>a b. ledger_key a < ledger_key b) rs"

definition ledger_ok :: "ledger_db \<Rightarrow> bool" where
  "ledger_ok db = (\<forall>s c. running 0 (wallet_rows db s c) \<and> in_order (wallet_rows db s c))"

lemma running_append:
  "running acc (rs @ [r]) \<longleftrightarrow> running acc rs
     \<and> le_balance r = acc + sum_list (map le_amount rs) + le_amount r \<and> 0 \<le> le_balance r"
  by (induction rs arbitrary: acc) (auto simp: algebra_simps)

lemma in_order_append:
  "in_order (rs @ [r]) \<longleftrightarrow> in_order rs \<and> (\<forall>x \<in> set rs. ledger_key x < ledger_key r)"
  by (auto simp: in_order_def sorted_wrt_append)

lemma ordered_wallet_balance:
  assumes "running 0 rs" and "in_order rs"
  shows "(case latest rs of None \<Rightarrow> 0 | Some r \<Rightarrow> le_balance r) = sum_list (map le_amount rs)
    \<and> 0 \<le> sum_list (map le_amount rs)"
proof (cases rs rule: rev_cases)
  case (snoc xs r)
  have "latest (xs @ [r]) = Some r"
    by (rule latest_newest) (use assms(2) snoc in \<open>auto simp: in_order_append\<close>)
  with assms(1) snoc show ?thesis by (auto simp: running_append)
qed simp

lemma ledger_ok_balance:
  assumes "ledger_ok db"
  shows "getBalance db s c = wallet_total db s c" and "0 \<le> wallet_total db s c"
  using assms ordered_wallet_balance [of "wallet_rows db s c"]
  by (auto simp: ledger_ok_def getBalance_latest wallet_total_def)

lemma insertCreditLedger_Inr:
  assumes "insertCreditLedger tx db e = Inr (row, db')"
  shows "row = ledger_entry.extend e \<lparr>cl_id = lt_rowId tx, cl_createdAt = lt_start tx\<rparr>"
    and "lg_rows db' = lg_rows db @ [row]"
    and "lg_outbox db' = lg_outbox db @ [ledger_event tx row]"
    and "lg_subscribers db' = lg_subscribers db"
    and "0 \<le> le_balance e" and "int4 (le_balance e)"
  using assms by (auto simp: insertCreditLedger_def Let_def outbox_insert_def split: if_splits)

lemma extend_fields [simp]:
  "le_amount (ledger_entry.extend e x) = le_amount e"
  "le_balance (ledger_entry.extend e x) = le_balance e"
  "le_subscriberId (ledger_entry.extend e x) = le_subscriberId e"
  "le_currencyId (ledger_entry.extend e x) = le_currencyId e"
  "le_type (ledger_entry.extend e x) = le_type e"
  "le_referenceType (ledger_entry.extend e x) = le_referenceType e"
  "le_referenceId (ledger_entry.extend e x) = le_referenceId e"
  by (simp_all add: ledger_entry.defs)

lemma extend_key [simp]:
  "ledger_key (ledger_entry.extend e \<lparr>cl_id = i, cl_createdAt = t\<rparr>) = (t, i)"
  by (simp add: ledger_key_def ledger_entry.defs)

lemma insert_stamp:
  "insertCreditLedger tx db e = Inr (row, db') \<Longrightarrow> ledger_key row = (lt_start tx, lt_rowId tx)"
  by (drule insertCreditLedger_Inr(1)) simp

lemma insert_amount: "insertCreditLedger tx db e = Inr (row, db') \<Longrightarrow> le_amount row = le_amount e"
  by (drule insertCreditLedger_Inr(1)) simp

definition newest_stamp :: "ledger_tx \<Rightarrow> ledger_db \<Rightarrow> string \<Rightarrow> string \<Rightarrow> bool" where
  "newest_stamp tx db s c =
     (\<forall>r \<in> set (wallet_rows db s c). ledger_key r < (lt_start tx, lt_rowId tx))"

lemma wallet_rows_insert:
  assumes "insertCreditLedger tx db e = Inr (row, db')"
  shows "wallet_rows db' s c =
    (if le_subscriberId e = s \<and> le_currencyId e = c then wallet_rows db s c @ [row] else wallet_rows db s c)"
  using insertCreditLedger_Inr [OF assms] by (simp add: wallet_rows_def in_wallet_def)

lemma insert_ledger_ok:
  assumes "insertCreditLedger tx db e = Inr (row, db')" and "ledger_ok db"
    and "newest_stamp tx db (le_subscriberId e) (le_currencyId e)"
    and "le_balance e = getBalance db (le_subscriberId e) (le_currencyId e) + le_amount e"
  shows "ledger_ok db'"
  unfolding ledger_ok_def
proof (intro allI)
  fix s c
  note ins = insertCreditLedger_Inr [OF assms(1)]
  have old: "running 0 (wallet_rows db s c)" "in_order (wallet_rows db s c)"
    using assms(2) by (auto simp: ledger_ok_def)
  show "running 0 (wallet_rows db' s c) \<and> in_order (wallet_rows db' s c)"
  proof (cases "le_subscriberId e = s \<and> le_currencyId e = c")
    case True
    have "getBalance db s c = sum_list (map le_amount (wallet_rows db s c))"
      using ledger_ok_balance(1) [OF assms(2)] by (simp add: wallet_total_def)
    with True assms(3,4) old ins(1,5) show ?thesis
      by (simp add: wallet_rows_insert [OF assms(1)] running_append in_order_append newest_stamp_def)
  next
    case False
    with old show ?thesis by (auto simp: wallet_rows_insert [OF assms(1)])
  qed
qed

section \<open>Runs of the engine\<close>

datatype ledger_op = Add ledger_tx add_args | Spend ledger_tx spend_args | Refund ledger_tx refund_args

fun op_tx :: "ledger_op \<Rightarrow> ledger_tx" where
  "op_tx (Add tx a) = tx"
| "op_tx (Spend tx a) = tx"
| "op_tx (Refund tx a) = tx"

fun op_wallet :: "ledger_op \<Rightarrow> string \<times> string" where
  "op_wallet (Add tx a) = (aa_subscriberId a, aa_currencyId a)"
| "op_wallet (Spend tx a) = (sa_subscriberId a, sa_currencyId a)"
| "op_wallet (Refund tx a) = (ra_subscriberId a, ra_currencyId a)"

fun op_result :: "ledger_db \<Rightarrow> ledger_op \<Rightarrow> credit_error + ledger_row \<times> ledger_db" where
  "op_result db (Add tx a) = addCredits tx db a"
| "op_result db (Spend tx a) = spendCredits tx db a"
| "op_result db (Refund tx a) = refundCredits tx db a"

text \<open>A call that throws rolls its transaction back.\<close>

definition ledger_step :: "ledger_db \<Rightarrow> ledger_op \<Rightarrow> ledger_db" where
  "ledger_step db op = (case op_result db op of Inl _ \<Rightarrow> db | Inr (_, db') \<Rightarrow> db')"

definition ledger_run :: "ledger_db \<Rightarrow> ledger_op list \<Rightarrow> ledger_db" where
  "ledger_run db ops = foldl ledger_step db ops"

definition op_stamp :: "ledger_op \<Rightarrow> timestamp \<times> string" where
  "op_stamp op = (lt_start (op_tx op), lt_rowId (op_tx op))"

text \<open>The transactions of a wallet take its lock in the order of their stamps.\<close>

definition stamps_in_lock_order :: "ledger_op list \<Rightarrow> bool" where
  "stamps_in_lock_order ops =
     sorted_wrt (\<lambda>a b. op_wallet a = op_wallet b \<longrightarrow> op_stamp a < op_stamp b) ops"

lemma addCredits_cases:
  assumes "addCredits tx db a = Inr (row, db')"
  obtains "grant_duplicate a db = Some row" and "db' = db"
  | e where "grant_duplicate a db = None" and "insertCreditLedger tx db e = Inr (row, db')"
      and "le_subscriberId e = aa_subscriberId a" and "le_currencyId e = aa_currencyId a"
      and "le_amount e = aa_amount a"
      and "le_balance e = getBalance db (aa_subscriberId a) (aa_currencyId a) + aa_amount a"
      and "le_referenceType e = aa_referenceType a" and "le_referenceId e = aa_referenceId a"
  using assms by (auto simp: addCredits_def split: if_splits option.splits)

lemma spendCredits_cases:
  assumes "spendCredits tx db a = Inr (row, db')"
  obtains "spend_duplicate a db = Some row" and "db' = db"
  | e where "spend_duplicate a db = None" and "insertCreditLedger tx db e = Inr (row, db')"
      and "le_subscriberId e = sa_subscriberId a" and "le_currencyId e = sa_currencyId a"
      and "le_amount e = - sa_amount a" and "le_type e = CL_SPEND"
      and "le_balance e = getBalance db (sa_subscriberId a) (sa_currencyId a) - sa_amount a"
      and "sa_amount a \<le> getBalance db (sa_subscriberId a) (sa_currencyId a)"
      and "le_referenceId e = sa_referenceId a"
  using assms by (auto simp: spendCredits_def Let_def split: if_splits option.splits)

text \<open>What one committed operation does to the ledger.\<close>

lemma op_result_insert:
  assumes "op_result db op = Inr (row, db')"
  shows "db' = db \<or> (\<exists>e. insertCreditLedger (op_tx op) db e = Inr (row, db')
    \<and> (le_subscriberId e, le_currencyId e) = op_wallet op
    \<and> le_balance e = getBalance db (le_subscriberId e) (le_currencyId e) + le_amount e)"
proof (cases op)
  case (Add tx a)
  with assms have "addCredits tx db a = Inr (row, db')" by simp
  then show ?thesis by (rule addCredits_cases) (auto simp: Add)
next
  case (Spend tx a)
  with assms have "spendCredits tx db a = Inr (row, db')" by simp
  then show ?thesis by (rule spendCredits_cases) (auto simp: Spend)
next
  case (Refund tx a)
  with assms have "addCredits tx db (refund_as_add a) = Inr (row, db')" by (simp add: refundCredits_def)
  then show ?thesis by (rule addCredits_cases) (auto simp: Refund refund_as_add_def)
qed

definition op_newest :: "ledger_db \<Rightarrow> ledger_op \<Rightarrow> bool" where
  "op_newest db op = newest_stamp (op_tx op) db (fst (op_wallet op)) (snd (op_wallet op))"

lemma ledger_step_ok:
  assumes "ledger_ok db" and "op_newest db op"
  shows "ledger_ok (ledger_step db op)"
proof (cases "op_result db op")
  case (Inr p)
  obtain row db' where p: "p = (row, db')" by (cases p)
  from op_result_insert [OF Inr [unfolded p]] show ?thesis
  proof
    assume "db' = db"
    with assms(1) Inr p show ?thesis by (simp add: ledger_step_def)
  next
    assume "\<exists>e. insertCreditLedger (op_tx op) db e = Inr (row, db')
      \<and> (le_subscriberId e, le_currencyId e) = op_wallet op
      \<and> le_balance e = getBalance db (le_subscriberId e) (le_currencyId e) + le_amount e"
    then obtain e where e: "insertCreditLedger (op_tx op) db e = Inr (row, db')"
      "(le_subscriberId e, le_currencyId e) = op_wallet op"
      "le_balance e = getBalance db (le_subscriberId e) (le_currencyId e) + le_amount e" by blast
    have "newest_stamp (op_tx op) db (le_subscriberId e) (le_currencyId e)"
      using assms(2) e(2) [symmetric] by (simp add: op_newest_def)
    from insert_ledger_ok [OF e(1) assms(1) this e(3)] Inr p show ?thesis
      by (simp add: ledger_step_def)
  qed
qed (use assms(1) in \<open>simp add: ledger_step_def\<close>)

lemma ledger_step_rows:
  "wallet_rows (ledger_step db op) s c = wallet_rows db s c \<or>
   (op_wallet op = (s, c) \<and>
     (\<exists>row. ledger_key row = op_stamp op \<and> wallet_rows (ledger_step db op) s c = wallet_rows db s c @ [row]))"
proof (cases "op_result db op")
  case (Inr p)
  obtain row db' where p: "p = (row, db')" by (cases p)
  have step: "ledger_step db op = db'" using Inr p by (simp add: ledger_step_def)
  from op_result_insert [OF Inr [unfolded p]] show ?thesis
    by (auto simp: step wallet_rows_insert insert_stamp op_stamp_def split: if_splits dest: sym)
qed (simp add: ledger_step_def)

lemma op_newest_step:
  assumes "op_newest db b" and "op_wallet a = op_wallet b \<longrightarrow> op_stamp a < op_stamp b"
  shows "op_newest (ledger_step db a) b"
  using assms ledger_step_rows [of db a "fst (op_wallet b)" "snd (op_wallet b)"]
  by (auto simp: op_newest_def newest_stamp_def op_stamp_def)

lemma ledger_run_ok:
  assumes "ledger_ok db" and "\<forall>op \<in> set ops. op_newest db op" and "stamps_in_lock_order ops"
  shows "ledger_ok (ledger_run db ops)"
  using assms
proof (induction ops arbitrary: db)
  case (Cons op ops)
  have "\<forall>b \<in> set ops. op_newest (ledger_step db op) b"
    using Cons.prems by (auto simp: stamps_in_lock_order_def intro: op_newest_step)
  with Cons show ?case
    by (simp add: ledger_run_def stamps_in_lock_order_def ledger_step_ok)
qed (simp add: ledger_run_def)

section \<open>Replays and side effects\<close>

lemma grant_duplicate_after_insert:
  assumes "grant_duplicate a db = None" and "aa_dedupeOnReference a"
    and "truthy (aa_referenceType a)" and "truthy (aa_referenceId a)"
    and "lg_rows db' = lg_rows db @ [row]"
    and "le_subscriberId row = aa_subscriberId a" and "le_currencyId row = aa_currencyId a"
    and "le_referenceType row = aa_referenceType a" and "le_referenceId row = aa_referenceId a"
  shows "grant_duplicate a db' = Some row"
proof -
  have "find P xs = None \<Longrightarrow> P y \<Longrightarrow> find P (xs @ [y]) = Some y" for P :: "ledger_row \<Rightarrow> bool" and xs y
    by (induction xs) (auto split: if_splits)
  with assms show ?thesis
    by (auto simp: grant_duplicate_def truthy_def by_reference_def split: option.splits)
qed

lemma addCredits_records_reference:
  assumes "addCredits tx db a = Inr (row, db')" and "aa_dedupeOnReference a"
    and "truthy (aa_referenceType a)" and "truthy (aa_referenceId a)"
  shows "grant_duplicate a db' = Some row" and "lg_subscribers db' = lg_subscribers db"
proof -
  show "grant_duplicate a db' = Some row"
    using assms(1)
  proof (rule addCredits_cases)
    fix e assume "grant_duplicate a db = None" and ins: "insertCreditLedger tx db e = Inr (row, db')"
      and "le_subscriberId e = aa_subscriberId a" "le_currencyId e = aa_currencyId a"
      "le_referenceType e = aa_referenceType a" "le_referenceId e = aa_referenceId a"
    with assms(2-4) insertCreditLedger_Inr(1,2) [OF ins] show ?thesis
      by (intro grant_duplicate_after_insert) simp_all
  qed simp
  show "lg_subscribers db' = lg_subscribers db"
    using assms(1) by (rule addCredits_cases) (auto simp: insertCreditLedger_Inr)
qed

lemma addCredits_duplicate:
  assumes "grant_duplicate a db = Some row" and "0 < aa_amount a"
    and "map_of (lg_subscribers db) (aa_subscriberId a) = Some p"
  shows "addCredits tx db a = Inr (row, db)"
  using assms by (simp add: addCredits_def)

lemma addCredits_preconditions:
  assumes "addCredits tx db a = Inr x"
  shows "0 < aa_amount a" and "\<exists>p. map_of (lg_subscribers db) (aa_subscriberId a) = Some p"
  using assms by (auto simp: addCredits_def split: if_splits option.splits)

definition events_match_rows :: "ledger_db \<Rightarrow> bool" where
  "events_match_rows db =
     (map ob_payload (lg_outbox db) = map ledger_payload (lg_rows db)
      \<and> map ob_aggregateId (lg_outbox db) = map cl_id (lg_rows db))"

lemma ledger_step_events: "events_match_rows db \<Longrightarrow> events_match_rows (ledger_step db op)"
proof (cases "op_result db op")
  case (Inr p)
  assume ok: "events_match_rows db"
  obtain row db' where p: "p = (row, db')" by (cases p)
  have step: "ledger_step db op = db'" using Inr p by (simp add: ledger_step_def)
  from op_result_insert [OF Inr [unfolded p]] ok show ?thesis
    by (auto simp: step events_match_rows_def insertCreditLedger_Inr(2,3) ledger_event_def)
qed (simp add: ledger_step_def)

lemma ledger_run_events: "events_match_rows db \<Longrightarrow> events_match_rows (ledger_run db ops)"
  by (induction ops arbitrary: db) (simp_all add: ledger_run_def ledger_step_events)

text \<open>A wallet with one grant, and calls on it.\<close>

definition sample_tx :: "timestamp \<Rightarrow> string \<Rightarrow> ledger_tx" where
  "sample_tx t i = \<lparr>lt_start = t, lt_rowId = i, lt_outboxId = ''ob'' @ i\<rparr>"

definition sample_grant :: "int \<Rightarrow> string \<Rightarrow> add_args" where
  "sample_grant amount ref = \<lparr>aa_subscriberId = ''sub'', aa_currencyId = ''gem'', aa_amount = amount,
     aa_type = None, aa_referenceType = Some ''purchase'', aa_referenceId = Some ref,
     aa_description = None, aa_metadata = None, aa_dedupeOnReference = True\<rparr>"

definition sample_spend :: "int \<Rightarrow> spend_args" where
  "sample_spend amount = \<lparr>sa_subscriberId = ''sub'', sa_currencyId = ''gem'', sa_amount = amount,
     sa_referenceType = None, sa_referenceId = None, sa_description = None, sa_metadata = None,
     sa_dedupeOnReference = False\<rparr>"

definition sample_wallet_row :: ledger_row where
  "sample_wallet_row = \<lparr>le_projectId = ''prj'', le_subscriberId = ''sub'', le_currencyId = ''gem'',
     le_type = CL_PURCHASE, le_amount = 10, le_balance = 10, le_referenceType = Some ''purchase'',
     le_referenceId = Some ''r1'', le_description = None, le_metadata = None,
     cl_id = ''a'', cl_createdAt = 100\<rparr>"

definition sample_ledger :: ledger_db where
  "sample_ledger = \<lparr>lg_rows = [sample_wallet_row], lg_subscribers = [(''sub'', ''prj'')],
     lg_currencies = [''gem''], lg_outbox = []\<rparr>"

lemmas sample_ledger_defs = sample_tx_def sample_grant_def sample_spend_def sample_wallet_row_def sample_ledger_def

lemma sample_ledger_balance: "getBalance sample_ledger ''sub'' ''gem'' = 10"
  by (simp add: getBalance_latest wallet_rows_def in_wallet_def sample_ledger_defs)

lemma sample_grant_new:
  "grant_duplicate (sample_grant 4 ''r2'') sample_ledger = None"
  by (simp add: grant_duplicate_def by_reference_def truthy_def sample_ledger_defs)

lemma sample_fields:
  "aa_subscriberId (sample_grant n i) = ''sub''" "aa_currencyId (sample_grant n i) = ''gem''"
  "aa_amount (sample_grant n i) = n" "lg_subscribers sample_ledger = [(''sub'', ''prj'')]"
  "lg_currencies sample_ledger = [''gem'']"
  by (simp_all add: sample_grant_def sample_ledger_def)

lemma sample_grant_returns: "\<exists>row db'. addCredits tx sample_ledger (sample_grant 4 ''r2'') = Inr (row, db')"
  by (simp add: addCredits_def sample_grant_new sample_fields sample_ledger_balance insertCreditLedger_def
      int4_def Let_def)

section \<open>Properties\<close>

definition empty_ledger :: "(string \<times> string) list \<Rightarrow> string list \<Rightarrow> ledger_db" where
  "empty_ledger subs curs = \<lparr>lg_rows = [], lg_subscribers = subs, lg_currencies = curs, lg_outbox = []\<rparr>"

lemma empty_ledger_ok: "ledger_ok (empty_ledger subs curs)" "op_newest (empty_ledger subs curs) op"
  by (simp_all add: empty_ledger_def ledger_ok_def wallet_rows_def in_order_def op_newest_def newest_stamp_def)

text \<open>
  C2. Any sequence of grants, spends and refunds, failing calls included, whose transactions take
  the lock of each wallet in the order of their stamps leaves, in every wallet, a balance that is
  the sum of the amounts appended to the wallet and never negative.
\<close>

theorem ledger_run_balance:
  assumes "stamps_in_lock_order ops"
  shows "getBalance (ledger_run (empty_ledger subs curs) ops) s c
       = wallet_total (ledger_run (empty_ledger subs curs) ops) s c
    \<and> 0 \<le> getBalance (ledger_run (empty_ledger subs curs) ops) s c"
  using ledger_ok_balance [OF ledger_run_ok [OF empty_ledger_ok(1) _ assms]] empty_ledger_ok(2) by simp

theorem ledger_run_balance_witness:
  "0 \<le> getBalance (ledger_run (empty_ledger [(''sub'', ''prj'')] [''gem''])
     [Add (sample_tx 1 ''a'') (sample_grant 10 ''r1''), Spend (sample_tx 2 ''b'') (sample_spend 3)]) ''sub'' ''gem''"
proof -
  have "stamps_in_lock_order
    [Add (sample_tx 1 ''a'') (sample_grant 10 ''r1''), Spend (sample_tx 2 ''b'') (sample_spend 3)]"
    by (simp add: stamps_in_lock_order_def op_stamp_def sample_ledger_defs)
  from ledger_run_balance [OF this] show ?thesis by blast
qed

text \<open>
  A grant whose transaction began before the transaction of a row already in the wallet (it
  waited for the lock, its \<^verbatim>\<open>createdAt\<close> did not) is appended and returned, and the balance of
  the wallet stays what it was: the latest row is not the last one appended.
\<close>

lemma addCredits_late_stamp_lost:
  assumes "addCredits tx db a = Inr (row, db')" and "grant_duplicate a db = None"
    and "r \<in> set (wallet_rows db (aa_subscriberId a) (aa_currencyId a))"
    and "(lt_start tx, lt_rowId tx) < ledger_key r"
  shows "row \<in> set (lg_rows db') \<and> le_amount row = aa_amount a \<and> 0 < aa_amount a
    \<and> getBalance db' (aa_subscriberId a) (aa_currencyId a)
      = getBalance db (aa_subscriberId a) (aa_currencyId a)"
  using assms(1)
proof (rule addCredits_cases)
  fix e assume ins: "insertCreditLedger tx db e = Inr (row, db')"
    and e: "le_subscriberId e = aa_subscriberId a" "le_currencyId e = aa_currencyId a"
      "le_amount e = aa_amount a"
  have "latest (wallet_rows db (aa_subscriberId a) (aa_currencyId a) @ [row])
      = latest (wallet_rows db (aa_subscriberId a) (aa_currencyId a))"
    using assms(3,4) by (intro latest_stale [of r]) (simp_all add: insert_stamp [OF ins])
  with e insertCreditLedger_Inr [OF ins] addCredits_preconditions(1) [OF assms(1)] show ?thesis
    by (simp add: getBalance_latest wallet_rows_insert [OF ins])
qed (use assms(2) in simp)

text \<open>
  A deduplicated grant (or refund, which is a grant with a reference) that is repeated, at any
  later time and with any fresh ids, returns the row of the first call and changes nothing: no
  second row, no second event, the same balance.
\<close>

lemma addCredits_replay:
  assumes "addCredits tx db a = Inr (row, db')" and "aa_dedupeOnReference a"
    and "truthy (aa_referenceType a)" and "truthy (aa_referenceId a)"
  shows "addCredits tx' db' a = Inr (row, db')"
  using addCredits_records_reference [OF assms] addCredits_preconditions [OF assms(1)]
  by (auto intro: addCredits_duplicate)

text \<open>
  On a consistent ledger a new spend with the newest stamp either fails with the balance it
  found, exactly when the balance is below the amount, and it never leaves the wallet overdrawn:
  the balance after it is the balance before less the amount.
\<close>

lemma spendCredits_exact:
  assumes "ledger_ok db" and "newest_stamp tx db s c" and "spend_duplicate a db = None"
    and "s = sa_subscriberId a" and "c = sa_currencyId a" and "0 < sa_amount a"
    and "map_of (lg_subscribers db) s = Some p" and "c \<in> set (lg_currencies db)"
    and "int4 (sa_amount a)" and "int4 (getBalance db s c)"
  shows "if getBalance db s c < sa_amount a
    then spendCredits tx db a = Inl (InsufficientCreditsError (getBalance db s c) (sa_amount a))
    else \<exists>row db'. spendCredits tx db a = Inr (row, db') \<and> ledger_ok db'
      \<and> getBalance db' s c = getBalance db s c - sa_amount a \<and> 0 \<le> getBalance db' s c"
proof (cases "getBalance db s c < sa_amount a")
  case True
  with assms show ?thesis by (simp add: spendCredits_def)
next
  case False
  have "int4 (- sa_amount a)" "int4 (getBalance db s c - sa_amount a)"
    using assms(6,9,10) False by (auto simp: int4_def)
  with assms False obtain row db' where res: "spendCredits tx db a = Inr (row, db')"
    by (auto simp: spendCredits_def insertCreditLedger_def Let_def)
  then have step: "op_result db (Spend tx a) = Inr (row, db')" by simp
  have ok: "ledger_ok db'"
    using ledger_step_ok [OF assms(1), of "Spend tx a"] assms(2,4,5) step
    by (simp add: op_newest_def ledger_step_def)
  have "wallet_total db' s c = wallet_total db s c - sa_amount a"
    using res assms(3-5)
    by (auto elim!: spendCredits_cases simp: wallet_total_def wallet_rows_insert insert_amount)
  with ok res False assms(1) ledger_ok_balance show ?thesis by auto
qed

text \<open>
  Every operation, whatever its stamp, leaves the balance of every other wallet alone.
\<close>

lemma ledger_step_isolated:
  assumes "op_wallet op \<noteq> (s, c)"
  shows "getBalance (ledger_step db op) s c = getBalance db s c"
  using ledger_step_rows [of db op s c] assms by (auto simp: getBalance_latest)

text \<open>
  The ledger and its outbox stay in step: after any run from the empty ledger the events are,
  one for one and in order, the rows of the ledger.
\<close>

lemma ledger_run_events_match:
  "map ob_payload (lg_outbox (ledger_run (empty_ledger subs curs) ops))
     = map ledger_payload (lg_rows (ledger_run (empty_ledger subs curs) ops))
   \<and> map ob_aggregateId (lg_outbox (ledger_run (empty_ledger subs curs) ops))
     = map cl_id (lg_rows (ledger_run (empty_ledger subs curs) ops))"
  using ledger_run_events [of "empty_ledger subs curs" ops]
  by (simp add: events_match_rows_def empty_ledger_def)

end
