(* ===== verification/Currency_Grants.thy ===== *)
theory Currency_Grants
  imports Credit_Ledger
begin

text \<open>
  Virtual currencies and the grants a product makes:
  \<^verbatim>\<open>packages/shared/src/virtual-currencies.ts\<close>,
  \<^verbatim>\<open>repositories/virtual-currencies.ts\<close>, \<^verbatim>\<open>repositories/product-currency-grants.ts\<close> and
  \<^verbatim>\<open>apps/api/src/services/purchase-credits.ts\<close>.

  The grant service commits one transaction per configured currency, so a failure leaves the
  currencies before it granted. The locale \<open>replayable\<close> states what it relies on (a call that
  succeeded is recorded, a recorded call is a no-op, records are never lost) and proves once what
  a retry of the whole loop does; it is interpreted on \<open>addCredits\<close>.
\<close>

section \<open>Triggers\<close>

datatype currency_grant_trigger = ON_PURCHASE | ON_RENEWAL | ON_BOTH
datatype grant_event_trigger = EV_PURCHASE | EV_RENEWAL

fun GRANT_TRIGGER_MATCHES :: "currency_grant_trigger \<Rightarrow> grant_event_trigger list" where
  "GRANT_TRIGGER_MATCHES ON_PURCHASE = [EV_PURCHASE]"
| "GRANT_TRIGGER_MATCHES ON_RENEWAL = [EV_RENEWAL]"
| "GRANT_TRIGGER_MATCHES ON_BOTH = [EV_PURCHASE, EV_RENEWAL]"

definition grantTriggerMatches :: "currency_grant_trigger \<Rightarrow> grant_event_trigger \<Rightarrow> bool" where
  "grantTriggerMatches grantOn trigger = (trigger \<in> set (GRANT_TRIGGER_MATCHES grantOn))"

definition grantTriggersMatching :: "grant_event_trigger \<Rightarrow> currency_grant_trigger list" where
  "grantTriggersMatching trigger =
     filter (\<lambda>grantOn. grantTriggerMatches grantOn trigger) [ON_PURCHASE, ON_RENEWAL, ON_BOTH]"

lemma mem_grantTriggersMatching: "g \<in> set (grantTriggersMatching t) \<longleftrightarrow> grantTriggerMatches g t"
  by (cases g) (simp_all add: grantTriggersMatching_def)

section \<open>Virtual currencies\<close>

record virtual_currency =
  vc_id :: string
  vc_projectId :: string
  vc_code :: string
  vc_name :: string
  vc_archivedAt :: "timestamp option"

type_synonym currency_db = "virtual_currency list"

text \<open>The unique index on (projectId, code) refuses a second currency with the same code.\<close>

definition createVirtualCurrency ::
  "currency_db \<Rightarrow> string \<Rightarrow> string \<Rightarrow> string \<Rightarrow> string \<Rightarrow> (virtual_currency \<times> currency_db) option" where
  "createVirtualCurrency db freshId projectId code name =
     (if list_ex (\<lambda>r. vc_projectId r = projectId \<and> vc_code r = code) db then None
      else let row = \<lparr>vc_id = freshId, vc_projectId = projectId, vc_code = code, vc_name = name,
                      vc_archivedAt = None\<rparr>
           in Some (row, db @ [row]))"

definition listVirtualCurrencies :: "currency_db \<Rightarrow> string \<Rightarrow> bool \<Rightarrow> virtual_currency list" where
  "listVirtualCurrencies db projectId includeArchived =
     sort_key vc_code (filter (\<lambda>r. vc_projectId r = projectId
                                 \<and> (includeArchived \<or> vc_archivedAt r = None)) db)"

definition findVirtualCurrencyByCode :: "currency_db \<Rightarrow> string \<Rightarrow> string \<Rightarrow> virtual_currency option" where
  "findVirtualCurrencyByCode db projectId code =
     find (\<lambda>r. vc_projectId r = projectId \<and> vc_code r = code) db"

definition findVirtualCurrencyById :: "currency_db \<Rightarrow> string \<Rightarrow> string \<Rightarrow> virtual_currency option" where
  "findVirtualCurrencyById db projectId cid =
     find (\<lambda>r. vc_projectId r = projectId \<and> vc_id r = cid) db"

definition update_currency :: "(virtual_currency \<Rightarrow> bool) \<Rightarrow> (virtual_currency \<Rightarrow> virtual_currency) \<Rightarrow>
    currency_db \<Rightarrow> virtual_currency option \<times> currency_db" where
  "update_currency P f db = (map_option f (find P db), map (\<lambda>r. if P r then f r else r) db)"

definition renameVirtualCurrency ::
  "currency_db \<Rightarrow> string \<Rightarrow> string \<Rightarrow> string \<Rightarrow> virtual_currency option \<times> currency_db" where
  "renameVirtualCurrency db projectId cid name =
     update_currency (\<lambda>r. vc_projectId r = projectId \<and> vc_id r = cid) (vc_name_update (\<lambda>_. name)) db"

definition archiveVirtualCurrency ::
  "currency_db \<Rightarrow> timestamp \<Rightarrow> string \<Rightarrow> string \<Rightarrow> virtual_currency option \<times> currency_db" where
  "archiveVirtualCurrency db now projectId cid =
     update_currency (\<lambda>r. vc_projectId r = projectId \<and> vc_id r = cid \<and> vc_archivedAt r = None)
       (vc_archivedAt_update (\<lambda>_. Some now)) db"

definition countActiveVirtualCurrencies :: "currency_db \<Rightarrow> string \<Rightarrow> nat" where
  "countActiveVirtualCurrencies db projectId =
     length (filter (\<lambda>r. vc_projectId r = projectId \<and> vc_archivedAt r = None) db)"

lemma countActive_list:
  "countActiveVirtualCurrencies db p = length (listVirtualCurrencies db p False)"
  by (simp add: countActiveVirtualCurrencies_def listVirtualCurrencies_def)

section \<open>Product grants\<close>

record product_currency_grant =
  pg_productId :: string
  pg_currencyId :: string
  pg_amount :: int
  pg_grantOn :: currency_grant_trigger

record grant_input =
  gi_currencyId :: string
  gi_amount :: int
  gi_grantOn :: "currency_grant_trigger option"

definition grant_row :: "string \<Rightarrow> grant_input \<Rightarrow> product_currency_grant" where
  "grant_row productId g = \<lparr>pg_productId = productId, pg_currencyId = gi_currencyId g,
     pg_amount = gi_amount g,
     pg_grantOn = (case gi_grantOn g of None \<Rightarrow> ON_PURCHASE | Some t \<Rightarrow> t)\<rparr>"

text \<open>
  Delete and insert in one transaction; the unique index on (productId, currencyId) aborts it
  when the input names a currency twice.
\<close>

definition setProductGrants ::
  "product_currency_grant list \<Rightarrow> string \<Rightarrow> grant_input list \<Rightarrow> product_currency_grant list option" where
  "setProductGrants db productId grants =
     (if distinct (map gi_currencyId grants)
      then Some (filter (\<lambda>r. pg_productId r \<noteq> productId) db @ map (grant_row productId) grants)
      else None)"

definition listProductGrants :: "product_currency_grant list \<Rightarrow> string \<Rightarrow> product_currency_grant list" where
  "listProductGrants db productId = filter (\<lambda>r. pg_productId r = productId) db"

definition listProductGrantsForTrigger ::
  "product_currency_grant list \<Rightarrow> string \<Rightarrow> grant_event_trigger \<Rightarrow> product_currency_grant list" where
  "listProductGrantsForTrigger db productId trigger =
     filter (\<lambda>r. pg_productId r = productId \<and> pg_grantOn r \<in> set (grantTriggersMatching trigger)) db"

fun GRANT_REFERENCE_TYPE :: "grant_event_trigger \<Rightarrow> string" where
  "GRANT_REFERENCE_TYPE EV_PURCHASE = ''purchase''"
| "GRANT_REFERENCE_TYPE EV_RENEWAL = ''renewal''"

record grant_product_args =
  gx_subscriberId :: string
  gx_productId :: string
  gx_referenceId :: string
  gx_productIdentifier :: string
  gx_trigger :: grant_event_trigger

definition grant_add_args :: "grant_product_args \<Rightarrow> product_currency_grant \<Rightarrow> add_args" where
  "grant_add_args args g =
     \<lparr>aa_subscriberId = gx_subscriberId args, aa_currencyId = pg_currencyId g,
      aa_amount = pg_amount g, aa_type = None,
      aa_referenceType = Some (GRANT_REFERENCE_TYPE (gx_trigger args)),
      aa_referenceId = Some (gx_referenceId args),
      aa_description = Some (''Credits for '' @ gx_productIdentifier args),
      aa_metadata = None, aa_dedupeOnReference = True\<rparr>"

text \<open>
  The loop: the first error leaves the loop, and what was committed before it stays. The list of
  transaction data supplies the stamp and ids of each call in turn.
\<close>

fun act_all :: "('tx \<Rightarrow> 'db \<Rightarrow> 'a \<Rightarrow> 'e + 'r \<times> 'db) \<Rightarrow> (nat \<Rightarrow> 'tx) \<Rightarrow> 'db \<Rightarrow> 'a list \<Rightarrow> 'e option \<times> 'db" where
  "act_all act txs db [] = (None, db)"
| "act_all act txs db (a # as) =
     (case act (txs 0) db a of
        Inl e \<Rightarrow> (Some e, db)
      | Inr (_, db') \<Rightarrow> act_all act (\<lambda>i. txs (Suc i)) db' as)"

definition grantProductCurrencies ::
  "product_currency_grant list \<Rightarrow> (nat \<Rightarrow> ledger_tx) \<Rightarrow> ledger_db \<Rightarrow> grant_product_args \<Rightarrow>
     credit_error option \<times> ledger_db" where
  "grantProductCurrencies grants txs db args =
     act_all addCredits txs db
       (map (grant_add_args args)
          (filter (\<lambda>g. \<not> pg_amount g \<le> 0)
             (listProductGrantsForTrigger grants (gx_productId args) (gx_trigger args))))"

section \<open>Retrying a loop of recorded calls\<close>

locale replayable =
  fixes act :: "'tx \<Rightarrow> 'db \<Rightarrow> 'a \<Rightarrow> 'e + 'r \<times> 'db"
    and recorded :: "'db \<Rightarrow> 'a \<Rightarrow> bool"
    and armed :: "'a \<Rightarrow> bool"
  assumes act_records: "act t db a = Inr (r, db') \<Longrightarrow> armed a \<Longrightarrow> recorded db' a"
    and act_keeps: "act t db a = Inr (r, db') \<Longrightarrow> recorded db b \<Longrightarrow> recorded db' b"
    and act_recorded: "recorded db a \<Longrightarrow> \<exists>r. act t db a = Inr (r, db)"
begin

lemma all_keeps:
  "recorded db b \<Longrightarrow> recorded (snd (act_all act txs db as)) b"
proof (induction as arbitrary: txs db)
  case (Cons a as)
  then show ?case by (cases "act (txs 0) db a") (auto intro: act_keeps)
qed simp

lemma all_recorded_noop:
  "\<forall>a \<in> set as. recorded db a \<Longrightarrow> act_all act txs db as = (None, db)"
proof (induction as arbitrary: txs)
  case (Cons a as)
  from act_recorded [of db a "txs 0"] Cons.prems obtain r where "act (txs 0) db a = Inr (r, db)"
    by auto
  with Cons show ?case by simp
qed simp

lemma all_records:
  assumes "act_all act txs db as = (None, db')" and "\<forall>a \<in> set as. armed a"
  shows "\<forall>a \<in> set as. recorded db' a"
  using assms
proof (induction as arbitrary: txs db)
  case (Cons a as)
  then obtain r db1 where act: "act (txs 0) db a = Inr (r, db1)"
    and rest: "act_all act (\<lambda>i. txs (Suc i)) db1 as = (None, db')"
    by (auto split: sum.splits)
  have "recorded db1 a" using act act_records Cons.prems by auto
  then have "recorded db' a" using all_keeps [of db1 a _ as] rest by (metis snd_conv)
  with Cons.IH [OF rest] Cons.prems show ?case by simp
qed simp

lemma all_replay:
  assumes "act_all act txs db as = (None, db')" and "\<forall>a \<in> set as. armed a"
  shows "act_all act txs' db' as = (None, db')"
  using all_recorded_noop all_records [OF assms] by blast

text \<open>After a failed run, a retry resumes where the failure was.\<close>

lemma all_resume:
  assumes "act_all act txs db as = (Some e, db')" and "\<forall>a \<in> set as. armed a"
  shows "\<exists>before rest t. as = before @ rest \<and> rest \<noteq> [] \<and> (\<forall>a \<in> set before. recorded db' a)
    \<and> act t db' (hd rest) = Inl e
    \<and> (\<forall>txs'. act_all act txs' db' as = act_all act (\<lambda>i. txs' (i + length before)) db' rest)"
  using assms
proof (induction as arbitrary: txs db)
  case (Cons a as)
  show ?case
  proof (cases "act (txs 0) db a")
    case (Inl e')
    with Cons.prems have "act (txs 0) db' (hd (a # as)) = Inl e" by simp
    then show ?thesis by (intro exI [of _ "[]"] exI [of _ "a # as"] exI [of _ "txs 0"]) simp
  next
    case (Inr p)
    obtain r db1 where p: "p = (r, db1)" by (cases p)
    with Cons.prems Inr have rest: "act_all act (\<lambda>i. txs (Suc i)) db1 as = (Some e, db')" by simp
    from Cons.IH [OF rest] Cons.prems(2) obtain dn rs t where
      split: "as = dn @ rs" "rs \<noteq> []" "\<forall>b \<in> set dn. recorded db' b" "act t db' (hd rs) = Inl e"
      and cont: "\<And>txs'. act_all act txs' db' as = act_all act (\<lambda>i. txs' (i + length dn)) db' rs"
      by auto
    have "recorded db1 a" using Inr p act_records Cons.prems(2) by auto
    then have rec: "recorded db' a" using all_keeps [of db1 a _ as] rest by (metis snd_conv)
    have "act_all act txs' db' (a # as) = act_all act (\<lambda>i. txs' (i + length (a # dn))) db' rs" for txs'
      using act_recorded [OF rec, of "txs' 0"] cont [of "\<lambda>i. txs' (Suc i)"] by auto
    with split rec show ?thesis by (intro exI [of _ "a # dn"] exI [of _ rs] exI [of _ t]) auto
  qed
qed simp

end

definition grant_recorded :: "ledger_db \<Rightarrow> add_args \<Rightarrow> bool" where
  "grant_recorded db a =
     (grant_duplicate a db \<noteq> None \<and> 0 < aa_amount a
      \<and> map_of (lg_subscribers db) (aa_subscriberId a) \<noteq> None)"

definition grant_armed :: "add_args \<Rightarrow> bool" where
  "grant_armed a = (aa_dedupeOnReference a \<and> truthy (aa_referenceType a) \<and> truthy (aa_referenceId a))"

lemma addCredits_keeps_duplicate:
  assumes "addCredits tx db a = Inr (row, db')" and "grant_duplicate b db = Some r"
  shows "grant_duplicate b db' = Some r"
proof -
  have "find P xs = Some r \<Longrightarrow> find P (xs @ ys) = Some r" for P :: "ledger_row \<Rightarrow> bool" and xs ys
    by (induction xs) auto
  then show ?thesis using assms(2)
    by (rule_tac addCredits_cases [OF assms(1)])
      (auto simp: grant_duplicate_def insertCreditLedger_Inr(2) split: option.splits)
qed

lemma addCredits_subscribers: "addCredits tx db a = Inr (row, db') \<Longrightarrow> lg_subscribers db' = lg_subscribers db"
  by (erule addCredits_cases) (auto simp: insertCreditLedger_Inr)

interpretation rg: replayable addCredits grant_recorded grant_armed
proof unfold_locales
  show "addCredits t db a = Inr (r, db') \<Longrightarrow> grant_armed a \<Longrightarrow> grant_recorded db' a" for t db a r db'
    using addCredits_records_reference addCredits_preconditions
    by (fastforce simp: grant_recorded_def grant_armed_def)
  show "addCredits t db a = Inr (r, db') \<Longrightarrow> grant_recorded db b \<Longrightarrow> grant_recorded db' b" for t db a r db' b
    by (auto simp: grant_recorded_def addCredits_subscribers dest: addCredits_keeps_duplicate)
  show "grant_recorded db a \<Longrightarrow> \<exists>r. addCredits t db a = Inr (r, db)" for db a t
    by (auto simp: grant_recorded_def intro: addCredits_duplicate)
qed

lemma grant_add_args_armed:
  "gx_referenceId args \<noteq> [] \<Longrightarrow> grant_armed (grant_add_args args g)"
  by (cases "gx_trigger args") (simp_all add: grant_armed_def grant_add_args_def truthy_def)

text \<open>A product that grants two currencies, the second of which does not exist.\<close>

definition sample_grants :: "product_currency_grant list" where
  "sample_grants =
     [\<lparr>pg_productId = ''prod'', pg_currencyId = ''gem'', pg_amount = 4, pg_grantOn = ON_BOTH\<rparr>,
      \<lparr>pg_productId = ''prod'', pg_currencyId = ''coin'', pg_amount = 2, pg_grantOn = ON_RENEWAL\<rparr>]"

definition sample_grant_args :: "grant_event_trigger \<Rightarrow> grant_product_args" where
  "sample_grant_args trigger = \<lparr>gx_subscriberId = ''sub'', gx_productId = ''prod'',
     gx_referenceId = ''r1'', gx_productIdentifier = ''pro_monthly'', gx_trigger = trigger\<rparr>"

lemma sample_runs:
  "fst (grantProductCurrencies sample_grants (\<lambda>_. sample_tx 200 ''x'') (empty_ledger [(''sub'', ''prj'')] [''gem''])
     (sample_grant_args EV_PURCHASE)) = None"
  "fst (grantProductCurrencies sample_grants (\<lambda>_. sample_tx 200 ''x'') (empty_ledger [(''sub'', ''prj'')] [''gem''])
     (sample_grant_args EV_RENEWAL)) = Some Currency_Foreign_Key"
  by code_simp+

section \<open>Properties\<close>

text \<open>
  Granting the currencies of a product is idempotent as a whole: when a run finished, a
  duplicate webhook or a redelivered message, with any stamps, changes nothing in the ledger and
  reports no error.
\<close>

lemma grantProductCurrencies_replay:
  assumes "grantProductCurrencies grants txs db args = (None, db')" and "gx_referenceId args \<noteq> []"
  shows "grantProductCurrencies grants txs' db' args = (None, db')"
  using assms unfolding grantProductCurrencies_def
  by (intro rg.all_replay) (auto simp: grant_add_args_armed)

text \<open>
  When a run failed at some currency, the currencies before it are recorded, and a retry
  touches none of them: it continues with the currency whose grant failed.
\<close>

lemma grantProductCurrencies_resume:
  assumes "grantProductCurrencies grants txs db args = (Some e, db')" and "gx_referenceId args \<noteq> []"
  shows "\<exists>before rest t.
      map (grant_add_args args) (filter (\<lambda>g. \<not> pg_amount g \<le> 0)
        (listProductGrantsForTrigger grants (gx_productId args) (gx_trigger args))) = before @ rest
    \<and> rest \<noteq> [] \<and> (\<forall>a \<in> set before. grant_recorded db' a)
    \<and> addCredits t db' (hd rest) = Inl e
    \<and> (\<forall>txs'. grantProductCurrencies grants txs' db' args
              = act_all addCredits (\<lambda>i. txs' (i + length before)) db' rest)"
  using rg.all_resume [OF assms(1) [unfolded grantProductCurrencies_def]] assms(2)
  unfolding grantProductCurrencies_def by (auto simp: grant_add_args_armed)

text \<open>
  What is configured is what is read: after the grants of a product were replaced, the grants
  that fire on an event are exactly the ones whose stored trigger matches it, in the order given,
  and the grants of every other product are as before.
\<close>

lemma setProductGrants_then_list:
  assumes "setProductGrants db productId grants = Some db'"
  shows "listProductGrantsForTrigger db' q trigger =
    (if q = productId
     then filter (\<lambda>r. grantTriggerMatches (pg_grantOn r) trigger) (map (grant_row productId) grants)
     else listProductGrantsForTrigger db q trigger)"
proof -
  have "db' = filter (\<lambda>r. pg_productId r \<noteq> productId) db @ map (grant_row productId) grants"
    using assms by (auto simp: setProductGrants_def split: if_splits)
  then show ?thesis
    by (auto simp: listProductGrantsForTrigger_def mem_grantTriggersMatching grant_row_def
        filter_empty_conv conj_commute intro!: filter_cong)
qed

end
