(* ===== verification/Revenue_Events.thy ===== *)
theory Revenue_Events
  imports Purchase_Store Outbox
begin

text \<open>
  \<^verbatim>\<open>packages/db/src/drizzle/repositories/revenue-events.ts\<close>: the append-only revenue log, its
  idempotency table and the suppression of family-shared purchases.

  \<open>createRevenueEvent\<close> is one transaction after one read of the linked purchase. A decimal
  column round-trips as a string, as in the source. The fresh ids and the transaction time are
  arguments.
\<close>

section \<open>Rows and keys\<close>

datatype revenue_event_type =
  INITIAL | RENEWAL | TRIAL_CONVERSION | CREDIT_PURCHASE | NON_RENEWING_PURCHASE
| REACTIVATION | REFUND | CANCELLATION

fun DEDUPE_KIND :: "revenue_event_type \<Rightarrow> string" where
  "DEDUPE_KIND INITIAL = ''purchase''"
| "DEDUPE_KIND RENEWAL = ''purchase''"
| "DEDUPE_KIND TRIAL_CONVERSION = ''purchase''"
| "DEDUPE_KIND CREDIT_PURCHASE = ''purchase''"
| "DEDUPE_KIND NON_RENEWING_PURCHASE = ''purchase''"
| "DEDUPE_KIND REACTIVATION = ''reactivation''"
| "DEDUPE_KIND REFUND = ''refund''"
| "DEDUPE_KIND CANCELLATION = ''cancel''"

definition revenueDedupeKind :: "revenue_event_type \<Rightarrow> string" where
  "revenueDedupeKind ty = DEDUPE_KIND ty"

fun revenue_type_name :: "revenue_event_type \<Rightarrow> string" where
  "revenue_type_name INITIAL = ''INITIAL''"
| "revenue_type_name RENEWAL = ''RENEWAL''"
| "revenue_type_name TRIAL_CONVERSION = ''TRIAL_CONVERSION''"
| "revenue_type_name CREDIT_PURCHASE = ''CREDIT_PURCHASE''"
| "revenue_type_name NON_RENEWING_PURCHASE = ''NON_RENEWING_PURCHASE''"
| "revenue_type_name REACTIVATION = ''REACTIVATION''"
| "revenue_type_name REFUND = ''REFUND''"
| "revenue_type_name CANCELLATION = ''CANCELLATION''"

fun store_name :: "store \<Rightarrow> string" where
  "store_name APP_STORE = ''APP_STORE''"
| "store_name PLAY_STORE = ''PLAY_STORE''"
| "store_name STRIPE = ''STRIPE''"
| "store_name MANUAL = ''MANUAL''"

record revenue_event =
  rv_id :: string
  rv_projectId :: string
  rv_subscriberId :: string
  rv_purchaseId :: row_id
  rv_productId :: string
  rv_type :: revenue_event_type
  rv_amount :: string
  rv_currency :: string
  rv_amountUsd :: string
  rv_store :: store
  rv_eventDate :: timestamp
  rv_dedupeKey :: "string option"
  rv_createdAt :: timestamp

record revenue_input =
  ri_projectId :: string
  ri_subscriberId :: string
  ri_purchaseId :: row_id
  ri_productId :: string
  ri_type :: revenue_event_type
  ri_amount :: string
  ri_currency :: string
  ri_amountUsd :: string
  ri_store :: store
  ri_eventDate :: timestamp
  ri_dedupeKey :: "string option"
  ri_metadata :: "json option"
  ri_country :: "string option"

record dedupe_claim =
  dc_projectId :: string
  dc_dedupeKey :: string
  dc_revenueEventId :: string

record revenue_db =
  rd_rows :: "revenue_event list"
  rd_claims :: "dedupe_claim list"
  rd_outbox :: outbox

record revenue_tx =
  rt_start :: timestamp
  rt_revenueId :: string
  rt_outboxId :: string

datatype revenue_error = Dedupe_Conflict_Without_Row

section \<open>Operations\<close>

text \<open>
  \<^verbatim>\<open>ORDER BY createdAt DESC LIMIT 1\<close>: among the matches, one with the largest creation time.
\<close>

definition findRecentRevenueEvent ::
  "revenue_db \<Rightarrow> string \<Rightarrow> row_id \<Rightarrow> revenue_event_type \<Rightarrow> timestamp \<Rightarrow> revenue_event option" where
  "findRecentRevenueEvent db subscriberId purchaseId ty since =
     (case sort_key (\<lambda>r. - rv_createdAt r)
             (filter (\<lambda>r. rv_subscriberId r = subscriberId \<and> rv_purchaseId r = purchaseId
                        \<and> rv_type r = ty \<and> since \<le> rv_createdAt r) (rd_rows db)) of
        [] \<Rightarrow> None | r # _ \<Rightarrow> Some r)"

definition findRevenueEventById :: "revenue_db \<Rightarrow> string \<Rightarrow> revenue_event option" where
  "findRevenueEventById db rid = find (\<lambda>r. rv_id r = rid) (rd_rows db)"

definition revenue_row :: "revenue_tx \<Rightarrow> revenue_input \<Rightarrow> revenue_event" where
  "revenue_row tx i = \<lparr>rv_id = rt_revenueId tx, rv_projectId = ri_projectId i,
     rv_subscriberId = ri_subscriberId i, rv_purchaseId = ri_purchaseId i,
     rv_productId = ri_productId i, rv_type = ri_type i, rv_amount = ri_amount i,
     rv_currency = ri_currency i, rv_amountUsd = ri_amountUsd i, rv_store = ri_store i,
     rv_eventDate = ri_eventDate i, rv_dedupeKey = ri_dedupeKey i, rv_createdAt = rt_start tx\<rparr>"

definition revenue_payload :: "revenue_input \<Rightarrow> revenue_event \<Rightarrow> json" where
  "revenue_payload i r = JObj
     ([(''revenueEventId'', JStr (rv_id r)), (''projectId'', JStr (rv_projectId r)),
       (''subscriberId'', JStr (rv_subscriberId r)), (''purchaseId'', JStr (nat_text (rv_purchaseId r))),
       (''productId'', JStr (rv_productId r)), (''type'', JStr (revenue_type_name (rv_type r))),
       (''store'', JStr (store_name (rv_store r))), (''amount'', JStr (rv_amount r)),
       (''amountUsd'', JStr (rv_amountUsd r)), (''currency'', JStr (rv_currency r)),
       (''eventDate'', iso_json (rv_eventDate r))]
      @ (case ri_country i of None \<Rightarrow> [] | Some c \<Rightarrow> if c = [] then [] else [(''country'', JStr c)])
      @ (case ri_metadata i of None \<Rightarrow> [] | Some m \<Rightarrow> [(''metadata'', m)]))"

definition insertRevenueRow :: "revenue_tx \<Rightarrow> revenue_input \<Rightarrow> revenue_db \<Rightarrow> revenue_event \<times> revenue_db" where
  "insertRevenueRow tx i db =
     (let row = revenue_row tx i;
          event = \<lparr>ob_id = rt_outboxId tx, ob_aggregateType = REVENUE_EVENT, ob_aggregateId = rv_id row,
                   ob_eventType = ''revenue.event.recorded'', ob_payload = revenue_payload i row,
                   ob_createdAt = rt_start tx, ob_publishedAt = None\<rparr>
      in (row, db\<lparr>rd_rows := rd_rows db @ [row], rd_outbox := outbox_insert (rd_outbox db) event\<rparr>))"

definition family_shared :: "purchase_db \<Rightarrow> row_id \<Rightarrow> bool" where
  "family_shared pdb purchaseId =
     (case find (\<lambda>p. pu_id p = purchaseId) (pd_rows pdb) of
        None \<Rightarrow> False
      | Some p \<Rightarrow> pu_ownershipType p = Some APPLE_FAMILY_SHARED_OWNERSHIP_TYPE)"

definition claim_of :: "string \<Rightarrow> string \<Rightarrow> dedupe_claim \<Rightarrow> bool" where
  "claim_of projectId key c = (dc_projectId c = projectId \<and> dc_dedupeKey c = key)"

definition createRevenueEvent ::
  "revenue_tx \<Rightarrow> purchase_db \<Rightarrow> revenue_db \<Rightarrow> revenue_input \<Rightarrow>
     revenue_error + revenue_event option \<times> revenue_db" where
  "createRevenueEvent tx pdb db i =
     (if family_shared pdb (ri_purchaseId i) then Inr (None, db)
      else case ri_dedupeKey i of
        None \<Rightarrow> (let (row, db') = insertRevenueRow tx i db in Inr (Some row, db'))
      | Some key \<Rightarrow>
          if key = [] then (let (row, db') = insertRevenueRow tx i db in Inr (Some row, db'))
          else (case find (claim_of (ri_projectId i) key) (rd_claims db) of
                  None \<Rightarrow>
                    (let claim = \<lparr>dc_projectId = ri_projectId i, dc_dedupeKey = key,
                                  dc_revenueEventId = rt_revenueId tx\<rparr>;
                         (row, db') = insertRevenueRow tx i (db\<lparr>rd_claims := rd_claims db @ [claim]\<rparr>)
                     in Inr (Some row, db'))
                | Some existingKey \<Rightarrow>
                    (case findRevenueEventById db (dc_revenueEventId existingKey) of
                       Some existing \<Rightarrow> Inr (Some existing, db)
                     | None \<Rightarrow> Inl Dedupe_Conflict_Without_Row)))"

section \<open>The claims and the rows agree\<close>

definition has_key :: "string \<Rightarrow> string \<Rightarrow> revenue_event \<Rightarrow> bool" where
  "has_key projectId key r = (rv_projectId r = projectId \<and> rv_dedupeKey r = Some key)"

definition revenue_outbox :: "revenue_db \<Rightarrow> outbox_event list" where
  "revenue_outbox db = filter (\<lambda>e. ob_aggregateType e = REVENUE_EVENT) (rd_outbox db)"

definition revenue_db_ok :: "revenue_db \<Rightarrow> bool" where
  "revenue_db_ok db =
     (distinct (map rv_id (rd_rows db))
      \<and> (\<forall>projectId key. key \<noteq> [] \<longrightarrow>
            map rv_id (filter (has_key projectId key) (rd_rows db))
          = map dc_revenueEventId (filter (claim_of projectId key) (rd_claims db))
          \<and> length (filter (claim_of projectId key) (rd_claims db)) \<le> 1)
      \<and> map ob_aggregateId (revenue_outbox db) = map rv_id (rd_rows db))"

definition fresh_id :: "revenue_tx \<Rightarrow> revenue_db \<Rightarrow> bool" where
  "fresh_id tx db = (rt_revenueId tx \<notin> rv_id ` set (rd_rows db))"

lemma insertRevenueRow_simps [simp]:
  "fst (insertRevenueRow tx i db) = revenue_row tx i"
  "rd_rows (snd (insertRevenueRow tx i db)) = rd_rows db @ [revenue_row tx i]"
  "rd_claims (snd (insertRevenueRow tx i db)) = rd_claims db"
  "map ob_aggregateId (revenue_outbox (snd (insertRevenueRow tx i db)))
     = map ob_aggregateId (revenue_outbox db) @ [rt_revenueId tx]"
  by (simp_all add: insertRevenueRow_def Let_def outbox_insert_def revenue_row_def revenue_outbox_def)

lemma revenue_outbox_claims [simp]: "revenue_outbox (db\<lparr>rd_claims := cs\<rparr>) = revenue_outbox db"
  by (simp add: revenue_outbox_def)

lemma revenue_row_simps [simp]:
  "rv_id (revenue_row tx i) = rt_revenueId tx"
  "rv_projectId (revenue_row tx i) = ri_projectId i"
  "rv_dedupeKey (revenue_row tx i) = ri_dedupeKey i"
  by (simp_all add: revenue_row_def)

lemma claim_row:
  assumes "revenue_db_ok db" and "find (claim_of p k) (rd_claims db) = Some c" and "k \<noteq> []"
  obtains r where "findRevenueEventById db (dc_revenueEventId c) = Some r" and "has_key p k r"
    and "filter (has_key p k) (rd_rows db) = [r]"
proof -
  have c: "c \<in> set (filter (claim_of p k) (rd_claims db))"
    using find_Some_iff_mem [OF assms(2)] by simp
  have ids: "map rv_id (filter (has_key p k) (rd_rows db))
      = map dc_revenueEventId (filter (claim_of p k) (rd_claims db))"
    and one: "length (filter (claim_of p k) (rd_claims db)) \<le> 1"
    using assms(1,3) by (auto simp: revenue_db_ok_def)
  from c one have claims: "filter (claim_of p k) (rd_claims db) = [c]"
    by (cases "filter (claim_of p k) (rd_claims db)") auto
  with ids obtain r where rows: "filter (has_key p k) (rd_rows db) = [r]" and id: "rv_id r = dc_revenueEventId c"
    by (auto simp: Cons_eq_map_conv map_eq_Cons_conv)
  from rows have "r \<in> set (filter (has_key p k) (rd_rows db))" by (simp only: list.set_intros)
  then have mem: "r \<in> set (rd_rows db)" and key: "has_key p k r" by simp_all
  have "findRevenueEventById db (dc_revenueEventId c) = Some r"
    unfolding findRevenueEventById_def
    using mem id assms(1) by (intro find_unique) (auto simp: revenue_db_ok_def dest: distinct_map_eqD)
  with key rows that show ?thesis by blast
qed

lemma createRevenueEvent_cases:
  assumes "createRevenueEvent tx pdb db i = Inr (res, db')" and "revenue_db_ok db"
  obtains (suppressed) "family_shared pdb (ri_purchaseId i)" "res = None" "db' = db"
  | (replayed) key r where "\<not> family_shared pdb (ri_purchaseId i)" "ri_dedupeKey i = Some key" "key \<noteq> []"
      "res = Some r" "has_key (ri_projectId i) key r" "r \<in> set (rd_rows db)" "db' = db"
  | (plain) "\<not> family_shared pdb (ri_purchaseId i)" "ri_dedupeKey i = None \<or> ri_dedupeKey i = Some []"
      "res = Some (revenue_row tx i)" "db' = snd (insertRevenueRow tx i db)"
  | (claimed) key where "\<not> family_shared pdb (ri_purchaseId i)" "ri_dedupeKey i = Some key" "key \<noteq> []"
      "find (claim_of (ri_projectId i) key) (rd_claims db) = None" "res = Some (revenue_row tx i)"
      "db' = snd (insertRevenueRow tx i (db\<lparr>rd_claims := rd_claims db @
         [\<lparr>dc_projectId = ri_projectId i, dc_dedupeKey = key, dc_revenueEventId = rt_revenueId tx\<rparr>]\<rparr>))"
proof (cases "family_shared pdb (ri_purchaseId i)")
  case True
  with assms(1) show ?thesis by (intro suppressed) (simp_all add: createRevenueEvent_def)
next
  case False
  show ?thesis
  proof (cases "ri_dedupeKey i = None \<or> ri_dedupeKey i = Some []")
    case True
    with False assms(1) have "res = Some (revenue_row tx i)" and "db' = snd (insertRevenueRow tx i db)"
      by (auto simp: createRevenueEvent_def insertRevenueRow_def Let_def)
    with False True show ?thesis by (rule plain)
  next
    case keyed: False
    then obtain key where key: "ri_dedupeKey i = Some key" "key \<noteq> []" by auto
    show ?thesis
    proof (cases "find (claim_of (ri_projectId i) key) (rd_claims db)")
      case None
      with False key assms(1) show ?thesis
        by (intro claimed [OF False key None]) (simp_all add: createRevenueEvent_def insertRevenueRow_def Let_def)
    next
      case (Some c)
      from claim_row [OF assms(2) this key(2)] obtain r where
        r: "findRevenueEventById db (dc_revenueEventId c) = Some r" "has_key (ri_projectId i) key r" by blast
      then have "r \<in> set (rd_rows db)" by (auto simp: findRevenueEventById_def dest: find_Some_iff_mem)
      with r False key Some assms(1) show ?thesis
        by (intro replayed [OF False key]) (simp_all add: createRevenueEvent_def)
    qed
  qed
qed

lemma createRevenueEvent_returns:
  assumes "revenue_db_ok db"
  shows "\<exists>x. createRevenueEvent tx pdb db i = Inr x"
proof (cases "ri_dedupeKey i")
  case (Some key)
  then show ?thesis
    by (cases "find (claim_of (ri_projectId i) key) (rd_claims db)")
      (auto simp: createRevenueEvent_def insertRevenueRow_def Let_def elim: claim_row [OF assms])
qed (simp add: createRevenueEvent_def insertRevenueRow_def Let_def)

lemma createRevenueEvent_ok:
  assumes "createRevenueEvent tx pdb db i = Inr (res, db')" and "revenue_db_ok db" and "fresh_id tx db"
  shows "revenue_db_ok db'"
  using assms(1,2)
proof (cases rule: createRevenueEvent_cases)
  case (claimed key)
  then have none: "filter (claim_of (ri_projectId i) key) (rd_claims db) = []"
    by (simp add: find_None_iff_all filter_empty_conv)
  with assms(2) claimed(3) have "map rv_id (filter (has_key (ri_projectId i) key) (rd_rows db)) = []"
    unfolding revenue_db_ok_def by (metis list.map_disc_iff)
  then have "filter (has_key (ri_projectId i) key) (rd_rows db) = []" by simp
  with none assms(2,3) claimed show ?thesis
    by (auto simp: revenue_db_ok_def fresh_id_def has_key_def claim_of_def)
qed (use assms in \<open>auto simp: revenue_db_ok_def fresh_id_def has_key_def claim_of_def\<close>)

lemma claim_after_create:
  assumes "createRevenueEvent tx pdb db i = Inr (Some r, db')" and "revenue_db_ok db"
    and "ri_dedupeKey i = Some key" and "key \<noteq> []"
  shows "r \<in> set (rd_rows db') \<and> has_key (ri_projectId i) key r
    \<and> find (claim_of (ri_projectId i) key) (rd_claims db') \<noteq> None"
  using assms(1,2)
proof (cases rule: createRevenueEvent_cases)
  case (replayed k r')
  then have "k = key" using assms(3) by simp
  have "r' \<in> set (filter (has_key (ri_projectId i) key) (rd_rows db))"
    using replayed \<open>k = key\<close> by simp
  then have "filter (claim_of (ri_projectId i) key) (rd_claims db) \<noteq> []"
    using assms(2,4) unfolding revenue_db_ok_def
    by (metis empty_iff empty_set list.map_disc_iff)
  then show ?thesis using replayed \<open>k = key\<close> by (auto simp: find_None_iff_all filter_empty_conv)
next
  case (claimed k)
  then show ?thesis using assms(3) by (auto simp: find_None_iff_all has_key_def claim_of_def)
qed (use assms(3,4) in auto)

record revenue_call =
  rc_tx :: revenue_tx
  rc_purchases :: purchase_db
  rc_input :: revenue_input

definition revenue_step :: "revenue_db \<Rightarrow> revenue_call \<Rightarrow> revenue_db" where
  "revenue_step db c =
     (case createRevenueEvent (rc_tx c) (rc_purchases c) db (rc_input c) of
        Inl _ \<Rightarrow> db | Inr (_, db') \<Rightarrow> db')"

definition revenue_run :: "revenue_call list \<Rightarrow> revenue_db" where
  "revenue_run cs = foldl revenue_step \<lparr>rd_rows = [], rd_claims = [], rd_outbox = []\<rparr> cs"

definition call_id :: "revenue_call \<Rightarrow> string" where
  "call_id c = rt_revenueId (rc_tx c)"

lemma revenue_step_ids:
  assumes "revenue_db_ok db"
  shows "rv_id ` set (rd_rows (revenue_step db c)) \<subseteq> insert (call_id c) (rv_id ` set (rd_rows db))"
proof -
  obtain res db' where res: "createRevenueEvent (rc_tx c) (rc_purchases c) db (rc_input c) = Inr (res, db')"
    using createRevenueEvent_returns [OF assms] by (metis surj_pair)
  then have "rv_id ` set (rd_rows db') \<subseteq> insert (call_id c) (rv_id ` set (rd_rows db))"
    using assms by (cases rule: createRevenueEvent_cases) (auto simp: call_id_def)
  with res show ?thesis by (simp add: revenue_step_def)
qed

lemma revenue_step_ok:
  assumes "revenue_db_ok db" and "call_id c \<notin> rv_id ` set (rd_rows db)"
  shows "revenue_db_ok (revenue_step db c)"
proof -
  obtain res db' where res: "createRevenueEvent (rc_tx c) (rc_purchases c) db (rc_input c) = Inr (res, db')"
    using createRevenueEvent_returns [OF assms(1)] by (metis surj_pair)
  from createRevenueEvent_ok [OF res assms(1)] assms(2) res show ?thesis
    by (simp add: revenue_step_def fresh_id_def call_id_def)
qed

lemma revenue_run_ok:
  assumes "distinct (map call_id cs)"
  shows "revenue_db_ok (revenue_run cs) \<and> rv_id ` set (rd_rows (revenue_run cs)) \<subseteq> set (map call_id cs)"
  using assms
proof (induction cs rule: rev_induct)
  case Nil
  show ?case by (simp add: revenue_run_def revenue_db_ok_def revenue_outbox_def)
next
  case (snoc c cs)
  then have IH: "revenue_db_ok (revenue_run cs)" "rv_id ` set (rd_rows (revenue_run cs)) \<subseteq> set (map call_id cs)"
    by simp_all
  have step: "revenue_run (cs @ [c]) = revenue_step (revenue_run cs) c" by (simp add: revenue_run_def)
  have "call_id c \<notin> rv_id ` set (rd_rows (revenue_run cs))" using IH(2) snoc.prems by auto
  then have "revenue_db_ok (revenue_step (revenue_run cs) c)" by (rule revenue_step_ok [OF IH(1)])
  moreover have "rv_id ` set (rd_rows (revenue_step (revenue_run cs) c)) \<subseteq> set (map call_id (cs @ [c]))"
    using revenue_step_ids [OF IH(1), of c] IH(2) by (simp add: subset_iff) blast
  ultimately show ?case by (simp only: step simp_thms)
qed

text \<open>A keyed revenue event on the sample purchase.\<close>

definition sample_revenue :: "revenue_event_type \<Rightarrow> revenue_input" where
  "sample_revenue ty = \<lparr>ri_projectId = ''prj'', ri_subscriberId = ''sub'', ri_purchaseId = 0,
     ri_productId = ''prod'', ri_type = ty, ri_amount = ''9.99'', ri_currency = ''USD'',
     ri_amountUsd = ''9.99'', ri_store = APP_STORE, ri_eventDate = 100, ri_dedupeKey = Some ''k1'',
     ri_metadata = None, ri_country = None\<rparr>"

definition sample_revenue_tx :: "string \<Rightarrow> revenue_tx" where
  "sample_revenue_tx i = \<lparr>rt_start = 110, rt_revenueId = i, rt_outboxId = ''ob'' @ i\<rparr>"

section \<open>Properties\<close>

text \<open>
  C15. One economic event is recorded once: when a keyed event was recorded, every later call of
  the same project with the same key, whatever its classification, amounts or ids and unless its
  purchase is family-shared, returns the recorded row and leaves rows, claims and outbox alone.
\<close>

theorem createRevenueEvent_replay:
  assumes "revenue_db_ok db" and "fresh_id tx db"
    and "createRevenueEvent tx pdb db i = Inr (Some r, db')"
    and "ri_dedupeKey i = Some key" and "key \<noteq> []"
    and "ri_projectId j = ri_projectId i" and "ri_dedupeKey j = Some key"
    and "\<not> family_shared pdb' (ri_purchaseId j)"
  shows "createRevenueEvent tx' pdb' db' j = Inr (Some r, db')"
proof -
  have ok: "revenue_db_ok db'" by (rule createRevenueEvent_ok [OF assms(3,1,2)])
  from claim_after_create [OF assms(3,1,4,5)] obtain c where
    r: "r \<in> set (rd_rows db')" "has_key (ri_projectId i) key r"
    and c: "find (claim_of (ri_projectId i) key) (rd_claims db') = Some c" by auto
  from claim_row [OF ok c assms(5)] obtain r' where
    r': "findRevenueEventById db' (dc_revenueEventId c) = Some r'"
    "filter (has_key (ri_projectId i) key) (rd_rows db') = [r']" by blast
  have "r \<in> set (filter (has_key (ri_projectId i) key) (rd_rows db'))" using r by simp
  then have "r = r'" by (simp add: r'(2))
  with r' c assms(5-8) show ?thesis by (simp add: createRevenueEvent_def)
qed

theorem createRevenueEvent_replay_witness:
  "\<exists>r db'. createRevenueEvent (sample_revenue_tx ''e1'') (sample_table ACTIVE 500)
       \<lparr>rd_rows = [], rd_claims = [], rd_outbox = []\<rparr> (sample_revenue INITIAL) = Inr (Some r, db')
     \<and> createRevenueEvent (sample_revenue_tx ''e2'') (sample_table ACTIVE 500) db' (sample_revenue RENEWAL)
         = Inr (Some r, db')"
proof -
  let ?db = "\<lparr>rd_rows = [], rd_claims = [], rd_outbox = []\<rparr>"
  have own: "\<not> family_shared (sample_table ACTIVE 500) (ri_purchaseId (sample_revenue ty))" for ty
    by (simp add: family_shared_def sample_table_def sample_purchase_def sample_revenue_def)
  have key: "ri_dedupeKey (sample_revenue ty) = Some ''k1''" for ty by (simp add: sample_revenue_def)
  obtain r db' where run: "createRevenueEvent (sample_revenue_tx ''e1'') (sample_table ACTIVE 500) ?db
      (sample_revenue INITIAL) = Inr (Some r, db')"
    by (simp add: createRevenueEvent_def own key insertRevenueRow_def Let_def)
  have "revenue_db_ok ?db" "fresh_id (sample_revenue_tx ''e1'') ?db"
    by (simp_all add: revenue_db_ok_def revenue_outbox_def fresh_id_def)
  then have "createRevenueEvent (sample_revenue_tx ''e2'') (sample_table ACTIVE 500) db' (sample_revenue RENEWAL)
      = Inr (Some r, db')"
    by (rule createRevenueEvent_replay [OF _ _ run key _ _ key own]) (simp_all add: sample_revenue_def)
  with run show ?thesis by blast
qed



end
