(* ===== verification/Webhook_Delivery.thy ===== *)
theory Webhook_Delivery
  imports Json_Text
begin

text \<open>
  \<^verbatim>\<open>packages/db/src/drizzle/repositories/outgoing-webhooks.ts\<close> and
  \<^verbatim>\<open>apps/api/src/workers/webhook-delivery.ts\<close>: the queue of outgoing webhooks, the claim of a
  batch under a lease, the delivery attempt with its retry schedule, and the operator actions.

  Every statement of the repository is atomic. What the network and the database do in one
  attempt is an argument of the attempt (\<open>delivery_env\<close>); the keyed hash and the project secrets
  are parameters. Log lines are not modelled.
\<close>

section \<open>Rows\<close>

datatype webhook_status = WH_PENDING | WH_DELIVERING | WH_SENT | WH_FAILED | WH_DEAD | WH_DISMISSED

record outgoing_webhook =
  ow_id :: string
  ow_projectId :: string
  ow_eventType :: string
  ow_subscriberId :: string
  ow_purchaseId :: "string option"
  ow_payload :: json
  ow_url :: string
  ow_status :: webhook_status
  ow_httpStatus :: "int option"
  ow_responseBody :: "string option"
  ow_lastErrorMessage :: "string option"
  ow_attempts :: nat
  ow_nextRetryAt :: "timestamp option"
  ow_claimedAt :: "timestamp option"
  ow_sentAt :: "timestamp option"
  ow_deadAt :: "timestamp option"
  ow_createdAt :: timestamp

type_synonym webhook_db = "outgoing_webhook list"

record webhook_patch =
  wp_status :: "webhook_status option"
  wp_httpStatus :: "int option option"
  wp_responseBody :: "string option option"
  wp_lastErrorMessage :: "string option option"
  wp_attempts :: "nat option"
  wp_sentAt :: "timestamp option option"
  wp_deadAt :: "timestamp option option"
  wp_nextRetryAt :: "timestamp option option"

definition no_patch :: webhook_patch where
  "no_patch = \<lparr>wp_status = None, wp_httpStatus = None, wp_responseBody = None,
     wp_lastErrorMessage = None, wp_attempts = None, wp_sentAt = None, wp_deadAt = None,
     wp_nextRetryAt = None\<rparr>"

section \<open>The repository\<close>

text \<open>Newest first, one row: the first of the matches in descending creation time.\<close>

definition newest_first :: "(outgoing_webhook \<Rightarrow> bool) \<Rightarrow> webhook_db \<Rightarrow> outgoing_webhook list" where
  "newest_first P db = sort_key (\<lambda>w. - ow_createdAt w) (filter P db)"

definition head_option :: "'a list \<Rightarrow> 'a option" where
  "head_option xs = (case xs of [] \<Rightarrow> None | x # _ \<Rightarrow> Some x)"

definition findRecentOutgoingByPurchaseAndType ::
  "webhook_db \<Rightarrow> string \<Rightarrow> string \<Rightarrow> string \<Rightarrow> string option \<Rightarrow> outgoing_webhook option" where
  "findRecentOutgoingByPurchaseAndType db projectId subscriberId eventType purchaseId =
     head_option (newest_first (\<lambda>w. ow_projectId w = projectId \<and> ow_subscriberId w = subscriberId
        \<and> ow_eventType w = eventType
        \<and> (case purchaseId of None \<Rightarrow> True | Some p \<Rightarrow> ow_purchaseId w = Some p)) db)"

definition findOutgoingByWebhookEvent ::
  "webhook_db \<Rightarrow> string \<Rightarrow> string \<Rightarrow> string \<Rightarrow> string \<Rightarrow> outgoing_webhook option" where
  "findOutgoingByWebhookEvent db projectId subscriberId eventType webhookEventId =
     find (\<lambda>w. ow_projectId w = projectId \<and> ow_subscriberId w = subscriberId
             \<and> ow_eventType w = eventType
             \<and> str_prop (ow_payload w) ''webhookEventId'' = Some webhookEventId) db"

definition listDeadWebhooks :: "webhook_db \<Rightarrow> string \<Rightarrow> nat \<Rightarrow> nat \<Rightarrow> webhook_db" where
  "listDeadWebhooks db projectId limit offset =
     take limit (drop offset (sort_key (\<lambda>w. - (case ow_deadAt w of None \<Rightarrow> 0 | Some t \<Rightarrow> t))
       (filter (\<lambda>w. ow_projectId w = projectId \<and> ow_status w = WH_DEAD) db)))"

definition countDeadWebhooks :: "webhook_db \<Rightarrow> string \<Rightarrow> nat" where
  "countDeadWebhooks db projectId =
     length (filter (\<lambda>w. ow_projectId w = projectId \<and> ow_status w = WH_DEAD) db)"

definition countRecentDeadWebhooks :: "webhook_db \<Rightarrow> string \<Rightarrow> timestamp \<Rightarrow> nat" where
  "countRecentDeadWebhooks db projectId since =
     length (filter (\<lambda>w. ow_projectId w = projectId \<and> ow_status w = WH_DEAD
                       \<and> (case ow_deadAt w of None \<Rightarrow> False | Some t \<Rightarrow> since \<le> t)) db)"

definition listRecentOutgoingWebhooks :: "webhook_db \<Rightarrow> string \<Rightarrow> nat \<Rightarrow> nat \<Rightarrow> webhook_db" where
  "listRecentOutgoingWebhooks db projectId limit offset =
     take limit (drop offset (newest_first (\<lambda>w. ow_projectId w = projectId) db))"

definition countOutgoingWebhooks :: "webhook_db \<Rightarrow> string \<Rightarrow> nat" where
  "countOutgoingWebhooks db projectId = length (filter (\<lambda>w. ow_projectId w = projectId) db)"

definition findOutgoingWebhookById :: "webhook_db \<Rightarrow> string \<Rightarrow> outgoing_webhook option" where
  "findOutgoingWebhookById db wid = find (\<lambda>w. ow_id w = wid) db"

definition update_webhook ::
  "string \<Rightarrow> (outgoing_webhook \<Rightarrow> outgoing_webhook) \<Rightarrow> webhook_db \<Rightarrow> webhook_db" where
  "update_webhook wid f db = map (\<lambda>w. if ow_id w = wid then f w else w) db"

definition reset_row :: "outgoing_webhook \<Rightarrow> outgoing_webhook" where
  "reset_row w = w\<lparr>ow_status := WH_PENDING, ow_attempts := 0, ow_nextRetryAt := None,
     ow_deadAt := None, ow_httpStatus := None, ow_responseBody := None, ow_lastErrorMessage := None\<rparr>"

definition resetWebhookForRetry :: "webhook_db \<Rightarrow> string \<Rightarrow> outgoing_webhook option \<times> webhook_db" where
  "resetWebhookForRetry db wid =
     (map_option reset_row (findOutgoingWebhookById db wid), update_webhook wid reset_row db)"

definition markWebhookDismissed :: "webhook_db \<Rightarrow> string \<Rightarrow> outgoing_webhook option \<times> webhook_db" where
  "markWebhookDismissed db wid =
     (let f = (\<lambda>w. w\<lparr>ow_status := WH_DISMISSED\<rparr>)
      in (map_option f (findOutgoingWebhookById db wid), update_webhook wid f db))"

definition patch_row :: "webhook_patch \<Rightarrow> outgoing_webhook \<Rightarrow> outgoing_webhook" where
  "patch_row p w = w\<lparr>ow_status := patched (wp_status p) (ow_status w),
     ow_httpStatus := patched (wp_httpStatus p) (ow_httpStatus w),
     ow_responseBody := patched (wp_responseBody p) (ow_responseBody w),
     ow_lastErrorMessage := patched (wp_lastErrorMessage p) (ow_lastErrorMessage w),
     ow_attempts := patched (wp_attempts p) (ow_attempts w),
     ow_sentAt := patched (wp_sentAt p) (ow_sentAt w),
     ow_deadAt := patched (wp_deadAt p) (ow_deadAt w),
     ow_nextRetryAt := patched (wp_nextRetryAt p) (ow_nextRetryAt w)\<rparr>"

definition updateOutgoingWebhook :: "webhook_db \<Rightarrow> string \<Rightarrow> webhook_patch \<Rightarrow> webhook_db" where
  "updateOutgoingWebhook db wid p = (if p = no_patch then db else update_webhook wid (patch_row p) db)"

definition due :: "timestamp \<Rightarrow> outgoing_webhook \<Rightarrow> bool" where
  "due now w =
     (ow_status w = WH_PENDING
      \<or> (ow_status w = WH_FAILED \<and> (case ow_nextRetryAt w of None \<Rightarrow> False | Some t \<Rightarrow> t \<le> now)))"

record pending_webhook =
  pw_id :: string
  pw_url :: string
  pw_payload :: json
  pw_attempts :: nat
  pw_projectId :: string
  pw_projectWebhookSecret :: "string option"

definition pending_of :: "(string \<Rightarrow> string option) \<Rightarrow> outgoing_webhook \<Rightarrow> pending_webhook" where
  "pending_of secrets w = \<lparr>pw_id = ow_id w, pw_url = ow_url w, pw_payload = ow_payload w,
     pw_attempts = ow_attempts w, pw_projectId = ow_projectId w,
     pw_projectWebhookSecret = secrets (ow_projectId w)\<rparr>"

definition claimPendingWebhooks ::
  "(string \<Rightarrow> string option) \<Rightarrow> webhook_db \<Rightarrow> timestamp \<Rightarrow> nat \<Rightarrow> pending_webhook list \<times> webhook_db" where
  "claimPendingWebhooks secrets db now batchSize =
     (let batch = take batchSize (sort_key ow_createdAt (filter (due now) db));
          keys = map (\<lambda>w. (ow_id w, ow_createdAt w)) batch
      in (map (pending_of secrets) batch,
          map (\<lambda>w. if (ow_id w, ow_createdAt w) \<in> set keys
                   then w\<lparr>ow_status := WH_DELIVERING, ow_claimedAt := Some now\<rparr> else w) db))"

definition CLAIM_LEASE_MS :: int where
  "CLAIM_LEASE_MS = 5 * 60000"

definition stale_claim :: "timestamp \<Rightarrow> outgoing_webhook \<Rightarrow> bool" where
  "stale_claim now w =
     (ow_status w = WH_DELIVERING
      \<and> (case ow_claimedAt w of None \<Rightarrow> False | Some t \<Rightarrow> t < now - CLAIM_LEASE_MS))"

definition reclaimStaleDeliveries :: "webhook_db \<Rightarrow> timestamp \<Rightarrow> nat \<times> webhook_db" where
  "reclaimStaleDeliveries db now =
     (length (filter (stale_claim now) db),
      map (\<lambda>w. if stale_claim now w then w\<lparr>ow_status := WH_PENDING, ow_claimedAt := None\<rparr> else w) db)"

record enqueue_input =
  eq_projectId :: string
  eq_eventType :: string
  eq_subscriberId :: string
  eq_purchaseId :: "string option"
  eq_payload :: json
  eq_url :: string

definition enqueueOutgoingWebhook :: "string \<Rightarrow> timestamp \<Rightarrow> webhook_db \<Rightarrow> enqueue_input \<Rightarrow> webhook_db" where
  "enqueueOutgoingWebhook freshId now db i = db @
     [\<lparr>ow_id = freshId, ow_projectId = eq_projectId i, ow_eventType = eq_eventType i,
       ow_subscriberId = eq_subscriberId i, ow_purchaseId = eq_purchaseId i,
       ow_payload = eq_payload i, ow_url = eq_url i, ow_status = WH_PENDING, ow_httpStatus = None,
       ow_responseBody = None, ow_lastErrorMessage = None, ow_attempts = 0, ow_nextRetryAt = None,
       ow_claimedAt = None, ow_sentAt = None, ow_deadAt = None, ow_createdAt = now\<rparr>]"

section \<open>The delivery worker\<close>

definition MAX_ATTEMPTS :: nat where "MAX_ATTEMPTS = 5"

definition BACKOFF_SCHEDULE_MS :: "int list" where
  "BACKOFF_SCHEDULE_MS = [1 * 60000, 5 * 60000, 30 * 60000, 2 * 60 * 60000, 12 * 60 * 60000]"

definition DELIVERY_BATCH_SIZE :: nat where "DELIVERY_BATCH_SIZE = 50"
definition DELIVERY_TIMEOUT_MS :: int where "DELIVERY_TIMEOUT_MS = 10000"

text \<open>
  What happens to the request: a response (status, body text, the latter absent when reading it
  failed) or an exception (refused, aborted by the timeout). \<open>de_sentError\<close> is the error of the
  write that marks the row as sent, if that write fails; \<open>de_lastWriteFails\<close> says whether the
  final write of a failed attempt throws.
\<close>

datatype http_outcome = Responded int "string option" | Threw string

record delivery_env =
  de_now :: timestamp
  de_outcome :: http_outcome
  de_sentError :: "string option"
  de_lastWriteFails :: bool

record http_request =
  hr_url :: string
  hr_headers :: "(string \<times> string) list"
  hr_body :: string

definition signPayload :: "(string \<Rightarrow> string \<Rightarrow> string) \<Rightarrow> string \<Rightarrow> int \<Rightarrow> string \<Rightarrow> string" where
  "signPayload hmac body ts secret = hmac secret (int_text ts @ ''.'' @ body)"

definition delivery_request ::
  "(string \<Rightarrow> string \<Rightarrow> string) \<Rightarrow> pending_webhook \<Rightarrow> timestamp \<Rightarrow> http_request" where
  "delivery_request hmac wh now =
     (let body = JSON_stringify (pw_payload wh);
          ts = now div 1000;
          base = [(''content-type'', ''application/json''), (''x-rovenue-event-id'', pw_id wh),
                  (''x-rovenue-timestamp'', int_text ts)];
          sig = (case pw_projectWebhookSecret wh of
                   None \<Rightarrow> []
                 | Some secret \<Rightarrow>
                     if secret = [] then []
                     else [(''x-rovenue-signature'',
                            ''t='' @ int_text ts @ '',v1='' @ signPayload hmac body ts secret)])
      in \<lparr>hr_url = pw_url wh, hr_headers = base @ sig, hr_body = body\<rparr>)"

definition response_ok :: "int \<Rightarrow> bool" where
  "response_ok st = (200 \<le> st \<and> st < 300)"

datatype delivery_result = SENT | FAILED | DEAD

record failing_notice =
  fn_projectId :: string
  fn_url :: string
  fn_webhookId :: string
  fn_consecutiveFailures :: nat
  fn_day :: string

definition backoff_ms :: "nat \<Rightarrow> int" where
  "backoff_ms newAttempts =
     (if newAttempts - 1 < length BACKOFF_SCHEDULE_MS then BACKOFF_SCHEDULE_MS ! (newAttempts - 1)
      else last BACKOFF_SCHEDULE_MS)"

text \<open>The status, body and message the failure path records.\<close>

definition failure_record ::
  "delivery_env \<Rightarrow> int option \<times> string option \<times> string" where
  "failure_record ev =
     (case de_outcome ev of
        Threw msg \<Rightarrow> (None, None, msg)
      | Responded st body \<Rightarrow>
          (Some st, body,
           if response_ok st then (case de_sentError ev of Some e \<Rightarrow> e | None \<Rightarrow> [])
           else (case body of Some b \<Rightarrow> b | None \<Rightarrow> ''HTTP '' @ int_text st)))"

definition succeeded :: "delivery_env \<Rightarrow> bool" where
  "succeeded ev =
     (case de_outcome ev of Threw _ \<Rightarrow> False | Responded st _ \<Rightarrow> response_ok st \<and> de_sentError ev = None)"

text \<open>\<open>None\<close> as the result is an exception that leaves the attempt; the notice is best effort.\<close>

definition attemptDelivery ::
  "pending_webhook \<Rightarrow> delivery_env \<Rightarrow> webhook_db \<Rightarrow>
     delivery_result option \<times> failing_notice list \<times> webhook_db" where
  "attemptDelivery wh ev db =
     (let now = de_now ev; newAttempts = pw_attempts wh + 1;
          (httpStatus, responseBody, errorMessage) = failure_record ev
      in if succeeded ev
         then (Some SENT, [],
               updateOutgoingWebhook db (pw_id wh)
                 (no_patch\<lparr>wp_status := Some WH_SENT, wp_httpStatus := Some httpStatus,
                    wp_responseBody := Some responseBody, wp_attempts := Some newAttempts,
                    wp_sentAt := Some (Some now), wp_nextRetryAt := Some None\<rparr>))
         else if de_lastWriteFails ev then (None, [], db)
         else if newAttempts > MAX_ATTEMPTS
         then (Some DEAD, [],
               updateOutgoingWebhook db (pw_id wh)
                 (no_patch\<lparr>wp_status := Some WH_DEAD, wp_httpStatus := Some httpStatus,
                    wp_responseBody := Some responseBody, wp_lastErrorMessage := Some (Some errorMessage),
                    wp_attempts := Some newAttempts, wp_deadAt := Some (Some now),
                    wp_nextRetryAt := Some None\<rparr>))
         else (Some FAILED,
               (if newAttempts = 3
                then [\<lparr>fn_projectId = pw_projectId wh, fn_url = pw_url wh, fn_webhookId = pw_id wh,
                       fn_consecutiveFailures = newAttempts, fn_day = iso_day now\<rparr>]
                else []),
               updateOutgoingWebhook db (pw_id wh)
                 (no_patch\<lparr>wp_status := Some WH_FAILED, wp_httpStatus := Some httpStatus,
                    wp_responseBody := Some responseBody, wp_lastErrorMessage := Some (Some errorMessage),
                    wp_attempts := Some newAttempts,
                    wp_nextRetryAt := Some (Some (now + backoff_ms newAttempts))\<rparr>)))"

record delivery_counts =
  dl_delivered :: nat
  dl_failed :: nat
  dl_dead :: nat

fun deliver_loop ::
  "(pending_webhook \<Rightarrow> delivery_env) \<Rightarrow> pending_webhook list \<Rightarrow>
     delivery_counts \<times> failing_notice list \<times> webhook_db \<Rightarrow>
     delivery_counts \<times> failing_notice list \<times> webhook_db" where
  "deliver_loop env [] acc = acc"
| "deliver_loop env (wh # whs) (n, notices, db) =
     (case attemptDelivery wh (env wh) db of
        (res, extra, db') \<Rightarrow>
          deliver_loop env whs
            (case res of
               Some SENT \<Rightarrow> n\<lparr>dl_delivered := Suc (dl_delivered n)\<rparr>
             | Some DEAD \<Rightarrow> n\<lparr>dl_dead := Suc (dl_dead n)\<rparr>
             | Some FAILED \<Rightarrow> n\<lparr>dl_failed := Suc (dl_failed n)\<rparr>
             | None \<Rightarrow> n,
             notices @ extra, db'))"

definition deliverWebhooks ::
  "(string \<Rightarrow> string option) \<Rightarrow> timestamp \<Rightarrow> (pending_webhook \<Rightarrow> delivery_env) \<Rightarrow> webhook_db \<Rightarrow>
     delivery_counts \<times> failing_notice list \<times> webhook_db" where
  "deliverWebhooks secrets now env db =
     (let db1 = snd (reclaimStaleDeliveries db now);
          (pending, db2) = claimPendingWebhooks secrets db1 now DELIVERY_BATCH_SIZE
      in deliver_loop env pending (\<lparr>dl_delivered = 0, dl_failed = 0, dl_dead = 0\<rparr>, [], db2))"

section \<open>Rows under every operation\<close>

definition webhook_ok :: "outgoing_webhook \<Rightarrow> bool" where
  "webhook_ok w =
     ((ow_status w = WH_FAILED \<longrightarrow> ow_nextRetryAt w \<noteq> None)
      \<and> (ow_status w = WH_DELIVERING \<longrightarrow> ow_claimedAt w \<noteq> None)
      \<and> (ow_status w = WH_SENT \<longrightarrow> ow_sentAt w \<noteq> None)
      \<and> (ow_status w = WH_DEAD \<longrightarrow> ow_deadAt w \<noteq> None \<and> ow_attempts w = MAX_ATTEMPTS + 1)
      \<and> (ow_status w \<in> {WH_PENDING, WH_DELIVERING, WH_FAILED} \<longrightarrow> ow_attempts w \<le> MAX_ATTEMPTS)
      \<and> ow_attempts w \<le> MAX_ATTEMPTS + 1)"

lemma patch_row_simps [row_simps, simp]:
  "ow_id (patch_row p w) = ow_id w"
  "ow_createdAt (patch_row p w) = ow_createdAt w"
  "ow_status (patch_row p w) = patched (wp_status p) (ow_status w)"
  "ow_attempts (patch_row p w) = patched (wp_attempts p) (ow_attempts w)"
  "ow_nextRetryAt (patch_row p w) = patched (wp_nextRetryAt p) (ow_nextRetryAt w)"
  "ow_sentAt (patch_row p w) = patched (wp_sentAt p) (ow_sentAt w)"
  "ow_deadAt (patch_row p w) = patched (wp_deadAt p) (ow_deadAt w)"
  "ow_claimedAt (patch_row p w) = ow_claimedAt w"
  by (simp_all add: patch_row_def)

lemma updateOutgoingWebhook_map: "updateOutgoingWebhook db wid p = update_webhook wid (patch_row p) db"
proof (cases "p = no_patch")
  case True
  have "patch_row no_patch w = w" for w by (simp add: patch_row_def no_patch_def patched_def)
  then have "update_webhook wid (patch_row p) db = db"
    unfolding update_webhook_def True by (intro map_idI) simp
  with True show ?thesis by (simp add: updateOutgoingWebhook_def)
qed (simp add: updateOutgoingWebhook_def)

lemma mem_update_webhook:
  "v \<in> set (update_webhook wid f db) \<longleftrightarrow>
     (\<exists>w \<in> set db. v = (if ow_id w = wid then f w else w))"
  unfolding update_webhook_def set_map image_iff by blast

text \<open>The patch one attempt writes, when it writes one.\<close>

definition attempt_patch :: "pending_webhook \<Rightarrow> delivery_env \<Rightarrow> webhook_patch \<Rightarrow> bool" where
  "attempt_patch wh ev p =
     (wp_attempts p = Some (pw_attempts wh + 1) \<and>
      (if succeeded ev
       then wp_status p = Some WH_SENT \<and> wp_sentAt p = Some (Some (de_now ev)) \<and> wp_nextRetryAt p = Some None
       else if pw_attempts wh + 1 > MAX_ATTEMPTS
       then wp_status p = Some WH_DEAD \<and> wp_deadAt p = Some (Some (de_now ev)) \<and> wp_nextRetryAt p = Some None
       else wp_status p = Some WH_FAILED
         \<and> wp_nextRetryAt p = Some (Some (de_now ev + backoff_ms (pw_attempts wh + 1)))))"

lemma attemptDelivery_cases:
  obtains (threw) "attemptDelivery wh ev db = (None, [], db)" "\<not> succeeded ev" "de_lastWriteFails ev"
  | (wrote) res ns p where
      "attemptDelivery wh ev db = (Some res, ns, update_webhook (pw_id wh) (patch_row p) db)"
      "attempt_patch wh ev p" "succeeded ev \<or> \<not> de_lastWriteFails ev"
      "res = (if succeeded ev then SENT else if pw_attempts wh + 1 > MAX_ATTEMPTS then DEAD else FAILED)"
proof (cases "\<not> succeeded ev \<and> de_lastWriteFails ev")
  case True
  then show ?thesis by (intro threw) (auto simp: attemptDelivery_def Let_def split: prod.split)
next
  case False
  obtain st body msg where fr: "failure_record ev = (st, body, msg)" by (cases "failure_record ev")
  show ?thesis
  proof (cases "succeeded ev")
    case True
    show ?thesis
      by (rule wrote [where p = "no_patch\<lparr>wp_status := Some WH_SENT, wp_httpStatus := Some st,
            wp_responseBody := Some body, wp_attempts := Some (pw_attempts wh + 1),
            wp_sentAt := Some (Some (de_now ev)), wp_nextRetryAt := Some None\<rparr>"
            and res = SENT and ns = "[]"])
        (use True in \<open>simp_all add: attemptDelivery_def fr updateOutgoingWebhook_map attempt_patch_def no_patch_def\<close>)
  next
    case nosucc: False
    show ?thesis
    proof (cases "pw_attempts wh + 1 > MAX_ATTEMPTS")
      case True
      show ?thesis
        by (rule wrote [where p = "no_patch\<lparr>wp_status := Some WH_DEAD, wp_httpStatus := Some st,
              wp_responseBody := Some body, wp_lastErrorMessage := Some (Some msg),
              wp_attempts := Some (pw_attempts wh + 1), wp_deadAt := Some (Some (de_now ev)),
              wp_nextRetryAt := Some None\<rparr>" and res = DEAD and ns = "[]"])
          (use True nosucc False in \<open>simp_all add: attemptDelivery_def fr updateOutgoingWebhook_map
             attempt_patch_def no_patch_def\<close>)
    next
      case alive: False
      show ?thesis
        by (rule wrote [where p = "no_patch\<lparr>wp_status := Some WH_FAILED, wp_httpStatus := Some st,
              wp_responseBody := Some body, wp_lastErrorMessage := Some (Some msg),
              wp_attempts := Some (pw_attempts wh + 1),
              wp_nextRetryAt := Some (Some (de_now ev + backoff_ms (pw_attempts wh + 1)))\<rparr>"
              and res = FAILED
              and ns = "fst (snd (attemptDelivery wh ev db))"])
          (use alive nosucc False in \<open>simp_all add: attemptDelivery_def fr updateOutgoingWebhook_map
             attempt_patch_def no_patch_def Let_def\<close>)
    qed
  qed
qed

lemma attempt_patch_ok:
  "attempt_patch wh ev p \<Longrightarrow> pw_attempts wh \<le> MAX_ATTEMPTS \<Longrightarrow> webhook_ok (patch_row p w)"
  by (auto simp: attempt_patch_def webhook_ok_def patched_def split: if_splits)

section \<open>The queue as a transition system\<close>

text \<open>
  A state is the table and the snapshots that workers hold between their claim and the attempt.
  Workers run concurrently: any held snapshot may be attempted next, a crash loses the snapshots
  a worker held.
\<close>

type_synonym queue_state = "webhook_db \<times> pending_webhook list"

inductive queue_step :: "queue_state \<Rightarrow> queue_state \<Rightarrow> bool" where
  enqueue: "freshId \<notin> ow_id ` set db \<Longrightarrow>
     queue_step (db, held) (enqueueOutgoingWebhook freshId now db i, held)"
| reclaim: "queue_step (db, held) (snd (reclaimStaleDeliveries db now), held)"
| claim: "claimPendingWebhooks secrets db now n = (pending, db') \<Longrightarrow>
     queue_step (db, held) (db', held @ pending)"
| attempt: "wh \<in> set held \<Longrightarrow> attemptDelivery wh ev db = (res, ns, db') \<Longrightarrow>
     queue_step (db, held) (db', remove1 wh held)"
| crash: "set held' \<subseteq> set held \<Longrightarrow> queue_step (db, held) (db, held')"
| reset: "queue_step (db, held) (snd (resetWebhookForRetry db wid), held)"
| dismiss: "queue_step (db, held) (snd (markWebhookDismissed db wid), held)"

inductive_cases queue_stepE: "queue_step s t"

definition queue_ok :: "queue_state \<Rightarrow> bool" where
  "queue_ok s = ((\<forall>w \<in> set (fst s). webhook_ok w) \<and> (\<forall>p \<in> set (snd s). pw_attempts p \<le> MAX_ATTEMPTS)
     \<and> distinct (map ow_id (fst s)))"

definition claim_keys :: "webhook_db \<Rightarrow> timestamp \<Rightarrow> nat \<Rightarrow> (string \<times> timestamp) set" where
  "claim_keys db now n =
     (\<lambda>w. (ow_id w, ow_createdAt w)) ` set (take n (sort_key ow_createdAt (filter (due now) db)))"

lemma claim_rows:
  assumes "claimPendingWebhooks secrets db now n = (pending, db')"
  shows "db' = map (\<lambda>w. if (ow_id w, ow_createdAt w) \<in> claim_keys db now n
                     then w\<lparr>ow_status := WH_DELIVERING, ow_claimedAt := Some now\<rparr> else w) db"
    and "pending = map (pending_of secrets) (take n (sort_key ow_createdAt (filter (due now) db)))"
  using assms by (auto simp: claimPendingWebhooks_def Let_def claim_keys_def)

lemma claim_mem:
  assumes "claimPendingWebhooks secrets db now n = (pending, db')" and "p \<in> set pending"
  shows "\<exists>w \<in> set db. due now w \<and> p = pending_of secrets w"
  using assms(2) by (auto simp: claim_rows(2) [OF assms(1)] dest!: take_sortD)

lemma claim_key_due:
  assumes "distinct (map ow_id db)" and "w \<in> set db" and "(ow_id w, ow_createdAt w) \<in> claim_keys db now n"
  shows "due now w"
proof -
  from assms(3) obtain v where "v \<in> set db" "due now v" "ow_id v = ow_id w"
    by (auto simp: claim_keys_def dest!: take_sortD)
  with assms(1,2) show ?thesis by (metis distinct_map_eqD)
qed

definition reclaimed :: "timestamp \<Rightarrow> outgoing_webhook \<Rightarrow> outgoing_webhook" where
  "reclaimed now w = (if stale_claim now w then w\<lparr>ow_status := WH_PENDING, ow_claimedAt := None\<rparr> else w)"

lemma reclaim_map: "snd (reclaimStaleDeliveries db now) = map (reclaimed now) db"
  by (simp add: reclaimStaleDeliveries_def reclaimed_def)

lemma reclaimed_ok: "webhook_ok w \<Longrightarrow> webhook_ok (reclaimed now w) \<and> ow_id (reclaimed now w) = ow_id w"
  by (simp add: reclaimed_def stale_claim_def webhook_ok_def)

lemma reset_row_ok: "webhook_ok w \<Longrightarrow> webhook_ok (reset_row w) \<and> ow_id (reset_row w) = ow_id w"
  by (simp add: reset_row_def webhook_ok_def)

lemma dismissed_ok: "webhook_ok w \<Longrightarrow> webhook_ok (w\<lparr>ow_status := WH_DISMISSED\<rparr>)"
  by (simp add: webhook_ok_def)

lemma queue_ok_map:
  assumes "queue_ok (db, held)" and "\<And>w. webhook_ok w \<Longrightarrow> webhook_ok (f w)" and "\<And>w. webhook_ok w \<Longrightarrow> ow_id (f w) = ow_id w"
  shows "queue_ok (map f db, held)"
proof -
  have "map ow_id (map f db) = map ow_id db"
    unfolding map_map comp_def using assms(1,3) by (intro map_cong) (auto simp: queue_ok_def)
  then have "distinct (map ow_id (map f db))" using assms(1) by (simp only: queue_ok_def fst_conv)
  then show ?thesis using assms(1,2) by (simp add: queue_ok_def)
qed

lemma queue_ok_update:
  assumes "queue_ok (db, held)" and "\<And>w. webhook_ok w \<Longrightarrow> webhook_ok (f w)" and "\<And>w. webhook_ok w \<Longrightarrow> ow_id (f w) = ow_id w"
  shows "queue_ok (update_webhook wid f db, held)"
  unfolding update_webhook_def by (rule queue_ok_map [OF assms(1)]) (simp_all add: assms)

lemma claim_ok:
  assumes "claimPendingWebhooks secrets db now n = (pending, db')" and "queue_ok (db, held)"
  shows "queue_ok (db', held @ pending)"
proof -
  have dist: "distinct (map ow_id db)" and ok: "\<And>w. w \<in> set db \<Longrightarrow> webhook_ok w"
    and held: "\<forall>p \<in> set held. pw_attempts p \<le> MAX_ATTEMPTS"
    using assms(2) by (auto simp: queue_ok_def)
  have due_ok: "ow_attempts w \<le> MAX_ATTEMPTS \<and> webhook_ok (w\<lparr>ow_status := WH_DELIVERING, ow_claimedAt := Some now\<rparr>)"
    if "w \<in> set db" "due now w" for w
    using ok [OF that(1)] that(2) by (auto simp: webhook_ok_def due_def)
  have "webhook_ok v" if "v \<in> set db'" for v
  proof -
    from that obtain w where w: "w \<in> set db" "v = (if (ow_id w, ow_createdAt w) \<in> claim_keys db now n
        then w\<lparr>ow_status := WH_DELIVERING, ow_claimedAt := Some now\<rparr> else w)"
      by (auto simp: claim_rows(1) [OF assms(1)])
    then show ?thesis
      using ok due_ok claim_key_due [OF dist w(1)] by (cases "(ow_id w, ow_createdAt w) \<in> claim_keys db now n") simp_all
  qed
  moreover have "pw_attempts p \<le> MAX_ATTEMPTS" if "p \<in> set pending" for p
    using claim_mem [OF assms(1) that] due_ok by (auto simp: pending_of_def)
  moreover have "map ow_id db' = map ow_id db" by (auto simp: claim_rows(1) [OF assms(1)])
  ultimately show ?thesis using dist held by (auto simp: queue_ok_def)
qed

lemma attempt_ok:
  assumes "wh \<in> set held" and "attemptDelivery wh ev db = (res, ns, db')" and "queue_ok (db, held)"
  shows "queue_ok (db', remove1 wh held)"
proof -
  have wh: "pw_attempts wh \<le> MAX_ATTEMPTS" using assms(1,3) by (auto simp: queue_ok_def)
  have held: "queue_ok (d, held) \<Longrightarrow> queue_ok (d, remove1 wh held)" for d
    using set_remove1_subset [of wh held] by (auto simp: queue_ok_def)
  show ?thesis
  proof (cases rule: attemptDelivery_cases [of wh ev db])
    case threw
    with assms held show ?thesis by simp
  next
    case (wrote r n p)
    have "queue_ok (update_webhook (pw_id wh) (patch_row p) db, held)"
      by (rule queue_ok_update [OF assms(3)]) (simp_all add: attempt_patch_ok [OF wrote(2) wh])
    with wrote(1) assms(2) held show ?thesis by simp
  qed
qed

lemma queue_step_ok:
  assumes "queue_step s t" and "queue_ok s"
  shows "queue_ok t"
  using assms
proof (induction rule: queue_step.induct)
  case (enqueue freshId db held now i)
  then show ?case by (simp add: queue_ok_def enqueueOutgoingWebhook_def webhook_ok_def)
next
  case (reclaim db held now)
  then show ?case unfolding reclaim_map by (rule queue_ok_map) (simp_all add: reclaimed_ok)
next
  case (claim secrets db now n pending db' held)
  then show ?case by (rule claim_ok)
next
  case (attempt wh held ev db res ns db')
  then show ?case by (rule attempt_ok)
next
  case (crash held' held db)
  then show ?case by (auto simp: queue_ok_def)
next
  case (reset db held wid)
  then show ?case
    unfolding resetWebhookForRetry_def snd_conv by (rule queue_ok_update) (simp_all add: reset_row_ok)
next
  case (dismiss db held wid)
  then show ?case
    unfolding markWebhookDismissed_def Let_def snd_conv
    by (rule queue_ok_update) (simp_all add: dismissed_ok)
qed

lemma queue_reachable_ok: "queue_step\<^sup>*\<^sup>* ([], []) s \<Longrightarrow> queue_ok s"
proof (induction rule: rtranclp_induct)
  case base
  show ?case by (simp add: queue_ok_def)
next
  case (step s t)
  from queue_step_ok [OF step(2,3)] show ?case .
qed

definition unresolved :: "outgoing_webhook \<Rightarrow> bool" where
  "unresolved w = (ow_status w \<in> {WH_PENDING, WH_DELIVERING, WH_FAILED})"

text \<open>From this time on the row is due, once a tick has reclaimed it if it is held.\<close>

definition ready_at :: "outgoing_webhook \<Rightarrow> timestamp" where
  "ready_at w = max (case ow_nextRetryAt w of None \<Rightarrow> 0 | Some t \<Rightarrow> t)
     ((case ow_claimedAt w of None \<Rightarrow> 0 | Some t \<Rightarrow> t) + CLAIM_LEASE_MS + 1)"

lemma ready_due: "webhook_ok w \<Longrightarrow> unresolved w \<Longrightarrow> ready_at w \<le> now \<Longrightarrow> due now (reclaimed now w)"
  by (auto simp: due_def reclaimed_def stale_claim_def webhook_ok_def unresolved_def ready_at_def
      split: option.splits)

lemma claim_all_due:
  assumes "w \<in> set db" and "due now w" and "length db \<le> n"
  shows "pending_of secrets w \<in> set (fst (claimPendingWebhooks secrets db now n))"
proof -
  have "length (sort_key ow_createdAt (filter (due now) db)) \<le> n"
    using le_trans [OF length_filter_le assms(3)] by simp
  then show ?thesis using assms(1,2) by (simp add: claimPendingWebhooks_def Let_def)
qed

text \<open>An enqueued webhook and two outcomes of an attempt.\<close>

definition sample_enqueue :: enqueue_input where
  "sample_enqueue = \<lparr>eq_projectId = ''prj'', eq_eventType = ''EXPIRATION'', eq_subscriberId = ''sub'',
     eq_purchaseId = None, eq_payload = JObj [], eq_url = ''https://hook''\<rparr>"

definition sample_queue :: webhook_db where
  "sample_queue = enqueueOutgoingWebhook ''w1'' 10 [] sample_enqueue"

definition sample_webhook :: outgoing_webhook where
  "sample_webhook = \<lparr>ow_id = ''w1'', ow_projectId = ''prj'', ow_eventType = ''EXPIRATION'',
     ow_subscriberId = ''sub'', ow_purchaseId = None, ow_payload = JObj [], ow_url = ''https://hook'',
     ow_status = WH_PENDING, ow_httpStatus = None, ow_responseBody = None, ow_lastErrorMessage = None,
     ow_attempts = 0, ow_nextRetryAt = None, ow_claimedAt = None, ow_sentAt = None, ow_deadAt = None,
     ow_createdAt = 10\<rparr>"

definition sample_attempt :: "http_outcome \<Rightarrow> delivery_env" where
  "sample_attempt out = \<lparr>de_now = 400000, de_outcome = out, de_sentError = None, de_lastWriteFails = False\<rparr>"

lemma sample_queue_rows: "sample_queue = [sample_webhook]"
  by (simp add: sample_queue_def sample_webhook_def sample_enqueue_def enqueueOutgoingWebhook_def)

section \<open>Properties\<close>



text \<open>
  Two claims with no reclaim between them never hand out the same webhook: a claimed row is
  in delivery before the claim returns, so a second worker does not see it.
\<close>

lemma claims_disjoint:
  assumes "distinct (map ow_id db)"
    and "claimPendingWebhooks secrets db now n = (p1, db1)"
    and "claimPendingWebhooks secrets db1 now' m = (p2, db2)"
  shows "set (map pw_id p1) \<inter> set (map pw_id p2) = {}"
proof (rule ccontr)
  assume "\<not> ?thesis"
  then obtain a b where ab: "a \<in> set p1" "b \<in> set p2" "pw_id a = pw_id b" by auto
  from ab(1) obtain w where w: "w \<in> set db" "a = pending_of secrets w"
    "(ow_id w, ow_createdAt w) \<in> claim_keys db now n"
    by (fastforce simp: claim_rows(2) [OF assms(2)] claim_keys_def dest: take_sortD)
  from claim_mem [OF assms(3) ab(2)] obtain v where v: "v \<in> set db1" "due now' v" "b = pending_of secrets v"
    by blast
  then obtain u where u: "u \<in> set db" "v = (if (ow_id u, ow_createdAt u) \<in> claim_keys db now n
      then u\<lparr>ow_status := WH_DELIVERING, ow_claimedAt := Some now\<rparr> else u)"
    by (auto simp: claim_rows(1) [OF assms(2)])
  with ab(3) w(2) v(3) have "ow_id u = ow_id w" by (auto simp: pending_of_def split: if_splits)
  with u(1) w(1) assms(1) have "u = w" by (metis distinct_map_eqD)
  with u w(3) v(2) show False by (simp add: due_def)
qed

text \<open>
  The retry schedule: an attempt that fails on a row with n attempts leaves n + 1 attempts;
  up to the fifth it waits for the n-th entry of the schedule and is not due before, the sixth
  is the last and kills the row.
\<close>

lemma failed_attempt_schedule:
  assumes "\<not> succeeded ev" and "\<not> de_lastWriteFails ev" and "w \<in> set db"
    and "pw_id wh = ow_id w" and "pw_attempts wh = n"
  shows "\<exists>w' \<in> set (snd (snd (attemptDelivery wh ev db))). ow_id w' = ow_id w \<and> ow_attempts w' = n + 1
    \<and> (if n < MAX_ATTEMPTS
       then ow_status w' = WH_FAILED
         \<and> ow_nextRetryAt w' = Some (de_now ev + BACKOFF_SCHEDULE_MS ! n)
         \<and> (\<forall>now < de_now ev + BACKOFF_SCHEDULE_MS ! n. \<not> due now w')
       else ow_status w' = WH_DEAD \<and> (\<forall>now. \<not> due now w'))"
proof (cases rule: attemptDelivery_cases [of wh ev db])
  case threw
  with assms show ?thesis by simp
next
  case (wrote res ns p)
  have len: "length BACKOFF_SCHEDULE_MS = MAX_ATTEMPTS" by (simp add: BACKOFF_SCHEDULE_MS_def MAX_ATTEMPTS_def)
  have "patch_row p w \<in> set (snd (snd (attemptDelivery wh ev db)))"
    using assms(3,4) by (force simp: wrote(1) mem_update_webhook)
  moreover have "n < MAX_ATTEMPTS \<Longrightarrow> backoff_ms (Suc n) = BACKOFF_SCHEDULE_MS ! n"
    by (simp add: backoff_ms_def len)
  ultimately show ?thesis using wrote(2) assms(1,5)
    by (intro bexI [of _ "patch_row p w"]) (auto simp: attempt_patch_def patched_def due_def split: if_splits)
qed

text \<open>
  The lease does not cover a batch: a worker may need the delivery timeout for each of the
  rows of its batch, which is longer than the lease. When the lease of a row runs out while its
  worker has not reached it, another worker reclaims, claims and sends it; the first worker then
  attempts its own snapshot of the sent row, and when that attempt fails the sent row is turned
  back into a failed one, due for a further delivery.
\<close>

lemma expired_lease_unsends:
  assumes "ow_status w = WH_DELIVERING" and "ow_claimedAt w = Some t0" and "ow_attempts w = n"
    and "t0 + CLAIM_LEASE_MS < t1" and "n < MAX_ATTEMPTS"
    and "succeeded ev1" and "\<not> succeeded ev2" and "\<not> de_lastWriteFails ev2"
    and "snapshot = pending_of secrets w"
    and "claimPendingWebhooks secrets (snd (reclaimStaleDeliveries [w] t1)) t1 DELIVERY_BATCH_SIZE = (p1, db1)"
    and "db2 = snd (snd (attemptDelivery snapshot ev1 db1))"
    and "db3 = snd (snd (attemptDelivery snapshot ev2 db2))"
  shows "CLAIM_LEASE_MS < int DELIVERY_BATCH_SIZE * DELIVERY_TIMEOUT_MS
    \<and> p1 = [snapshot] \<and> map ow_status db2 = [WH_SENT]
    \<and> map ow_status db3 = [WH_FAILED] \<and> (\<exists>t. \<forall>v \<in> set db3. due t v)"
proof -
  have "stale_claim t1 w" using assms(1,2,4) by (simp add: stale_claim_def)
  then have p1: "p1 = [snapshot]"
    and db1: "db1 = [w\<lparr>ow_status := WH_DELIVERING, ow_claimedAt := Some t1\<rparr>]"
    using assms(9,10) by (auto simp: reclaim_map reclaimed_def claimPendingWebhooks_def due_def
        DELIVERY_BATCH_SIZE_def pending_of_def)
  obtain q where q: "db2 = update_webhook (pw_id snapshot) (patch_row q) db1" "attempt_patch snapshot ev1 q"
    using assms(6,11) by (cases rule: attemptDelivery_cases [of snapshot ev1 db1]) auto
  obtain r where r: "db3 = update_webhook (pw_id snapshot) (patch_row r) db2" "attempt_patch snapshot ev2 r"
    using assms(7,8,12) by (cases rule: attemptDelivery_cases [of snapshot ev2 db2]) auto
  have id: "pw_id snapshot = ow_id w" "pw_attempts snapshot = n" using assms(3,9) by (simp_all add: pending_of_def)
  have db2: "map ow_status db2 = [WH_SENT]"
    using q assms(6) by (simp add: db1 id update_webhook_def attempt_patch_def patched_def)
  obtain v where v: "db3 = [v]" "ow_status v = WH_FAILED" "ow_nextRetryAt v \<noteq> None"
    using q(1) r assms(5,7)
    by (auto simp: db1 id update_webhook_def attempt_patch_def patched_def)
  then have "\<exists>t. due t v" by (auto simp: due_def)
  with v p1 db2 show ?thesis
    by (auto simp: CLAIM_LEASE_MS_def DELIVERY_BATCH_SIZE_def DELIVERY_TIMEOUT_MS_def)
qed

end
