(* ===== verification/Expiry_Checker.thy ===== *)
theory Expiry_Checker
  imports Access_Sync Revenue_Events Webhook_Delivery
begin

text \<open>
  \<^verbatim>\<open>apps/api/src/workers/expiry-checker.ts\<close>: the five-minute sweep that retires lapsed
  purchases, and the ageing pass over held payment failures.

  A candidate is the row as the query returned it; the processing of one candidate is a function
  of the candidate and of the world it finds, which other writers may have changed since. What
  the environment decides is in \<open>expiry_env\<close>: which calls throw, the clock readings, the fresh
  ids and the project and product configuration. An exception inside a candidate is the outcome
  \<open>None\<close>, with the effects committed before it.
\<close>

section \<open>The world and its environment\<close>

record expiry_world =
  ex_purchases :: purchase_db
  ex_access :: access_db
  ex_revenue :: revenue_db
  ex_webhooks :: webhook_db

record expiry_env =
  xe_products :: "string \<rightharpoonup> string list"
  xe_webhookUrl :: "string \<Rightarrow> string option"
  xe_casFails :: "row_id \<Rightarrow> bool"
  xe_syncFails :: "row_id \<Rightarrow> bool"
  xe_enqueueFails :: "row_id \<Rightarrow> bool"
  xe_revenueFails :: "row_id \<Rightarrow> bool"
  xe_syncNow :: "row_id \<Rightarrow> timestamp"
  xe_clock :: "row_id \<Rightarrow> timestamp"
  xe_outboxId :: "row_id \<Rightarrow> string"
  xe_webhookId :: "row_id \<Rightarrow> string"
  xe_revenueTx :: "row_id \<Rightarrow> revenue_tx"

definition EXPIRATION_EVENT_TYPE :: string where "EXPIRATION_EVENT_TYPE = ''EXPIRATION''"
definition MAX_CANDIDATES_PER_RUN :: nat where "MAX_CANDIDATES_PER_RUN = 500"
definition BILLING_ISSUE_MAX_AGE_DAYS :: int where "BILLING_ISSUE_MAX_AGE_DAYS = 60"

datatype outcome = Expired | Expired_Superseded | Grace_Period | Skipped

record expiry_result =
  er_checked :: nat
  er_expired :: nat
  er_movedToGracePeriod :: nat
  er_retiredSuperseded :: nat
  er_errors :: nat

section \<open>Operations\<close>

definition resolveSuperseded :: "purchase_db \<Rightarrow> purchase list \<Rightarrow> row_id list" where
  "resolveSuperseded db candidates = findSupersededPurchaseIds db (map pu_id candidates)"

definition safeSyncAccess :: "expiry_env \<Rightarrow> purchase \<Rightarrow> expiry_world \<Rightarrow> expiry_world" where
  "safeSyncAccess env c w =
     (if xe_syncFails env (pu_id c) then w
      else w\<lparr>ex_access := syncAccess (ex_purchases w) (xe_products env) (pu_subscriberId c)
                            (xe_syncNow env (pu_id c)) (ex_access w)\<rparr>)"

definition expired_payload :: "expiry_env \<Rightarrow> purchase \<Rightarrow> json" where
  "expired_payload env c = JObj
     [(''projectId'', JStr (pu_projectId c)), (''subscriberId'', JStr (pu_subscriberId c)),
      (''purchaseId'', JStr (nat_text (pu_id c))), (''timestamp'', iso_json (xe_clock env (pu_id c)))]"

definition expired_event :: "expiry_env \<Rightarrow> purchase \<Rightarrow> outbox_event" where
  "expired_event env c = \<lparr>ob_id = xe_outboxId env (pu_id c), ob_aggregateType = SUBSCRIPTION,
     ob_aggregateId = pu_subscriberId c, ob_eventType = ''subscription.expired'',
     ob_payload = expired_payload env c, ob_createdAt = xe_clock env (pu_id c), ob_publishedAt = None\<rparr>"

definition enqueueExpirationWebhook :: "expiry_env \<Rightarrow> purchase \<Rightarrow> expiry_world \<Rightarrow> expiry_world option" where
  "enqueueExpirationWebhook env c w =
     (if xe_enqueueFails env (pu_id c) then None
      else
        let w1 = w\<lparr>ex_revenue := (ex_revenue w)\<lparr>rd_outbox :=
                      outbox_insert (rd_outbox (ex_revenue w)) (expired_event env c)\<rparr>\<rparr>
        in Some (case xe_webhookUrl env (pu_projectId c) of
             None \<Rightarrow> w1
           | Some url \<Rightarrow>
               if url = [] then w1
               else (case findRecentOutgoingByPurchaseAndType (ex_webhooks w) (pu_projectId c)
                            (pu_subscriberId c) EXPIRATION_EVENT_TYPE (Some (nat_text (pu_id c))) of
                       Some _ \<Rightarrow> w1
                     | None \<Rightarrow>
                         w1\<lparr>ex_webhooks := enqueueOutgoingWebhook (xe_webhookId env (pu_id c))
                              (xe_clock env (pu_id c)) (ex_webhooks w)
                              \<lparr>eq_projectId = pu_projectId c, eq_eventType = EXPIRATION_EVENT_TYPE,
                               eq_subscriberId = pu_subscriberId c,
                               eq_purchaseId = Some (nat_text (pu_id c)),
                               eq_payload = JObj [(''eventType'', JStr EXPIRATION_EVENT_TYPE),
                                 (''subscriberId'', JStr (pu_subscriberId c)),
                                 (''purchaseId'', JStr (nat_text (pu_id c))),
                                 (''timestamp'', iso_json (xe_clock env (pu_id c)))],
                               eq_url = url\<rparr>\<rparr>)))"

definition cancellation_input :: "purchase \<Rightarrow> timestamp \<Rightarrow> revenue_input" where
  "cancellation_input c now =
     \<lparr>ri_projectId = pu_projectId c, ri_subscriberId = pu_subscriberId c, ri_purchaseId = pu_id c,
      ri_productId = pu_productId c, ri_type = CANCELLATION, ri_amount = ''0'',
      ri_currency = (case pu_priceCurrency c of None \<Rightarrow> ''USD'' | Some x \<Rightarrow> x), ri_amountUsd = ''0'',
      ri_store = pu_store c, ri_eventDate = now, ri_dedupeKey = None, ri_metadata = None,
      ri_country = None\<rparr>"

definition recordCancellationRevenue ::
  "expiry_env \<Rightarrow> purchase \<Rightarrow> timestamp \<Rightarrow> expiry_world \<Rightarrow> expiry_world option" where
  "recordCancellationRevenue env c now w =
     (if xe_revenueFails env (pu_id c) then None
      else case findRecentRevenueEvent (ex_revenue w) (pu_subscriberId c) (pu_id c) CANCELLATION 0 of
        Some _ \<Rightarrow> Some w
      | None \<Rightarrow>
          (case createRevenueEvent (xe_revenueTx env (pu_id c)) (ex_purchases w) (ex_revenue w)
                  (cancellation_input c now) of
             Inl _ \<Rightarrow> None
           | Inr (_, rdb) \<Rightarrow> Some (w\<lparr>ex_revenue := rdb\<rparr>)))"

definition retireCandidate ::
  "expiry_env \<Rightarrow> timestamp \<Rightarrow> row_id list \<Rightarrow> purchase \<Rightarrow> expiry_world \<Rightarrow> outcome option \<times> expiry_world" where
  "retireCandidate env now superseded c w =
     (let w1 = safeSyncAccess env c w in
      if pu_id c \<in> set superseded then (Some Expired_Superseded, w1)
      else case enqueueExpirationWebhook env c w1 of
        None \<Rightarrow> (None, w1)
      | Some w2 \<Rightarrow>
          (case recordCancellationRevenue env c now w2 of
             None \<Rightarrow> (None, w2)
           | Some w3 \<Rightarrow> (Some Expired, w3)))"

definition after_now :: "timestamp option \<Rightarrow> timestamp \<Rightarrow> bool" where
  "after_now d now = (case d of None \<Rightarrow> False | Some t \<Rightarrow> t > now)"

definition hasActiveGrace :: "purchase \<Rightarrow> timestamp \<Rightarrow> bool" where
  "hasActiveGrace c now =
     (pu_status c \<noteq> GRACE_PERIOD \<and> pu_status c \<noteq> PAUSED \<and> after_now (pu_gracePeriodExpires c) now)"

definition graceWindowStillOpen :: "purchase \<Rightarrow> timestamp \<Rightarrow> bool" where
  "graceWindowStillOpen c now = (pu_status c = GRACE_PERIOD \<and> after_now (pu_gracePeriodExpires c) now)"

definition processCandidate ::
  "expiry_env \<Rightarrow> timestamp \<Rightarrow> row_id list \<Rightarrow> purchase \<Rightarrow> expiry_world \<Rightarrow> outcome option \<times> expiry_world" where
  "processCandidate env now superseded c w =
     (if hasActiveGrace c now
      then (if xe_casFails env (pu_id c) then (None, w)
            else case updatePurchaseStatusIf (ex_purchases w) (pu_id c) (pu_status c) GRACE_PERIOD of
              (updated, pdb) \<Rightarrow>
                if updated = 0 then (Some Skipped, w)
                else (Some Grace_Period, safeSyncAccess env c (w\<lparr>ex_purchases := pdb\<rparr>)))
      else if graceWindowStillOpen c now then (Some Skipped, w)
      else if xe_casFails env (pu_id c) then (None, w)
      else case updatePurchaseStatusIf (ex_purchases w) (pu_id c) (pu_status c) EXPIRED of
        (updated, pdb) \<Rightarrow>
          if updated = 0 then (Some Skipped, w)
          else retireCandidate env now superseded c (w\<lparr>ex_purchases := pdb\<rparr>))"

definition count_outcome :: "outcome option \<Rightarrow> expiry_result \<Rightarrow> expiry_result" where
  "count_outcome res n =
     (case res of
        Some Expired \<Rightarrow> n\<lparr>er_expired := Suc (er_expired n)\<rparr>
      | Some Expired_Superseded \<Rightarrow>
          n\<lparr>er_expired := Suc (er_expired n), er_retiredSuperseded := Suc (er_retiredSuperseded n)\<rparr>
      | Some Grace_Period \<Rightarrow> n\<lparr>er_movedToGracePeriod := Suc (er_movedToGracePeriod n)\<rparr>
      | Some Skipped \<Rightarrow> n
      | None \<Rightarrow> n\<lparr>er_errors := Suc (er_errors n)\<rparr>)"

definition sweep_step ::
  "expiry_env \<Rightarrow> timestamp \<Rightarrow> row_id list \<Rightarrow> purchase \<Rightarrow> expiry_result \<times> expiry_world \<Rightarrow>
     expiry_result \<times> expiry_world" where
  "sweep_step env now superseded c acc =
     (case processCandidate env now superseded c (snd acc) of
        (res, w) \<Rightarrow> (count_outcome res (fst acc), w))"

definition runExpiryCheck :: "expiry_env \<Rightarrow> timestamp \<Rightarrow> expiry_world \<Rightarrow> expiry_result \<times> expiry_world" where
  "runExpiryCheck env now w =
     (let candidates = findOverduePurchases (ex_purchases w) now EXPIRY_SWEEP_STATUSES MAX_CANDIDATES_PER_RUN;
          superseded = resolveSuperseded (ex_purchases w) candidates
      in fold (sweep_step env now superseded) candidates
           (\<lparr>er_checked = length candidates, er_expired = 0, er_movedToGracePeriod = 0,
             er_retiredSuperseded = 0, er_errors = 0\<rparr>, w))"

record ageing_result =
  ag_checked :: nat
  ag_expired :: nat
  ag_retiredSuperseded :: nat

definition ageing_step ::
  "expiry_env \<Rightarrow> timestamp \<Rightarrow> row_id list \<Rightarrow> purchase \<Rightarrow> ageing_result \<times> expiry_world \<Rightarrow>
     ageing_result \<times> expiry_world" where
  "ageing_step env now superseded c acc =
     (if xe_casFails env (pu_id c) then acc
      else case updatePurchaseStatusIf (ex_purchases (snd acc)) (pu_id c) BILLING_ISSUE EXPIRED of
        (updated, pdb) \<Rightarrow>
          if updated = 0 then acc
          else
            let n1 = (fst acc)\<lparr>ag_expired := Suc (ag_expired (fst acc))\<rparr>
            in case retireCandidate env now superseded c ((snd acc)\<lparr>ex_purchases := pdb\<rparr>) of
                 (res, w) \<Rightarrow>
                   (if res = Some Expired_Superseded
                    then n1\<lparr>ag_retiredSuperseded := Suc (ag_retiredSuperseded n1)\<rparr> else n1, w))"

definition ageing_cutoff :: "timestamp \<Rightarrow> timestamp" where
  "ageing_cutoff now = now - BILLING_ISSUE_MAX_AGE_DAYS * 24 * 60 * 60 * 1000"

definition runBillingIssueAgeing :: "expiry_env \<Rightarrow> timestamp \<Rightarrow> expiry_world \<Rightarrow> ageing_result \<times> expiry_world" where
  "runBillingIssueAgeing env now w =
     (let candidates = findAgedBillingIssuePurchases (ex_purchases w) (ageing_cutoff now) MAX_CANDIDATES_PER_RUN;
          superseded = resolveSuperseded (ex_purchases w) candidates
      in fold (ageing_step env now superseded) candidates
           (\<lparr>ag_checked = length candidates, ag_expired = 0, ag_retiredSuperseded = 0\<rparr>, w))"

section \<open>The effect of one candidate\<close>

definition sweep_target :: "timestamp \<Rightarrow> purchase \<Rightarrow> subscription_status option" where
  "sweep_target now c =
     (if hasActiveGrace c now then Some GRACE_PERIOD
      else if graceWindowStillOpen c now then None else Some EXPIRED)"

definition swept :: "expiry_env \<Rightarrow> timestamp \<Rightarrow> purchase \<Rightarrow> purchase" where
  "swept env now c =
     (if xe_casFails env (pu_id c) then c
      else case sweep_target now c of None \<Rightarrow> c | Some st \<Rightarrow> c\<lparr>pu_status := st\<rparr>)"

definition expired_events :: "expiry_world \<Rightarrow> outbox_event list" where
  "expired_events w = filter (\<lambda>e. ob_eventType e = ''subscription.expired'') (rd_outbox (ex_revenue w))"

definition announced :: "timestamp \<Rightarrow> row_id list \<Rightarrow> purchase \<Rightarrow> bool" where
  "announced now superseded c = (sweep_target now c = Some EXPIRED \<and> pu_id c \<notin> set superseded)"

lemma safeSyncAccess_other [simp]:
  "ex_purchases (safeSyncAccess env c w) = ex_purchases w"
  "ex_revenue (safeSyncAccess env c w) = ex_revenue w"
  "ex_webhooks (safeSyncAccess env c w) = ex_webhooks w"
  by (simp_all add: safeSyncAccess_def)

lemma enqueue_effect:
  assumes "enqueueExpirationWebhook env c w = Some w'"
  shows "ex_purchases w' = ex_purchases w" and "expired_events w' = expired_events w @ [expired_event env c]"
    and "rd_rows (ex_revenue w') = rd_rows (ex_revenue w)"
    and "rd_claims (ex_revenue w') = rd_claims (ex_revenue w)"
    and "revenue_outbox (ex_revenue w') = revenue_outbox (ex_revenue w)"
  using assms by (auto simp: enqueueExpirationWebhook_def Let_def expired_events_def outbox_insert_def
      expired_event_def revenue_outbox_def split: if_splits option.splits)

lemma createRevenueEvent_expired_events:
  assumes "createRevenueEvent tx pdb rdb i = Inr (r, rdb')"
  shows "filter (\<lambda>e. ob_eventType e = ''subscription.expired'') (rd_outbox rdb')
       = filter (\<lambda>e. ob_eventType e = ''subscription.expired'') (rd_outbox rdb)"
  using assms by (auto simp: createRevenueEvent_def insertRevenueRow_def Let_def outbox_insert_def
      split: if_splits option.splits)

lemma record_effect:
  assumes "recordCancellationRevenue env c now w = Some w'"
  shows "ex_purchases w' = ex_purchases w" and "expired_events w' = expired_events w"
  using assms by (auto simp: recordCancellationRevenue_def expired_events_def createRevenueEvent_expired_events
      split: if_splits option.splits sum.splits)

lemma retire_purchases [simp]: "ex_purchases (snd (retireCandidate env now spd c w)) = ex_purchases w"
  by (auto simp: retireCandidate_def Let_def enqueue_effect record_effect split: option.splits)

lemma retire_events:
  assumes "\<not> xe_enqueueFails env (pu_id c)"
  shows "expired_events (snd (retireCandidate env now spd c w))
    = expired_events w @ (if pu_id c \<in> set spd then [] else [expired_event env c])"
proof -
  obtain w2 where w2: "enqueueExpirationWebhook env c (safeSyncAccess env c w) = Some w2"
    using assms by (auto simp: enqueueExpirationWebhook_def Let_def)
  have "expired_events (safeSyncAccess env c w) = expired_events w" by (simp add: expired_events_def)
  with enqueue_effect(2) [OF w2] show ?thesis
    by (auto simp: retireCandidate_def Let_def w2 record_effect split: option.split)
qed

lemma cas_hit:
  assumes "distinct (map pu_id (pd_rows db))" and "c \<in> set (pd_rows db)"
  shows "updatePurchaseStatusIf db (pu_id c) (pu_status c) st =
    (1, db\<lparr>pd_rows := map (\<lambda>r. if r = c then c\<lparr>pu_status := st\<rparr> else r) (pd_rows db)\<rparr>)"
proof -
  have hit: "pu_id r = pu_id c \<and> pu_status r = pu_status c \<longleftrightarrow> r = c" if "r \<in> set (pd_rows db)" for r
    using that assms distinct_map_eqD by metis
  have "filter (\<lambda>r. pu_id r = pu_id c \<and> pu_status r = pu_status c) (pd_rows db) = filter (\<lambda>r. r = c) (pd_rows db)"
    by (rule filter_cong) (use hit in auto)
  moreover have "length (filter (\<lambda>r. r = c) (pd_rows db)) = 1"
  proof -
    have "distinct (filter (\<lambda>r. r = c) (pd_rows db))" "set (filter (\<lambda>r. r = c) (pd_rows db)) = {c}"
      using assms by (auto simp: distinct_map)
    then show ?thesis by (metis distinct_card card.empty card.insert empty_iff finite.emptyI One_nat_def)
  qed
  moreover have "map (\<lambda>r. if pu_id r = pu_id c \<and> pu_status r = pu_status c then r\<lparr>pu_status := st\<rparr> else r) (pd_rows db)
      = map (\<lambda>r. if r = c then c\<lparr>pu_status := st\<rparr> else r) (pd_rows db)"
    by (rule map_cong) (use hit in auto)
  ultimately show ?thesis
    by (simp add: updatePurchaseStatusIf_def Let_def update_where_def)
qed

text \<open>A candidate that is still the row it was when it was read.\<close>

lemma process_purchases:
  assumes "distinct (map pu_id (pd_rows (ex_purchases w)))" and "c \<in> set (pd_rows (ex_purchases w))"
  shows "pd_rows (ex_purchases (snd (processCandidate env now spd c w)))
      = map (\<lambda>r. if r = c then swept env now c else r) (pd_rows (ex_purchases w))"
proof -
  let ?cas = "updatePurchaseStatusIf (ex_purchases w) (pu_id c) (pu_status c)"
  have idle: "map (\<lambda>r. if r = c then c else r) xs = xs" for xs by (rule map_idI) simp
  have cas: "pd_rows (snd (?cas st)) = map (\<lambda>r. if r = c then c\<lparr>pu_status := st\<rparr> else r) (pd_rows (ex_purchases w))" for st
    unfolding cas_hit [OF assms] by simp
  obtain pdb1 pdb2 where one: "?cas GRACE_PERIOD = (1, pdb1)" "?cas EXPIRED = (1, pdb2)"
    unfolding cas_hit [OF assms] by blast
  show ?thesis
  proof (cases "xe_casFails env (pu_id c) \<or> \<not> hasActiveGrace c now \<and> graceWindowStillOpen c now")
    case True
    then have "snd (processCandidate env now spd c w) = w" by (auto simp: processCandidate_def)
    moreover have "swept env now c = c" using True by (auto simp: swept_def sweep_target_def)
    ultimately show ?thesis using idle by (simp only:)
  next
    case False
    show ?thesis
    proof (cases "hasActiveGrace c now")
      case True
      have "ex_purchases (snd (processCandidate env now spd c w)) = snd (?cas GRACE_PERIOD)"
        using True False by (simp add: processCandidate_def one)
      moreover have "swept env now c = c\<lparr>pu_status := GRACE_PERIOD\<rparr>"
        using True False by (simp add: swept_def sweep_target_def)
      ultimately show ?thesis by (simp only: cas)
    next
      case no_grace: False
      have "ex_purchases (snd (processCandidate env now spd c w)) = snd (?cas EXPIRED)"
        using False no_grace by (simp add: processCandidate_def one)
      moreover have "swept env now c = c\<lparr>pu_status := EXPIRED\<rparr>"
        using False no_grace by (simp add: swept_def sweep_target_def)
      ultimately show ?thesis by (simp only: cas)
    qed
  qed
qed

lemma process_events:
  assumes "distinct (map pu_id (pd_rows (ex_purchases w)))" and "c \<in> set (pd_rows (ex_purchases w))"
    and "\<not> xe_enqueueFails env (pu_id c)" and "\<not> xe_casFails env (pu_id c)"
  shows "expired_events (snd (processCandidate env now spd c w))
      = expired_events w @ (if announced now spd c then [expired_event env c] else [])"
proof -
  let ?cas = "updatePurchaseStatusIf (ex_purchases w) (pu_id c) (pu_status c)"
  obtain pdb1 pdb2 where one: "?cas GRACE_PERIOD = (1, pdb1)" "?cas EXPIRED = (1, pdb2)"
    unfolding cas_hit [OF assms(1,2)] by blast
  have same: "expired_events (safeSyncAccess env c (w\<lparr>ex_purchases := pdb\<rparr>)) = expired_events w"
    "expired_events (w\<lparr>ex_purchases := pdb\<rparr>) = expired_events w" for pdb
    by (simp_all add: expired_events_def)
  show ?thesis
    using assms(3,4)
    by (simp add: processCandidate_def announced_def sweep_target_def same retire_events one)
qed

lemma swept_keys [simp]: "pu_id (swept env now c) = pu_id c"
  by (simp add: swept_def split: option.split)

definition mark_swept :: "expiry_env \<Rightarrow> timestamp \<Rightarrow> purchase list \<Rightarrow> purchase \<Rightarrow> purchase" where
  "mark_swept env now cs r = (if r \<in> set cs then swept env now r else r)"

lemma sweep_fold:
  assumes "distinct (map pu_id (pd_rows (ex_purchases (snd acc))))"
    and "distinct (map pu_id cs)" and "set cs \<subseteq> set (pd_rows (ex_purchases (snd acc)))"
  shows "pd_rows (ex_purchases (snd (fold (sweep_step env now spd) cs acc)))
      = map (mark_swept env now cs) (pd_rows (ex_purchases (snd acc)))
    \<and> ((\<forall>c \<in> set cs. \<not> xe_enqueueFails env (pu_id c) \<and> \<not> xe_casFails env (pu_id c)) \<longrightarrow>
        expired_events (snd (fold (sweep_step env now spd) cs acc))
      = expired_events (snd acc) @ map (expired_event env) (filter (announced now spd) cs))"
  using assms
proof (induction cs arbitrary: acc)
  case Nil
  show ?case by (simp add: mark_swept_def)
next
  case (Cons c cs)
  let ?rows = "pd_rows (ex_purchases (snd acc))"
  let ?acc = "sweep_step env now spd c acc"
  have snd_step: "snd ?acc = snd (processCandidate env now spd c (snd acc))"
    by (simp add: sweep_step_def split: prod.split)
  have c: "c \<in> set ?rows" using Cons.prems(3) by simp
  note one = process_purchases [OF Cons.prems(1) c, of env now spd, folded snd_step]
    and ev = process_events [OF Cons.prems(1) c, of env now spd, folded snd_step]
  have fresh: "pu_id c \<notin> set (map pu_id cs)" using Cons.prems(2) by simp
  have ids: "map pu_id (pd_rows (ex_purchases (snd ?acc))) = map pu_id ?rows"
    unfolding one by (auto simp: comp_def)
  have "set cs \<subseteq> set (pd_rows (ex_purchases (snd ?acc)))"
    unfolding one using Cons.prems(3) fresh by force
  then have IH: "pd_rows (ex_purchases (snd (fold (sweep_step env now spd) cs ?acc)))
      = map (mark_swept env now cs) (pd_rows (ex_purchases (snd ?acc)))"
    "(\<forall>c \<in> set cs. \<not> xe_enqueueFails env (pu_id c) \<and> \<not> xe_casFails env (pu_id c)) \<longrightarrow>
      expired_events (snd (fold (sweep_step env now spd) cs ?acc))
      = expired_events (snd ?acc) @ map (expired_event env) (filter (announced now spd) cs)"
    using Cons.IH [of ?acc] Cons.prems(1,2) unfolding ids by simp_all
  have "mark_swept env now cs (if r = c then swept env now c else r) = mark_swept env now (c # cs) r" for r
  proof -
    have "swept env now c \<notin> set cs" using fresh by (metis image_eqI list.set_map swept_keys)
    then show ?thesis by (simp add: mark_swept_def)
  qed
  with IH one ev show ?case by (simp add: comp_def)
qed

section \<open>Candidates and their rows\<close>

abbreviation sweepable_overdue :: "timestamp \<Rightarrow> purchase \<Rightarrow> bool" where
  "sweepable_overdue now \<equiv> overdue now EXPIRY_SWEEP_STATUSES"

definition candidates_of :: "expiry_world \<Rightarrow> timestamp \<Rightarrow> purchase list" where
  "candidates_of w now =
     findOverduePurchases (ex_purchases w) now EXPIRY_SWEEP_STATUSES MAX_CANDIDATES_PER_RUN"

lemma run_fold:
  "runExpiryCheck env now w =
     fold (sweep_step env now (resolveSuperseded (ex_purchases w) (candidates_of w now))) (candidates_of w now)
       (\<lparr>er_checked = length (candidates_of w now), er_expired = 0, er_movedToGracePeriod = 0,
         er_retiredSuperseded = 0, er_errors = 0\<rparr>, w)"
  by (simp add: runExpiryCheck_def candidates_of_def Let_def)

lemma candidates_mem:
  assumes "c \<in> set (candidates_of w now)"
  shows "c \<in> set (pd_rows (ex_purchases w)) \<and> sweepable_overdue now c"
  using assms by (auto simp: candidates_of_def findOverduePurchases_def dest!: take_sortD)

lemma candidates_distinct:
  assumes "distinct (map pu_id (pd_rows (ex_purchases w)))"
  shows "distinct (map pu_id (candidates_of w now))"
proof -
  let ?f = "filter (sweepable_overdue now) (pd_rows (ex_purchases w))"
  let ?k = "\<lambda>r. date_key (pu_expiresDate r)"
  have "distinct (map pu_id ?f)" using assms by (rule distinct_map_filterI)
  then have "distinct (map pu_id (sort_key ?k ?f))" by (simp add: distinct_map)
  then show ?thesis unfolding candidates_of_def findOverduePurchases_def
    by (metis distinct_take take_map)
qed

lemma length_candidates:
  "length (candidates_of w now)
    = min (length (filter (sweepable_overdue now) (pd_rows (ex_purchases w)))) MAX_CANDIDATES_PER_RUN"
  by (simp add: candidates_of_def findOverduePurchases_def min.commute)

lemma run_purchases:
  assumes "purchase_db_ok (ex_purchases w)"
  shows "pd_rows (ex_purchases (snd (runExpiryCheck env now w)))
    = map (mark_swept env now (candidates_of w now)) (pd_rows (ex_purchases w))"
  unfolding run_fold using assms candidates_mem candidates_distinct
  by (subst sweep_fold [THEN conjunct1]) (auto simp: purchase_db_ok_def)

lemma swept_not_overdue:
  assumes "sweepable_overdue now c" and "\<not> xe_casFails env (pu_id c)"
  shows "\<not> sweepable_overdue now (swept env now c)"
  using assms by (auto simp: swept_def sweep_target_def overdue_def hasActiveGrace_def
      graceWindowStillOpen_def after_now_def status_simps split: option.splits if_splits)

lemma filter_mark_swept:
  assumes "\<forall>c \<in> set cs. sweepable_overdue now c \<and> \<not> xe_casFails env (pu_id c)"
  shows "length (filter (sweepable_overdue now) (map (mark_swept env now cs) rs))
    = length (filter (\<lambda>r. sweepable_overdue now r \<and> r \<notin> set cs) rs)"
proof -
  have "sweepable_overdue now (mark_swept env now cs r) \<longleftrightarrow> sweepable_overdue now r \<and> r \<notin> set cs" for r
    using assms swept_not_overdue by (auto simp: mark_swept_def)
  then show ?thesis by (simp add: filter_map comp_def)
qed

lemma length_filter_diff:
  assumes "distinct rs" and "distinct cs" and "set cs \<subseteq> {r \<in> set rs. P r}"
  shows "length (filter (\<lambda>r. P r \<and> r \<notin> set cs) rs) = length (filter P rs) - length cs"
proof -
  have "length (filter (\<lambda>r. P r \<and> r \<notin> set cs) rs) = card ({r \<in> set rs. P r} - set cs)"
    using assms(1) by (subst distinct_card [symmetric]) (auto intro!: arg_cong [of _ _ card])
  also have "\<dots> = card {r \<in> set rs. P r} - card (set cs)"
    using assms(3) by (simp add: card_Diff_subset)
  also have "card {r \<in> set rs. P r} = length (filter P rs)"
    using assms(1) distinct_card [of "filter P rs"] by simp
  finally show ?thesis using assms(2) by (simp add: distinct_card)
qed

text \<open>A world with one lapsed purchase, and an environment without failures.\<close>

definition sample_env :: "bool \<Rightarrow> expiry_env" where
  "sample_env enqueueFails = \<lparr>xe_products = sample_products, xe_webhookUrl = (\<lambda>_. None),
     xe_casFails = (\<lambda>_. False), xe_syncFails = (\<lambda>_. False), xe_enqueueFails = (\<lambda>_. enqueueFails),
     xe_revenueFails = (\<lambda>_. False), xe_syncNow = (\<lambda>_. 600), xe_clock = (\<lambda>_. 600),
     xe_outboxId = nat_text, xe_webhookId = nat_text,
     xe_revenueTx = (\<lambda>_. sample_revenue_tx ''e1'')\<rparr>"

definition sample_world :: "purchase \<Rightarrow> expiry_world" where
  "sample_world p = \<lparr>ex_purchases = \<lparr>pd_rows = [p], pd_next = 1\<rparr>, ex_access = sample_access,
     ex_revenue = \<lparr>rd_rows = [], rd_claims = [], rd_outbox = []\<rparr>, ex_webhooks = []\<rparr>"

lemma sample_world_ok: "pu_id p = 0 \<Longrightarrow> purchase_db_ok (ex_purchases (sample_world p))"
  by (simp add: sample_world_def purchase_db_ok_def)

lemma sample_overdue:
  "filter (overdue 600 EXPIRY_SWEEP_STATUSES) (pd_rows (ex_purchases (sample_world (sample_purchase ACTIVE 500))))
     = [sample_purchase ACTIVE 500]"
  by (simp add: sample_world_def overdue_def status_simps sample_purchase_def)

section \<open>Properties\<close>

text \<open>
  C10. The sweep drains: a run whose status writes do not throw removes exactly as many rows from
  the overdue set as it has candidates, at most 500, whatever else fails (access
  reconciliation, the announcement, the revenue row), so repeated runs empty any backlog and no
  row holds a slot twice.
\<close>

theorem runExpiryCheck_drains:
  assumes "purchase_db_ok (ex_purchases w)" and "\<forall>i. \<not> xe_casFails env i"
  shows "length (filter (overdue now EXPIRY_SWEEP_STATUSES) (pd_rows (ex_purchases (snd (runExpiryCheck env now w)))))
    = length (filter (overdue now EXPIRY_SWEEP_STATUSES) (pd_rows (ex_purchases w))) - MAX_CANDIDATES_PER_RUN"
proof -
  let ?cs = "candidates_of w now"
  have dist: "distinct (map pu_id (pd_rows (ex_purchases w)))" using assms(1) by (simp add: purchase_db_ok_def)
  have cs: "\<forall>c \<in> set ?cs. sweepable_overdue now c \<and> \<not> xe_casFails env (pu_id c)"
    using candidates_mem assms(2) by blast
  have "length (filter (sweepable_overdue now) (map (mark_swept env now ?cs) (pd_rows (ex_purchases w))))
      = length (filter (sweepable_overdue now) (pd_rows (ex_purchases w))) - length ?cs"
    unfolding filter_mark_swept [OF cs]
    using dist candidates_distinct [OF dist] candidates_mem
    by (intro length_filter_diff) (auto simp: distinct_map)
  then show ?thesis by (simp add: run_purchases [OF assms(1)] length_candidates min_def)
qed

theorem runExpiryCheck_drains_witness:
  "filter (overdue 600 EXPIRY_SWEEP_STATUSES)
     (pd_rows (ex_purchases (snd (runExpiryCheck (sample_env True) 600 (sample_world (sample_purchase ACTIVE 500)))))) = []"
proof -
  have ok: "purchase_db_ok (ex_purchases (sample_world (sample_purchase ACTIVE 500)))"
    by (rule sample_world_ok) (simp add: sample_purchase_def)
  have env: "\<forall>i. \<not> xe_casFails (sample_env True) i" by (simp add: sample_env_def)
  show ?thesis using runExpiryCheck_drains [OF ok env, of 600] unfolding sample_overdue
    by (simp add: MAX_CANDIDATES_PER_RUN_def del: filter_empty_conv)
qed



text \<open>
  Optimistic concurrency: when the row no longer has the status the sweep read (a webhook
  renewed, refunded or revoked it in between), processing the candidate changes nothing at all.
\<close>

lemma processCandidate_lost_race:
  assumes "\<forall>r \<in> set (pd_rows (ex_purchases w)). pu_id r = pu_id c \<longrightarrow> pu_status r \<noteq> pu_status c"
  shows "snd (processCandidate env now superseded c w) = w
    \<and> fst (processCandidate env now superseded c w) \<in> {None, Some Skipped}"
proof -
  have "fst (updatePurchaseStatusIf (ex_purchases w) (pu_id c) (pu_status c) st) = 0" for st
    using assms by (auto simp: updatePurchaseStatusIf_def Let_def filter_empty_conv)
  then have "\<exists>pdb. updatePurchaseStatusIf (ex_purchases w) (pu_id c) (pu_status c) st = (0, pdb)" for st
    by (metis prod.collapse)
  then obtain p1 p2 where "updatePurchaseStatusIf (ex_purchases w) (pu_id c) (pu_status c) GRACE_PERIOD = (0, p1)"
    "updatePurchaseStatusIf (ex_purchases w) (pu_id c) (pu_status c) EXPIRED = (0, p2)" by metis
  then show ?thesis by (simp add: processCandidate_def)
qed

text \<open>
  A failed announcement is not retried: when enqueueing the expiry event of a candidate throws,
  the row is already EXPIRED, nothing was announced, and no later run, at any time and with any
  batch size, has the row among its candidates.
\<close>

lemma failed_announcement_lost:
  assumes "purchase_db_ok (ex_purchases w)" and "c \<in> set (pd_rows (ex_purchases w))"
    and "sweep_target now c = Some EXPIRED" and "pu_id c \<notin> set superseded"
    and "\<not> xe_casFails env (pu_id c)" and "xe_enqueueFails env (pu_id c)"
    and "processCandidate env now superseded c w = (res, w')"
  shows "res = None \<and> row_status (ex_purchases w') (pu_id c) = Some EXPIRED
    \<and> ex_revenue w' = ex_revenue w \<and> ex_webhooks w' = ex_webhooks w
    \<and> (\<forall>now' limit. pu_id c \<notin> pu_id ` set (findOverduePurchases (ex_purchases w') now' EXPIRY_SWEEP_STATUSES limit))"
proof -
  have dist: "distinct (map pu_id (pd_rows (ex_purchases w)))" using assms(1) by (simp add: purchase_db_ok_def)
  note hit = cas_hit [OF dist assms(2), of EXPIRED]
  have grace: "\<not> hasActiveGrace c now" "\<not> graceWindowStillOpen c now"
    using assms(3) by (auto simp: sweep_target_def split: if_splits)
  have enq: "enqueueExpirationWebhook env c v = None" for v
    using assms(6) by (simp add: enqueueExpirationWebhook_def)
  have w': "res = None" "w' = safeSyncAccess env c (w\<lparr>ex_purchases := snd (updatePurchaseStatusIf
      (ex_purchases w) (pu_id c) (pu_status c) EXPIRED)\<rparr>)"
    using assms(4,5,7) by (simp_all add: processCandidate_def grace hit retireCandidate_def enq)
  have rows: "pd_rows (ex_purchases w') = map (\<lambda>r. if r = c then c\<lparr>pu_status := EXPIRED\<rparr> else r) (pd_rows (ex_purchases w))"
    unfolding w' by (simp add: hit)
  have expired: "pu_status r = EXPIRED" if "r \<in> set (pd_rows (ex_purchases w'))" "pu_id r = pu_id c" for r
    using that assms(2) dist by (auto simp: rows dest: distinct_map_eqD split: if_splits)
  have "pu_id c \<notin> pu_id ` set (findOverduePurchases (ex_purchases w') now' EXPIRY_SWEEP_STATUSES limit)" for now' limit
    using expired by (auto simp: findOverduePurchases_def overdue_def status_simps dest!: take_sortD)
  moreover have "row_status (ex_purchases w') (pu_id c) = Some EXPIRED"
  proof -
    have "c\<lparr>pu_status := EXPIRED\<rparr> \<in> set (pd_rows (ex_purchases w'))" using assms(2) by (force simp: rows)
    then have "find (\<lambda>r. pu_id r = pu_id c) (pd_rows (ex_purchases w')) \<noteq> None"
      unfolding find_None_iff_all by (intro notI) (drule (1) bspec, simp)
    then show ?thesis using expired by (auto simp: row_status_def dest: find_Some_iff_mem)
  qed
  ultimately show ?thesis using w' by simp
qed

text \<open>
  The sweep leaves the transition graph: a trial whose grace window is open is moved to
  GRACE_PERIOD, a transition the state machine refuses.
\<close>

lemma sweep_takes_illegal_edge:
  assumes "purchase_db_ok (ex_purchases w)" and "c \<in> set (pd_rows (ex_purchases w))"
    and "pu_status c = TRIAL" and "pu_gracePeriodExpires c = Some g" and "now < g"
    and "\<not> xe_casFails env (pu_id c)"
  shows "\<not> validateTransition TRIAL GRACE_PERIOD
    \<and> fst (processCandidate env now superseded c w) = Some Grace_Period
    \<and> row_status (ex_purchases (snd (processCandidate env now superseded c w))) (pu_id c) = Some GRACE_PERIOD"
proof -
  have dist: "distinct (map pu_id (pd_rows (ex_purchases w)))" using assms(1) by (simp add: purchase_db_ok_def)
  note hit = cas_hit [OF dist assms(2), of GRACE_PERIOD]
  have grace: "hasActiveGrace c now" using assms(3-5) by (simp add: hasActiveGrace_def after_now_def)
  let ?w' = "snd (processCandidate env now superseded c w)"
  have rows: "pd_rows (ex_purchases ?w') = map (\<lambda>r. if r = c then c\<lparr>pu_status := GRACE_PERIOD\<rparr> else r) (pd_rows (ex_purchases w))"
    using assms(6) by (simp add: processCandidate_def grace hit)
  have "find (\<lambda>r. pu_id r = pu_id c) (pd_rows (ex_purchases ?w')) = Some (c\<lparr>pu_status := GRACE_PERIOD\<rparr>)"
  proof (rule find_unique)
    show "c\<lparr>pu_status := GRACE_PERIOD\<rparr> \<in> set (pd_rows (ex_purchases ?w'))" using assms(2) by (force simp: rows)
    show "y = c\<lparr>pu_status := GRACE_PERIOD\<rparr>" if "y \<in> set (pd_rows (ex_purchases ?w'))" "pu_id y = pu_id c" for y
      using that assms(2) dist by (auto simp: rows dest: distinct_map_eqD split: if_splits)
  qed simp
  moreover have "fst (processCandidate env now superseded c w) = Some Grace_Period"
    using assms(6) by (simp add: processCandidate_def grace hit)
  ultimately show ?thesis by (simp add: row_status_def validateTransition_def)
qed

end
