(* ===== verification/Outbox_Dispatcher.thy ===== *)
theory Outbox_Dispatcher
  imports Outbox
begin

text \<open>
  \<^verbatim>\<open>apps/api/src/workers/outbox-dispatcher.ts\<close>: one poll of the dispatcher that moves outbox
  rows to the message log, with its per-topic backoff and the message shapes.

  The hash function is a parameter. What the broker and the clock do in a tick is in \<open>tick_env\<close>:
  the clock at the partition and at the failure bookkeeping, the topics whose send is rejected,
  the database time of the mark, and whether the transaction that marks the rows throws. The
  messages a tick sent are appended to the log of the state.
\<close>

section \<open>Messages\<close>

record kafka_message =
  km_key :: string
  km_value :: json

definition paywallEventId ::
  "(string \<Rightarrow> string) \<Rightarrow> string \<Rightarrow> string \<Rightarrow> string \<Rightarrow> string \<Rightarrow> string \<Rightarrow> string \<Rightarrow> string" where
  "paywallEventId sha256 projectId subscriberId paywallId placementId clientEventId kind =
     sha256 (join_text '':'' [projectId, subscriberId, paywallId, placementId, clientEventId, kind])"

definition toOutboxKafkaMessage :: "outbox_event \<Rightarrow> kafka_message" where
  "toOutboxKafkaMessage r =
     \<lparr>km_key = ob_aggregateId r,
      km_value = JObj [(''eventId'', JStr (ob_id r)), (''eventType'', JStr (ob_eventType r)),
        (''aggregateId'', JStr (ob_aggregateId r)), (''createdAt'', iso_json (ob_createdAt r)),
        (''payload'', ob_payload r)]\<rparr>"

definition or_empty :: "string option \<Rightarrow> string" where
  "or_empty s = (case s of None \<Rightarrow> [] | Some t \<Rightarrow> t)"

definition paywall_kind :: "string \<Rightarrow> string" where
  "paywall_kind eventType =
     (if take 8 eventType = ''paywall_'' then drop 8 eventType else eventType)"

definition shapePaywallEventMessage :: "(string \<Rightarrow> string) \<Rightarrow> outbox_event \<Rightarrow> kafka_message" where
  "shapePaywallEventMessage sha256 row =
     (let envelope = ob_payload row;
          projectId = ob_aggregateId row;
          subscriberId = or_empty (str_prop envelope ''subscriberId'');
          ctx = (case jprop envelope ''paywallContext'' of None \<Rightarrow> JNull | Some c \<Rightarrow> c);
          paywallId = or_empty (str_prop ctx ''paywallId'');
          placementId = or_empty (str_prop ctx ''placementId'');
          placementRevision = (case jprop ctx ''placementRevision'' of Some (JNum n) \<Rightarrow> n | _ \<Rightarrow> 0);
          clientEventId = (case str_prop envelope ''eventId'' of None \<Rightarrow> ob_id row | Some e \<Rightarrow> e);
          occurredAt = (case str_prop envelope ''occurredAt'' of
                          None \<Rightarrow> iso_json (ob_createdAt row) | Some t \<Rightarrow> JStr t);
          kind = paywall_kind (ob_eventType row);
          eventId = paywallEventId sha256 projectId subscriberId paywallId placementId clientEventId kind
      in \<lparr>km_key = (if subscriberId = [] then projectId else subscriberId),
          km_value = JObj [(''eventId'', JStr eventId), (''eventType'', JStr (ob_eventType row)),
            (''aggregateId'', JStr (ob_aggregateId row)), (''createdAt'', iso_json (ob_createdAt row)),
            (''payload'', JObj [(''projectId'', JStr projectId), (''subscriberId'', JStr subscriberId),
               (''paywallId'', JStr paywallId), (''placementId'', JStr placementId),
               (''placementRevision'', JNum placementRevision),
               (''variantId'', opt_str (str_prop ctx ''variantId'')),
               (''experimentKey'', opt_str (str_prop ctx ''experimentKey'')),
               (''occurredAt'', occurredAt), (''kind'', JStr kind)])]\<rparr>)"

definition message_of :: "(string \<Rightarrow> string) \<Rightarrow> string \<Rightarrow> outbox_event \<Rightarrow> kafka_message" where
  "message_of sha256 topic r =
     (if topic = AGGREGATE_TO_TOPIC PAYWALL_EVENT then shapePaywallEventMessage sha256 r
      else toOutboxKafkaMessage r)"

section \<open>Backoff\<close>

definition DISPATCH_BATCH_SIZE :: nat where "DISPATCH_BATCH_SIZE = 250"
definition BACKOFF_BASE_MS :: int where "BACKOFF_BASE_MS = 500"
definition BACKOFF_MAX_MS :: int where "BACKOFF_MAX_MS = 30000"

record backoff_state =
  bo_consecutiveFailures :: nat
  bo_nextAttemptAt :: timestamp

type_synonym topic_backoff = "(string, backoff_state) js_map"

definition getBackoffState :: "topic_backoff \<Rightarrow> string \<Rightarrow> backoff_state option" where
  "getBackoffState m topic = map_of m topic"

definition onTopicFailure :: "timestamp \<Rightarrow> string \<Rightarrow> topic_backoff \<Rightarrow> topic_backoff" where
  "onTopicFailure now topic m =
     (let failures = (case map_of m topic of None \<Rightarrow> 0 | Some s \<Rightarrow> bo_consecutiveFailures s) + 1;
          delay = min BACKOFF_MAX_MS (BACKOFF_BASE_MS * 2 ^ failures)
      in AList.update topic \<lparr>bo_consecutiveFailures = failures, bo_nextAttemptAt = now + delay\<rparr> m)"

definition onTopicSuccess :: "string \<Rightarrow> topic_backoff \<Rightarrow> topic_backoff" where
  "onTopicSuccess topic m = filter (\<lambda>kv. fst kv \<noteq> topic) m"

definition isTopicBackingOff :: "timestamp \<Rightarrow> topic_backoff \<Rightarrow> string \<Rightarrow> bool" where
  "isTopicBackingOff now m topic =
     (case map_of m topic of None \<Rightarrow> False | Some s \<Rightarrow> bo_nextAttemptAt s > now)"

section \<open>One tick\<close>

record dispatcher =
  dp_outbox :: outbox
  dp_backoff :: topic_backoff
  dp_log :: "(string \<times> kafka_message) list"

record tick_env =
  te_now :: timestamp
  te_failNow :: timestamp
  te_rejects :: "string \<Rightarrow> bool"
  te_markNow :: timestamp
  te_markFails :: bool

definition topic_of :: "outbox_event \<Rightarrow> string" where
  "topic_of r = AGGREGATE_TO_TOPIC (ob_aggregateType r)"

definition group_step :: "outbox_event \<Rightarrow> (string, outbox_event list) js_map \<Rightarrow> (string, outbox_event list) js_map" where
  "group_step row m =
     AList.update (topic_of row) ((case map_of m (topic_of row) of None \<Rightarrow> [] | Some l \<Rightarrow> l) @ [row]) m"

definition by_topic :: "outbox_event list \<Rightarrow> (string, outbox_event list) js_map" where
  "by_topic rows = fold group_step rows []"

text \<open>
  The result is the value of the source's boolean, or \<open>None\<close> when the marking transaction throws
  out of the tick.
\<close>

definition runOnce ::
  "(string \<Rightarrow> string) \<Rightarrow> tick_env \<Rightarrow> dispatcher \<Rightarrow> bool option \<times> dispatcher" where
  "runOnce sha256 env d =
     (let batch = claimBatch (dp_outbox d) DISPATCH_BATCH_SIZE in
      if batch = [] then (Some False, d)
      else
        let eligible = filter (\<lambda>row. \<not> isTopicBackingOff (te_now env) (dp_backoff d) (topic_of row)) batch
        in if eligible = [] then (Some False, d)
           else
             let byTopic = by_topic eligible;
                 fulfilled = filter (\<lambda>(topic, rows). \<not> te_rejects env topic) byTopic;
                 succeeded = concat (map snd fulfilled);
                 sent = concat (map (\<lambda>(topic, rows). map (\<lambda>r. (topic, message_of sha256 topic r)) rows) fulfilled);
                 backoff1 = fold (\<lambda>(topic, rows). onTopicSuccess topic) fulfilled (dp_backoff d);
                 succeededIds = map ob_id succeeded;
                 failedTopics = filter (\<lambda>(topic, rows). \<not> list_all (\<lambda>r. ob_id r \<in> set succeededIds) rows) byTopic;
                 backoff2 = fold (\<lambda>(topic, rows). onTopicFailure (te_failNow env) topic) failedTopics backoff1;
                 d1 = d\<lparr>dp_backoff := backoff2, dp_log := dp_log d @ sent\<rparr>
             in if succeeded = [] then (Some False, d1)
                else if te_markFails env then (None, d1)
                else (Some True,
                      d1\<lparr>dp_outbox := markPublished (dp_outbox d) (te_markNow env) (map ob_id succeeded)\<rparr>))"

section \<open>Grouping\<close>

lemma by_topic_append: "by_topic (rows @ [r]) = group_step r (by_topic rows)"
  by (simp add: by_topic_def)

lemma by_topic_lookup: "map_of (by_topic rows) t = (if t \<in> topic_of ` set rows
    then Some (filter (\<lambda>r. topic_of r = t) rows) else None)"
proof (induction rows rule: rev_induct)
  case (snoc r rows)
  have none: "t \<notin> topic_of ` set rows \<Longrightarrow> filter (\<lambda>x. topic_of x = t) rows = []"
    by (auto simp: filter_empty_conv)
  show ?case
  proof (cases "topic_of r = t")
    case True
    with snoc none show ?thesis by (auto simp: by_topic_append group_step_def update_conv')
  next
    case False
    with snoc show ?thesis by (auto simp: by_topic_append group_step_def update_conv')
  qed
qed (simp add: by_topic_def)

lemma distinct_by_topic: "distinct (map fst (by_topic rows))"
  by (induction rows rule: rev_induct)
    (simp_all add: by_topic_def group_step_def distinct_update)

lemma by_topic_mem:
  "(t, rs) \<in> set (by_topic rows) \<longleftrightarrow> t \<in> topic_of ` set rows \<and> rs = filter (\<lambda>r. topic_of r = t) rows"
  unfolding map_of_eq_Some_iff [OF distinct_by_topic, symmetric] by_topic_lookup by auto

lemma succeeded_mem:
  "r \<in> set (concat (map snd (filter (\<lambda>(topic, rows). \<not> rej topic) (by_topic rows)))) \<longleftrightarrow>
     r \<in> set rows \<and> \<not> rej (topic_of r)"
  by (force simp: by_topic_mem)

definition sent_rows :: "tick_env \<Rightarrow> dispatcher \<Rightarrow> outbox_event list" where
  "sent_rows env d =
     filter (\<lambda>r. \<not> isTopicBackingOff (te_now env) (dp_backoff d) (topic_of r) \<and> \<not> te_rejects env (topic_of r))
       (claimBatch (dp_outbox d) DISPATCH_BATCH_SIZE)"

definition eligible_rows :: "tick_env \<Rightarrow> dispatcher \<Rightarrow> outbox_event list" where
  "eligible_rows env d = filter (\<lambda>row. \<not> isTopicBackingOff (te_now env) (dp_backoff d) (topic_of row))
     (claimBatch (dp_outbox d) DISPATCH_BATCH_SIZE)"

definition fulfilled_topics :: "tick_env \<Rightarrow> dispatcher \<Rightarrow> (string \<times> outbox_event list) list" where
  "fulfilled_topics env d = filter (\<lambda>(topic, rows). \<not> te_rejects env topic) (by_topic (eligible_rows env d))"

definition sent_messages :: "(string \<Rightarrow> string) \<Rightarrow> tick_env \<Rightarrow> dispatcher \<Rightarrow> (string \<times> kafka_message) list" where
  "sent_messages sha256 env d =
     concat (map (\<lambda>(topic, rows). map (\<lambda>r. (topic, message_of sha256 topic r)) rows) (fulfilled_topics env d))"

lemma runOnce_idle: "eligible_rows env d = [] \<Longrightarrow> runOnce sha256 env d = (Some False, d)"
  by (simp add: runOnce_def eligible_rows_def Let_def)

lemma runOnce_busy:
  assumes "eligible_rows env d \<noteq> []"
  shows "\<exists>b. runOnce sha256 env d =
    (let succ = concat (map snd (fulfilled_topics env d));
         d1 = d\<lparr>dp_backoff := b, dp_log := dp_log d @ sent_messages sha256 env d\<rparr>
     in if succ = [] then (Some False, d1)
        else if te_markFails env then (None, d1)
        else (Some True, d1\<lparr>dp_outbox := markPublished (dp_outbox d) (te_markNow env) (map ob_id succ)\<rparr>))"
proof -
  have "claimBatch (dp_outbox d) DISPATCH_BATCH_SIZE \<noteq> []" using assms by (auto simp: eligible_rows_def)
  with assms show ?thesis
    unfolding runOnce_def Let_def eligible_rows_def fulfilled_topics_def sent_messages_def
    by (simp only: if_False) (rule exI, rule refl)
qed

lemma fulfilled_rows: "set (concat (map snd (fulfilled_topics env d))) = set (sent_rows env d)"
  unfolding fulfilled_topics_def
  by (rule set_eqI) (simp only: succeeded_mem, auto simp: sent_rows_def eligible_rows_def)

lemma sent_message_mem:
  assumes "r \<in> set (sent_rows env d)"
  shows "(topic_of r, message_of sha256 (topic_of r) r) \<in> set (sent_messages sha256 env d)"
proof -
  have "r \<in> set (eligible_rows env d)" "\<not> te_rejects env (topic_of r)"
    using assms by (auto simp: sent_rows_def eligible_rows_def)
  then have "(topic_of r, filter (\<lambda>q. topic_of q = topic_of r) (eligible_rows env d)) \<in> set (fulfilled_topics env d)"
    by (simp add: fulfilled_topics_def by_topic_mem)
  moreover have "r \<in> set (filter (\<lambda>q. topic_of q = topic_of r) (eligible_rows env d))"
    using \<open>r \<in> set (eligible_rows env d)\<close> by simp
  moreover have "(t, m) \<in> set (sent_messages sha256 env d)"
    if "(t, rs) \<in> set (fulfilled_topics env d)" "q \<in> set rs" "m = message_of sha256 t q" for t rs q m
    using that unfolding sent_messages_def by auto
  ultimately show ?thesis by blast
qed

lemma markPublished_cong: "set xs = set ys \<Longrightarrow> markPublished ob now xs = markPublished ob now ys"
  by (simp add: markPublished_map mark_row_def)

lemma runOnce_effect:
  assumes "runOnce sha256 env d = (res, d')"
  shows "dp_outbox d' = (if te_markFails env then dp_outbox d
           else markPublished (dp_outbox d) (te_markNow env) (map ob_id (sent_rows env d)))"
    and "r \<in> set (sent_rows env d) \<Longrightarrow> (topic_of r, message_of sha256 (topic_of r) r) \<in> set (dp_log d')"
    and "\<exists>ms. dp_log d' = dp_log d @ ms"
proof -
  let ?succ = "concat (map snd (fulfilled_topics env d))"
  have none: "markPublished ob now [] = ob" for ob now by (simp add: markPublished_def)
  have ids: "markPublished ob now (map ob_id ?succ) = markPublished ob now (map ob_id (sent_rows env d))" for ob now
    by (rule markPublished_cong) (simp only: set_map fulfilled_rows)
  have empty: "?succ = [] \<longleftrightarrow> sent_rows env d = []" using fulfilled_rows [of env d] by (metis empty_set set_empty)
  have idle: "eligible_rows env d = [] \<Longrightarrow> sent_rows env d = []"
    by (auto simp: sent_rows_def eligible_rows_def filter_empty_conv)
  have "dp_outbox d' = (if te_markFails env then dp_outbox d
      else markPublished (dp_outbox d) (te_markNow env) (map ob_id (sent_rows env d)))
    \<and> (dp_log d' = dp_log d @ sent_messages sha256 env d \<or> (sent_rows env d = [] \<and> dp_log d' = dp_log d))"
  proof (cases "eligible_rows env d = []")
    case True
    with assms idle show ?thesis by (simp add: runOnce_idle none)
  next
    case False
    from runOnce_busy [OF this, of sha256] obtain b where
      b: "(res, d') = (let d1 = d\<lparr>dp_backoff := b, dp_log := dp_log d @ sent_messages sha256 env d\<rparr>
        in if ?succ = [] then (Some False, d1) else if te_markFails env then (None, d1)
        else (Some True, d1\<lparr>dp_outbox := markPublished (dp_outbox d) (te_markNow env) (map ob_id ?succ)\<rparr>))"
      unfolding assms Let_def by blast
    show ?thesis
    proof (cases "?succ = []")
      case True
      with b empty show ?thesis by (simp add: none Let_def)
    next
      case False
      then have "(res, d') = (let d1 = d\<lparr>dp_backoff := b, dp_log := dp_log d @ sent_messages sha256 env d\<rparr>
          in if te_markFails env then (None, d1)
          else (Some True, d1\<lparr>dp_outbox := markPublished (dp_outbox d) (te_markNow env) (map ob_id (sent_rows env d))\<rparr>))"
        using b by (simp only: if_False Let_def ids)
      then show ?thesis by (cases "te_markFails env") simp_all
    qed
  qed
  then show "dp_outbox d' = (if te_markFails env then dp_outbox d
      else markPublished (dp_outbox d) (te_markNow env) (map ob_id (sent_rows env d)))"
    and "r \<in> set (sent_rows env d) \<Longrightarrow> (topic_of r, message_of sha256 (topic_of r) r) \<in> set (dp_log d')"
    and "\<exists>ms. dp_log d' = dp_log d @ ms"
    using sent_message_mem by auto
qed

text \<open>Two topics: credit events and revenue events.\<close>

definition sample_event :: "string \<Rightarrow> aggregate_type \<Rightarrow> timestamp \<Rightarrow> outbox_event" where
  "sample_event i ty t = \<lparr>ob_id = i, ob_aggregateType = ty, ob_aggregateId = ''sub'',
     ob_eventType = ''credit.ledger.appended'', ob_payload = JObj [], ob_createdAt = t, ob_publishedAt = None\<rparr>"

definition sample_tick :: tick_env where
  "sample_tick = \<lparr>te_now = 100, te_failNow = 110, te_rejects = (\<lambda>t. t = ''rovenue.revenue''),
     te_markNow = 120, te_markFails = False\<rparr>"

definition sample_dispatcher :: dispatcher where
  "sample_dispatcher = \<lparr>dp_outbox = [sample_event ''a'' CREDIT_LEDGER 1, sample_event ''b'' REVENUE_EVENT 2],
     dp_backoff = [], dp_log = []\<rparr>"

lemma sample_dispatcher_ok: "outbox_ok (dp_outbox sample_dispatcher)"
  by (simp add: outbox_ok_def sample_dispatcher_def sample_event_def)

lemma sample_sent: "sent_rows sample_tick sample_dispatcher = [sample_event ''a'' CREDIT_LEDGER 1]"
  by (simp add: sent_rows_def claimBatch_def unpublished_def sample_dispatcher_def sample_event_def
      DISPATCH_BATCH_SIZE_def isTopicBackingOff_def topic_of_def sample_tick_def)

text \<open>A full batch of events of a topic that is backing off, with a healthy event behind it.\<close>

definition stalled_events :: outbox where
  "stalled_events = map (\<lambda>i. sample_event (nat_text i) REVENUE_EVENT 1) [0..<250]"

definition stalled_dispatcher :: dispatcher where
  "stalled_dispatcher = \<lparr>dp_outbox = stalled_events @ [sample_event ''h'' CREDIT_LEDGER 2],
     dp_backoff = [(''rovenue.revenue'', \<lparr>bo_consecutiveFailures = 3, bo_nextAttemptAt = 4000\<rparr>)], dp_log = []\<rparr>"

lemma stalled_unpublished: "unpublished (dp_outbox stalled_dispatcher) = dp_outbox stalled_dispatcher"
  by (simp add: unpublished_def stalled_dispatcher_def stalled_events_def sample_event_def filter_id_conv)

lemma stalled_batch:
  "take DISPATCH_BATCH_SIZE (sort_key ob_createdAt (unpublished (dp_outbox stalled_dispatcher))) = stalled_events"
proof -
  have times: "map ob_createdAt stalled_events = replicate 250 1"
    by (simp add: stalled_events_def sample_event_def comp_def map_replicate_const)
  have "sorted (map ob_createdAt (dp_outbox stalled_dispatcher))"
    by (simp add: stalled_dispatcher_def times sorted_append sample_event_def)
  then show ?thesis unfolding stalled_unpublished
    by (simp add: sort_key_id_if_sorted) (simp add: stalled_dispatcher_def DISPATCH_BATCH_SIZE_def stalled_events_def)
qed

section \<open>Properties\<close>



text \<open>
  Progress and isolation: a tick whose mark commits publishes exactly the claimed rows whose
  topic is neither backing off nor rejecting, so the backlog shrinks by their number and a
  rejecting topic costs the healthy ones nothing.
\<close>

lemma runOnce_publishes:
  assumes "runOnce sha256 env d = (res, d')" and "outbox_ok (dp_outbox d)" and "\<not> te_markFails env"
  shows "unpublished (dp_outbox d') = filter (\<lambda>r. r \<notin> set (sent_rows env d)) (unpublished (dp_outbox d))
    \<and> countUnpublished (dp_outbox d') = countUnpublished (dp_outbox d) - length (sent_rows env d)
    \<and> outbox_ok (dp_outbox d')"
proof -
  let ?u = "unpublished (dp_outbox d)"
  have marks: "dp_outbox d' = markPublished (dp_outbox d) (te_markNow env) (map ob_id (sent_rows env d))"
    using runOnce_effect(1) [OF assms(1)] assms(3) by simp
  have dist: "distinct (map ob_id (dp_outbox d))" using assms(2) by (simp add: outbox_ok_def)
  have sub: "q \<in> set ?u" if "q \<in> set (sent_rows env d)" for q
    using that by (auto simp: sent_rows_def unpublished_def dest: mem_claimBatch)
  have iff: "ob_id r \<in> set (map ob_id (sent_rows env d)) \<longleftrightarrow> r \<in> set (sent_rows env d)" if "r \<in> set ?u" for r
    using that sub dist by (auto simp: unpublished_def dest: distinct_map_eqD)
  have eq: "unpublished (dp_outbox d') = filter (\<lambda>r. r \<notin> set (sent_rows env d)) ?u"
    unfolding marks unpublished_markPublished by (rule filter_cong) (use iff in auto)
  have distu: "distinct ?u" using dist by (simp add: unpublished_def distinct_map)
  then have "distinct (sort_key ob_createdAt ?u)" by simp
  then have dists: "distinct (sent_rows env d)"
    unfolding sent_rows_def claimBatch_def by (intro distinct_filter distinct_take)
  have "length (filter (\<lambda>r. r \<notin> set (sent_rows env d)) ?u) = card (set ?u - set (sent_rows env d))"
    using distu by (subst distinct_card [symmetric]) (auto intro!: arg_cong [of _ _ card])
  also have "\<dots> = length ?u - length (sent_rows env d)"
    using sub distu dists by (subst card_Diff_subset) (auto simp: distinct_card)
  finally show ?thesis using eq markPublished_ok [OF assms(2)] marks by (simp add: countUnpublished_def)
qed

text \<open>
  A backing-off topic starves the others: when the oldest 250 unpublished rows all belong to
  topics that are backing off, a tick publishes nothing and changes nothing, whatever rows of
  healthy topics wait behind them.
\<close>

lemma backoff_starves_healthy_topics:
  assumes "\<forall>r \<in> set (take DISPATCH_BATCH_SIZE (sort_key ob_createdAt (unpublished (dp_outbox d)))).
      isTopicBackingOff (te_now env) (dp_backoff d) (topic_of r)"
    and "healthy \<in> set (unpublished (dp_outbox d))"
    and "\<not> isTopicBackingOff (te_now env) (dp_backoff d) (topic_of healthy)"
  shows "runOnce sha256 env d = (Some False, d)
    \<and> healthy \<in> set (unpublished (dp_outbox (snd (runOnce sha256 env d))))"
proof -
  have "runOnce sha256 env d = (Some False, d)"
    using assms(1) by (simp add: runOnce_def claimBatch_def Let_def filter_empty_conv)
  with assms(2) show ?thesis by simp
qed

text \<open>
  The wait after the n-th consecutive failure of a topic is 500 ms doubled n times and capped
  at 30 s: it is never below one second and never above thirty, and the topic is retried
  exactly when it has passed.
\<close>

lemma onTopicFailure_delay:
  assumes "n = (case map_of m topic of None \<Rightarrow> 0 | Some s \<Rightarrow> bo_consecutiveFailures s) + 1"
  shows "(isTopicBackingOff t (onTopicFailure now topic m) topic \<longleftrightarrow> t < now + min 30000 (500 * 2 ^ n))
    \<and> 1000 \<le> min 30000 (500 * 2 ^ n :: int)
    \<and> getBackoffState (onTopicFailure now topic m) topic
       = Some \<lparr>bo_consecutiveFailures = n, bo_nextAttemptAt = now + min 30000 (500 * 2 ^ n)\<rparr>"
proof -
  have "1 \<le> n" using assms by simp
  then have "(2::int) ^ 1 \<le> 2 ^ n" by (rule power_increasing) simp
  then have "1000 \<le> min 30000 (500 * 2 ^ n :: int)" by simp
  then show ?thesis
    using assms by (simp add: isTopicBackingOff_def getBackoffState_def onTopicFailure_def Let_def update_conv'
        BACKOFF_MAX_MS_def BACKOFF_BASE_MS_def)
qed

end
