(* ===== verification/Apple_Chain.thy ===== *)
theory Apple_Chain
  imports Transition_Guard Access_Engine Revenue_Events
begin

text \<open>
  The chain handlers of \<^verbatim>\<open>apps/api/src/services/apple/apple-webhook.ts\<close>: the guarded
  chain-wide status write and the notifications that use it (failed renewal, expiry,
  revocation), the refund of a single transaction, and the revenue rows they emit.

  A notification is the part of the dispatch context the handlers read. The money texts (the
  amount, its currency and its conversion to dollars) come from the price of the transaction and
  a rate service and are a field of the context, absent when the transaction has no price. The
  refund-shield bookkeeping and the refund notification are not modelled.
\<close>

section \<open>Context and state\<close>

record apple_ctx =
  ac_projectId :: string
  ac_transactionId :: string
  ac_originalTransactionId :: string
  ac_gracePeriodSubtype :: bool
  ac_gracePeriodExpiresDate :: "timestamp option"
  ac_eventTime :: timestamp
  ac_signedDate :: timestamp
  ac_purchaseDate :: timestamp
  ac_money :: "(string \<times> string \<times> string) option"
  ac_country :: "string option"

record apple_world =
  aw_purchases :: purchase_db
  aw_access :: access_db
  aw_revenue :: revenue_db
  aw_audits :: "guard_audit list"
  aw_outcome :: "(string \<times> row_id) option"

record chain_counts =
  cc_updatedCount :: nat
  cc_skippedCount :: nat

section \<open>Handlers\<close>

definition guardedChainStatusWrite ::
  "apple_ctx \<Rightarrow> purchase_patch \<Rightarrow> subscription_status \<Rightarrow> apple_world \<Rightarrow> chain_counts \<times> apple_world" where
  "guardedChainStatusWrite ctx patch status w =
     (case updateChainStatusGuarded (aw_purchases w) (ac_projectId ctx) (ac_originalTransactionId ctx)
             (patch\<lparr>pp_status := Some status\<rparr>) of
        (res, pdb) \<Rightarrow>
          (\<lparr>cc_updatedCount = length (gc_updatedIds res),
            cc_skippedCount = length (gc_skippedTerminalIds res)\<rparr>,
           w\<lparr>aw_purchases := pdb,
              aw_audits := aw_audits w @
                map (\<lambda>rid. rejection (ac_projectId ctx) (Row_Resource rid) None status None)
                  (gc_skippedTerminalIds res)\<rparr>))"

definition applyFailedRenewal :: "apple_ctx \<Rightarrow> apple_world \<Rightarrow> apple_world" where
  "applyFailedRenewal ctx w =
     (let status = (if ac_gracePeriodSubtype ctx then GRACE_PERIOD else BILLING_ISSUE);
          current = findPurchaseByOriginalTransaction (aw_purchases w) (ac_projectId ctx)
                      (ac_originalTransactionId ctx) (Some APP_STORE)
      in snd (guardedChainStatusWrite ctx
           (empty_patch\<lparr>pp_gracePeriodExpires := Some (ac_gracePeriodExpiresDate ctx),
              pp_billingIssueDetectedAt :=
                billingIssueStamp (map_option pu_status current) status (ac_eventTime ctx)\<rparr>)
           status w))"

definition revokeAccessForTransaction :: "apple_ctx \<Rightarrow> apple_world \<Rightarrow> apple_world" where
  "revokeAccessForTransaction ctx w =
     w\<lparr>aw_access := revokeAccessByOriginalTransaction (aw_purchases w) (ac_projectId ctx)
         (ac_originalTransactionId ctx) (aw_access w)\<rparr>"

definition apple_dedupe_key :: "apple_ctx \<Rightarrow> bool \<Rightarrow> revenue_event_type \<Rightarrow> string" where
  "apple_dedupe_key ctx firstCharge ty =
     ''apple:'' @ ac_transactionId ctx @ '':'' @
       (if firstCharge then revenueDedupeKind INITIAL else revenueDedupeKind ty)"

definition emitRevenueEvent ::
  "revenue_tx \<Rightarrow> apple_ctx \<Rightarrow> string \<Rightarrow> row_id \<Rightarrow> string \<Rightarrow> revenue_event_type \<Rightarrow> bool \<Rightarrow> json option \<Rightarrow>
     apple_world \<Rightarrow> revenue_error + apple_world" where
  "emitRevenueEvent tx ctx subscriberId purchaseId productId ty firstCharge metadata w =
     (case ac_money ctx of
        None \<Rightarrow> Inr w
      | Some (amount, currency, usd) \<Rightarrow>
          (case createRevenueEvent tx (aw_purchases w) (aw_revenue w)
                  \<lparr>ri_projectId = ac_projectId ctx, ri_subscriberId = subscriberId,
                   ri_purchaseId = purchaseId, ri_productId = productId, ri_type = ty,
                   ri_amount = amount, ri_currency = currency, ri_amountUsd = usd,
                   ri_store = APP_STORE, ri_eventDate = ac_purchaseDate ctx,
                   ri_dedupeKey = Some (apple_dedupe_key ctx firstCharge ty),
                   ri_metadata = metadata, ri_country = ac_country ctx\<rparr> of
             Inl e \<Rightarrow> Inl e
           | Inr (_, rdb) \<Rightarrow> Inr (w\<lparr>aw_revenue := rdb\<rparr>)))"

text \<open>\<open>known\<close> is the set of subscriber ids the subscribers table holds.\<close>

definition emitCancellationEvent ::
  "revenue_tx \<Rightarrow> (string \<Rightarrow> bool) \<Rightarrow> apple_ctx \<Rightarrow> apple_world \<Rightarrow> revenue_error + apple_world" where
  "emitCancellationEvent tx known ctx w =
     (case findPurchaseByOriginalTransaction (aw_purchases w) (ac_projectId ctx)
             (ac_originalTransactionId ctx) (Some APP_STORE) of
        None \<Rightarrow> Inr w
      | Some p \<Rightarrow>
          if \<not> known (pu_subscriberId p) then Inr w
          else emitRevenueEvent tx ctx (pu_subscriberId p) (pu_id p) (pu_productId p) CANCELLATION
                 False None (w\<lparr>aw_outcome := Some (pu_subscriberId p, pu_id p)\<rparr>))"

definition applyExpired ::
  "revenue_tx \<Rightarrow> (string \<Rightarrow> bool) \<Rightarrow> apple_ctx \<Rightarrow> apple_world \<Rightarrow> revenue_error + apple_world" where
  "applyExpired tx known ctx w =
     (case guardedChainStatusWrite ctx empty_patch EXPIRED w of
        (counts, w1) \<Rightarrow>
          (let w2 = revokeAccessForTransaction ctx w1
           in if cc_updatedCount counts = 0 then Inr w2 else emitCancellationEvent tx known ctx w2))"

definition applyRefund ::
  "revenue_tx \<Rightarrow> (string \<Rightarrow> bool) \<Rightarrow> apple_ctx \<Rightarrow> apple_world \<Rightarrow> revenue_error + apple_world" where
  "applyRefund tx known ctx w =
     (let look = (\<lambda>v. findProjectPurchaseByStoreTransaction (aw_purchases v) (ac_projectId ctx) APP_STORE
                        (ac_transactionId ctx));
          w1 = (case look w of
                  None \<Rightarrow> w
                | Some found \<Rightarrow>
                    (case guardStatusWrite (aw_purchases w)
                            \<lparr>ga_projectId = ac_projectId ctx, ga_store = APP_STORE,
                             ga_storeTransactionId = ac_transactionId ctx, ga_to = REFUNDED,
                             ga_allowFrom = None, ga_eventTime = Some (ac_eventTime ctx)\<rparr> of
                       (guard, audits) \<Rightarrow>
                         w\<lparr>aw_purchases := snd (updatePurchase (aw_purchases w) (pu_id found)
                              (if gr_apply guard
                               then empty_patch\<lparr>pp_status := Some REFUNDED,
                                      pp_refundDate := Some (Some (ac_signedDate ctx)),
                                      pp_lastStoreEventAt := Some (Some (ac_eventTime ctx))\<rparr>
                               else empty_patch) True),
                            aw_audits := aw_audits w @ audits,
                            aw_access := revokeAccessByPurchaseId (pu_id found) (aw_access w)\<rparr>))
      in case look w1 of
           None \<Rightarrow> Inr w1
         | Some p \<Rightarrow>
             if \<not> known (pu_subscriberId p) then Inr w1
             else emitRevenueEvent tx ctx (pu_subscriberId p) (pu_id p) (pu_productId p) REFUND
                    False None (w1\<lparr>aw_outcome := Some (pu_subscriberId p, pu_id p)\<rparr>))"

definition applyRevoke :: "apple_ctx \<Rightarrow> apple_world \<Rightarrow> apple_world" where
  "applyRevoke ctx w =
     (let w1 = revokeAccessForTransaction ctx (snd (guardedChainStatusWrite ctx empty_patch REVOKED w))
      in case findPurchaseByOriginalTransaction (aw_purchases w1) (ac_projectId ctx)
                (ac_originalTransactionId ctx) (Some APP_STORE) of
           None \<Rightarrow> w1
         | Some p \<Rightarrow> w1\<lparr>aw_outcome := Some (pu_subscriberId p, pu_id p)\<rparr>)"

section \<open>The chain write\<close>

lemma status_patch_nonempty [simp]: "p\<lparr>pp_status := Some st\<rparr> \<noteq> empty_patch"
proof
  assume "p\<lparr>pp_status := Some st\<rparr> = empty_patch"
  then have "pp_status (p\<lparr>pp_status := Some st\<rparr>) = pp_status empty_patch" by (rule arg_cong)
  then show False by (simp add: empty_patch_def)
qed

abbreviation in_chain :: "apple_ctx \<Rightarrow> purchase \<Rightarrow> bool" where
  "in_chain ctx \<equiv> chain_match (ac_projectId ctx) (ac_originalTransactionId ctx)"

definition open_row :: "purchase \<Rightarrow> bool" where
  "open_row r = (\<not> isTerminal (SUBSCRIPTION_STATUS_SEMANTICS (pu_status r)))"

lemma repo_terminal: "s \<in> set REPO_TERMINAL_STATUSES \<longleftrightarrow> isTerminal (SUBSCRIPTION_STATUS_SEMANTICS s)"
  by (auto simp: REPO_TERMINAL_STATUSES_def isTerminal_iff)

definition chain_written :: "apple_ctx \<Rightarrow> purchase_patch \<Rightarrow> subscription_status \<Rightarrow> purchase \<Rightarrow> purchase" where
  "chain_written ctx patch st r =
     (if in_chain ctx r \<and> open_row r then apply_patch (patch\<lparr>pp_status := Some st\<rparr>) r else r)"

lemma updateChain_effect:
  "updateChainStatusGuarded db (ac_projectId ctx) (ac_originalTransactionId ctx) (patch\<lparr>pp_status := Some st\<rparr>) =
    (\<lparr>gc_updatedIds = map pu_id (filter (\<lambda>r. in_chain ctx r \<and> open_row r) (pd_rows db)),
      gc_skippedTerminalIds = map pu_id (filter (\<lambda>r. in_chain ctx r \<and> \<not> open_row r)
         (map (chain_written ctx patch st) (pd_rows db)))\<rparr>,
     db\<lparr>pd_rows := map (chain_written ctx patch st) (pd_rows db)\<rparr>)"
  by (simp add: updateChainStatusGuarded_def Let_def update_where_def chain_written_def [abs_def]
      repo_terminal open_row_def)

lemma chain_written_status [simp]:
  "pu_id (chain_written ctx patch st r) = pu_id r"
  "in_chain ctx (chain_written ctx patch st r) = in_chain ctx r"
  "pu_status (chain_written ctx patch st r) = (if in_chain ctx r \<and> open_row r then st else pu_status r)"
  by (simp_all add: chain_written_def chain_match_def patched_def)

lemma write_rows:
  "pd_rows (aw_purchases (snd (guardedChainStatusWrite ctx patch st w)))
     = map (chain_written ctx patch st) (pd_rows (aw_purchases w))"
  by (simp add: guardedChainStatusWrite_def updateChain_effect)

lemma skipped_ids:
  "filter (\<lambda>r. in_chain ctx r \<and> \<not> open_row r) (map (chain_written ctx patch st) rs)
    = map (chain_written ctx patch st)
        (filter (\<lambda>r. in_chain ctx r \<and> (open_row r \<longrightarrow> isTerminal (SUBSCRIPTION_STATUS_SEMANTICS st))) rs)"
proof -
  have "\<not> open_row (chain_written ctx patch st r) \<longleftrightarrow> (open_row r \<longrightarrow> isTerminal (SUBSCRIPTION_STATUS_SEMANTICS st))"
    if "in_chain ctx r" for r
    using that by (simp add: open_row_def)
  then show ?thesis by (simp add: filter_map comp_def cong: conj_cong)
qed

lemma write_audits:
  "aw_audits (snd (guardedChainStatusWrite ctx patch st w)) = aw_audits w @
     map (\<lambda>r. rejection (ac_projectId ctx) (Row_Resource (pu_id r)) None st None)
       (filter (\<lambda>r. in_chain ctx r \<and> (open_row r \<longrightarrow> isTerminal (SUBSCRIPTION_STATUS_SEMANTICS st)))
          (pd_rows (aw_purchases w)))"
  by (simp add: guardedChainStatusWrite_def updateChain_effect skipped_ids)

text \<open>A notification for the chain of the sample purchase.\<close>

definition sample_ctx :: apple_ctx where
  "sample_ctx = \<lparr>ac_projectId = ''prj'', ac_transactionId = ''t1'', ac_originalTransactionId = ''o1'',
     ac_gracePeriodSubtype = True, ac_gracePeriodExpiresDate = Some 900, ac_eventTime = 600,
     ac_signedDate = 600, ac_purchaseDate = 50, ac_money = None, ac_country = None\<rparr>"

definition sample_apple_world :: "subscription_status \<Rightarrow> apple_world" where
  "sample_apple_world status = \<lparr>aw_purchases = sample_table status 500,
     aw_access = \<lparr>ad_rows = [], ad_next = 0\<rparr>,
     aw_revenue = \<lparr>rd_rows = [], rd_claims = [], rd_outbox = []\<rparr>, aw_audits = [], aw_outcome = None\<rparr>"

lemma sample_apple_rows: "pd_rows (aw_purchases (sample_apple_world status)) = [sample_purchase status 500]"
  by (simp add: sample_apple_world_def sample_table_def)

lemma sample_in_chain: "in_chain sample_ctx (sample_purchase status 500)"
  by (simp add: chain_match_def sample_ctx_def sample_purchase_def)

section \<open>Properties\<close>

text \<open>
  A chain-wide write of a non-terminal status (a failed renewal, an expiry) moves exactly the
  open rows of the chain, leaves refunded and revoked rows and every other chain as they were,
  and appends one rejection audit entry for each terminal row it withheld and no other.
\<close>

lemma chain_write_guards_terminal:
  assumes "\<not> isTerminal (SUBSCRIPTION_STATUS_SEMANTICS st)"
  shows "pd_rows (aw_purchases (snd (guardedChainStatusWrite ctx patch st w)))
      = map (\<lambda>r. if in_chain ctx r \<and> open_row r then apply_patch (patch\<lparr>pp_status := Some st\<rparr>) r else r)
          (pd_rows (aw_purchases w))
    \<and> aw_audits (snd (guardedChainStatusWrite ctx patch st w)) = aw_audits w @
        map (\<lambda>r. rejection (ac_projectId ctx) (Row_Resource (pu_id r)) None st None)
          (filter (\<lambda>r. in_chain ctx r \<and> \<not> open_row r) (pd_rows (aw_purchases w)))"
  using assms by (auto simp: write_rows write_audits chain_written_def intro!: arg_cong2 [where f = map] filter_cong)

text \<open>
  A revocation is recorded as its own rejection: every row the revocation has just moved to
  REVOKED also gets a \<^verbatim>\<open>subscription.transition_rejected\<close> audit entry for that very write,
  because the withheld rows are selected after the update.
\<close>

lemma revoke_audits_applied_rows:
  assumes "r \<in> set (pd_rows (aw_purchases w))" and "in_chain ctx r" and "open_row r"
  shows "\<exists>r' \<in> set (pd_rows (aw_purchases (applyRevoke ctx w))). pu_id r' = pu_id r \<and> pu_status r' = REVOKED
    \<and> rejection (ac_projectId ctx) (Row_Resource (pu_id r)) None REVOKED None
        \<in> set (drop (length (aw_audits w)) (aw_audits (applyRevoke ctx w)))"
proof -
  let ?w1 = "snd (guardedChainStatusWrite ctx empty_patch REVOKED w)"
  have same: "aw_purchases (applyRevoke ctx w) = aw_purchases ?w1" "aw_audits (applyRevoke ctx w) = aw_audits ?w1"
    by (simp_all add: applyRevoke_def Let_def revokeAccessForTransaction_def split: option.split)
  have "rejection (ac_projectId ctx) (Row_Resource (pu_id r)) None REVOKED None
      \<in> set (drop (length (aw_audits w)) (aw_audits ?w1))"
    using assms by (auto simp: write_audits)
  moreover have "chain_written ctx empty_patch REVOKED r \<in> set (pd_rows (aw_purchases ?w1))"
    using assms(1) by (simp add: write_rows)
  ultimately show ?thesis using assms(2,3) unfolding same
    by (intro bexI [of _ "chain_written ctx empty_patch REVOKED r"]) simp_all
qed

text \<open>
  A failed renewal reaches back over the whole chain: a row of an earlier billing period that
  has already expired is moved to GRACE_PERIOD or BILLING_ISSUE, transitions that the state
  machine refuses from EXPIRED.
\<close>

lemma failed_renewal_reopens_expired_period:
  assumes "r \<in> set (pd_rows (aw_purchases w))" and "in_chain ctx r" and "pu_status r = EXPIRED"
  shows "\<exists>r' \<in> set (pd_rows (aw_purchases (applyFailedRenewal ctx w))). pu_id r' = pu_id r
    \<and> pu_status r' = (if ac_gracePeriodSubtype ctx then GRACE_PERIOD else BILLING_ISSUE)
    \<and> \<not> validateTransition EXPIRED (pu_status r')"
proof -
  let ?st = "if ac_gracePeriodSubtype ctx then GRACE_PERIOD else BILLING_ISSUE"
  let ?p = "empty_patch\<lparr>pp_gracePeriodExpires := Some (ac_gracePeriodExpiresDate ctx),
    pp_billingIssueDetectedAt := billingIssueStamp (map_option pu_status
      (findPurchaseByOriginalTransaction (aw_purchases w) (ac_projectId ctx) (ac_originalTransactionId ctx)
        (Some APP_STORE))) ?st (ac_eventTime ctx)\<rparr>"
  have "pd_rows (aw_purchases (applyFailedRenewal ctx w)) = map (chain_written ctx ?p ?st) (pd_rows (aw_purchases w))"
    by (simp only: applyFailedRenewal_def Let_def write_rows)
  moreover have "open_row r" using assms(3) by (simp add: open_row_def)
  ultimately show ?thesis using assms
    by (intro bexI [of _ "chain_written ctx ?p ?st r"]) (auto simp: validateTransition_def)
qed

end
