(* ===== verification/Canonical_Json.thy ===== *)
theory Canonical_Json
  imports Json_Text
begin

text \<open>
  \<^verbatim>\<open>canonicalJSON\<close> of \<^verbatim>\<open>packages/shared/src/audit-chain.ts\<close>: the byte-stable encoding
  the audit hashes are computed over, and the proof that it determines the encoded value up to
  the order of object properties, with the two values it does not tell apart named: undefined is
  encoded as null, and a \<^verbatim>\<open>Date\<close> object, which has no own properties, as the empty object.
\<close>

section \<open>The encoding\<close>

definition member_text :: "string \<times> string \<Rightarrow> string" where
  "member_text kt = json_quote (fst kt) @ '':'' @ snd kt"

fun canonicalJSON :: "json \<Rightarrow> string" where
  "canonicalJSON JNull = ''null''"
| "canonicalJSON JUndefined = ''null''"
| "canonicalJSON (JBool b) = (if b then ''true'' else ''false'')"
| "canonicalJSON (JNum i) = int_text i"
| "canonicalJSON (JStr s) = json_quote s"
| "canonicalJSON (JDate t) = [CHR 0x7B, CHR 0x7D]"
| "canonicalJSON (JArr vs) = CHR ''['' # join_text '','' (map canonicalJSON vs) @ '']''"
| "canonicalJSON (JObj ps) =
     CHR 0x7B # join_text '','' (map member_text (sort_key fst (map (\<lambda>(k, v). (k, canonicalJSON v)) ps)))
       @ [CHR 0x7D]"

text \<open>
  The value with the properties of every object in the sorted order of their names, undefined read
  as null and a date as the empty object.
\<close>

fun sorted_json :: "json \<Rightarrow> json" where
  "sorted_json JNull = JNull"
| "sorted_json JUndefined = JNull"
| "sorted_json (JBool b) = JBool b"
| "sorted_json (JNum i) = JNum i"
| "sorted_json (JStr s) = JStr s"
| "sorted_json (JDate t) = JObj []"
| "sorted_json (JArr vs) = JArr (map sorted_json vs)"
| "sorted_json (JObj ps) = JObj (sort_key fst (map (\<lambda>(k, v). (k, sorted_json v)) ps))"

section \<open>Strings\<close>

definition closes :: "string \<Rightarrow> bool" where
  "closes r = (r = [] \<or> hd r \<in> {CHR '','', CHR '']'', CHR 0x7D})"

lemma hex_digit_inject: "a < 16 \<Longrightarrow> b < 16 \<Longrightarrow> hex_digit a = hex_digit b \<Longrightarrow> a = b"
proof -
  have val: "of_char (hex_digit d) = (if d < 10 then 48 + d else 87 + d)" if "d < 16" for d :: nat
    using that by (simp add: hex_digit_def digit_char_def)
  assume "a < 16" "b < 16" "hex_digit a = hex_digit b"
  then have "(if a < 10 then 48 + a else 87 + a) = (if b < 10 then 48 + b else 87 + b)"
    using val by metis
  then show ?thesis using \<open>a < 16\<close> \<open>b < 16\<close> by (auto split: if_splits)
qed

text \<open>The escape of a character: plain, a two-character escape, or six characters.\<close>

definition short_escape :: "char \<Rightarrow> char option" where
  "short_escape c =
     (if c = CHR 0x22 then Some (CHR 0x22) else if c = CHR 0x5C then Some (CHR 0x5C)
      else if c = CHR 0x08 then Some (CHR ''b'') else if c = CHR 0x0C then Some (CHR ''f'')
      else if c = CHR 0x0A then Some (CHR ''n'') else if c = CHR 0x0D then Some (CHR ''r'')
      else if c = CHR 0x09 then Some (CHR ''t'') else None)"

lemma json_char_cases:
  "json_char c =
     (case short_escape c of
        Some e \<Rightarrow> [CHR 0x5C, e]
      | None \<Rightarrow> if (of_char c :: nat) < 32
          then [CHR 0x5C, CHR ''u'', CHR ''0'', CHR ''0'', hex_digit (of_char c div 16), hex_digit (of_char c mod 16)]
          else [c])"
  by (simp add: json_char_def short_escape_def)

lemma short_escape_inject: "short_escape c = Some e \<Longrightarrow> short_escape d = Some e \<Longrightarrow> c = d"
  by (auto simp: short_escape_def split: if_splits)

lemma short_escape_not_u: "short_escape c = Some e \<Longrightarrow> e \<noteq> CHR ''u''"
  by (auto simp: short_escape_def split: if_splits)

lemma plain_char: "short_escape c = None \<Longrightarrow> c \<noteq> CHR 0x5C \<and> c \<noteq> CHR 0x22"
  by (auto simp: short_escape_def split: if_splits)

definition hex_escape :: "char \<Rightarrow> string" where
  "hex_escape c = [CHR ''0'', CHR ''0'', hex_digit (of_char c div 16), hex_digit (of_char c mod 16)]"

lemma hex_escape_inject:
  assumes "(of_char c :: nat) < 32" and "(of_char d :: nat) < 32" and "hex_escape c = hex_escape d"
  shows "c = d"
proof -
  have "hex_digit (of_char c div 16) = hex_digit (of_char d div 16)"
    and "hex_digit (of_char c mod 16) = hex_digit (of_char d mod 16)"
    using assms(3) by (simp_all only: hex_escape_def list.inject)
  then have "(of_char c :: nat) div 16 = of_char d div 16" "(of_char c :: nat) mod 16 = of_char d mod 16"
    using assms(1,2) by (auto intro: hex_digit_inject)
  then have "(of_char c :: nat) = of_char d" by (metis div_mult_mod_eq)
  then show ?thesis by simp
qed

lemma json_char_form:
  obtains (short) e where "short_escape c = Some e" "json_char c = [CHR 0x5C, e]" "e \<noteq> CHR ''u''"
  | (hex) "(of_char c :: nat) < 32" "json_char c = [CHR 0x5C, CHR ''u''] @ hex_escape c"
  | (plain) "json_char c = [c]" "c \<noteq> CHR 0x5C" "c \<noteq> CHR 0x22"
proof (cases "short_escape c")
  case (Some e)
  then show ?thesis using short [of e] short_escape_not_u by (simp add: json_char_cases)
next
  case None
  then show ?thesis using hex plain plain_char [OF None]
    by (cases "(of_char c :: nat) < 32") (simp_all add: json_char_cases hex_escape_def)
qed

lemma length_hex_escape [simp]: "length (hex_escape c) = 4"
  by (simp add: hex_escape_def)

lemma json_char_inject:
  assumes "json_char c @ x = json_char d @ y"
  shows "c = d \<and> x = y"
proof (cases c rule: json_char_form)
  case c: (short e)
  show ?thesis
  proof (cases d rule: json_char_form)
    case d: (short f)
    with c assms have "e = f" "x = y" by simp_all
    with c d short_escape_inject show ?thesis by blast
  next
    case hex
    with c assms show ?thesis by simp
  next
    case plain
    with c assms show ?thesis by simp
  qed
next
  case c: hex
  show ?thesis
  proof (cases d rule: json_char_form)
    case short
    with c assms show ?thesis by simp
  next
    case d: hex
    with c assms have "hex_escape c @ x = hex_escape d @ y" by simp
    then have "hex_escape c = hex_escape d" "x = y" by (simp_all add: append_eq_append_conv)
    with c(1) d(1) hex_escape_inject show ?thesis by blast
  next
    case plain
    with c assms show ?thesis by simp
  qed
next
  case c: plain
  show ?thesis using assms c by (cases d rule: json_char_form) simp_all
qed

lemma json_char_head:
  obtains h t where "json_char c = h # t" and "h \<noteq> CHR 0x22"
  by (cases c rule: json_char_form) auto

lemma quoted_inject:
  "concat (map json_char s) @ CHR 0x22 # x = concat (map json_char t) @ CHR 0x22 # y \<Longrightarrow> s = t \<and> x = y"
proof (induction s arbitrary: t)
  case Nil
  show ?case
  proof (cases t)
    case (Cons d t')
    obtain h r where "json_char d = h # r" "h \<noteq> CHR 0x22" by (rule json_char_head)
    with Nil Cons show ?thesis by simp
  qed (use Nil in simp)
next
  case (Cons c s)
  show ?case
  proof (cases t)
    case Nil
    obtain h r where "json_char c = h # r" "h \<noteq> CHR 0x22" by (rule json_char_head)
    with Cons.prems Nil show ?thesis by simp
  next
    case t: (Cons d t')
    from Cons.prems t have "json_char c @ (concat (map json_char s) @ CHR 0x22 # x)
        = json_char d @ (concat (map json_char t') @ CHR 0x22 # y)" by simp
    from json_char_inject [OF this] Cons.IH t show ?thesis by blast
  qed
qed

lemma json_quote_inject: "json_quote s @ x = json_quote t @ y \<Longrightarrow> s = t \<and> x = y"
  by (rule quoted_inject) (simp add: json_quote_def)

section \<open>Numbers\<close>

definition number_char :: "char \<Rightarrow> bool" where
  "number_char c = (is_digit c \<or> c = CHR ''-'')"

lemma int_text_chars: "c \<in> set (int_text i) \<Longrightarrow> number_char c"
  by (auto simp: int_text_def number_char_def dest: nat_text_digits split: if_splits)

lemma nat_text_nonempty: "nat_text n \<noteq> []"
  by (subst nat_text.simps) simp

lemma minus_not_digit: "\<not> is_digit (CHR ''-'')"
  by (simp add: is_digit_def)

lemma int_text_inj: "int_text i = int_text j \<Longrightarrow> i = j"
proof -
  have "nat_text n \<noteq> CHR ''-'' # xs" for n xs
    using nat_text_digits [of "CHR ''-''" n] minus_not_digit by (metis list.set_intros(1))
  then show "int_text i = int_text j \<Longrightarrow> i = j"
    by (auto simp: int_text_def split: if_splits dest: sym)
qed

lemma closes_not_number: "closes r \<Longrightarrow> r \<noteq> [] \<Longrightarrow> \<not> number_char (hd r)"
  by (auto simp: closes_def number_char_def is_digit_def)

lemma int_text_inject:
  assumes "int_text i @ x = int_text j @ y" and "closes x" and "closes y"
  shows "i = j \<and> x = y"
proof -
  have take: "takeWhile number_char (int_text k @ r) = int_text k" if "closes r" for k r
  proof -
    have "takeWhile number_char r = []" using closes_not_number [OF that] by (cases r) auto
    then show ?thesis using int_text_chars by (simp add: takeWhile_append2)
  qed
  have "int_text i = int_text j" using take [OF assms(2)] take [OF assms(3)] assms(1) by metis
  then show ?thesis using assms(1) int_text_inj by simp
qed

section \<open>Values\<close>

text \<open>The first character tells the kind of the value.\<close>

lemma int_text_head: "\<exists>c r. int_text i = c # r \<and> number_char c"
proof -
  have "int_text i \<noteq> []" using nat_text_nonempty by (simp add: int_text_def)
  then obtain c r where "int_text i = c # r" by (cases "int_text i") auto
  then show ?thesis using int_text_chars [of c i] by simp
qed

fun kind :: "json \<Rightarrow> nat" where
  "kind JNull = 0"
| "kind JUndefined = 0"
| "kind (JBool b) = (if b then 1 else 2)"
| "kind (JNum i) = 3"
| "kind (JStr s) = 4"
| "kind (JDate t) = 6"
| "kind (JArr vs) = 5"
| "kind (JObj ps) = 6"

lemma kind_shapes:
  "0 = kind w \<longleftrightarrow> w = JNull \<or> w = JUndefined"
  "Suc 0 = kind w \<longleftrightarrow> w = JBool True"
  "2 = kind w \<longleftrightarrow> w = JBool False"
  "3 = kind w \<longleftrightarrow> (\<exists>j. w = JNum j)"
  "4 = kind w \<longleftrightarrow> (\<exists>s. w = JStr s)"
  "5 = kind w \<longleftrightarrow> (\<exists>vs. w = JArr vs)"
  "6 = kind w \<longleftrightarrow> (\<exists>t. w = JDate t) \<or> (\<exists>ps. w = JObj ps)"
  by (cases w; simp)+

definition head_kind :: "char \<Rightarrow> nat" where
  "head_kind c = (if c = CHR ''n'' then 0 else if c = CHR ''t'' then 1 else if c = CHR ''f'' then 2
     else if number_char c then 3 else if c = CHR 0x22 then 4 else if c = CHR ''['' then 5 else 6)"

lemma number_char_kind: "number_char c \<Longrightarrow> head_kind c = 3"
  by (auto simp: head_kind_def number_char_def is_digit_def)

lemma canonical_head: "\<exists>c r. canonicalJSON v = c # r \<and> head_kind c = kind v"
proof (cases v)
  case (JNum i)
  with int_text_head [of i] number_char_kind show ?thesis by auto
qed (auto simp: head_kind_def number_char_def is_digit_def json_quote_def)

lemma canonical_kind: "canonicalJSON v @ x = canonicalJSON w @ y \<Longrightarrow> kind v = kind w"
  using canonical_head [of v] canonical_head [of w] by auto

lemma canonical_head_open: "canonicalJSON v \<noteq> [] \<and> hd (canonicalJSON v) \<notin> {CHR '']'', CHR 0x7D, CHR '',''}"
proof -
  obtain c r where c: "canonicalJSON v = c # r" "head_kind c = kind v" using canonical_head by blast
  have "c \<notin> {CHR '']'', CHR 0x7D, CHR '',''}"
  proof (cases v)
    case (JNum i)
    with c(2) show ?thesis by (auto simp: head_kind_def number_char_def is_digit_def split: if_splits)
  next
    case (JObj ps)
    with c(1) show ?thesis by auto
  next
    case (JDate t)
    with c(1) show ?thesis by auto
  qed (use c(2) in \<open>auto simp: head_kind_def split: if_splits\<close>)
  with c(1) show ?thesis by simp
qed

text \<open>
  Lists of texts separated by commas and closed by a bracket. The elements are given by a text
  function whose values can be told apart when something that closes follows.
\<close>

definition separable :: "('a \<Rightarrow> string) \<Rightarrow> ('a \<Rightarrow> 'b) \<Rightarrow> 'a set \<Rightarrow> 'a set \<Rightarrow> bool" where
  "separable f n A B = (\<forall>a \<in> A. \<forall>b \<in> B. \<forall>x y. closes x \<longrightarrow> closes y \<longrightarrow> f a @ x = f b @ y \<longrightarrow> n a = n b \<and> x = y)"

definition opens :: "('a \<Rightarrow> string) \<Rightarrow> 'a set \<Rightarrow> bool" where
  "opens f A = (\<forall>a \<in> A. f a \<noteq> [] \<and> hd (f a) \<notin> {CHR '']'', CHR 0x7D, CHR '',''})"

lemma separableD:
  "separable f n A B \<Longrightarrow> a \<in> A \<Longrightarrow> b \<in> B \<Longrightarrow> closes x \<Longrightarrow> closes y \<Longrightarrow> f a @ x = f b @ y \<Longrightarrow> n a = n b \<and> x = y"
  by (simp add: separable_def)

lemma separable_mono: "separable f n A B \<Longrightarrow> A' \<subseteq> A \<Longrightarrow> B' \<subseteq> B \<Longrightarrow> separable f n A' B'"
  unfolding separable_def by blast

lemma opens_mono: "opens f A \<Longrightarrow> A' \<subseteq> A \<Longrightarrow> opens f A'"
  unfolding opens_def by blast

lemma join_Cons: "join_text sep (s # ss) = s @ (if ss = [] then [] else sep @ join_text sep ss)"
  by (cases ss) simp_all

lemma joined_inject:
  assumes "join_text '','' (map f as) @ e # x = join_text '','' (map f bs) @ e # y"
    and "e \<in> {CHR '']'', CHR 0x7D}" and "separable f n (set as) (set bs)"
    and "opens f (set as)" and "opens f (set bs)"
  shows "map n as = map n bs \<and> x = y"
  using assms
proof (induction as arbitrary: bs)
  case Nil
  show ?case
  proof (cases bs)
    case (Cons b bs')
    with Nil.prems(2,5) have "f b \<noteq> []" "hd (f b) \<noteq> e" by (auto simp: opens_def)
    with Nil.prems(1) Cons show ?thesis by (cases "f b") (simp_all add: join_Cons)
  qed (use Nil in simp)
next
  case (Cons a as)
  show ?case
  proof (cases bs)
    case Nil
    with Cons.prems(2,4) have "f a \<noteq> []" "hd (f a) \<noteq> e" by (auto simp: opens_def)
    with Cons.prems(1) Nil show ?thesis by (cases "f a") (simp_all add: join_Cons)
  next
    case bs: (Cons b bs')
    let ?x = "if as = [] then e # x else CHR '','' # join_text '','' (map f as) @ e # x"
    let ?y = "if bs' = [] then e # y else CHR '','' # join_text '','' (map f bs') @ e # y"
    have eq: "f a @ ?x = f b @ ?y"
      using Cons.prems(1) by (cases "as = []"; cases "bs' = []") (simp_all add: bs join_Cons)
    have "closes ?x" "closes ?y" using Cons.prems(2) by (auto simp: closes_def)
    then have "n a = n b \<and> ?x = ?y"
      by (intro separableD [OF Cons.prems(3) _ _ _ _ eq]) (simp_all add: bs)
    then have ab: "n a = n b" and rest: "?x = ?y" by (rule conjunct1, rule conjunct2)
    have comma: "e \<noteq> CHR '',''" using Cons.prems(2) by auto
    show ?thesis
    proof (cases "as = []")
      case True
      with rest comma have "bs' = []" by (cases "bs' = []") simp_all
      with True rest ab bs show ?thesis by simp
    next
      case False
      with rest comma have "join_text '','' (map f as) @ e # x = join_text '','' (map f bs') @ e # y"
        by (cases "bs' = []") simp_all
      from Cons.IH [OF this Cons.prems(2) separable_mono [OF Cons.prems(3)]
          opens_mono [OF Cons.prems(4)] opens_mono [OF Cons.prems(5)]]
      have "map n as = map n bs' \<and> x = y" by (simp add: bs subset_insertI)
      with ab bs show ?thesis by simp
    qed
  qed
qed

lemma insort_key_map: "insort_key f (g x) (map g xs) = map g (insort_key (\<lambda>x. f (g x)) x xs)"
  by (induction xs) simp_all

lemma sort_key_map: "sort_key f (map g xs) = map g (sort_key (\<lambda>x. f (g x)) xs)"
  by (induction xs) (simp_all add: insort_key_map)

definition canonical_member :: "string \<times> json \<Rightarrow> string" where
  "canonical_member kv = json_quote (fst kv) @ '':'' @ canonicalJSON (snd kv)"

definition sorted_member :: "string \<times> json \<Rightarrow> string \<times> json" where
  "sorted_member kv = (fst kv, sorted_json (snd kv))"

lemma canonical_JObj:
  "canonicalJSON (JObj ps) =
     CHR 0x7B # join_text '','' (map canonical_member (sort_key fst ps)) @ [CHR 0x7D]"
proof -
  have "map member_text (sort_key fst (map (\<lambda>(k, v). (k, canonicalJSON v)) ps))
      = map canonical_member (sort_key fst ps)"
    by (simp add: sort_key_map case_prod_unfold member_text_def canonical_member_def comp_def)
  then show ?thesis by simp
qed

lemma sorted_JObj: "sorted_json (JObj ps) = JObj (map sorted_member (sort_key fst ps))"
  by (simp add: sort_key_map case_prod_unfold sorted_member_def comp_def)

lemma date_as_object:
  "canonicalJSON (JDate t) = canonicalJSON (JObj [])" "sorted_json (JDate t) = sorted_json (JObj [])"
  by simp_all

lemma object_kind:
  assumes "6 = kind w"
  obtains ps where "canonicalJSON w = canonicalJSON (JObj ps)" and "sorted_json w = sorted_json (JObj ps)"
proof (cases w)
  case (JDate t)
  show ?thesis by (rule that [of "[]"]) (simp_all only: JDate date_as_object)
next
  case (JObj ps)
  show ?thesis by (rule that [of ps]) (simp_all only: JObj)
next
  case (JBool b)
  with assms show ?thesis by (cases b) simp_all
qed (use assms in simp_all)

lemma opens_canonical: "opens canonicalJSON A" "opens canonical_member B"
  using canonical_head_open by (auto simp: opens_def canonical_member_def json_quote_def)

lemma member_separable:
  assumes "\<And>a w x y. a \<in> A \<Longrightarrow> canonicalJSON (snd a) @ x = canonicalJSON w @ y \<Longrightarrow> closes x \<Longrightarrow> closes y \<Longrightarrow>
      sorted_json (snd a) = sorted_json w \<and> x = y"
  shows "separable canonical_member sorted_member A B"
  unfolding separable_def
proof (intro ballI allI impI)
  fix a b u v assume a: "a \<in> A" and cl: "closes u" "closes v"
    and eq: "canonical_member a @ u = canonical_member b @ v"
  from eq have "json_quote (fst a) @ (CHR '':'' # canonicalJSON (snd a) @ u)
      = json_quote (fst b) @ (CHR '':'' # canonicalJSON (snd b) @ v)" by (simp add: canonical_member_def)
  from json_quote_inject [OF this] have "fst a = fst b" and "canonicalJSON (snd a) @ u = canonicalJSON (snd b) @ v"
    by simp_all
  with assms [OF a _ cl] show "sorted_member a = sorted_member b \<and> u = v" by (simp add: sorted_member_def)
qed

lemma array_case:
  assumes "canonicalJSON (JArr vs) @ x = canonicalJSON (JArr ws) @ y"
    and "separable canonicalJSON sorted_json (set vs) (set ws)"
  shows "sorted_json (JArr vs) = sorted_json (JArr ws) \<and> x = y"
proof -
  have "join_text '','' (map canonicalJSON vs) @ CHR '']'' # x = join_text '','' (map canonicalJSON ws) @ CHR '']'' # y"
    using assms(1) by simp
  from joined_inject [OF this _ assms(2) opens_canonical(1) opens_canonical(1)]
  have "map sorted_json vs = map sorted_json ws \<and> x = y" by simp
  then show ?thesis by simp
qed

lemma object_case:
  assumes "canonicalJSON (JObj ps) @ x = canonicalJSON (JObj qs) @ y"
    and "separable canonical_member sorted_member (set (sort_key fst ps)) (set (sort_key fst qs))"
  shows "sorted_json (JObj ps) = sorted_json (JObj qs) \<and> x = y"
proof -
  have "join_text '','' (map canonical_member (sort_key fst ps)) @ CHR 0x7D # x
      = join_text '','' (map canonical_member (sort_key fst qs)) @ CHR 0x7D # y"
    using assms(1) unfolding canonical_JObj by (simp only: append_Cons append_assoc append_Nil list.inject)
  from joined_inject [OF this _ assms(2) opens_canonical(2) opens_canonical(2)]
  have "map sorted_member (sort_key fst ps) = map sorted_member (sort_key fst qs) \<and> x = y" by blast
  then show ?thesis unfolding sorted_JObj by simp
qed

lemma null_case:
  assumes "canonicalJSON v @ x = canonicalJSON w @ y" and "kind v = 0"
  shows "sorted_json v = sorted_json w \<and> x = y"
proof -
  have "kind w = 0" using canonical_kind [OF assms(1)] assms(2) by simp
  then have "v \<in> {JNull, JUndefined}" "w \<in> {JNull, JUndefined}"
    using assms(2) kind_shapes(1) by (metis insertCI)+
  with assms(1) show ?thesis by auto
qed

lemma canonical_separable:
  assumes "canonicalJSON v @ x = canonicalJSON w @ y" and "closes x" and "closes y"
  shows "sorted_json v = sorted_json w \<and> x = y"
  using assms
proof (induction v arbitrary: w x y)
  case JNull
  then show ?case by (intro null_case) simp_all
next
  case JUndefined
  then show ?case by (intro null_case) simp_all
next
  case (JBool b)
  from canonical_kind [OF JBool(1)] have "w = JBool b" by (cases b) (simp_all add: kind_shapes)
  with JBool(1) show ?case by simp
next
  case (JNum i)
  from canonical_kind [OF JNum(1)] obtain j where "w = JNum j" by (auto simp: kind_shapes)
  with JNum int_text_inject [of i x j y] show ?case by simp
next
  case (JStr s)
  from canonical_kind [OF JStr(1)] obtain u where u: "w = JStr u" by (auto simp: kind_shapes)
  have "json_quote s @ x = json_quote u @ y" using JStr(1) by (simp only: u canonicalJSON.simps)
  from json_quote_inject [OF this] u show ?case by simp
next
  case (JDate t)
  from canonical_kind [OF JDate(1)] have "6 = kind w" by simp
  then obtain qs where qs: "canonicalJSON w = canonicalJSON (JObj qs)" "sorted_json w = sorted_json (JObj qs)"
    by (rule object_kind)
  have "separable canonical_member sorted_member (set (sort_key fst [])) (set (sort_key fst qs))"
    by (simp add: separable_def)
  from object_case [OF _ this] JDate(1) show ?case unfolding qs date_as_object by blast
next
  case (JArr vs)
  from canonical_kind [OF JArr(2)] obtain ws where w: "w = JArr ws" by (auto simp: kind_shapes)
  have "separable canonicalJSON sorted_json (set vs) (set ws)"
    unfolding separable_def by (intro ballI allI impI) (rule JArr(1))
  with JArr(2) show ?case unfolding w by (rule array_case)
next
  case (JObj ps)
  from canonical_kind [OF JObj(2)] have "6 = kind w" by simp
  then obtain qs where qs: "canonicalJSON w = canonicalJSON (JObj qs)" "sorted_json w = sorted_json (JObj qs)"
    by (rule object_kind)
  have "separable canonical_member sorted_member (set (sort_key fst ps)) (set (sort_key fst qs))"
  proof (rule member_separable)
    fix a w x y assume "a \<in> set (sort_key fst ps)" "canonicalJSON (snd a) @ x = canonicalJSON w @ y"
      "closes x" "closes y"
    then show "sorted_json (snd a) = sorted_json w \<and> x = y"
      by (intro JObj(1) [of a "snd a"]) (simp_all add: snds.intros)
  qed
  with JObj(2) show ?case unfolding qs by (rule object_case)
qed

section \<open>Properties\<close>

text \<open>
  The canonical encoding is injective: two values have the same canonical text exactly when
  they are equal up to the order of the properties in their objects, undefined counting as null
  and a date as the empty object.
\<close>

lemma canonicalJSON_injective:
  "canonicalJSON v = canonicalJSON w \<longleftrightarrow> sorted_json v = sorted_json w"
proof
  assume "canonicalJSON v = canonicalJSON w"
  then show "sorted_json v = sorted_json w"
    using canonical_separable [of v "[]" w "[]"] by (simp add: closes_def)
next
  have same: "canonicalJSON (sorted_json u) = canonicalJSON u" for u
  proof (induction u)
    case (JArr vs)
    then have "map (canonicalJSON \<circ> sorted_json) vs = map canonicalJSON vs" by (intro map_cong) simp_all
    then show ?case by (simp only: sorted_json.simps canonicalJSON.simps map_map)
  next
    case (JObj ps)
    have "canonical_member (sorted_member kv) = canonical_member kv" if "kv \<in> set ps" for kv
      using JObj [of kv "snd kv"] that by (simp add: canonical_member_def sorted_member_def snds.intros)
    then have "map (canonical_member \<circ> sorted_member) (sort_key fst ps) = map canonical_member (sort_key fst ps)"
      by (intro map_cong) simp_all
    moreover have "sort_key fst (map sorted_member (sort_key fst ps)) = map sorted_member (sort_key fst ps)"
      unfolding sort_key_map by (simp add: sorted_member_def sort_key_id_if_sorted)
    ultimately show ?case by (simp only: sorted_JObj canonical_JObj map_map)
  qed simp_all
  assume "sorted_json v = sorted_json w"
  then show "canonicalJSON v = canonicalJSON w" using same by metis
qed

end
