(* ===== verification/Audit_Chain.thy ===== *)
theory Audit_Chain
  imports Canonical_Json
begin

text \<open>
  The tamper-evident audit log: the writer and the in-database verifier of
  \<^verbatim>\<open>apps/api/src/lib/audit.ts\<close>, and the proof bundles and the offline verifier of
  \<^verbatim>\<open>packages/shared/src/audit-chain.ts\<close>.

  The hash function is a parameter. The snapshots of an entry are the caller's values; the row
  holds what the \<^verbatim>\<open>jsonb\<close> column makes of them (\<open>stored_json\<close>). A write holds the advisory lock of its project from before
  the tip is read to the commit, so it is one step on the table. The offline verifier reads an
  arbitrary JSON value; an absent property (\<^verbatim>\<open>undefined\<close>) is the option \<open>None\<close> of \<open>jprop\<close>.
\<close>

section \<open>Rows and entries\<close>

record audit_row =
  al_id :: string
  al_projectId :: "string option"
  al_userId :: "string option"
  al_action :: string
  al_resource :: string
  al_resourceId :: string
  al_before :: "json option"
  al_after :: "json option"
  al_ipAddress :: "string option"
  al_userAgent :: "string option"
  al_prevHash :: "string option"
  al_rowHash :: "string option"
  al_createdAt :: timestamp

record audit_entry =
  en_projectId :: string
  en_userId :: "string option"
  en_action :: string
  en_resource :: string
  en_resourceId :: string
  en_before :: "json option"
  en_after :: "json option"
  en_ipAddress :: "string option"
  en_userAgent :: "string option"

definition opt_json :: "json option \<Rightarrow> json" where
  "opt_json v = (case v of None \<Rightarrow> JNull | Some j \<Rightarrow> j)"

definition buildCanonicalPayload :: "audit_entry \<Rightarrow> timestamp \<Rightarrow> string option \<Rightarrow> json" where
  "buildCanonicalPayload e createdAt prevHash = JObj
     [(''projectId'', JStr (en_projectId e)), (''userId'', opt_str (en_userId e)),
      (''action'', JStr (en_action e)), (''resource'', JStr (en_resource e)),
      (''resourceId'', JStr (en_resourceId e)), (''before'', opt_json (en_before e)),
      (''after'', opt_json (en_after e)), (''ipAddress'', opt_str (en_ipAddress e)),
      (''userAgent'', opt_str (en_userAgent e)), (''createdAt'', JStr (toISOString createdAt)),
      (''prevHash'', opt_str prevHash)]"

definition hashAuditRow :: "(string \<Rightarrow> string) \<Rightarrow> json \<Rightarrow> string" where
  "hashAuditRow sha256 payload = sha256 (canonicalJSON payload)"

section \<open>The writer\<close>

definition isRedacted :: "json \<Rightarrow> bool" where
  "isRedacted obj =
     (case obj of JObj ps \<Rightarrow> list_all (\<lambda>kv. snd kv = JStr ''[REDACTED]'') ps
      | JArr vs \<Rightarrow> list_all (\<lambda>v. v = JStr ''[REDACTED]'') vs | _ \<Rightarrow> True)"

definition redactCredentials :: "json option \<Rightarrow> json" where
  "redactCredentials obj =
     (case obj of Some (JObj ps) \<Rightarrow> JObj (map (\<lambda>kv. (fst kv, JStr ''[REDACTED]'')) ps)
      | Some _ \<Rightarrow> JObj [] | None \<Rightarrow> JNull)"

datatype audit_error = Unredacted_Credential

text \<open>\<^verbatim>\<open>ORDER BY createdAt DESC, id DESC LIMIT 1\<close> over the hashed rows of the project.\<close>

definition audit_key :: "audit_row \<Rightarrow> timestamp \<times> string" where
  "audit_key r = (al_createdAt r, al_id r)"

definition tip_step :: "audit_row \<Rightarrow> audit_row option \<Rightarrow> audit_row option" where
  "tip_step r best = (case best of None \<Rightarrow> Some r | Some b \<Rightarrow> if audit_key b < audit_key r then Some r else best)"

definition chain_tip :: "audit_row list \<Rightarrow> string \<Rightarrow> audit_row option" where
  "chain_tip rows projectId =
     fold tip_step (filter (\<lambda>r. al_projectId r = Some projectId \<and> al_rowHash r \<noteq> None) rows) None"

definition writeChained ::
  "(string \<Rightarrow> string) \<Rightarrow> timestamp \<Rightarrow> string \<Rightarrow> audit_entry \<Rightarrow> audit_row list \<Rightarrow> audit_row list" where
  "writeChained sha256 now freshId e rows =
     (let tip = chain_tip rows (en_projectId e);
          prevHash = (case tip of None \<Rightarrow> None | Some r \<Rightarrow> al_rowHash r);
          createdAt = (case tip of None \<Rightarrow> now | Some r \<Rightarrow> max now (al_createdAt r + 1));
          rowHash = hashAuditRow sha256 (buildCanonicalPayload e createdAt prevHash)
      in rows @ [\<lparr>al_id = freshId, al_projectId = Some (en_projectId e), al_userId = en_userId e,
           al_action = en_action e, al_resource = en_resource e, al_resourceId = en_resourceId e,
           al_before = map_option stored_json (en_before e),
           al_after = map_option stored_json (en_after e), al_ipAddress = en_ipAddress e,
           al_userAgent = en_userAgent e, al_prevHash = prevHash, al_rowHash = Some rowHash,
           al_createdAt = createdAt\<rparr>])"

definition audit ::
  "(string \<Rightarrow> string) \<Rightarrow> timestamp \<Rightarrow> string \<Rightarrow> audit_entry \<Rightarrow> audit_row list \<Rightarrow> audit_error + audit_row list" where
  "audit sha256 now freshId e rows =
     (if en_resource e = ''credential''
         \<and> (\<exists>snapshot \<in> set_option (en_before e) \<union> set_option (en_after e). \<not> isRedacted snapshot)
      then Inl Unredacted_Credential
      else Inr (writeChained sha256 now freshId e rows))"

section \<open>The database verifier\<close>

datatype chain_error_kind = bad_hash | broken_link | missing_hash

record chain_error =
  ce_rowId :: string
  ce_createdAt :: timestamp
  ce_kind :: chain_error_kind
  ce_expected :: "string option"
  ce_actual :: "string option"

record chain_result =
  cr_projectId :: string
  cr_rowCount :: nat
  cr_firstVerifiedAt :: "timestamp option"
  cr_lastVerifiedAt :: "timestamp option"
  cr_errors :: "chain_error list"

definition findProjectChain :: "audit_row list \<Rightarrow> string \<Rightarrow> audit_row list" where
  "findProjectChain rows projectId = sort_key audit_key (filter (\<lambda>r. al_projectId r = Some projectId) rows)"

definition entry_of_row :: "audit_row \<Rightarrow> audit_entry" where
  "entry_of_row r = \<lparr>en_projectId = (case al_projectId r of None \<Rightarrow> [] | Some p \<Rightarrow> p),
     en_userId = al_userId r, en_action = al_action r, en_resource = al_resource r,
     en_resourceId = al_resourceId r, en_before = al_before r, en_after = al_after r,
     en_ipAddress = al_ipAddress r, en_userAgent = al_userAgent r\<rparr>"

definition row_payload :: "audit_row \<Rightarrow> json" where
  "row_payload r = buildCanonicalPayload (entry_of_row r) (al_createdAt r) (al_prevHash r)"

fun verify_rows :: "(string \<Rightarrow> string) \<Rightarrow> string option \<Rightarrow> audit_row list \<Rightarrow> chain_error list" where
  "verify_rows sha256 expected [] = []"
| "verify_rows sha256 expected (r # rs) =
     (case al_rowHash r of
        None \<Rightarrow>
          \<lparr>ce_rowId = al_id r, ce_createdAt = al_createdAt r, ce_kind = missing_hash,
           ce_expected = None, ce_actual = None\<rparr> # verify_rows sha256 None rs
      | Some h \<Rightarrow>
          if h = []
          then \<lparr>ce_rowId = al_id r, ce_createdAt = al_createdAt r, ce_kind = missing_hash,
                 ce_expected = None, ce_actual = None\<rparr> # verify_rows sha256 None rs
          else
            (if al_prevHash r \<noteq> expected
             then [\<lparr>ce_rowId = al_id r, ce_createdAt = al_createdAt r, ce_kind = broken_link,
                    ce_expected = expected, ce_actual = al_prevHash r\<rparr>] else [])
            @ (if hashAuditRow sha256 (row_payload r) \<noteq> h
               then [\<lparr>ce_rowId = al_id r, ce_createdAt = al_createdAt r, ce_kind = bad_hash,
                      ce_expected = Some (hashAuditRow sha256 (row_payload r)), ce_actual = Some h\<rparr>] else [])
            @ verify_rows sha256 (Some h) rs)"

definition verifyAuditChain :: "(string \<Rightarrow> string) \<Rightarrow> audit_row list \<Rightarrow> string \<Rightarrow> chain_result" where
  "verifyAuditChain sha256 table projectId =
     (let rows = findProjectChain table projectId
      in \<lparr>cr_projectId = projectId, cr_rowCount = length rows,
          cr_firstVerifiedAt = (if rows = [] then None else Some (al_createdAt (hd rows))),
          cr_lastVerifiedAt = (if rows = [] then None else Some (al_createdAt (last rows))),
          cr_errors = verify_rows sha256 None rows\<rparr>)"

section \<open>Proof bundles\<close>

definition AUDIT_CHAIN_FORMAT_V1 :: string where "AUDIT_CHAIN_FORMAT_V1 = ''rovenue.audit-chain.v1''"
definition AUDIT_PROOF_MAX_ENTRIES :: nat where "AUDIT_PROOF_MAX_ENTRIES = 5000"

definition members :: "json \<Rightarrow> (string \<times> json) list" where
  "members v = (case v of JObj ps \<Rightarrow> ps | _ \<Rightarrow> [])"

definition bundle_entry :: "audit_row \<Rightarrow> json" where
  "bundle_entry r = JObj ((''id'', JStr (al_id r)) # (''rowHash'', opt_str (al_rowHash r)) # members (row_payload r))"

definition assembleAuditProofBundle ::
  "timestamp \<Rightarrow> string \<Rightarrow> audit_row list \<Rightarrow> string option \<Rightarrow> string option \<Rightarrow> nat \<Rightarrow> json" where
  "assembleAuditProofBundle exportedAt projectId entries from to maxEntries =
     (let origin = (case entries of [] \<Rightarrow> JNull
                    | e # _ \<Rightarrow> (case al_prevHash e of None \<Rightarrow> JNull | Some h \<Rightarrow> JObj [(''rowHash'', JStr h)]));
          tip = (if entries = [] then JNull
                 else JObj [(''rowHash'', opt_str (al_rowHash (last entries))),
                            (''createdAt'', JStr (toISOString (al_createdAt (last entries))))])
      in JObj [(''formatVersion'', JStr AUDIT_CHAIN_FORMAT_V1), (''projectId'', JStr projectId),
               (''exportedAt'', iso_json exportedAt),
               (''range'', JObj [(''from'', opt_str from), (''to'', opt_str to)]),
               (''origin'', origin), (''tip'', tip),
               (''truncated'', JBool (length entries = maxEntries)),
               (''entries'', JArr (map bundle_entry entries))])"

section \<open>The offline verifier\<close>

datatype verify_failure_reason =
  ROW_HASH_MISMATCH | PREV_HASH_MISMATCH | UNHASHED_ROW | TIP_MISMATCH | MALFORMED_BUNDLE
| UNSUPPORTED_FORMAT_VERSION

record verify_failure =
  vf_index :: "nat option"
  vf_entryId :: "string option"
  vf_reason :: verify_failure_reason

record verify_result =
  vr_ok :: bool
  vr_entriesChecked :: nat
  vr_truncated :: bool
  vr_range :: "json option"
  vr_failure :: "verify_failure option"

definition isRecord :: "json \<Rightarrow> bool" where
  "isRecord v = (case v of JObj _ \<Rightarrow> True | JArr _ \<Rightarrow> True | JDate _ \<Rightarrow> True | _ \<Rightarrow> False)"

definition payloadOf :: "json \<Rightarrow> json" where
  "payloadOf e = JObj (filter (\<lambda>kv. fst kv \<noteq> ''id'' \<and> fst kv \<noteq> ''rowHash'') (members e))"

definition entryIdOf :: "json \<Rightarrow> nat \<Rightarrow> string" where
  "entryIdOf e i = (case str_prop e ''id'' of Some s \<Rightarrow> s | None \<Rightarrow> ''<index '' @ nat_text i @ ''>'')"

definition wholeBundleFailure :: "nat \<Rightarrow> bool \<Rightarrow> verify_failure_reason \<Rightarrow> json option \<Rightarrow> verify_result" where
  "wholeBundleFailure n truncated reason rng =
     \<lparr>vr_ok = False, vr_entriesChecked = n, vr_truncated = truncated, vr_range = rng,
      vr_failure = Some \<lparr>vf_index = None, vf_entryId = None, vf_reason = reason\<rparr>\<rparr>"

definition entryFailure ::
  "nat \<Rightarrow> bool \<Rightarrow> nat \<Rightarrow> string \<Rightarrow> verify_failure_reason \<Rightarrow> json option \<Rightarrow> verify_result" where
  "entryFailure n truncated i entryId reason rng =
     \<lparr>vr_ok = False, vr_entriesChecked = n, vr_truncated = truncated, vr_range = rng,
      vr_failure = Some \<lparr>vf_index = Some i, vf_entryId = Some entryId, vf_reason = reason\<rparr>\<rparr>"

text \<open>The loop: a failure, or the hash the next entry would have to name.\<close>

fun verify_walk ::
  "(string \<Rightarrow> string) \<Rightarrow> bool \<Rightarrow> json option \<Rightarrow> nat \<Rightarrow> string option \<Rightarrow> json list \<Rightarrow>
     verify_result + string option" where
  "verify_walk sha256 truncated rng i expected [] = Inr expected"
| "verify_walk sha256 truncated rng i expected (raw # rest) =
     (if \<not> isRecord raw then Inl (wholeBundleFailure i truncated MALFORMED_BUNDLE rng)
      else case str_prop raw ''rowHash'' of
        None \<Rightarrow> Inl (entryFailure i truncated i (entryIdOf raw i) UNHASHED_ROW rng)
      | Some h \<Rightarrow>
          if h = [] then Inl (entryFailure i truncated i (entryIdOf raw i) UNHASHED_ROW rng)
          else if jprop raw ''prevHash'' \<noteq> Some (opt_str expected)
          then Inl (entryFailure i truncated i (entryIdOf raw i) PREV_HASH_MISMATCH rng)
          else if hashAuditRow sha256 (payloadOf raw) \<noteq> h
          then Inl (entryFailure i truncated i (entryIdOf raw i) ROW_HASH_MISMATCH rng)
          else verify_walk sha256 truncated rng (Suc i) (Some h) rest)"

text \<open>\<open>None\<close>: malformed; \<open>Some None\<close>: absent or null.\<close>

definition read_origin :: "json \<Rightarrow> string option option" where
  "read_origin bundle =
     (case jprop bundle ''origin'' of
        None \<Rightarrow> Some None
      | Some JNull \<Rightarrow> Some None
      | Some o' \<Rightarrow> if isRecord o' then map_option Some (str_prop o' ''rowHash'') else None)"

definition read_tip :: "json \<Rightarrow> (string option \<times> string option) option option" where
  "read_tip bundle =
     (case jprop bundle ''tip'' of
        None \<Rightarrow> Some None
      | Some JNull \<Rightarrow> Some None
      | Some t \<Rightarrow>
          if isRecord t
          then (case jprop t ''rowHash'' of
                  Some (JStr h) \<Rightarrow> Some (Some (Some h, str_prop t ''createdAt''))
                | Some JNull \<Rightarrow> Some (Some (None, str_prop t ''createdAt''))
                | _ \<Rightarrow> None)
          else None)"

definition tip_names :: "(string option \<times> string option) option \<Rightarrow> json list \<Rightarrow> bool" where
  "tip_names tip entries =
     (if entries = [] then tip = None
      else case tip of
        None \<Rightarrow> False
      | Some (h, c) \<Rightarrow>
          jprop (last entries) ''rowHash'' = Some (opt_str h)
          \<and> jprop (last entries) ''createdAt'' = Some (opt_str c))"

definition verifyAuditBundle :: "(string \<Rightarrow> string) \<Rightarrow> json \<Rightarrow> verify_result" where
  "verifyAuditBundle sha256 bundle =
     (if \<not> isRecord bundle then wholeBundleFailure 0 True MALFORMED_BUNDLE None
      else
        let truncated = (jprop bundle ''truncated'' \<noteq> Some (JBool False));
            rng = jprop bundle ''range''
        in if str_prop bundle ''formatVersion'' \<noteq> Some AUDIT_CHAIN_FORMAT_V1
           then wholeBundleFailure 0 truncated UNSUPPORTED_FORMAT_VERSION rng
           else case jprop bundle ''entries'' of
             Some (JArr entries) \<Rightarrow>
               (case read_origin bundle of
                  None \<Rightarrow> wholeBundleFailure 0 truncated MALFORMED_BUNDLE rng
                | Some origin \<Rightarrow>
                    (case read_tip bundle of
                       None \<Rightarrow> wholeBundleFailure 0 truncated MALFORMED_BUNDLE rng
                     | Some tip \<Rightarrow>
                         (case verify_walk sha256 truncated rng 0 origin entries of
                            Inl failure \<Rightarrow> failure
                          | Inr _ \<Rightarrow>
                              if tip_names tip entries
                              then \<lparr>vr_ok = True, vr_entriesChecked = length entries,
                                    vr_truncated = truncated, vr_range = rng, vr_failure = None\<rparr>
                              else wholeBundleFailure (length entries) truncated TIP_MISMATCH rng)))
           | _ \<Rightarrow> wholeBundleFailure 0 truncated MALFORMED_BUNDLE rng)"

section \<open>Written chains\<close>

fun linked :: "(string \<Rightarrow> string) \<Rightarrow> string option \<Rightarrow> audit_row list \<Rightarrow> bool" where
  "linked sha256 prev [] = True"
| "linked sha256 prev (r # rs) =
     (al_prevHash r = prev \<and> al_rowHash r = Some (hashAuditRow sha256 (row_payload r))
      \<and> linked sha256 (al_rowHash r) rs)"

definition end_hash :: "string option \<Rightarrow> audit_row list \<Rightarrow> string option" where
  "end_hash prev rs = (if rs = [] then prev else al_rowHash (last rs))"

lemma linked_append:
  "linked sha256 prev (rs @ [r]) \<longleftrightarrow> linked sha256 prev rs \<and> al_prevHash r = end_hash prev rs
     \<and> al_rowHash r = Some (hashAuditRow sha256 (row_payload r))"
  by (induction rs arbitrary: prev) (auto simp: end_hash_def)

lemma linked_hashed: "linked sha256 prev rs \<Longrightarrow> r \<in> set rs \<Longrightarrow> al_rowHash r = Some (hashAuditRow sha256 (row_payload r))"
  by (induction rs arbitrary: prev) auto

lemma linked_verifies:
  assumes "\<And>x. sha256 x \<noteq> []"
  shows "linked sha256 prev rs \<Longrightarrow> verify_rows sha256 prev rs = []"
  by (induction rs arbitrary: prev) (auto simp: hashAuditRow_def assms)

definition project_rows :: "audit_row list \<Rightarrow> string \<Rightarrow> audit_row list" where
  "project_rows rows p = filter (\<lambda>r. al_projectId r = Some p) rows"

definition audit_table_ok :: "(string \<Rightarrow> string) \<Rightarrow> audit_row list \<Rightarrow> bool" where
  "audit_table_ok sha256 rows =
     (\<forall>p. linked sha256 None (project_rows rows p)
        \<and> sorted_wrt (\<lambda>a b. al_createdAt a < al_createdAt b) (project_rows rows p))"

lemma fold_tip_newest:
  assumes "sorted_wrt (\<lambda>a b. al_createdAt a < al_createdAt b) rs"
  shows "fold tip_step rs None = (if rs = [] then None else Some (last rs))"
  using assms
proof (induction rs rule: rev_induct)
  case (snoc r rs)
  then have IH: "fold tip_step rs None = (if rs = [] then None else Some (last rs))"
    and less: "\<forall>x \<in> set rs. al_createdAt x < al_createdAt r" by (auto simp: sorted_wrt_append)
  show ?case
  proof (cases "rs = []")
    case True
    then show ?thesis by (simp add: tip_step_def)
  next
    case False
    with less have "tip_step r (Some (last rs)) = Some r" by (simp add: tip_step_def audit_key_def)
    with False IH show ?thesis by simp
  qed
qed simp

lemma chain_tip_last:
  assumes "audit_table_ok sha256 rows"
  shows "chain_tip rows p = (if project_rows rows p = [] then None else Some (last (project_rows rows p)))"
proof -
  have ok: "linked sha256 None (project_rows rows p)"
    "sorted_wrt (\<lambda>a b. al_createdAt a < al_createdAt b) (project_rows rows p)"
    using assms by (simp_all add: audit_table_ok_def)
  have "filter (\<lambda>r. al_projectId r = Some p \<and> al_rowHash r \<noteq> None) rows = project_rows rows p"
    using linked_hashed [OF ok(1)] by (auto simp: project_rows_def intro!: filter_cong)
  then show ?thesis by (simp add: chain_tip_def fold_tip_newest [OF ok(2)])
qed

definition plain_entry :: "audit_entry \<Rightarrow> bool" where
  "plain_entry e = (\<forall>v \<in> set_option (en_before e) \<union> set_option (en_after e). plain_json v)"

lemma stored_plain_entry:
  "plain_entry e \<Longrightarrow> map_option stored_json (en_before e) = en_before e
    \<and> map_option stored_json (en_after e) = en_after e"
  by (cases "en_before e"; cases "en_after e") (simp_all add: plain_entry_def stored_plain)

lemma writeChained_ok:
  assumes "audit_table_ok sha256 rows" and "plain_entry e"
  shows "audit_table_ok sha256 (writeChained sha256 now freshId e rows)"
proof -
  let ?mine = "project_rows rows (en_projectId e)"
  define prev where "prev = end_hash None ?mine"
  define stamp where "stamp = (if ?mine = [] then now else max now (al_createdAt (last ?mine) + 1))"
  define row where "row = \<lparr>al_id = freshId, al_projectId = Some (en_projectId e), al_userId = en_userId e,
    al_action = en_action e, al_resource = en_resource e, al_resourceId = en_resourceId e,
    al_before = en_before e, al_after = en_after e, al_ipAddress = en_ipAddress e,
    al_userAgent = en_userAgent e, al_prevHash = prev,
    al_rowHash = Some (hashAuditRow sha256 (buildCanonicalPayload e stamp prev)), al_createdAt = stamp\<rparr>"
  have wr: "writeChained sha256 now freshId e rows = rows @ [row]"
    by (simp add: writeChained_def Let_def chain_tip_last [OF assms(1)] row_def prev_def stamp_def end_hash_def
        stored_plain_entry [OF assms(2)])
  have entry: "entry_of_row row = e" by (simp add: row_def entry_of_row_def)
  have proj: "al_projectId row = Some (en_projectId e)" and prev: "al_prevHash row = end_hash None ?mine"
    and hash: "al_rowHash row = Some (hashAuditRow sha256 (row_payload row))"
    and later: "?mine \<noteq> [] \<Longrightarrow> al_createdAt (last ?mine) < al_createdAt row"
    using entry by (simp_all add: row_payload_def) (simp_all add: row_def prev_def stamp_def)
  have mine: "linked sha256 None ?mine" "sorted_wrt (\<lambda>a b. al_createdAt a < al_createdAt b) ?mine"
    using assms(1) by (simp_all add: audit_table_ok_def)
  have less: "al_createdAt x < al_createdAt row" if "x \<in> set ?mine" for x
  proof (cases ?mine rule: rev_cases)
    case (snoc ys y)
    then have "x = y \<or> al_createdAt x < al_createdAt y" using mine(2) that by (auto simp: sorted_wrt_append)
    moreover have "al_createdAt y < al_createdAt row" using later snoc by simp
    ultimately show ?thesis by auto
  qed (use that in simp)
  have "project_rows (rows @ [row]) p = (if p = en_projectId e then ?mine @ [row] else project_rows rows p)" for p
    using proj by (auto simp: project_rows_def)
  with assms(1) mine prev hash less show ?thesis
    by (auto simp: wr audit_table_ok_def linked_append sorted_wrt_append)
qed

record audit_call =
  au_now :: timestamp
  au_freshId :: string
  au_entry :: audit_entry

definition audit_step :: "(string \<Rightarrow> string) \<Rightarrow> audit_row list \<Rightarrow> audit_call \<Rightarrow> audit_row list" where
  "audit_step sha256 rows c =
     (case audit sha256 (au_now c) (au_freshId c) (au_entry c) rows of Inl _ \<Rightarrow> rows | Inr rows' \<Rightarrow> rows')"

definition audit_run :: "(string \<Rightarrow> string) \<Rightarrow> audit_call list \<Rightarrow> audit_row list" where
  "audit_run sha256 cs = foldl (audit_step sha256) [] cs"

lemma audit_run_ok:
  assumes "\<forall>c \<in> set cs. plain_entry (au_entry c)"
  shows "audit_table_ok sha256 (audit_run sha256 cs)"
  using assms
proof (induction cs rule: rev_induct)
  case Nil
  show ?case by (simp add: audit_run_def audit_table_ok_def project_rows_def)
next
  case (snoc c cs)
  then show ?case
    by (auto simp: audit_run_def audit_step_def audit_def writeChained_ok split: sum.split if_splits)
qed

lemma findProjectChain_rows:
  assumes "audit_table_ok sha256 rows"
  shows "findProjectChain rows p = project_rows rows p"
proof -
  have "sorted_wrt (\<lambda>a b. al_createdAt a < al_createdAt b) (project_rows rows p)"
    using assms by (simp add: audit_table_ok_def)
  then have "sorted_wrt (\<lambda>a b. audit_key a \<le> audit_key b) (project_rows rows p)"
    by (rule sorted_wrt_mono_rel [rotated]) (simp add: audit_key_def)
  then have "sorted (map audit_key (project_rows rows p))" by (simp add: sorted_map)
  then show ?thesis by (simp add: findProjectChain_def project_rows_def sort_key_id_if_sorted)
qed

section \<open>Walking a bundle\<close>

lemma payloadOf_bundle_entry: "payloadOf (bundle_entry r) = row_payload r"
  by (simp add: payloadOf_def bundle_entry_def members_def row_payload_def buildCanonicalPayload_def)

lemma bundle_entry_props:
  "isRecord (bundle_entry r)"
  "jprop (bundle_entry r) ''rowHash'' = Some (opt_str (al_rowHash r))"
  "jprop (bundle_entry r) ''prevHash'' = Some (opt_str (al_prevHash r))"
  "jprop (bundle_entry r) ''createdAt'' = Some (JStr (toISOString (al_createdAt r)))"
  by (simp_all add: isRecord_def jprop_def bundle_entry_def members_def row_payload_def
      buildCanonicalPayload_def opt_str_def split: option.split)

lemma opt_str_inject [simp]: "opt_str a = opt_str b \<longleftrightarrow> a = b"
  by (simp add: opt_str_def split: option.splits)

lemma linked_walk:
  assumes "\<And>x. sha256 x \<noteq> []"
  shows "linked sha256 prev rs \<Longrightarrow>
    verify_walk sha256 t g i prev (map bundle_entry rs) = Inr (end_hash prev rs)"
proof (induction rs arbitrary: prev i)
  case (Cons r rs)
  then have "str_prop (bundle_entry r) ''rowHash'' = Some (hashAuditRow sha256 (row_payload r))"
    by (simp add: str_prop_def bundle_entry_props opt_str_def)
  moreover have "hashAuditRow sha256 (row_payload r) \<noteq> []" using assms by (simp add: hashAuditRow_def)
  moreover have "verify_walk sha256 t g (Suc i) (al_rowHash r) (map bundle_entry rs) = Inr (end_hash prev (r # rs))"
    using Cons.IH [of "al_rowHash r" "Suc i"] Cons.prems by (auto simp: end_hash_def)
  ultimately show ?case using Cons.prems by (simp add: bundle_entry_props payloadOf_bundle_entry)
qed (simp add: end_hash_def)

lemma linked_slice:
  "linked sha256 prev (as @ bs) \<longleftrightarrow> linked sha256 prev as \<and> linked sha256 (end_hash prev as) bs"
  by (induction as arbitrary: prev) (auto simp: end_hash_def)

lemma linked_slice_first: "linked sha256 prev (r # rs) \<Longrightarrow> al_prevHash r = prev"
  by simp

text \<open>A property of a payload survives the sorting of the property names.\<close>

lemma map_of_only: "map_of (filter (\<lambda>kv. fst kv = k) ps) k = map_of ps k"
  by (induction ps) auto

lemma map_of_sort_key: "map_of (sort_key fst ps) k = map_of ps k"
  by (metis map_of_only sort_key_stable)

lemma map_of_sorted_member: "map_of (map sorted_member ps) k = map_option sorted_json (map_of ps k)"
  by (induction ps) (auto simp: sorted_member_def)

lemma sorted_defined [simp]: "sorted_json v \<noteq> JUndefined"
  by (cases v) simp_all

lemma jprop_sorted: "jprop (sorted_json (JObj ps)) k = map_option sorted_json (map_of ps k)"
  unfolding sorted_JObj
  by (auto simp: jprop_def map_of_sorted_member map_of_sort_key split: option.split json.split)

lemma map_of_filter_other: "P k \<Longrightarrow> map_of (filter (\<lambda>kv. P (fst kv)) ps) k = map_of ps k"
  by (induction ps) auto

lemma jprop_members: "jprop v k = Some x \<Longrightarrow> map_of (members v) k = Some x"
  by (auto simp: jprop_def members_def split: json.splits option.splits)

lemma sorted_payload_prop:
  assumes "jprop e k = Some x" and "k \<noteq> ''id''" and "k \<noteq> ''rowHash''"
  shows "jprop (sorted_json (payloadOf e)) k = Some (sorted_json x)"
proof -
  have "map_of (filter (\<lambda>kv. fst kv \<noteq> ''id'' \<and> fst kv \<noteq> ''rowHash'') (members e)) k = map_of (members e) k"
    using map_of_filter_other [of "\<lambda>n. n \<noteq> ''id'' \<and> n \<noteq> ''rowHash''" k "members e"] assms(2,3) by simp
  then show ?thesis unfolding payloadOf_def jprop_sorted by (simp add: jprop_members [OF assms(1)])
qed

lemma sorted_opt_str [simp]: "sorted_json (opt_str s) = opt_str s"
  by (simp add: opt_str_def split: option.split)

lemma verify_walk_ConsD:
  assumes "verify_walk sha256 t g i expected (raw # rest) = Inr out"
  obtains h where "str_prop raw ''rowHash'' = Some h" and "jprop raw ''prevHash'' = Some (opt_str expected)"
    and "h = sha256 (canonicalJSON (payloadOf raw))" and "verify_walk sha256 t g (Suc i) (Some h) rest = Inr out"
  using assms by (auto simp: hashAuditRow_def split: if_splits option.splits)

lemma walks_agree:
  assumes "verify_walk sha256 t g i e1 es1 = Inr out" and "verify_walk sha256 t' g' j e2 es2 = Inr out"
    and "length es1 = length es2" and "inj_on sha256 ((canonicalJSON \<circ> payloadOf) ` (set es1 \<union> set es2))"
  shows "map (sorted_json \<circ> payloadOf) es1 = map (sorted_json \<circ> payloadOf) es2 \<and> e1 = e2"
  using assms(3,1,2,4)
proof (induction es1 es2 arbitrary: e1 e2 i j rule: list_induct2)
  case Nil
  then show ?case by simp
next
  case (Cons a as b bs)
  obtain ha where ha: "jprop a ''prevHash'' = Some (opt_str e1)" "ha = sha256 (canonicalJSON (payloadOf a))"
      "verify_walk sha256 t g (Suc i) (Some ha) as = Inr out" by (rule verify_walk_ConsD [OF Cons.prems(1)])
  obtain hb where hb: "jprop b ''prevHash'' = Some (opt_str e2)" "hb = sha256 (canonicalJSON (payloadOf b))"
      "verify_walk sha256 t' g' (Suc j) (Some hb) bs = Inr out" by (rule verify_walk_ConsD [OF Cons.prems(2)])
  have "inj_on sha256 ((canonicalJSON \<circ> payloadOf) ` (set as \<union> set bs))"
    by (rule inj_on_subset [OF Cons.prems(3)]) auto
  from Cons.IH [OF ha(3) hb(3) this] have rest: "map (sorted_json \<circ> payloadOf) as = map (sorted_json \<circ> payloadOf) bs"
    and "ha = hb" by blast+
  from \<open>ha = hb\<close> have "canonicalJSON (payloadOf a) = canonicalJSON (payloadOf b)"
    unfolding ha(2) hb(2) by (rule inj_onD [OF Cons.prems(3)]) simp_all
  then have same: "sorted_json (payloadOf a) = sorted_json (payloadOf b)"
    using canonical_separable [of "payloadOf a" "[]" "payloadOf b" "[]"] by (simp add: closes_def)
  then have "Some (sorted_json (opt_str e1)) = Some (sorted_json (opt_str e2))"
    using sorted_payload_prop [OF ha(1)] sorted_payload_prop [OF hb(1)] by simp
  then have "e1 = e2" by simp
  with rest same show ?case by (simp add: comp_def)
qed

lemma project_rows_step:
  "length (project_rows (audit_step sha256 rows c) p) = length (project_rows rows p)
     + (if en_projectId (au_entry c) = p
           \<and> audit sha256 (au_now c) (au_freshId c) (au_entry c) [] \<noteq> Inl Unredacted_Credential then 1 else 0)"
proof -
  have "length (project_rows (writeChained sha256 now i e rows) p) = length (project_rows rows p)
      + (if en_projectId e = p then 1 else 0)" for now i e
    by (simp add: writeChained_def Let_def project_rows_def)
  then show ?thesis unfolding audit_step_def audit_def by (auto split: sum.split)
qed

lemma audit_run_rows:
  "length (project_rows (audit_run sha256 cs) p)
     = length (filter (\<lambda>c. en_projectId (au_entry c) = p
         \<and> audit sha256 (au_now c) (au_freshId c) (au_entry c) [] \<noteq> Inl Unredacted_Credential) cs)"
proof (induction cs rule: rev_induct)
  case Nil
  show ?case by (simp add: audit_run_def project_rows_def)
next
  case (snoc c cs)
  have "audit_run sha256 (cs @ [c]) = audit_step sha256 (audit_run sha256 cs) c" by (simp add: audit_run_def)
  with snoc show ?case by (simp add: project_rows_step)
qed

lemma linked_bundle_accepted:
  assumes "\<And>x. sha256 x \<noteq> []" and "linked sha256 prev rs"
  shows "verifyAuditBundle sha256 (assembleAuditProofBundle exportedAt p rs from to maxEntries)
    = \<lparr>vr_ok = True, vr_entriesChecked = length rs, vr_truncated = (length rs = maxEntries),
       vr_range = Some (JObj [(''from'', opt_str from), (''to'', opt_str to)]), vr_failure = None\<rparr>"
  (is "verifyAuditBundle sha256 ?b = _")
proof -
  have prev: "read_origin ?b = Some (if rs = [] then None else prev)"
    using assms(2) by (cases rs) (auto simp: read_origin_def jprop_def assembleAuditProofBundle_def
        isRecord_def str_prop_def split: option.splits)
  have tip: "read_tip ?b = Some (if rs = [] then None
      else Some (al_rowHash (last rs), Some (toISOString (al_createdAt (last rs)))))"
    by (simp add: read_tip_def jprop_def assembleAuditProofBundle_def isRecord_def str_prop_def opt_str_def
        split: option.splits)
  have walk: "verify_walk sha256 t g 0 (if rs = [] then None else prev) (map bundle_entry rs)
      = Inr (end_hash (if rs = [] then None else prev) rs)" for t g
    using linked_walk [OF assms] by (cases "rs = []") (simp_all add: end_hash_def)
  have names: "tip_names (if rs = [] then None
      else Some (al_rowHash (last rs), Some (toISOString (al_createdAt (last rs))))) (map bundle_entry rs)"
    by (simp add: tip_names_def last_map bundle_entry_props opt_str_def)
  have fields: "isRecord ?b" "jprop ?b ''truncated'' = Some (JBool (length rs = maxEntries))"
    "jprop ?b ''range'' = Some (JObj [(''from'', opt_str from), (''to'', opt_str to)])"
    "str_prop ?b ''formatVersion'' = Some AUDIT_CHAIN_FORMAT_V1"
    "jprop ?b ''entries'' = Some (JArr (map bundle_entry rs))"
    by (simp_all add: isRecord_def jprop_def str_prop_def assembleAuditProofBundle_def)
  show ?thesis by (simp add: verifyAuditBundle_def fields prev tip walk names Let_def)
qed

lemma walk_end:
  "verify_walk sha256 t g i e es = Inr out \<Longrightarrow> es \<noteq> [] \<Longrightarrow> out = str_prop (last es) ''rowHash''"
proof (induction es arbitrary: e i)
  case (Cons a as)
  obtain h where "str_prop a ''rowHash'' = Some h" "verify_walk sha256 t g (Suc i) (Some h) as = Inr out"
    by (rule verify_walk_ConsD [OF Cons.prems(1)])
  with Cons.IH show ?case by (cases "as = []") auto
qed simp

lemma str_prop_opt: "jprop v k = Some (opt_str h) \<Longrightarrow> str_prop v k = h"
  by (simp add: str_prop_def opt_str_def split: option.split)

lemma verify_walk_not_ok: "verify_walk sha256 t g i e es = Inl f \<Longrightarrow> \<not> vr_ok f"
  by (induction es arbitrary: e i)
    (auto simp: wholeBundleFailure_def entryFailure_def split: if_splits option.splits)

lemma verifyAuditBundle_okD:
  assumes "vr_ok (verifyAuditBundle sha256 b)" and "jprop b ''entries'' = Some (JArr es)"
  obtains t g origin tip where "verify_walk sha256 t g 0 origin es = Inr (case tip of None \<Rightarrow> origin | Some (h, c) \<Rightarrow> h)"
    and "read_tip b = Some tip" and "es = [] \<longleftrightarrow> tip = None"
proof -
  let ?t = "jprop b ''truncated'' \<noteq> Some (JBool False)" and ?g = "jprop b ''range''"
  obtain origin tip out where walk: "verify_walk sha256 ?t ?g 0 origin es = Inr out"
    and tip: "read_tip b = Some tip" and names: "tip_names tip es"
    using assms by (auto simp: verifyAuditBundle_def wholeBundleFailure_def Let_def
        split: if_splits option.splits sum.splits dest: verify_walk_not_ok)
  show thesis
  proof (cases "es = []")
    case True
    with walk tip names that [of ?t ?g origin tip] show thesis by (simp add: tip_names_def)
  next
    case False
    with names obtain h c where "tip = Some (h, c)" "jprop (last es) ''rowHash'' = Some (opt_str h)"
      by (auto simp: tip_names_def split: option.splits)
    with walk_end [OF walk False] walk tip False that [of ?t ?g origin tip] show thesis
      by (simp add: str_prop_opt)
  qed
qed

text \<open>A snapshot whose property is a date is hashed differently from what the column gives back.\<close>

lemma row_after_date:
  assumes "en_after e = Some (JObj ps)" and "map_of ps k = Some (JDate t)"
    and "r = last (writeChained sha256 now freshId e rows)"
  shows "canonicalJSON (row_payload r) \<noteq> canonicalJSON (buildCanonicalPayload e (al_createdAt r) (al_prevHash r))"
proof
  let ?written = "buildCanonicalPayload e (al_createdAt r) (al_prevHash r)"
  assume "canonicalJSON (row_payload r) = canonicalJSON ?written"
  then have same: "jprop (sorted_json (row_payload r)) ''after'' = jprop (sorted_json ?written) ''after''"
    using canonical_separable [of "row_payload r" "[]" ?written "[]"] by (simp add: closes_def)
  have "al_after r = Some (stored_json (JObj ps))"
    using assms(1,3) by (simp add: writeChained_def Let_def)
  then have read: "jprop (sorted_json (row_payload r)) ''after'' = Some (sorted_json (stored_json (JObj ps)))"
    unfolding row_payload_def buildCanonicalPayload_def jprop_sorted by (simp add: entry_of_row_def opt_json_def)
  have wrote: "jprop (sorted_json ?written) ''after'' = Some (sorted_json (JObj ps))"
    unfolding buildCanonicalPayload_def jprop_sorted using assms(1) by (simp add: opt_json_def)
  obtain qs where qs: "stored_json (JObj ps) = JObj qs" by simp
  have "map_of qs k = Some (iso_json t)"
    using stored_date_property [OF assms(2)] unfolding qs by (auto simp: jprop_def split: option.splits json.splits)
  then have "jprop (sorted_json (JObj qs)) k = Some (sorted_json (iso_json t))" unfolding jprop_sorted by simp
  moreover have "jprop (sorted_json (JObj ps)) k = Some (JObj [])" unfolding jprop_sorted using assms(2) by simp
  moreover have "sorted_json (JObj qs) = sorted_json (JObj ps)" using same unfolding read wrote qs by (rule option.inject [THEN iffD1])
  ultimately have "sorted_json (iso_json t) = JObj []" by (simp only: option.inject)
  then show False by (simp add: iso_json_def)
qed

lemma verify_rows_bad_hash:
  "r \<in> set rs \<Longrightarrow> al_rowHash r = Some h \<Longrightarrow> h \<noteq> [] \<Longrightarrow> hashAuditRow sha256 (row_payload r) \<noteq> h \<Longrightarrow>
    \<exists>err \<in> set (verify_rows sha256 prev rs). ce_rowId err = al_id r \<and> ce_kind err = bad_hash"
  by (induction rs arbitrary: prev) (auto split: option.split)

text \<open>A stand-in for the hash, two writes, and a bundle entry.\<close>

definition sample_hash :: "string \<Rightarrow> string" where
  "sample_hash s = CHR ''h'' # s"

definition sample_call :: "timestamp \<Rightarrow> string \<Rightarrow> audit_call" where
  "sample_call t i = \<lparr>au_now = t, au_freshId = i, au_entry =
     \<lparr>en_projectId = ''prj'', en_userId = None, en_action = ''update'', en_resource = ''project'',
      en_resourceId = ''prj'', en_before = None, en_after = None, en_ipAddress = None, en_userAgent = None\<rparr>\<rparr>"

lemma sample_calls_plain: "\<forall>c \<in> set [sample_call 10 ''a'', sample_call 5 ''b'']. plain_entry (au_entry c)"
  by (simp add: plain_entry_def sample_call_def)

lemma sample_hash_nonempty: "sample_hash x \<noteq> []"
  by (simp add: sample_hash_def)

definition sample_entry :: "string \<Rightarrow> json" where
  "sample_entry extra = JObj [(''id'', JStr extra), (''prevHash'', JNull), (''createdAt'', JStr ''t''),
     (''rowHash'', JStr (sample_hash (canonicalJSON (JObj [(''prevHash'', JNull), (''createdAt'', JStr ''t'')]))))]"

definition sample_bundle :: "string \<Rightarrow> json" where
  "sample_bundle extra = JObj [(''formatVersion'', JStr AUDIT_CHAIN_FORMAT_V1),
     (''tip'', JObj [(''rowHash'', JStr (sample_hash (canonicalJSON (JObj [(''prevHash'', JNull), (''createdAt'', JStr ''t'')])))),
                     (''createdAt'', JStr ''t'')]),
     (''entries'', JArr [sample_entry extra])]"

lemma sample_bundle_ok: "vr_ok (verifyAuditBundle sample_hash (sample_bundle extra))"
  by (simp add: verifyAuditBundle_def sample_bundle_def isRecord_def jprop_def str_prop_def read_origin_def
      read_tip_def tip_names_def sample_entry_def payloadOf_def members_def hashAuditRow_def sample_hash_def
      opt_str_def Let_def)

section \<open>Properties\<close>

text \<open>
  C18. Whatever calls of \<^verbatim>\<open>audit\<close> are made, in any order and with any clocks, as long as their
  snapshots are plain JSON the database verifier finds no error in any project's chain, the chain
  holds one row for every call that was not refused, and the timestamps of the chain strictly
  increase.
\<close>

theorem audit_run_verifies:
  assumes "\<And>x. sha256 x \<noteq> []" and "\<forall>c \<in> set cs. plain_entry (au_entry c)"
  shows "cr_errors (verifyAuditChain sha256 (audit_run sha256 cs) p) = []
    \<and> cr_rowCount (verifyAuditChain sha256 (audit_run sha256 cs) p)
        = length (filter (\<lambda>c. en_projectId (au_entry c) = p
            \<and> audit sha256 (au_now c) (au_freshId c) (au_entry c) [] \<noteq> Inl Unredacted_Credential) cs)
    \<and> sorted_wrt (<) (map al_createdAt (findProjectChain (audit_run sha256 cs) p))"
proof (intro conjI)
  note ok = audit_run_ok [OF assms(2), of sha256]
  note rows = findProjectChain_rows [OF ok, of p]
  have "linked sha256 None (project_rows (audit_run sha256 cs) p)" using ok by (simp add: audit_table_ok_def)
  from linked_verifies [OF assms(1) this]
  show "cr_errors (verifyAuditChain sha256 (audit_run sha256 cs) p) = []"
    by (simp add: verifyAuditChain_def rows Let_def)
  show "sorted_wrt (<) (map al_createdAt (findProjectChain (audit_run sha256 cs) p))"
    using ok by (simp add: rows audit_table_ok_def sorted_wrt_map)
  show "cr_rowCount (verifyAuditChain sha256 (audit_run sha256 cs) p)
      = length (filter (\<lambda>c. en_projectId (au_entry c) = p
          \<and> audit sha256 (au_now c) (au_freshId c) (au_entry c) [] \<noteq> Inl Unredacted_Credential) cs)"
    by (simp add: verifyAuditChain_def rows audit_run_rows Let_def)
qed

theorem audit_run_verifies_witness:
  "cr_errors (verifyAuditChain sample_hash (audit_run sample_hash [sample_call 10 ''a'', sample_call 5 ''b'']) ''prj'') = []"
  using audit_run_verifies [of sample_hash, OF sample_hash_nonempty sample_calls_plain] by blast

text \<open>
  A bundle assembled from any contiguous part of a chain written with plain snapshots is
  accepted by the offline verifier, which reports every entry as checked and the bundle as
  truncated exactly when it holds the maximal number of entries.
\<close>

lemma exported_bundle_verifies:
  assumes "\<And>x. sha256 x \<noteq> []" and "\<forall>c \<in> set cs. plain_entry (au_entry c)"
    and "findProjectChain (audit_run sha256 cs) p = before @ rs @ after"
  shows "verifyAuditBundle sha256 (assembleAuditProofBundle exportedAt p rs from to maxEntries)
    = \<lparr>vr_ok = True, vr_entriesChecked = length rs, vr_truncated = (length rs = maxEntries),
       vr_range = Some (JObj [(''from'', opt_str from), (''to'', opt_str to)]), vr_failure = None\<rparr>"
proof -
  have "linked sha256 None (before @ rs @ after)"
    using audit_run_ok [OF assms(2), of sha256] findProjectChain_rows [OF audit_run_ok, OF assms(2), of sha256 p] assms(3)
    by (simp add: audit_table_ok_def)
  then have "linked sha256 (end_hash None before) rs" by (simp add: linked_slice)
  with assms(1) show ?thesis by (rule linked_bundle_accepted)
qed



text \<open>
  A \<^verbatim>\<open>Date\<close> in a snapshot is later reported as tampering: the hash is computed over the
  caller's object, in which a date encodes as the empty object, the column stores the date as its
  ISO text, and the verifier, which hashes what is stored, reports the row as altered.
\<close>

lemma date_snapshot_reported_as_tampering:
  assumes "\<And>x. sha256 x \<noteq> []" and "en_after e = Some (JObj ps)" and "map_of ps k = Some (JDate t)"
    and "r = last (writeChained sha256 now freshId e rows)"
    and "inj_on sha256 {canonicalJSON (row_payload r),
      canonicalJSON (buildCanonicalPayload e (al_createdAt r) (al_prevHash r))}"
  shows "\<exists>err \<in> set (cr_errors (verifyAuditChain sha256 (writeChained sha256 now freshId e rows) (en_projectId e))).
    ce_rowId err = freshId \<and> ce_kind err = bad_hash"
proof -
  have r: "r \<in> set (writeChained sha256 now freshId e rows)" "al_id r = freshId" "al_projectId r = Some (en_projectId e)"
    "al_rowHash r = Some (hashAuditRow sha256 (buildCanonicalPayload e (al_createdAt r) (al_prevHash r)))"
    using assms(4) by (simp_all add: writeChained_def Let_def)
  have "hashAuditRow sha256 (row_payload r) \<noteq> hashAuditRow sha256 (buildCanonicalPayload e (al_createdAt r) (al_prevHash r))"
    using row_after_date [OF assms(2,3,4)] inj_onD [OF assms(5)] unfolding hashAuditRow_def by blast
  moreover have "r \<in> set (findProjectChain (writeChained sha256 now freshId e rows) (en_projectId e))"
    using r(1,3) by (simp add: findProjectChain_def)
  ultimately show ?thesis
    using verify_rows_bad_hash [of r _ _ sha256 None] r(2,4) assms(1)
    by (fastforce simp: verifyAuditChain_def Let_def hashAuditRow_def)
qed

end
