(* ===== verification/Circuit_Breaker.thy ===== *)
theory Circuit_Breaker
  imports Rovenue_Prelude
begin

text \<open>
  The circuit breaker in front of the store clients (\<^verbatim>\<open>apps/api/src/lib/circuit-breaker.ts\<close>).

  The private fields of \<^verbatim>\<open>CircuitBreaker\<close> are the record \<open>circuit_breaker\<close>. The method
  \<^verbatim>\<open>exec\<close> awaits the wrapped function, and other calls run in between, so it is split at the
  \<^verbatim>\<open>await\<close>: \<open>exec_begin\<close> is what runs before it and \<open>exec_settle\<close> what runs after the function
  has returned or thrown. The clock readings of one synchronous part are one argument. A system
  state is the breaker together with the calls that are waiting, each represented by the
  \<^verbatim>\<open>current\<close> value it captured, and a run is any interleaving of beginnings and settlements.

  The lemmas give the invariant of every interleaving, the refinement of the calls that do not
  overlap to the three-state machine of the header comment, and two interleavings in which the
  breaker does not keep what that comment says.
\<close>

section \<open>The breaker\<close>

datatype circuit_state = CLOSED | OPEN | HALF_OPEN

record circuit_options =
  co_name :: string
  co_failureThreshold :: int
  co_resetTimeoutMs :: int
  co_halfOpenRequests :: int

record circuit_breaker =
  cb_name :: string
  cb_failureThreshold :: int
  cb_resetTimeoutMs :: int
  cb_halfOpenRequests :: int
  cb_state :: circuit_state
  cb_failures :: int
  cb_successes :: int
  cb_halfOpenSuccessCount :: int
  cb_halfOpenInFlight :: int
  cb_lastFailureAt :: "timestamp option"
  cb_openedAt :: "timestamp option"

definition new_breaker :: "circuit_options \<Rightarrow> circuit_breaker" where
  "new_breaker opts = \<lparr>cb_name = co_name opts, cb_failureThreshold = co_failureThreshold opts,
     cb_resetTimeoutMs = co_resetTimeoutMs opts, cb_halfOpenRequests = co_halfOpenRequests opts,
     cb_state = CLOSED, cb_failures = 0, cb_successes = 0, cb_halfOpenSuccessCount = 0,
     cb_halfOpenInFlight = 0, cb_lastFailureAt = None, cb_openedAt = None\<rparr>"

text \<open>The getter \<^verbatim>\<open>state\<close>: an open circuit whose reset timeout has passed reads as half open.\<close>

definition breaker_state :: "timestamp \<Rightarrow> circuit_breaker \<Rightarrow> circuit_state" where
  "breaker_state now b =
     (if cb_state b = OPEN
         \<and> (case cb_openedAt b of None \<Rightarrow> False | Some t \<Rightarrow> now - t \<ge> cb_resetTimeoutMs b)
      then HALF_OPEN else cb_state b)"

record circuit_stats =
  cs_name :: string
  cs_state :: circuit_state
  cs_failures :: int
  cs_successes :: int
  cs_lastFailureAt :: "timestamp option"

definition breaker_stats :: "timestamp \<Rightarrow> circuit_breaker \<Rightarrow> circuit_stats" where
  "breaker_stats now b = \<lparr>cs_name = cb_name b, cs_state = breaker_state now b,
     cs_failures = cb_failures b, cs_successes = cb_successes b,
     cs_lastFailureAt = cb_lastFailureAt b\<rparr>"

definition trip :: "timestamp \<Rightarrow> circuit_breaker \<Rightarrow> circuit_breaker" where
  "trip now b = b\<lparr>cb_state := OPEN, cb_openedAt := Some now, cb_halfOpenSuccessCount := 0\<rparr>"

definition close_circuit :: "circuit_breaker \<Rightarrow> circuit_breaker" where
  "close_circuit b = b\<lparr>cb_state := CLOSED, cb_failures := 0, cb_successes := 0,
     cb_halfOpenSuccessCount := 0, cb_halfOpenInFlight := 0, cb_openedAt := None\<rparr>"

definition onSuccess :: "circuit_breaker \<Rightarrow> circuit_breaker" where
  "onSuccess b0 =
     (let b = b0\<lparr>cb_successes := cb_successes b0 + 1\<rparr> in
      if cb_state b = HALF_OPEN then
        (let b = b\<lparr>cb_halfOpenSuccessCount := cb_halfOpenSuccessCount b + 1\<rparr> in
         if cb_halfOpenSuccessCount b \<ge> cb_halfOpenRequests b then close_circuit b else b)
      else b\<lparr>cb_failures := 0\<rparr>)"

definition onFailure :: "timestamp \<Rightarrow> circuit_breaker \<Rightarrow> circuit_breaker" where
  "onFailure now b0 =
     (let b = b0\<lparr>cb_failures := cb_failures b0 + 1, cb_lastFailureAt := Some now\<rparr> in
      if cb_state b = HALF_OPEN then trip now b
      else if cb_failures b \<ge> cb_failureThreshold b then trip now b
      else b)"

datatype circuit_rejection = CircuitIsOpen | ProbeLimitReached

definition exec_begin ::
  "timestamp \<Rightarrow> circuit_breaker \<Rightarrow> circuit_rejection + circuit_state \<times> circuit_breaker" where
  "exec_begin now b =
     (case breaker_state now b of
        OPEN \<Rightarrow> Inl CircuitIsOpen
      | HALF_OPEN \<Rightarrow>
          (if cb_halfOpenInFlight b \<ge> cb_halfOpenRequests b then Inl ProbeLimitReached
           else Inr (HALF_OPEN, b\<lparr>cb_state := HALF_OPEN,
                                  cb_halfOpenInFlight := cb_halfOpenInFlight b + 1\<rparr>))
      | CLOSED \<Rightarrow> Inr (CLOSED, b))"

definition exec_settle ::
  "timestamp \<Rightarrow> circuit_state \<Rightarrow> bool \<Rightarrow> circuit_breaker \<Rightarrow> circuit_breaker" where
  "exec_settle now current ok b =
     (let b = (if ok then onSuccess b else onFailure now b) in
      if current = HALF_OPEN
      then b\<lparr>cb_halfOpenInFlight := max 0 (cb_halfOpenInFlight b - 1)\<rparr> else b)"

text \<open>
  A call during which no other call begins or settles: begun at \<open>t\<close>, settled at \<open>t'\<close>. The
  first component tells whether the wrapped function was invoked.
\<close>

definition exec_alone :: "timestamp \<Rightarrow> timestamp \<Rightarrow> bool \<Rightarrow> circuit_breaker \<Rightarrow> bool \<times> circuit_breaker" where
  "exec_alone t t' ok b =
     (case exec_begin t b of Inl _ \<Rightarrow> (False, b) | Inr (cur, b') \<Rightarrow> (True, exec_settle t' cur ok b'))"

definition default_options :: "string \<Rightarrow> circuit_options" where
  "default_options n = \<lparr>co_name = n, co_failureThreshold = 5, co_resetTimeoutMs = 60000,
     co_halfOpenRequests = 3\<rparr>"

definition store_circuits :: "(string \<times> circuit_breaker) list" where
  "store_circuits = map (\<lambda>n. (n, new_breaker (default_options n))) [''apple'', ''google'', ''stripe'']"

definition getStoreCircuits ::
  "timestamp \<Rightarrow> (string \<times> circuit_breaker) list \<Rightarrow> (string \<times> circuit_stats) list" where
  "getStoreCircuits now cs = map (\<lambda>(n, b). (n, breaker_stats now b)) cs"

lemmas breaker_defs = breaker_state_def trip_def close_circuit_def onSuccess_def onFailure_def
  exec_begin_def exec_settle_def Let_def

section \<open>Interleaved calls\<close>

datatype breaker_event = Begin timestamp | Settle timestamp circuit_state bool

type_synonym breaker_system = "circuit_breaker \<times> circuit_state list"

text \<open>A rejected beginning changes nothing; only a waiting call can settle.\<close>

fun breaker_step :: "breaker_event \<Rightarrow> breaker_system \<Rightarrow> breaker_system" where
  "breaker_step (Begin now) (b, waiting) =
     (case exec_begin now b of Inl _ \<Rightarrow> (b, waiting) | Inr (cur, b') \<Rightarrow> (b', cur # waiting))"
| "breaker_step (Settle now cur ok) (b, waiting) =
     (if cur \<in> set waiting then (exec_settle now cur ok b, remove1 cur waiting) else (b, waiting))"

definition breaker_run :: "circuit_options \<Rightarrow> breaker_event list \<Rightarrow> breaker_system" where
  "breaker_run opts es = fold breaker_step es (new_breaker opts, [])"

definition options_ok :: "circuit_options \<Rightarrow> bool" where
  "options_ok opts = (co_failureThreshold opts > 0 \<and> co_halfOpenRequests opts > 0)"

definition breaker_ok :: "circuit_breaker \<Rightarrow> bool" where
  "breaker_ok b =
     (cb_failureThreshold b > 0 \<and> cb_halfOpenRequests b > 0
      \<and> 0 \<le> cb_failures b
      \<and> 0 \<le> cb_halfOpenInFlight b \<and> cb_halfOpenInFlight b \<le> cb_halfOpenRequests b
      \<and> 0 \<le> cb_halfOpenSuccessCount b \<and> cb_halfOpenSuccessCount b < cb_halfOpenRequests b
      \<and> (cb_state b \<noteq> HALF_OPEN \<longrightarrow> cb_halfOpenSuccessCount b = 0)
      \<and> (cb_state b = CLOSED \<longrightarrow> cb_failures b < cb_failureThreshold b \<and> cb_openedAt b = None)
      \<and> (cb_state b \<noteq> CLOSED \<longrightarrow> cb_openedAt b \<noteq> None))"

definition probes :: "circuit_state list \<Rightarrow> int" where
  "probes waiting = int (length (filter (\<lambda>c. c = HALF_OPEN) waiting))"

definition system_ok :: "breaker_system \<Rightarrow> bool" where
  "system_ok s = (breaker_ok (fst s) \<and> cb_halfOpenInFlight (fst s) \<le> probes (snd s))"

lemma breaker_ok_new [simp]: "options_ok opts \<Longrightarrow> breaker_ok (new_breaker opts)"
  by (simp add: breaker_ok_def new_breaker_def options_ok_def)

lemma breaker_ok_onSuccess: "breaker_ok b \<Longrightarrow> breaker_ok (onSuccess b)"
  by (auto simp: breaker_ok_def breaker_defs)

lemma breaker_ok_onFailure: "breaker_ok b \<Longrightarrow> breaker_ok (onFailure now b)"
  by (auto simp: breaker_ok_def breaker_defs)

lemma breaker_ok_begin:
  assumes "breaker_ok b" and "exec_begin now b = Inr (cur, b')"
  shows "breaker_ok b'
    \<and> cb_halfOpenInFlight b' = cb_halfOpenInFlight b + (if cur = HALF_OPEN then 1 else 0)"
proof (cases "breaker_state now b")
  case HALF_OPEN
  then have b': "cur = HALF_OPEN"
      "b' = b\<lparr>cb_state := HALF_OPEN, cb_halfOpenInFlight := cb_halfOpenInFlight b + 1\<rparr>"
    and lim: "cb_halfOpenInFlight b < cb_halfOpenRequests b"
    using assms(2) by (auto simp: exec_begin_def split: if_splits)
  have "cb_state b \<noteq> CLOSED"
    using HALF_OPEN by (auto simp: breaker_state_def split: if_splits)
  with assms(1) lim show ?thesis by (simp add: breaker_ok_def b')
qed (use assms in \<open>auto simp: exec_begin_def\<close>)

lemma breaker_ok_settle: "breaker_ok b \<Longrightarrow> breaker_ok (exec_settle now cur ok b)"
  using breaker_ok_onSuccess [of b] breaker_ok_onFailure [of b now]
  by (auto simp: exec_settle_def Let_def breaker_ok_def max_def)

lemma onSuccess_inFlight: "0 \<le> cb_halfOpenInFlight b \<Longrightarrow> cb_halfOpenInFlight (onSuccess b) \<le> cb_halfOpenInFlight b"
  by (simp add: breaker_defs)

lemma onFailure_inFlight [simp]: "cb_halfOpenInFlight (onFailure now b) = cb_halfOpenInFlight b"
  by (simp add: breaker_defs)

lemma settle_inFlight:
  assumes "0 \<le> cb_halfOpenInFlight b"
  shows "cb_halfOpenInFlight (exec_settle now cur ok b)
    \<le> (if cur = HALF_OPEN then max 0 (cb_halfOpenInFlight b - 1) else cb_halfOpenInFlight b)"
  using onSuccess_inFlight [OF assms] by (auto simp: exec_settle_def Let_def)

lemma probes_simps [simp]:
  "probes [] = 0"
  "probes (c # cs) = (if c = HALF_OPEN then 1 else 0) + probes cs"
  "0 \<le> probes cs"
  by (simp_all add: probes_def)

lemma probes_remove1: "c \<in> set cs \<Longrightarrow> probes (remove1 c cs) = probes cs - (if c = HALF_OPEN then 1 else 0)"
  by (induction cs) auto

lemma system_ok_step: "system_ok s \<Longrightarrow> system_ok (breaker_step e s)"
proof (cases s; cases e)
  fix b waiting now
  assume ok: "system_ok s" and s: "s = (b, waiting)" and e: "e = Begin now"
  show "system_ok (breaker_step e s)"
  proof (cases "exec_begin now b")
    case (Inr r)
    then obtain cur b' where r: "exec_begin now b = Inr (cur, b')" by (cases r) simp
    from ok have "breaker_ok b" by (simp add: system_ok_def s)
    from breaker_ok_begin [OF this r] ok show ?thesis
      by (simp add: e s r system_ok_def)
  qed (use ok in \<open>simp add: e s\<close>)
next
  fix b waiting now cur ok'
  assume ok: "system_ok s" and s: "s = (b, waiting)" and e: "e = Settle now cur ok'"
  from ok have b: "breaker_ok b" "cb_halfOpenInFlight b \<le> probes waiting" "0 \<le> cb_halfOpenInFlight b"
    by (simp_all add: system_ok_def s breaker_ok_def)
  show "system_ok (breaker_step e s)"
  proof (cases "cur \<in> set waiting")
    case True
    have "0 < probes waiting" if "cur = HALF_OPEN"
      using True that by (auto simp: probes_def filter_empty_conv)
    with settle_inFlight [OF b(3), of now cur ok'] b True
    have "cb_halfOpenInFlight (exec_settle now cur ok' b) \<le> probes (remove1 cur waiting)"
      by (auto simp: probes_remove1 split: if_splits)
    with True breaker_ok_settle [OF b(1)] show ?thesis
      by (simp add: e s system_ok_def)
  qed (use ok in \<open>simp add: e s\<close>)
qed

lemma system_ok_fold: "system_ok s \<Longrightarrow> system_ok (fold breaker_step es s)"
  by (induction es arbitrary: s) (simp_all add: system_ok_step)

lemma system_ok_new: "options_ok opts \<Longrightarrow> system_ok (new_breaker opts, [])"
  unfolding system_ok_def by simp (simp add: new_breaker_def)

lemma system_ok_run: "options_ok opts \<Longrightarrow> system_ok (breaker_run opts es)"
  unfolding breaker_run_def by (intro system_ok_fold system_ok_new)

lemma options_step [simp]:
  "cb_halfOpenRequests (fst (breaker_step e s)) = cb_halfOpenRequests (fst s)"
  "cb_resetTimeoutMs (fst (breaker_step e s)) = cb_resetTimeoutMs (fst s)"
  by (cases s; cases e; auto simp: breaker_defs split: circuit_state.split)+

lemma options_fold [simp]:
  "cb_halfOpenRequests (fst (fold breaker_step es s)) = cb_halfOpenRequests (fst s)"
  "cb_resetTimeoutMs (fst (fold breaker_step es s)) = cb_resetTimeoutMs (fst s)"
  by (induction es arbitrary: s) simp_all

lemma options_run [simp]:
  "cb_halfOpenRequests (fst (breaker_run opts es)) = co_halfOpenRequests opts"
  "cb_resetTimeoutMs (fst (breaker_run opts es)) = co_resetTimeoutMs opts"
  by (simp_all add: breaker_run_def) (simp_all add: new_breaker_def)

section \<open>The machine of the header comment\<close>

text \<open>
  The three states with the data they carry: the failure streak, the time the circuit opened,
  the probes that succeeded. A call either is rejected (first component \<^term>\<open>False\<close>) or runs.
\<close>

datatype circuit_phase = Counting int | Tripped timestamp | Probing int

definition probe_outcome :: "circuit_options \<Rightarrow> timestamp \<Rightarrow> bool \<Rightarrow> int \<Rightarrow> circuit_phase" where
  "probe_outcome opts t' ok k =
     (if \<not> ok then Tripped t' else if k + 1 < co_halfOpenRequests opts then Probing (k + 1) else Counting 0)"

fun phase_call ::
  "circuit_options \<Rightarrow> timestamp \<times> timestamp \<times> bool \<Rightarrow> circuit_phase \<Rightarrow> bool \<times> circuit_phase" where
  "phase_call opts (t, t', ok) (Counting k) =
     (True, if ok then Counting 0
            else if k + 1 < co_failureThreshold opts then Counting (k + 1) else Tripped t')"
| "phase_call opts (t, t', ok) (Tripped s) =
     (if t < s + co_resetTimeoutMs opts then (False, Tripped s) else (True, probe_outcome opts t' ok 0))"
| "phase_call opts (t, t', ok) (Probing k) = (True, probe_outcome opts t' ok k)"

fun phase_calls ::
  "circuit_options \<Rightarrow> (timestamp \<times> timestamp \<times> bool) list \<Rightarrow> circuit_phase \<Rightarrow> bool list \<times> circuit_phase" where
  "phase_calls opts [] p = ([], p)"
| "phase_calls opts (c # cs) p =
     (let (ran, p') = phase_call opts c p; (rans, p'') = phase_calls opts cs p' in (ran # rans, p''))"

fun calls_alone ::
  "(timestamp \<times> timestamp \<times> bool) list \<Rightarrow> circuit_breaker \<Rightarrow> bool list \<times> circuit_breaker" where
  "calls_alone [] b = ([], b)"
| "calls_alone ((t, t', ok) # cs) b =
     (let (ran, b') = exec_alone t t' ok b; (rans, b'') = calls_alone cs b' in (ran # rans, b''))"

definition phase_of :: "circuit_breaker \<Rightarrow> circuit_phase" where
  "phase_of b = (case cb_state b of
       CLOSED \<Rightarrow> Counting (cb_failures b)
     | OPEN \<Rightarrow> Tripped (case cb_openedAt b of Some t \<Rightarrow> t | None \<Rightarrow> 0)
     | HALF_OPEN \<Rightarrow> Probing (cb_halfOpenSuccessCount b))"

definition idle_for :: "circuit_options \<Rightarrow> circuit_breaker \<Rightarrow> bool" where
  "idle_for opts b = (breaker_ok b \<and> cb_halfOpenInFlight b = 0
     \<and> cb_failureThreshold b = co_failureThreshold opts
     \<and> cb_resetTimeoutMs b = co_resetTimeoutMs opts
     \<and> cb_halfOpenRequests b = co_halfOpenRequests opts)"

lemma exec_alone_closed:
  assumes "idle_for opts b" and "cb_state b = CLOSED"
  shows "idle_for opts (snd (exec_alone t t' ok b))"
    and "(fst (exec_alone t t' ok b), phase_of (snd (exec_alone t t' ok b)))
      = phase_call opts (t, t', ok) (phase_of b)"
  using assms by (auto simp: exec_alone_def phase_of_def idle_for_def breaker_ok_def breaker_defs)

lemma exec_alone_half_open:
  assumes "idle_for opts b" and "cb_state b = HALF_OPEN"
  shows "idle_for opts (snd (exec_alone t t' ok b))"
    and "(fst (exec_alone t t' ok b), phase_of (snd (exec_alone t t' ok b)))
      = phase_call opts (t, t', ok) (phase_of b)"
  using assms
  by (auto simp: exec_alone_def phase_of_def idle_for_def breaker_ok_def probe_outcome_def breaker_defs)

lemma exec_alone_open:
  assumes "idle_for opts b" and "cb_state b = OPEN"
  shows "idle_for opts (snd (exec_alone t t' ok b))"
    and "(fst (exec_alone t t' ok b), phase_of (snd (exec_alone t t' ok b)))
      = phase_call opts (t, t', ok) (phase_of b)"
proof -
  obtain s where s: "cb_openedAt b = Some s" using assms by (auto simp: idle_for_def breaker_ok_def)
  show "idle_for opts (snd (exec_alone t t' ok b))"
    using assms s
    by (auto simp: exec_alone_def idle_for_def breaker_ok_def breaker_defs)
  show "(fst (exec_alone t t' ok b), phase_of (snd (exec_alone t t' ok b)))
      = phase_call opts (t, t', ok) (phase_of b)"
    using assms s
    by (auto simp: exec_alone_def phase_of_def idle_for_def breaker_ok_def probe_outcome_def breaker_defs)
qed

lemma exec_alone_refines:
  assumes "idle_for opts b"
  shows "idle_for opts (snd (exec_alone t t' ok b))
    \<and> (fst (exec_alone t t' ok b), phase_of (snd (exec_alone t t' ok b)))
      = phase_call opts (t, t', ok) (phase_of b)"
  using exec_alone_closed [OF assms] exec_alone_half_open [OF assms] exec_alone_open [OF assms]
  by (cases "cb_state b") blast+

lemma calls_alone_refines:
  "idle_for opts b \<Longrightarrow> (fst (calls_alone cs b), phase_of (snd (calls_alone cs b))) = phase_calls opts cs (phase_of b)"
proof (induction cs arbitrary: b)
  case (Cons c cs)
  obtain t t' ok where c: "c = (t, t', ok)" by (cases c)
  obtain ran b' where r: "exec_alone t t' ok b = (ran, b')" by fastforce
  from exec_alone_refines [OF Cons.prems, of t t' ok] r
  have b': "idle_for opts b'" "phase_call opts (t, t', ok) (phase_of b) = (ran, phase_of b')" by simp_all
  from Cons.IH [OF b'(1)] show ?case
    by (cases "calls_alone cs b'"; cases "phase_calls opts cs (phase_of b')") (simp add: c r b'(2))
qed simp

section \<open>Properties\<close>

text \<open>
  In every interleaving of calls, with positive limits, the breaker never counts more probes
  in flight than the limit, nor more than are really waiting; a closed circuit has fewer failures
  than the threshold and no opening time, and a circuit that is open and inside its reset timeout
  rejects the next call without changing anything.
\<close>

lemma breaker_run_invariant:
  assumes "options_ok opts" and "breaker_run opts es = (b, waiting)"
  shows "cb_halfOpenInFlight b \<le> co_halfOpenRequests opts
    \<and> cb_halfOpenInFlight b \<le> probes waiting
    \<and> (cb_state b = CLOSED \<longrightarrow> cb_failures b < cb_failureThreshold b \<and> cb_openedAt b = None)
    \<and> (cb_state b = OPEN \<longrightarrow> (\<exists>t. cb_openedAt b = Some t \<and>
         (\<forall>now. now < t + co_resetTimeoutMs opts \<longrightarrow>
            exec_begin now b = Inl CircuitIsOpen \<and> breaker_step (Begin now) (b, waiting) = (b, waiting))))"
proof -
  have ok: "breaker_ok b" "cb_halfOpenInFlight b \<le> probes waiting"
    using system_ok_run [OF assms(1), of es] assms(2) by (simp_all add: system_ok_def)
  have lim: "cb_halfOpenRequests b = co_halfOpenRequests opts" "cb_resetTimeoutMs b = co_resetTimeoutMs opts"
    using options_run [of opts es] assms(2) by simp_all
  have "exec_begin now b = Inl CircuitIsOpen"
    if "cb_state b = OPEN" "cb_openedAt b = Some t" "now < t + co_resetTimeoutMs opts" for now t
    using that by (simp add: exec_begin_def breaker_state_def lim)
  with ok lim show ?thesis by (auto simp: breaker_ok_def)
qed

text \<open>
  C27. A breaker whose calls do not overlap behaves as the three-state machine of its header
  comment: over any sequence of calls, the same calls run and the same calls are rejected, and the
  final states correspond, with the streak, the opening time and the number of good probes.
\<close>

theorem breaker_refines_machine:
  assumes "options_ok opts"
  shows "(fst (calls_alone cs (new_breaker opts)), phase_of (snd (calls_alone cs (new_breaker opts))))
    = phase_calls opts cs (Counting 0)"
proof -
  have "idle_for opts (new_breaker opts)"
    using breaker_ok_new [OF assms] by (simp add: idle_for_def) (simp add: new_breaker_def)
  moreover have "phase_of (new_breaker opts) = Counting 0"
    by (simp add: phase_of_def new_breaker_def)
  ultimately show ?thesis using calls_alone_refines [of opts "new_breaker opts" cs] by simp
qed

theorem breaker_refines_machine_witness:
  "fst (calls_alone (replicate 6 (0, 1, False) @ replicate 3 (60001, 60002, True))
      (new_breaker (default_options ''apple''))) = replicate 5 True @ [False] @ replicate 3 True
   \<and> phase_of (snd (calls_alone (replicate 6 (0, 1, False) @ replicate 3 (60001, 60002, True))
      (new_breaker (default_options ''apple'')))) = Counting 0"
proof -
  have ok: "options_ok (default_options ''apple'')" by code_simp
  have "phase_calls (default_options ''apple'') (replicate 6 (0, 1, False) @ replicate 3 (60001, 60002, True))
      (Counting 0) = (replicate 5 True @ [False] @ replicate 3 True, Counting 0)"
    by code_simp
  with breaker_refines_machine [OF ok, of "replicate 6 (0, 1, False) @ replicate 3 (60001, 60002, True)"]
  show ?thesis by simp
qed

text \<open>
  With calls that overlap, the limits of the default breaker do not hold. First: three calls
  begun before the circuit tripped that return late close it, while the only probe is still
  waiting. Second: closing forgets the probes in flight, and when they settle after the next trip
  they free slots they do not hold, so that five probes wait at once, four of them begun in the
  same half-open period, although the limit is three.
\<close>

lemma overlapping_calls_break_limits:
  "(let (b, waiting) = breaker_run (default_options ''apple'')
         (replicate 8 (Begin 0) @ replicate 5 (Settle 1 CLOSED False) @ [Begin 60001]
          @ replicate 3 (Settle 60002 CLOSED True))
    in cb_state b = CLOSED \<and> waiting = [HALF_OPEN])
   \<and> (let (b, waiting) = breaker_run (default_options ''apple'')
         (replicate 5 (Begin 0) @ replicate 5 (Settle 1 CLOSED False)
          @ concat (replicate 2 [Begin 60001, Settle 60001 HALF_OPEN True])
          @ replicate 2 (Begin 60001) @ [Begin 60001, Settle 60002 HALF_OPEN True]
          @ replicate 5 (Begin 60003) @ replicate 5 (Settle 60003 CLOSED False)
          @ replicate 3 (Begin 120003) @ [Settle 120004 HALF_OPEN True, Begin 120005])
    in probes waiting = 5 \<and> cb_halfOpenInFlight b = 3 \<and> cb_halfOpenRequests b = 3)"
  by code_simp

end
