(* ===== verification/Funnel_Rules.thy ===== *)
theory Funnel_Rules
  imports Json_Text Complex_Main
begin

text \<open>
  The branching rules of a funnel (\<^verbatim>\<open>packages/shared/src/funnel/evaluator.ts\<close> and the operand
  schema of \<^verbatim>\<open>branching-schema.ts\<close>): answers, clauses with their operators, relative dates, and the
  choice of the next page.

  Answers and operands are values \<open>fvalue\<close>; a number is a finite double and taken as the rational it
  is, and an absent value is \<open>None\<close>. Two arrays or objects that come from different places are never
  identical, so \<^verbatim>\<open>===\<close> holds between equal primitives only. Texts compare by code units.
\<close>

section \<open>Values\<close>

datatype fvalue = FNull | FStr string | FNum rat | FBool bool | FArr "fvalue list"
  | FObj "(string \<times> fvalue) list"

type_synonym answer_map = "(string, fvalue) js_map"

fun strict_eq :: "fvalue option \<Rightarrow> fvalue option \<Rightarrow> bool" where
  "strict_eq None None = True"
| "strict_eq (Some FNull) (Some FNull) = True"
| "strict_eq (Some (FStr s)) (Some (FStr t)) = (s = t)"
| "strict_eq (Some (FNum i)) (Some (FNum j)) = (i = j)"
| "strict_eq (Some (FBool a)) (Some (FBool b)) = (a = b)"
| "strict_eq _ _ = False"

definition array_includes :: "fvalue list \<Rightarrow> fvalue option \<Rightarrow> bool" where
  "array_includes vs a = list_ex (\<lambda>v. strict_eq (Some v) a) vs"

fun str_less :: "string \<Rightarrow> string \<Rightarrow> bool" where
  "str_less _ [] = False"
| "str_less [] (_ # _) = True"
| "str_less (x # xs) (y # ys) =
     ((of_char x :: nat) < of_char y \<or> (x = y \<and> str_less xs ys))"

definition str_le :: "string \<Rightarrow> string \<Rightarrow> bool" where
  "str_le a b = (\<not> str_less b a)"

text \<open>\<^verbatim>\<open>v.trim() !== ""\<close>.\<close>

definition not_blank :: "string \<Rightarrow> bool" where
  "not_blank s = list_ex (\<lambda>c. \<not> js_space c) s"

record contact_page =
  cp_collectName :: "bool option"
  cp_collectEmail :: "bool option"
  cp_collectPhone :: "bool option"

definition contactFieldsAsked :: "contact_page \<Rightarrow> string list" where
  "contactFieldsAsked page =
     (if cp_collectName page \<noteq> Some False then [''name''] else [])
     @ (if cp_collectEmail page \<noteq> Some False then [''email''] else [])
     @ (if cp_collectPhone page = Some True then [''phone''] else [])"

definition isAnswered :: "fvalue option \<Rightarrow> bool" where
  "isAnswered v =
     (case v of
        None \<Rightarrow> False
      | Some FNull \<Rightarrow> False
      | Some (FStr s) \<Rightarrow> s \<noteq> []
      | Some (FArr vs) \<Rightarrow> vs \<noteq> []
      | Some (FObj ps) \<Rightarrow>
          ps \<noteq> [] \<and> list_all (\<lambda>(_, v). case v of FStr s \<Rightarrow> not_blank s | _ \<Rightarrow> False) ps
      | Some _ \<Rightarrow> True)"

section \<open>Calendar dates\<close>

definition ISO_DATE_RE :: "string \<Rightarrow> bool" where
  "ISO_DATE_RE s = (length s = 10 \<and> s ! 4 = CHR ''-'' \<and> s ! 7 = CHR ''-''
     \<and> list_all is_digit (take 4 s) \<and> list_all is_digit (take 2 (drop 5 s)) \<and> list_all is_digit (drop 8 s))"

text \<open>Days of the civil date, the inverse of \<open>civil\<close>; the month may lie outside of a year.\<close>

definition days_from_civil :: "int \<Rightarrow> int \<Rightarrow> int \<Rightarrow> int" where
  "days_from_civil y0 m0 d =
     (let y1 = y0 + (m0 - 1) div 12; m = (m0 - 1) mod 12 + 1;
          y = (if m \<le> 2 then y1 - 1 else y1); era = y div 400; yoe = y mod 400;
          doy = (153 * (if m > 2 then m - 3 else m + 9) + 2) div 5;
          doe = yoe * 365 + yoe div 4 - yoe div 100 + doy
      in era * 146097 + doe - 719468 + (d - 1))"

text \<open>\<^verbatim>\<open>Date.UTC(y, m - 1, d)\<close>: years 0 to 99 are those of the twentieth century.\<close>

definition Date_UTC :: "int \<Rightarrow> int \<Rightarrow> int \<Rightarrow> int" where
  "Date_UTC y m d = days_from_civil (if 0 \<le> y \<and> y \<le> 99 then 1900 + y else y) m d * 86400000"

text \<open>\<^verbatim>\<open>new Date(ms)\<close> is valid up to 8.64e15 milliseconds from the epoch.\<close>

definition MAX_TIME :: int where "MAX_TIME = 8640000000000000"

definition padStart :: "nat \<Rightarrow> string \<Rightarrow> string" where
  "padStart w s = replicate (w - length s) (CHR ''0'') @ s"

text \<open>An invalid date has \<^verbatim>\<open>NaN\<close> in every part, and \<^verbatim>\<open>padStart\<close> fills its year up to four characters.\<close>

definition date_text :: "int \<Rightarrow> string" where
  "date_text ms =
     (if \<bar>ms\<bar> > MAX_TIME then ''0NaN-NaN-NaN''
      else case civil (ms div 86400000) of (y, m, d) \<Rightarrow>
        padStart 4 (int_text y) @ ''-'' @ padStart 2 (int_text m) @ ''-'' @ padStart 2 (int_text d))"

definition shiftIsoDays :: "string \<Rightarrow> int \<Rightarrow> string option" where
  "shiftIsoDays isoText days =
     (if \<not> ISO_DATE_RE isoText then None
      else Some (date_text (Date_UTC (int (text_nat (take 4 isoText))) (int (text_nat (take 2 (drop 5 isoText))))
             (int (text_nat (drop 8 isoText))) + days * 86400000)))"

section \<open>Clauses\<close>

datatype clause_op = OpEq | OpNeq | OpGt | OpGte | OpLt | OpLte | OpBetween | OpIn | OpNotIn
  | OpContains | OpNotContains | OpBefore | OpAfter | OpOnOrBefore | OpOnOrAfter
  | OpWithinLastDays | OpMoreThanDaysAgo | OpIsAnswered | OpIsNotAnswered

record clause =
  cl_question_id :: string
  cl_op :: clause_op
  cl_value :: "fvalue option"

definition CONTACT_FIELDS :: "string list" where
  "CONTACT_FIELDS = [''name'', ''email'', ''phone'']"

definition resolveAnswer :: "string \<Rightarrow> answer_map \<Rightarrow> fvalue option" where
  "resolveAnswer questionId answers =
     (if CHR ''.'' \<notin> set questionId then map_of answers questionId
      else let base = takeWhile (\<lambda>c. c \<noteq> CHR ''.'') questionId;
               field = tl (dropWhile (\<lambda>c. c \<noteq> CHR ''.'') questionId)
           in if field \<notin> set CONTACT_FIELDS then None
              else case map_of answers base of Some (FObj ps) \<Rightarrow> map_of ps field | _ \<Rightarrow> None)"

definition is_array :: "fvalue option \<Rightarrow> bool" where
  "is_array a = (case a of Some (FArr _) \<Rightarrow> True | _ \<Rightarrow> False)"

definition num_op :: "(rat \<Rightarrow> rat \<Rightarrow> bool) \<Rightarrow> fvalue option \<Rightarrow> fvalue option \<Rightarrow> bool" where
  "num_op f a v = (case (a, v) of (Some (FNum x), Some (FNum y)) \<Rightarrow> f x y | _ \<Rightarrow> False)"

definition date_op :: "(string \<Rightarrow> string \<Rightarrow> bool) \<Rightarrow> fvalue option \<Rightarrow> fvalue option \<Rightarrow> bool" where
  "date_op f a v = (case (a, v) of
     (Some (FStr x), Some (FStr y)) \<Rightarrow> ISO_DATE_RE x \<and> ISO_DATE_RE y \<and> f x y | _ \<Rightarrow> False)"

definition member_op :: "(bool \<Rightarrow> bool) \<Rightarrow> fvalue option \<Rightarrow> fvalue option \<Rightarrow> bool" where
  "member_op f a v = (case (a, v) of
     (Some (FArr xs), Some (FStr y)) \<Rightarrow> f (array_includes xs (Some (FStr y))) | _ \<Rightarrow> False)"

text \<open>
  In \<^verbatim>\<open>between\<close> a bound that is not a number compares as JavaScript coerces it; the schema admits
  numbers only, and other bounds are taken to fail.
\<close>

definition between_op :: "fvalue option \<Rightarrow> fvalue option \<Rightarrow> bool" where
  "between_op a v = (case (a, v) of
     (Some (FNum x), Some (FArr [FNum lo, FNum hi])) \<Rightarrow> lo \<le> x \<and> x \<le> hi | _ \<Rightarrow> False)"

definition is_whole :: "rat \<Rightarrow> bool" where
  "is_whole n = (of_int \<lfloor>n\<rfloor> = n)"

definition relative_op ::
  "(string \<Rightarrow> string \<Rightarrow> string \<Rightarrow> bool) \<Rightarrow> fvalue option \<Rightarrow> fvalue option \<Rightarrow> string option \<Rightarrow> bool" where
  "relative_op f a v today =
     (case (a, v, today) of
        (Some (FStr x), Some (FNum n), Some t) \<Rightarrow>
          (if \<not> ISO_DATE_RE x \<or> \<not> is_whole n \<or> n < 0 then False
           else case shiftIsoDays t (- \<lfloor>n\<rfloor>) of
             None \<Rightarrow> False
           | Some cutoff \<Rightarrow> ISO_DATE_RE t \<and> f x cutoff t)
      | _ \<Rightarrow> False)"

definition evalClause :: "clause \<Rightarrow> answer_map \<Rightarrow> string option \<Rightarrow> bool" where
  "evalClause c answers today =
     (let a = resolveAnswer (cl_question_id c) answers; v = cl_value c in
      case cl_op c of
        OpIsAnswered \<Rightarrow> isAnswered a
      | OpIsNotAnswered \<Rightarrow> \<not> isAnswered a
      | OpEq \<Rightarrow> \<not> is_array a \<and> strict_eq a v
      | OpNeq \<Rightarrow> \<not> is_array a \<and> \<not> strict_eq a v
      | OpGt \<Rightarrow> num_op (>) a v
      | OpGte \<Rightarrow> num_op (\<ge>) a v
      | OpLt \<Rightarrow> num_op (<) a v
      | OpLte \<Rightarrow> num_op (\<le>) a v
      | OpBetween \<Rightarrow> between_op a v
      | OpIn \<Rightarrow> \<not> is_array a \<and> (case v of Some (FArr vs) \<Rightarrow> array_includes vs a | _ \<Rightarrow> False)
      | OpNotIn \<Rightarrow> \<not> is_array a \<and> (case v of Some (FArr vs) \<Rightarrow> \<not> array_includes vs a | _ \<Rightarrow> False)
      | OpContains \<Rightarrow> member_op (\<lambda>b. b) a v
      | OpNotContains \<Rightarrow> member_op (\<lambda>b. \<not> b) a v
      | OpBefore \<Rightarrow> date_op str_less a v
      | OpAfter \<Rightarrow> date_op (\<lambda>x y. str_less y x) a v
      | OpOnOrBefore \<Rightarrow> date_op str_le a v
      | OpOnOrAfter \<Rightarrow> date_op (\<lambda>x y. str_le y x) a v
      | OpWithinLastDays \<Rightarrow> relative_op (\<lambda>x cutoff t. str_le cutoff x \<and> str_le x t) a v today
      | OpMoreThanDaysAgo \<Rightarrow> relative_op (\<lambda>x cutoff t. str_less x cutoff) a v today)"

text \<open>The schema of a clause (\<^verbatim>\<open>clauseSchema\<close>), as acceptance.\<close>

definition clause_accepted :: "clause \<Rightarrow> bool" where
  "clause_accepted c =
     (cl_question_id c \<noteq> []
      \<and> (case cl_op c of
           OpIsAnswered \<Rightarrow> cl_value c = None
         | OpIsNotAnswered \<Rightarrow> cl_value c = None
         | op \<Rightarrow> (case cl_value c of
             None \<Rightarrow> False
           | Some v \<Rightarrow>
               (op \<in> {OpIn, OpNotIn} \<longrightarrow> (case v of FArr _ \<Rightarrow> True | _ \<Rightarrow> False))
               \<and> (op \<in> {OpContains, OpNotContains} \<longrightarrow> (case v of FStr _ \<Rightarrow> True | _ \<Rightarrow> False))
               \<and> (op \<in> {OpGt, OpGte, OpLt, OpLte} \<longrightarrow> (case v of FNum _ \<Rightarrow> True | _ \<Rightarrow> False))
               \<and> (op = OpBetween \<longrightarrow> (case v of FArr [FNum _, FNum _] \<Rightarrow> True | _ \<Rightarrow> False))
               \<and> (op \<in> {OpWithinLastDays, OpMoreThanDaysAgo} \<longrightarrow>
                    (case v of FNum n \<Rightarrow> is_whole n \<and> n \<ge> 0 | _ \<Rightarrow> False))
               \<and> (op \<in> {OpBefore, OpAfter, OpOnOrBefore, OpOnOrAfter} \<longrightarrow>
                    (case v of FStr s \<Rightarrow> ISO_DATE_RE s | _ \<Rightarrow> False)))))"

section \<open>The next page\<close>

datatype condition_op = CondAll | CondAny

record condition =
  cd_op :: condition_op
  cd_clauses :: "clause list"

record next_rule =
  nr_id :: string
  nr_condition :: condition
  nr_goto :: string

text \<open>A page with the fields the evaluator and the validator read.\<close>

record funnel_page =
  fp_id :: string
  fp_type :: string
  fp_question_id :: "string option"
  fp_next_rules :: "next_rule list"
  fp_default_next :: "string option"

type_synonym page_graph = "(string, funnel_page) js_map"

datatype eval_result = NextPage string | NextPaywall | NextEnd

definition cond_matches :: "condition \<Rightarrow> answer_map \<Rightarrow> string option \<Rightarrow> bool" where
  "cond_matches cond answers today =
     (if cd_op cond = CondAll then list_all (\<lambda>c. evalClause c answers today) (cd_clauses cond)
      else list_ex (\<lambda>c. evalClause c answers today) (cd_clauses cond))"

definition firstPaywallId :: "string list \<Rightarrow> page_graph \<Rightarrow> string option" where
  "firstPaywallId pagesOrder pagesById =
     find (\<lambda>i. map_option fp_type (map_of pagesById i) = Some ''paywall'') pagesOrder"

definition page_after :: "string \<Rightarrow> string list \<Rightarrow> string option" where
  "page_after i order =
     (case find_index (\<lambda>x. x = i) order of
        None \<Rightarrow> None
      | Some k \<Rightarrow> if Suc k = length order then None else Some (order ! Suc k))"

text \<open>An empty page id is falsy, so a paywall page with that id does not count.\<close>

definition resolveGoto :: "string \<Rightarrow> string \<Rightarrow> string list \<Rightarrow> page_graph \<Rightarrow> eval_result" where
  "resolveGoto goto fromId pagesOrder pagesById =
     (if goto = ''paywall'' then
        (case firstPaywallId pagesOrder pagesById of
           Some p \<Rightarrow> if p = [] then NextPaywall else NextPage p
         | None \<Rightarrow> NextPaywall)
      else if goto = ''end'' then NextEnd
      else if goto = ''sequential'' then
        (case page_after fromId pagesOrder of None \<Rightarrow> NextEnd | Some p \<Rightarrow> NextPage p)
      else NextPage goto)"

definition evaluateNext ::
  "funnel_page \<Rightarrow> string list \<Rightarrow> answer_map \<Rightarrow> page_graph \<Rightarrow> string option \<Rightarrow> eval_result" where
  "evaluateNext page pagesOrder answers pagesById today =
     (case find (\<lambda>r. cond_matches (nr_condition r) answers today) (fp_next_rules page) of
        Some r \<Rightarrow> resolveGoto (nr_goto r) (fp_id page) pagesOrder pagesById
      | None \<Rightarrow>
          (case fp_default_next page of
             Some d \<Rightarrow> resolveGoto d (fp_id page) pagesOrder pagesById
           | None \<Rightarrow> resolveGoto ''sequential'' (fp_id page) pagesOrder pagesById))"

section \<open>Properties\<close>

lemma str_less_irrefl [simp]: "\<not> str_less a a"
  by (induction a) auto

lemma str_less_total: "a \<noteq> b \<Longrightarrow> str_less a b \<or> str_less b a"
proof (induction a b rule: str_less.induct)
  case (3 x xs y ys)
  then show ?case using linorder_neqE_nat [of "of_char x" "of_char y"] by auto
qed (auto simp: neq_Nil_conv)

lemma str_less_asym: "str_less a b \<Longrightarrow> \<not> str_less b a"
  by (induction a b rule: str_less.induct) auto

text \<open>
  For an answer of the kind an operator is made for, exactly one of the operator and its opposite
  holds: less and at least, before and on or after, in and not in, contains and not contains,
  answered and not answered; on-or-before and on-or-after together mean the same day; dates not
  after today are split by the two relative operators without overlap and without gap; and the
  scalar operators never hold of an array.
\<close>

lemma clause_ops_partition:
  assumes "a = resolveAnswer q answers"
    and "eval = (\<lambda>op v. evalClause \<lparr>cl_question_id = q, cl_op = op, cl_value = v\<rparr> answers today)"
  shows "eval OpIsAnswered None \<noteq> eval OpIsNotAnswered None
    \<and> (\<forall>x y. a = Some (FNum x) \<longrightarrow> eval OpLt (Some (FNum y)) \<noteq> eval OpGte (Some (FNum y))
          \<and> eval OpGt (Some (FNum y)) \<noteq> eval OpLte (Some (FNum y)))
    \<and> (\<forall>x y. a = Some (FStr x) \<longrightarrow> ISO_DATE_RE x \<longrightarrow> ISO_DATE_RE y \<longrightarrow>
          eval OpBefore (Some (FStr y)) \<noteq> eval OpOnOrAfter (Some (FStr y))
          \<and> eval OpAfter (Some (FStr y)) \<noteq> eval OpOnOrBefore (Some (FStr y))
          \<and> (eval OpOnOrBefore (Some (FStr y)) \<and> eval OpOnOrAfter (Some (FStr y))) = (x = y))
    \<and> (\<forall>vs. \<not> is_array a \<longrightarrow> eval OpIn (Some (FArr vs)) \<noteq> eval OpNotIn (Some (FArr vs)))
    \<and> (\<forall>xs s. a = Some (FArr xs) \<longrightarrow> eval OpContains (Some (FStr s)) \<noteq> eval OpNotContains (Some (FStr s))
          \<and> \<not> eval OpEq v \<and> \<not> eval OpNeq v \<and> \<not> eval OpIn v \<and> \<not> eval OpNotIn v)
    \<and> (\<forall>x t n. a = Some (FStr x) \<longrightarrow> ISO_DATE_RE x \<longrightarrow> today = Some t \<longrightarrow> ISO_DATE_RE t \<longrightarrow> str_le x t \<longrightarrow>
          eval OpWithinLastDays (Some (FNum (of_nat n))) \<noteq> eval OpMoreThanDaysAgo (Some (FNum (of_nat n))))"
proof -
  have dates: "str_le x y \<and> str_le y x \<longleftrightarrow> x = y" for x y
    using str_less_total by (auto simp: str_le_def)
  have past: "relative_op (\<lambda>x c t. str_le c x \<and> str_le x t) (Some (FStr x)) (Some (FNum (of_nat n))) (Some t)
      \<noteq> relative_op (\<lambda>x c t. str_less x c) (Some (FStr x)) (Some (FNum (of_nat n))) (Some t)"
    if "ISO_DATE_RE x" "ISO_DATE_RE t" "str_le x t" for x t n
    using that by (simp add: relative_op_def shiftIsoDays_def is_whole_def) (simp add: str_le_def)
  show ?thesis
    unfolding assms(2)
    by (intro conjI) (auto simp: evalClause_def Let_def assms(1) [symmetric] num_op_def date_op_def
        member_op_def is_array_def dates past, auto simp: str_le_def)
qed

text \<open>Month ends and leap days of the day arithmetic.\<close>

lemma shiftIsoDays_samples:
  "shiftIsoDays ''2026-03-01'' (- 1) = Some ''2026-02-28''"
  "shiftIsoDays ''2024-03-01'' (- 1) = Some ''2024-02-29''"
  "shiftIsoDays ''2026-01-01'' (- 1) = Some ''2025-12-31''"
  "shiftIsoDays ''2026-01-31'' 29 = Some ''2026-03-01''"
  by code_simp+

end
