(* ===== verification/Funnel_Graph.thy ===== *)
theory Funnel_Graph
  imports Funnel_Rules
begin

text \<open>
  The publish-time checks of a funnel (\<^verbatim>\<open>packages/shared/src/funnel/validator.ts\<close> and
  \<^verbatim>\<open>page-fields.ts\<close>): required pages, question references, goto targets, cycle search, reachability.

  The two searches are the loops of the source. The recursive \<^verbatim>\<open>dfs\<close> is written with its loop over
  the targets as the recursion (\<open>dfs_targets\<close>): it terminates because a node that is entered is no
  longer white. A cycle is reported as its path; messages are left out.

  The lemmas show that the reachable set is the closure of the target relation, that a graph with no
  reported cycle has none, and hence that no visitor of an accepted funnel without literal paywall
  targets sees a page twice. They also give accepted funnels that loop through the literal target,
  and rules on contact fields that are rejected although the evaluator reads them.
\<close>

section \<open>Targets\<close>

datatype validator_issue =
    MISSING_PAYWALL
  | MISSING_SUCCESS
  | CYCLE "string list"
  | DUPLICATE_QUESTION_ID string
  | UNKNOWN_QUESTION_REF string string
  | UNKNOWN_GOTO string string
  | UNREACHABLE string
  | MISSING_REQUIRED_FIELD string string

definition page_map :: "funnel_page list \<Rightarrow> page_graph" where
  "page_map pages = fold (\<lambda>p. AList.update (fp_id p) p) pages []"

definition nextTargets :: "funnel_page \<Rightarrow> string list \<Rightarrow> string list" where
  "nextTargets page pagesOrder =
     map nr_goto (fp_next_rules page)
     @ (case fp_default_next page of
          Some d \<Rightarrow> [d]
        | None \<Rightarrow> opt_list (page_after (fp_id page) pagesOrder))"

text \<open>The targets a search follows from an id: those of its page, without the two literals.\<close>

definition succs :: "page_graph \<Rightarrow> string list \<Rightarrow> string \<Rightarrow> string list" where
  "succs byId order i =
     (case map_of byId i of
        None \<Rightarrow> []
      | Some p \<Rightarrow> filter (\<lambda>t. t \<noteq> ''paywall'' \<and> t \<noteq> ''end'') (nextTargets p order))"

section \<open>Cycle search\<close>

datatype colour = White | Gray | Black

type_synonym dfs_state = "(string, colour) js_map \<times> string list list"

definition whites :: "dfs_state \<Rightarrow> string set" where
  "whites st = {x. map_of (fst st) x = Some White}"

lemma finite_whites [simp]: "finite (whites st)"
proof (rule finite_subset)
  show "whites st \<subseteq> fst ` set (fst st)" by (force simp: whites_def dest: map_of_SomeD)
qed simp

definition paint :: "string \<Rightarrow> colour \<Rightarrow> dfs_state \<Rightarrow> dfs_state" where
  "paint i c st = (AList.update i c (fst st), snd st)"

definition report :: "string list \<Rightarrow> string \<Rightarrow> dfs_state \<Rightarrow> dfs_state" where
  "report stack t st =
     (fst st, snd st @ [(case find_index (\<lambda>x. x = t) stack of Some k \<Rightarrow> drop k stack | None \<Rightarrow> [last stack]) @ [t]])"

text \<open>
  \<open>dfs_targets ts stack st\<close> is the loop over the remaining targets of the node on top of the stack.
  Entering a white target paints it gray, runs its own loop, and paints it black, unless its id has
  no page, when the source returns before that.
\<close>

function dfs_targets ::
  "page_graph \<Rightarrow> string list \<Rightarrow> string list \<Rightarrow> string list \<Rightarrow> dfs_state \<Rightarrow> dfs_state" where
  "dfs_targets byId order [] stack st = st"
| "dfs_targets byId order (t # ts) stack st =
     (if t = ''paywall'' \<or> t = ''end'' then dfs_targets byId order ts stack st
      else if map_of (fst st) t = Some Gray then dfs_targets byId order ts stack (report stack t st)
      else if map_of (fst st) t = Some White then
        dfs_targets byId order ts stack
          (case map_of byId t of
             None \<Rightarrow> paint t Gray st
           | Some p \<Rightarrow> paint t Black
               (dfs_targets byId order (nextTargets p order) (stack @ [t]) (paint t Gray st)))
      else dfs_targets byId order ts stack st)"
  by pat_completeness auto

lemma whites_paint [simp]: "whites (paint i c st) = (if c = White then insert i (whites st) else whites st - {i})"
  by (auto simp: whites_def paint_def update_conv' split: if_splits)

lemma whites_report [simp]: "whites (report stack t st) = whites st"
  by (simp add: whites_def report_def)

lemma dfs_targets_whites:
  "dfs_targets_dom (byId, order, ts, stack, st) \<Longrightarrow> whites (dfs_targets byId order ts stack st) \<subseteq> whites st"
proof (induction byId order ts stack st rule: dfs_targets.pinduct)
  case (1 byId order stack st)
  then show ?case by (simp add: dfs_targets.psimps)
next
  case (2 byId order t ts stack st)
  consider "t = ''paywall'' \<or> t = ''end''"
    | "t \<noteq> ''paywall''" "t \<noteq> ''end''" "map_of (fst st) t = Some Gray"
    | "t \<noteq> ''paywall''" "t \<noteq> ''end''" "map_of (fst st) t = Some White"
    | "t \<noteq> ''paywall''" "t \<noteq> ''end''" "map_of (fst st) t \<noteq> Some Gray" "map_of (fst st) t \<noteq> Some White"
    by blast
  then show ?case
  proof cases
    case 3
    show ?thesis
    proof (cases "map_of byId t")
      case None
      with 3 "2.IH" show ?thesis by (force simp: dfs_targets.psimps(2) [OF "2.hyps"])
    next
      case (Some p)
      with 3 "2.IH" show ?thesis by (force simp: dfs_targets.psimps(2) [OF "2.hyps"])
    qed
  qed (use "2.IH" in \<open>auto simp: dfs_targets.psimps(2) [OF "2.hyps"]\<close>)
qed

lemma white_psubset: "map_of (fst st) t = Some White \<Longrightarrow> whites st - {t} \<subset> whites st"
  by (auto simp: whites_def)

termination dfs_targets
proof (relation "inv_image (finite_psubset <*lex*> less_than) (\<lambda>(byId, order, ts, stack, st). (whites st, length ts))",
    goal_cases)
  case 1
  show ?case by (simp add: wf_lex_prod)
next
  case (4 byId order t ts stack st p)
  then show ?case by (simp add: white_psubset)
next
  case (5 byId order t ts stack st)
  show ?case
  proof (cases "map_of byId t")
    case (Some p)
    have "whites (paint t Black (dfs_targets byId order (nextTargets p order) (stack @ [t]) (paint t Gray st))) \<subseteq> whites st - {t}"
      using dfs_targets_whites [OF 5(4) [OF Some]] by auto
    then have "whites (paint t Black (dfs_targets byId order (nextTargets p order) (stack @ [t]) (paint t Gray st))) \<subset> whites st"
      by (rule subset_psubset_trans) (rule white_psubset [OF 5(3)])
    with Some show ?thesis by simp
  qed (use 5 in \<open>simp add: white_psubset\<close>)
qed (simp_all add: white_psubset)

definition dfs :: "page_graph \<Rightarrow> string list \<Rightarrow> string \<Rightarrow> string list \<Rightarrow> dfs_state \<Rightarrow> dfs_state" where
  "dfs byId order i stack st =
     (case map_of byId i of
        None \<Rightarrow> paint i Gray st
      | Some p \<Rightarrow> paint i Black (dfs_targets byId order (nextTargets p order) stack (paint i Gray st)))"

lemma dfs_targets_Cons:
  "dfs_targets byId order (t # ts) stack st =
     (if t = ''paywall'' \<or> t = ''end'' then dfs_targets byId order ts stack st
      else if map_of (fst st) t = Some Gray then dfs_targets byId order ts stack (report stack t st)
      else if map_of (fst st) t = Some White
        then dfs_targets byId order ts stack (dfs byId order t (stack @ [t]) st)
      else dfs_targets byId order ts stack st)"
  by (simp add: dfs_def)

definition detectCycles :: "funnel_page list \<Rightarrow> page_graph \<Rightarrow> string list \<Rightarrow> validator_issue list" where
  "detectCycles pages byId order =
     map CYCLE (snd (fold (\<lambda>p st.
         if map_of (fst st) (fp_id p) = Some White then dfs byId order (fp_id p) [fp_id p] st else st)
       pages (fold (\<lambda>p. AList.update (fp_id p) White) pages [], [])))"

section \<open>Reachability\<close>

text \<open>The stack of the loop has its top in front.\<close>

function reach_loop :: "page_graph \<Rightarrow> string list \<Rightarrow> string list \<Rightarrow> string list \<Rightarrow> string list" where
  "reach_loop byId order [] reachable = reachable"
| "reach_loop byId order (i # stack) reachable =
     (if i \<in> set reachable then reach_loop byId order stack reachable
      else reach_loop byId order
        (rev (filter (\<lambda>t. t \<notin> set (reachable @ [i])) (succs byId order i)) @ stack) (reachable @ [i]))"
  by pat_completeness auto
termination
proof (relation "inv_image (finite_psubset <*lex*> less_than)
    (\<lambda>(byId, order, stack, r). (fst ` set byId - set r, length stack))", goal_cases)
  case 1
  show ?case by (simp add: wf_lex_prod)
next
  case (3 byId order i stack r)
  show ?case
  proof (cases "map_of byId i")
    case None
    then have "fst ` set byId - set (r @ [i]) = fst ` set byId - set r"
      by (auto simp: map_of_eq_None_iff)
    with None show ?thesis by (simp add: succs_def)
  next
    case (Some p)
    then have "i \<in> fst ` set byId" by (metis domI dom_map_of_conv_image_fst)
    then have "fst ` set byId - set (r @ [i]) \<subset> fst ` set byId - set r" using 3 by auto
    then show ?thesis by simp
  qed
qed simp

definition computeReachable :: "funnel_page list \<Rightarrow> page_graph \<Rightarrow> string list \<Rightarrow> string list" where
  "computeReachable pages byId order =
     (case pages of [] \<Rightarrow> [] | p # _ \<Rightarrow> reach_loop byId order [fp_id p] [])"

section \<open>The validators\<close>

type_synonym validation = "validator_issue list \<times> validator_issue list"

definition question_check :: "funnel_page \<Rightarrow> validator_issue list \<times> string list \<Rightarrow> validator_issue list \<times> string list" where
  "question_check p acc =
     (case fp_question_id p of
        None \<Rightarrow> acc
      | Some q \<Rightarrow> if q \<in> set (snd acc) then (fst acc @ [DUPLICATE_QUESTION_ID q], snd acc)
                 else (fst acc, snd acc @ [q]))"

definition goto_issues :: "page_graph \<Rightarrow> string \<Rightarrow> string \<Rightarrow> validator_issue list" where
  "goto_issues byId pageId goto =
     (if goto \<noteq> ''paywall'' \<and> goto \<noteq> ''end'' \<and> map_of byId goto = None then [UNKNOWN_GOTO pageId goto] else [])"

definition page_issues :: "page_graph \<Rightarrow> string list \<Rightarrow> funnel_page \<Rightarrow> validator_issue list" where
  "page_issues byId questionIds p =
     concat (map (\<lambda>r.
         concat (map (\<lambda>c. if cl_question_id c \<notin> set questionIds
                        then [UNKNOWN_QUESTION_REF (fp_id p) (cl_question_id c)] else [])
                   (cd_clauses (nr_condition r)))
         @ goto_issues byId (fp_id p) (nr_goto r)) (fp_next_rules p))
     @ (case fp_default_next p of None \<Rightarrow> [] | Some d \<Rightarrow> goto_issues byId (fp_id p) d)"

definition validateFunnelGraph :: "funnel_page list \<Rightarrow> validation" where
  "validateFunnelGraph pages =
     (let byId = page_map pages;
          order = map fp_id pages;
          missing = (if list_ex (\<lambda>p. fp_type p = ''paywall'') pages then [] else [MISSING_PAYWALL])
            @ (if list_ex (\<lambda>p. fp_type p = ''success'') pages then [] else [MISSING_SUCCESS]);
          questions = fold question_check pages ([], []);
          refs = concat (map (page_issues byId (snd questions)) pages);
          cycles = detectCycles pages byId order;
          reachable = computeReachable pages byId order
      in (missing @ fst questions @ refs @ cycles,
          map (\<lambda>p. UNREACHABLE (fp_id p)) (filter (\<lambda>p. fp_id p \<notin> set reachable) pages)))"

definition REQUIRED_FIELDS :: "string \<Rightarrow> string list" where
  "REQUIRED_FIELDS ty = (if ty \<in> {''single_choice'', ''multi_choice'', ''picture_choice''} then [''options''] else [])"

definition field_empty :: "fvalue option \<Rightarrow> bool" where
  "field_empty v = (case v of
     None \<Rightarrow> True | Some FNull \<Rightarrow> True | Some (FArr vs) \<Rightarrow> vs = [] | Some (FStr s) \<Rightarrow> \<not> not_blank s | _ \<Rightarrow> False)"

text \<open>Here a page comes with its remaining fields.\<close>

definition validatePageFields :: "(funnel_page \<times> (string, fvalue) js_map) list \<Rightarrow> validation" where
  "validatePageFields pages =
     (concat (map (\<lambda>(p, fields).
        concat (map (\<lambda>f. if field_empty (map_of fields f) then [MISSING_REQUIRED_FIELD (fp_id p) f] else [])
          (REQUIRED_FIELDS (fp_type p)))) pages), [])"

section \<open>Reachability is the closure\<close>

definition succ_rel :: "page_graph \<Rightarrow> string list \<Rightarrow> (string \<times> string) set" where
  "succ_rel byId order = {(i, t). t \<in> set (succs byId order i)}"

lemma reach_loop_mono: "set stack \<union> set r \<subseteq> set (reach_loop byId order stack r)"
  by (induction byId order stack r rule: reach_loop.induct) auto

lemma reach_loop_sound: "set (reach_loop byId order stack r) \<subseteq> set r \<union> (succ_rel byId order)\<^sup>* `` set stack"
proof (induction byId order stack r rule: reach_loop.induct)
  case (2 byId order i stack r)
  have step: "(succ_rel byId order)\<^sup>* `` set (succs byId order i) \<subseteq> (succ_rel byId order)\<^sup>* `` {i}"
    by (auto simp: succ_rel_def intro: converse_rtrancl_into_rtrancl)
  show ?case
  proof (cases "i \<in> set r")
    case False
    with 2(2) [OF False] step show ?thesis by (auto simp: Image_Un)
  qed (use 2(1) in auto)
qed simp

lemma reach_loop_closed:
  "(\<forall>i \<in> set r. set (succs byId order i) \<subseteq> set r \<union> set stack) \<Longrightarrow>
     (\<forall>i \<in> set (reach_loop byId order stack r). set (succs byId order i) \<subseteq> set (reach_loop byId order stack r))"
proof (induction byId order stack r rule: reach_loop.induct)
  case (2 byId order i stack r)
  show ?case
  proof (cases "i \<in> set r")
    case True
    with 2 show ?thesis by (simp add: insert_absorb)
  next
    case False
    have "\<forall>j \<in> set (r @ [i]). set (succs byId order j) \<subseteq>
        set (r @ [i]) \<union> set (rev (filter (\<lambda>t. t \<notin> set (r @ [i])) (succs byId order i)) @ stack)"
      using 2(3) by auto
    with 2(2) [OF False] False show ?thesis by simp
  qed
qed simp

lemma closed_rtrancl: "(\<And>i j. i \<in> S \<Longrightarrow> (i, j) \<in> R \<Longrightarrow> j \<in> S) \<Longrightarrow> i \<in> S \<Longrightarrow> (i, j) \<in> R\<^sup>* \<Longrightarrow> j \<in> S"
  by (erule rtrancl_induct) blast+

lemma reach_loop_iff:
  "set (reach_loop byId order [i] []) = {t. (i, t) \<in> (succ_rel byId order)\<^sup>*}"
proof
  show "set (reach_loop byId order [i] []) \<subseteq> {t. (i, t) \<in> (succ_rel byId order)\<^sup>*}"
    using reach_loop_sound [of byId order "[i]" "[]"] by auto
  have "i \<in> set (reach_loop byId order [i] [])" using reach_loop_mono [of "[i]" "[]" byId order] by simp
  moreover have "u \<in> set (reach_loop byId order [i] [])"
    if "j \<in> set (reach_loop byId order [i] [])" "(j, u) \<in> succ_rel byId order" for j u
    using that reach_loop_closed [of "[]" byId order "[i]"] by (auto simp: succ_rel_def)
  ultimately show "{t. (i, t) \<in> (succ_rel byId order)\<^sup>*} \<subseteq> set (reach_loop byId order [i] [])"
    using closed_rtrancl [of "set (reach_loop byId order [i] [])" "succ_rel byId order" i] by blast
qed

section \<open>The cycle search finds every cycle\<close>

definition blacks :: "dfs_state \<Rightarrow> string set" where
  "blacks st = {x. map_of (fst st) x = Some Black}"

definition grays :: "dfs_state \<Rightarrow> string set" where
  "grays st = {x. map_of (fst st) x = Some Gray}"

definition black_edges :: "page_graph \<Rightarrow> string list \<Rightarrow> dfs_state \<Rightarrow> (string \<times> string) set" where
  "black_edges byId order st = {(i, t). i \<in> blacks st \<and> t \<in> set (succs byId order i) \<and> t \<in> dom (map_of (fst st))}"

text \<open>Black nodes lead only to black nodes, and without a cycle.\<close>

definition search_ok :: "page_graph \<Rightarrow> string list \<Rightarrow> dfs_state \<Rightarrow> bool" where
  "search_ok byId order st =
     ((\<forall>(i, t) \<in> black_edges byId order st. t \<in> blacks st) \<and> acyclic (black_edges byId order st))"

lemma colours_paint [simp]:
  "blacks (paint i c st) = (if c = Black then insert i (blacks st) else blacks st - {i})"
  "grays (paint i c st) = (if c = Gray then insert i (grays st) else grays st - {i})"
  "dom (map_of (fst (paint i c st))) = insert i (dom (map_of (fst st)))"
  "snd (paint i c st) = snd st"
  by (auto simp: blacks_def grays_def paint_def update_conv' split: if_splits)

lemma colours_report [simp]:
  "blacks (report stack t st) = blacks st" "grays (report stack t st) = grays st"
  "length (snd (report stack t st)) = Suc (length (snd st))"
  by (simp_all add: blacks_def grays_def report_def)

lemma acyclic_add_source:
  assumes "acyclic R" and "\<And>a b. (a, b) \<in> R \<Longrightarrow> b \<noteq> x" and "x \<notin> T"
  shows "acyclic (R \<union> {x} \<times> T)"
proof -
  have no: "(a, x) \<notin> (R \<union> {x} \<times> T)\<^sup>+" for a
  proof
    assume "(a, x) \<in> (R \<union> {x} \<times> T)\<^sup>+"
    then obtain y where "(y, x) \<in> R \<union> {x} \<times> T" by (meson tranclD2)
    with assms(2,3) show False by blast
  qed
  have "(a, b) \<in> R\<^sup>+" if "(a, b) \<in> (R \<union> {x} \<times> T)\<^sup>+" "a \<noteq> x" for a b
    using that
  proof (induction rule: trancl_induct)
    case (base y)
    then show ?case by auto
  next
    case (step y z)
    from no [of a] step.hyps(1) have "y \<noteq> x" by blast
    with step show ?case by (auto intro: trancl_into_trancl)
  qed
  with assms(1) no show ?thesis by (auto simp: acyclic_def)
qed

lemma search_ok_paint_gray:
  assumes "search_ok byId order st" and "i \<notin> blacks st" and "i \<in> dom (map_of (fst st))"
  shows "search_ok byId order (paint i Gray st)"
proof -
  have "black_edges byId order (paint i Gray st) = black_edges byId order st"
    using assms(2,3) by (auto simp: black_edges_def)
  with assms show ?thesis by (auto simp: search_ok_def)
qed

lemma search_ok_paint_black:
  assumes "search_ok byId order st" and "i \<in> grays st"
    and "\<forall>t \<in> set (succs byId order i). t \<in> dom (map_of (fst st)) \<longrightarrow> t \<in> blacks st"
  shows "search_ok byId order (paint i Black st)"
proof -
  let ?T = "{t \<in> set (succs byId order i). t \<in> dom (map_of (fst st))}"
  have ib: "i \<notin> blacks st" "i \<in> dom (map_of (fst st))" using assms(2) by (auto simp: blacks_def grays_def)
  have edges: "black_edges byId order (paint i Black st) = black_edges byId order st \<union> {i} \<times> ?T"
    using ib by (auto simp: black_edges_def)
  have "?T \<subseteq> blacks st" using assms(3) by auto
  then have "i \<notin> ?T" using ib by blast
  moreover have "\<And>a b. (a, b) \<in> black_edges byId order st \<Longrightarrow> b \<noteq> i"
    using assms(1) ib by (auto simp: search_ok_def)
  ultimately have "acyclic (black_edges byId order (paint i Black st))"
    unfolding edges using assms(1) by (intro acyclic_add_source) (auto simp: search_ok_def)
  moreover have "\<forall>(j, t) \<in> black_edges byId order (paint i Black st). t \<in> blacks (paint i Black st)"
    using assms(1) \<open>?T \<subseteq> blacks st\<close> by (auto simp: edges search_ok_def)
  ultimately show ?thesis by (simp add: search_ok_def)
qed

lemma dfs_targets_mono: "length (snd st) \<le> length (snd (dfs_targets byId order ts stack st))"
proof (induction byId order ts stack st rule: dfs_targets.induct)
  case (2 byId order t ts stack st)
  then show ?case
    by (cases "map_of byId t") (auto split: if_splits dest!: Suc_leD elim: order_trans)
qed simp

lemma dfs_mono: "length (snd st) \<le> length (snd (dfs byId order i stack st))"
  using dfs_targets_mono [of "paint i Gray st" byId order _ stack] by (auto simp: dfs_def split: option.split)

text \<open>What a search leaves when it reports nothing.\<close>

definition search_post :: "page_graph \<Rightarrow> string list \<Rightarrow> dfs_state \<Rightarrow> dfs_state \<Rightarrow> bool" where
  "search_post byId order st st' = (search_ok byId order st' \<and> dom (map_of (fst st')) = dom (map_of (fst st))
     \<and> grays st' = grays st \<and> blacks st \<subseteq> blacks st')"

lemma search_post_trans: "search_post byId order a b \<Longrightarrow> search_post byId order b c \<Longrightarrow> search_post byId order a c"
  by (auto simp: search_post_def)

definition coloured_pages :: "page_graph \<Rightarrow> dfs_state \<Rightarrow> bool" where
  "coloured_pages byId st = (dom (map_of (fst st)) \<subseteq> dom (map_of byId))"

lemma dfs_post_of_targets:
  assumes "search_ok byId order st" and "map_of (fst st) i = Some White" and "map_of byId i = Some p"
    and targets: "search_post byId order (paint i Gray st) st1"
      "\<forall>t \<in> set (nextTargets p order). t \<noteq> ''paywall'' \<longrightarrow> t \<noteq> ''end'' \<longrightarrow> t \<in> dom (map_of (fst st1)) \<longrightarrow> t \<in> blacks st1"
  shows "search_post byId order st (paint i Black st1) \<and> i \<in> blacks (paint i Black st1)"
proof -
  have i: "i \<notin> blacks st" "i \<notin> grays st" "i \<in> dom (map_of (fst st))"
    using assms(2) by (auto simp: blacks_def grays_def)
  have "i \<in> grays st1" using targets(1) by (simp add: search_post_def)
  moreover have "\<forall>t \<in> set (succs byId order i). t \<in> dom (map_of (fst st1)) \<longrightarrow> t \<in> blacks st1"
    using targets(2) by (auto simp: succs_def assms(3))
  ultimately have "search_ok byId order (paint i Black st1)"
    using targets(1) by (intro search_ok_paint_black) (simp_all add: search_post_def)
  moreover have "dom (map_of (fst (paint i Black st1))) = dom (map_of (fst st))"
    using targets(1) i(3) by (simp add: search_post_def insert_absorb)
  moreover have "grays (paint i Black st1) = grays st" "blacks st \<subseteq> blacks (paint i Black st1)"
    using targets(1) i(1,2) by (auto simp: search_post_def)
  ultimately show ?thesis by (simp add: search_post_def)
qed

lemma black_if_neither:
  "x \<in> dom (map_of (fst st)) \<Longrightarrow> map_of (fst st) x \<noteq> Some Gray \<Longrightarrow> map_of (fst st) x \<noteq> Some White \<Longrightarrow> x \<in> blacks st"
  by (auto simp: blacks_def) (metis colour.exhaust)

lemma dfs_targets_post:
  assumes "length (snd (dfs_targets byId order ts stack st)) = length (snd st)"
    and "search_ok byId order st" and "coloured_pages byId st"
  shows "search_post byId order st (dfs_targets byId order ts stack st)
    \<and> (\<forall>t \<in> set ts. t \<noteq> ''paywall'' \<longrightarrow> t \<noteq> ''end'' \<longrightarrow> t \<in> dom (map_of (fst (dfs_targets byId order ts stack st)))
         \<longrightarrow> t \<in> blacks (dfs_targets byId order ts stack st))"
  using assms
proof (induction byId order ts stack st rule: dfs_targets.induct)
  case (1 byId order stack st)
  then show ?case by (simp add: search_post_def)
next
  case (2 byId order t ts stack st)
  consider (skip) "t = ''paywall'' \<or> t = ''end''"
    | (gray) "\<not> (t = ''paywall'' \<or> t = ''end'')" "map_of (fst st) t = Some Gray"
    | (white) p where "\<not> (t = ''paywall'' \<or> t = ''end'')" "map_of (fst st) t = Some White" "map_of byId t = Some p"
    | (other) "\<not> (t = ''paywall'' \<or> t = ''end'')" "map_of (fst st) t \<noteq> Some Gray" "map_of (fst st) t \<noteq> Some White"
  proof (cases "map_of byId t")
    case None
    then have "map_of (fst st) t = None" using "2.prems"(3) unfolding coloured_pages_def by blast
    then show ?thesis using that(1,4) by auto
  next
    case (Some p)
    then show ?thesis using that by blast
  qed
  then show ?case
  proof cases
    case skip
    then have r: "dfs_targets byId order (t # ts) stack st = dfs_targets byId order ts stack st"
      by (simp add: dfs_targets_Cons del: dfs_targets.simps(2))
    with "2.IH"(1) [OF skip] "2.prems" skip show ?thesis unfolding r by auto
  next
    case gray
    then have "Suc (length (snd st)) \<le> length (snd (dfs_targets byId order (t # ts) stack st))"
      using dfs_targets_mono [of "report stack t st" byId order ts stack] by simp
    with "2.prems"(1) show ?thesis by simp
  next
    case other
    have "t \<in> blacks st" if "t \<in> dom (map_of (fst st))"
      by (rule black_if_neither [OF that other(2,3)])
    moreover have r: "dfs_targets byId order (t # ts) stack st = dfs_targets byId order ts stack st"
      using other by (simp add: dfs_targets_Cons del: dfs_targets.simps(2))
    moreover have "search_post byId order st (dfs_targets byId order ts stack st)
      \<and> (\<forall>u \<in> set ts. u \<noteq> ''paywall'' \<longrightarrow> u \<noteq> ''end'' \<longrightarrow> u \<in> dom (map_of (fst (dfs_targets byId order ts stack st)))
         \<longrightarrow> u \<in> blacks (dfs_targets byId order ts stack st))"
      using "2.prems" unfolding r by (intro "2.IH"(5) [OF other])
    ultimately show ?thesis unfolding r search_post_def by (simp only: list.set ball_simps) blast
  next
    case white
    let ?st1 = "dfs_targets byId order (nextTargets p order) (stack @ [t]) (paint t Gray st)"
    let ?st2 = "paint t Black ?st1"
    have r: "dfs_targets byId order (t # ts) stack st = dfs_targets byId order ts stack ?st2"
      using white by simp
    have l: "length (snd ?st1) = length (snd st)" "length (snd (dfs_targets byId order ts stack ?st2)) = length (snd ?st2)"
      using "2.prems"(1) dfs_targets_mono [of "paint t Gray st" byId order "nextTargets p order" "stack @ [t]"]
        dfs_targets_mono [of ?st2 byId order ts stack] unfolding r by simp_all
    have tw: "t \<notin> blacks st" "t \<in> dom (map_of (fst st))" using white by (auto simp: blacks_def)
    have c1: "coloured_pages byId (paint t Gray st)"
      using "2.prems"(3) tw by (simp add: coloured_pages_def insert_absorb)
    have "search_post byId order (paint t Gray st) ?st1 \<and> (\<forall>u \<in> set (nextTargets p order). u \<noteq> ''paywall'' \<longrightarrow> u \<noteq> ''end''
        \<longrightarrow> u \<in> dom (map_of (fst ?st1)) \<longrightarrow> u \<in> blacks ?st1)"
      using white l(1) c1 search_ok_paint_gray [OF "2.prems"(2) tw] by (intro "2.IH"(3)) simp_all
    then have p2: "search_post byId order st ?st2" "t \<in> blacks ?st2"
      using dfs_post_of_targets [OF "2.prems"(2) white(2,3)] by blast+
    have "coloured_pages byId ?st2" "search_ok byId order ?st2"
      using p2(1) "2.prems"(3) by (simp_all only: search_post_def coloured_pages_def)
    then have "search_post byId order ?st2 (dfs_targets byId order ts stack ?st2)
      \<and> (\<forall>u \<in> set ts. u \<noteq> ''paywall'' \<longrightarrow> u \<noteq> ''end'' \<longrightarrow> u \<in> dom (map_of (fst (dfs_targets byId order ts stack ?st2)))
         \<longrightarrow> u \<in> blacks (dfs_targets byId order ts stack ?st2))"
      using white(1,2) l(2) by (intro "2.IH"(4) [unfolded white(3) option.case]) simp_all
    then have q: "search_post byId order ?st2 (dfs_targets byId order ts stack ?st2)"
      and rest: "\<forall>u \<in> set ts. u \<noteq> ''paywall'' \<longrightarrow> u \<noteq> ''end'' \<longrightarrow> u \<in> dom (map_of (fst (dfs_targets byId order ts stack ?st2)))
         \<longrightarrow> u \<in> blacks (dfs_targets byId order ts stack ?st2)" by (rule conjunct1, rule conjunct2)
    from q p2(2) have "t \<in> blacks (dfs_targets byId order ts stack ?st2)" unfolding search_post_def by blast
    with search_post_trans [OF p2(1) q] rest show ?thesis unfolding r by (simp only: list.set ball_simps) blast
  qed
qed

lemma map_of_page_map: "map_of (page_map pages) i = find (\<lambda>p. fp_id p = i) (rev pages)"
proof (induction pages rule: rev_induct)
  case (snoc p pages)
  then show ?case by (auto simp: page_map_def update_conv')
qed (simp add: page_map_def)

lemma page_map_mem: "map_of (page_map pages) i = Some p \<Longrightarrow> p \<in> set pages \<and> fp_id p = i"
  by (auto simp: map_of_page_map dest: find_Some_iff_mem)

lemma page_map_dom: "dom (map_of (page_map pages)) = fp_id ` set pages"
proof -
  have "(map_of (page_map pages) i = None) = (i \<notin> fp_id ` set pages)" for i
    by (auto simp: map_of_page_map find_None_iff_all)
  then show ?thesis by (auto simp: dom_def)
qed

text \<open>The loop over the pages.\<close>

definition visit_page :: "page_graph \<Rightarrow> string list \<Rightarrow> funnel_page \<Rightarrow> dfs_state \<Rightarrow> dfs_state" where
  "visit_page byId order p st =
     (if map_of (fst st) (fp_id p) = Some White then dfs byId order (fp_id p) [fp_id p] st else st)"

lemma visit_page_post:
  assumes "length (snd (visit_page byId order p st)) = length (snd st)"
    and "search_ok byId order st" and "coloured_pages byId st" and "grays st = {}" and "fp_id p \<in> dom (map_of (fst st))"
  shows "search_post byId order st (visit_page byId order p st) \<and> fp_id p \<in> blacks (visit_page byId order p st)"
proof (cases "map_of (fst st) (fp_id p) = Some White")
  case True
  then obtain q where q: "map_of byId (fp_id p) = Some q"
    using assms(3,5) by (auto simp: coloured_pages_def)
  let ?st = "paint (fp_id p) Gray st"
  have v: "visit_page byId order p st = paint (fp_id p) Black (dfs_targets byId order (nextTargets q order) [fp_id p] ?st)"
    using True q by (simp add: visit_page_def dfs_def)
  have "fp_id p \<notin> blacks st" using True by (simp add: blacks_def)
  then have "search_ok byId order ?st" by (intro search_ok_paint_gray assms)
  moreover have "coloured_pages byId ?st" using assms(3,5) by (simp add: coloured_pages_def insert_absorb)
  ultimately show ?thesis
    unfolding v using assms(1) dfs_targets_post [of byId order "nextTargets q order" "[fp_id p]" ?st]
    by (intro dfs_post_of_targets [OF assms(2) True q]) (simp_all add: v)
next
  case False
  then have "fp_id p \<in> blacks st"
    using assms(4,5) by (intro black_if_neither) (auto simp: grays_def)
  with False assms(2) show ?thesis by (simp add: visit_page_def search_post_def)
qed

lemma visit_pages_mono: "length (snd st) \<le> length (snd (fold (visit_page byId order) ps st))"
proof (induction ps arbitrary: st)
  case (Cons p ps)
  have "length (snd st) \<le> length (snd (visit_page byId order p st))"
    by (simp add: visit_page_def dfs_mono)
  with Cons [of "visit_page byId order p st"] show ?case by simp
qed simp

lemma visit_pages_post:
  assumes "length (snd (fold (visit_page byId order) ps st)) = length (snd st)"
    and "search_ok byId order st" and "coloured_pages byId st" and "grays st = {}"
    and "fp_id ` set ps \<subseteq> dom (map_of (fst st))"
  shows "search_post byId order st (fold (visit_page byId order) ps st)
    \<and> fp_id ` set ps \<subseteq> blacks (fold (visit_page byId order) ps st)"
  using assms
proof (induction ps arbitrary: st)
  case (Cons p ps)
  let ?st = "visit_page byId order p st"
  have "length (snd st) \<le> length (snd ?st)" by (simp add: visit_page_def dfs_mono)
  then have l: "length (snd ?st) = length (snd st)" "length (snd (fold (visit_page byId order) ps ?st)) = length (snd ?st)"
    using Cons.prems(1) visit_pages_mono [of ?st byId order ps] by simp_all
  have v: "search_post byId order st ?st" "fp_id p \<in> blacks ?st"
    using visit_page_post [OF l(1) Cons.prems(2,3,4)] Cons.prems(5) by simp_all
  have post: "search_ok byId order ?st" "coloured_pages byId ?st" "grays ?st = {}" "fp_id ` set ps \<subseteq> dom (map_of (fst ?st))"
    using v(1) Cons.prems(3,4,5) unfolding search_post_def coloured_pages_def by auto
  have "search_post byId order ?st (fold (visit_page byId order) ps ?st)
    \<and> fp_id ` set ps \<subseteq> blacks (fold (visit_page byId order) ps ?st)"
    by (rule Cons.IH [OF l(2) post])
  with v show ?case using search_post_trans [OF v(1)] by (auto simp: search_post_def)
qed (simp add: search_post_def)

definition white_start :: "funnel_page list \<Rightarrow> dfs_state" where
  "white_start pages = (fold (\<lambda>p. AList.update (fp_id p) White) pages [], [])"

lemma white_start_map: "map_of (fst (white_start pages)) i = (if i \<in> fp_id ` set pages then Some White else None)"
  by (induction pages rule: rev_induct) (auto simp: white_start_def update_conv')

lemma detectCycles_acyclic:
  assumes "detectCycles pages (page_map pages) order = []"
  shows "acyclic (succ_rel (page_map pages) order \<inter> UNIV \<times> fp_id ` set pages)"
proof -
  let ?b = "page_map pages"
  let ?st = "fold (visit_page ?b order) pages (white_start pages)"
  have dom: "dom (map_of (fst (white_start pages))) = fp_id ` set pages"
    by (auto simp: white_start_map split: if_splits)
  have "blacks (white_start pages) = {}" and g: "grays (white_start pages) = {}"
    by (auto simp: blacks_def grays_def white_start_map)
  then have ok: "search_ok ?b order (white_start pages)"
    by (simp add: search_ok_def black_edges_def acyclic_def)
  have "snd ?st = []"
    using assms by (simp add: detectCycles_def visit_page_def [abs_def] white_start_def)
  then have "length (snd ?st) = length (snd (white_start pages))" by (simp add: white_start_def [of pages])
  then have "search_post ?b order (white_start pages) ?st \<and> fp_id ` set pages \<subseteq> blacks ?st"
    by (intro visit_pages_post ok g) (simp_all only: coloured_pages_def page_map_dom dom subset_refl)
  then have post: "acyclic (black_edges ?b order ?st)" "fp_id ` set pages \<subseteq> blacks ?st" "dom (map_of (fst ?st)) = fp_id ` set pages"
    by (simp_all add: search_post_def search_ok_def dom)
  have "succ_rel ?b order \<inter> UNIV \<times> fp_id ` set pages \<subseteq> black_edges ?b order ?st"
  proof
    fix e assume e: "e \<in> succ_rel ?b order \<inter> UNIV \<times> fp_id ` set pages"
    then obtain i t where it: "e = (i, t)" "t \<in> set (succs ?b order i)" "t \<in> fp_id ` set pages"
      by (auto simp: succ_rel_def)
    then have "i \<in> dom (map_of ?b)" by (cases "map_of ?b i") (auto simp: succs_def)
    then have "i \<in> blacks ?st" using post(2) by (auto simp: page_map_dom)
    with it post(3) show "e \<in> black_edges ?b order ?st" by (simp add: black_edges_def)
  qed
  with post(1) show ?thesis by (rule acyclic_subset)
qed

section \<open>Visits\<close>

text \<open>
  The pages a visitor sees: from a page the evaluator chooses the next one with the answers given so
  far, one answer map per step.
\<close>

fun visits :: "page_graph \<Rightarrow> string list \<Rightarrow> string option \<Rightarrow> answer_map list \<Rightarrow> string \<Rightarrow> string list" where
  "visits byId order today [] i = [i]"
| "visits byId order today (a # as) i =
     i # (case map_of byId i of
            None \<Rightarrow> []
          | Some p \<Rightarrow> (case evaluateNext p order a byId today of
                NextPage q \<Rightarrow> visits byId order today as q
              | _ \<Rightarrow> []))"

text \<open>No page carries an id that the rules use as a literal, and no rule uses the literal paywall.\<close>

definition plain_ids :: "funnel_page list \<Rightarrow> bool" where
  "plain_ids pages = list_all (\<lambda>p. fp_id p \<notin> {''paywall'', ''end'', ''sequential''}) pages"

definition no_paywall_literal :: "funnel_page list \<Rightarrow> bool" where
  "no_paywall_literal pages =
     list_all (\<lambda>p. ''paywall'' \<notin> set (map nr_goto (fp_next_rules p)) \<and> fp_default_next p \<noteq> Some ''paywall'') pages"

lemma page_after_mem: "page_after i order = Some q \<Longrightarrow> q \<in> set order"
proof -
  assume q: "page_after i order = Some q"
  then obtain k where k: "find_index (\<lambda>x. x = i) order = Some k" "Suc k \<noteq> length order" "q = order ! Suc k"
    by (auto simp: page_after_def split: option.splits if_splits)
  then show ?thesis using find_index_Some [OF k(1)] by simp
qed

lemma goto_known: "goto_issues byId i g = [] \<Longrightarrow> g \<noteq> ''paywall'' \<Longrightarrow> g \<noteq> ''end'' \<Longrightarrow> map_of byId g \<noteq> None"
  by (auto simp: goto_issues_def split: if_splits)

lemma accepted_step:
  assumes ok: "fst (validateFunnelGraph pages) = []" and "plain_ids pages" and "no_paywall_literal pages"
    and p: "map_of (page_map pages) i = Some p"
    and q: "evaluateNext p (map fp_id pages) a (page_map pages) today = NextPage q"
  shows "(i, q) \<in> succ_rel (page_map pages) (map fp_id pages) \<inter> UNIV \<times> fp_id ` set pages"
proof -
  let ?b = "page_map pages" and ?o = "map fp_id pages"
  have pp: "p \<in> set pages" "fp_id p = i" using page_map_mem [OF p] by simp_all
  have issues: "page_issues ?b (snd (fold question_check pages ([], []))) p = []"
    using ok pp by (auto simp: validateFunnelGraph_def Let_def)
  have ids: "\<And>x. x \<in> fp_id ` set pages \<Longrightarrow> x \<notin> {''paywall'', ''end'', ''sequential''}"
    using assms(2) by (auto simp: plain_ids_def list_all_iff)
  have known: "g \<in> fp_id ` set pages \<and> g = q \<and> g \<in> set (succs ?b ?o i)"
    if g: "g \<in> set (map nr_goto (fp_next_rules p)) \<or> fp_default_next p = Some g" and r: "resolveGoto g i ?o ?b = NextPage q" for g
  proof -
    have gi: "goto_issues ?b (fp_id p) g = []" using issues g by (auto simp: page_issues_def)
    have np: "g \<noteq> ''paywall''" using assms(3) pp(1) g by (auto simp: no_paywall_literal_def list_all_iff)
    have ne: "g \<noteq> ''end''" using r by (auto simp: resolveGoto_def)
    have mem: "g \<in> fp_id ` set pages"
      using goto_known [OF gi np ne] page_map_dom [of pages] by blast
    have "g \<in> set (nextTargets p ?o)" using g by (auto simp: nextTargets_def)
    then have "g \<in> set (succs ?b ?o i)" using np ne by (simp add: succs_def p)
    moreover have "g = q" using r np ne ids [OF mem] by (simp add: resolveGoto_def)
    ultimately show ?thesis using mem by blast
  qed
  have "q \<in> fp_id ` set pages \<and> q \<in> set (succs ?b ?o i)"
  proof (cases "find (\<lambda>r. cond_matches (nr_condition r) a today) (fp_next_rules p)")
    case (Some r)
    then have "nr_goto r \<in> set (map nr_goto (fp_next_rules p))" using find_Some_iff_mem by fastforce
    with known [of "nr_goto r"] Some q pp(2) show ?thesis by (auto simp: evaluateNext_def)
  next
    case None
    show ?thesis
    proof (cases "fp_default_next p")
      case (Some d)
      with known [of d] None q pp(2) show ?thesis by (auto simp: evaluateNext_def)
    next
      case d: None
      with None q pp(2) have after: "page_after i ?o = Some q"
        by (simp add: evaluateNext_def resolveGoto_def split: option.splits)
      then have mem: "q \<in> fp_id ` set pages" using page_after_mem by fastforce
      have "q \<in> set (nextTargets p ?o)" using d after pp(2) by (simp add: nextTargets_def)
      with ids [OF mem] mem show ?thesis by (simp add: succs_def p)
    qed
  qed
  then show ?thesis by (simp add: succ_rel_def)
qed

lemma visits_reach:
  assumes "\<And>i p a q. map_of byId i = Some p \<Longrightarrow> evaluateNext p order a byId today = NextPage q \<Longrightarrow> (i, q) \<in> R"
  shows "\<forall>j \<in> set (tl (visits byId order today as i)). (i, j) \<in> R\<^sup>+"
    and "acyclic R \<Longrightarrow> distinct (visits byId order today as i)"
proof -
  show tl: "\<forall>j \<in> set (tl (visits byId order today as i)). (i, j) \<in> R\<^sup>+" for as i
  proof (induction as arbitrary: i)
    case (Cons a as)
    show ?case
    proof (cases "\<exists>p q. map_of byId i = Some p \<and> evaluateNext p order a byId today = NextPage q")
      case True
      then obtain p q where pq: "map_of byId i = Some p" "evaluateNext p order a byId today = NextPage q" by blast
      have "visits byId order today as q = q # tl (visits byId order today as q)" by (cases as) simp_all
      with Cons [of q] assms [OF pq] show ?thesis
        by (simp add: pq) (metis (no_types, lifting) r_into_trancl set_ConsD trancl_into_trancl2)
    next
      case False
      then have "visits byId order today (a # as) i = [i]"
        by (cases "map_of byId i"; cases "evaluateNext (the (map_of byId i)) order a byId today") auto
      then show ?thesis by simp
    qed
  qed simp
  assume ac: "acyclic R"
  show "distinct (visits byId order today as i)"
  proof (induction as arbitrary: i)
    case (Cons a as)
    have "i \<notin> set (tl (visits byId order today (a # as) i))"
      using tl [of "a # as" i] ac by (auto simp: acyclic_def)
    with Cons show ?case by (auto split: option.splits eval_result.splits)
  qed simp
qed

section \<open>Properties\<close>

definition rule_to :: "string \<Rightarrow> string \<Rightarrow> next_rule" where
  "rule_to q goto = \<lparr>nr_id = ''r'', nr_condition = \<lparr>cd_op = CondAll,
     cd_clauses = [\<lparr>cl_question_id = q, cl_op = OpIsAnswered, cl_value = None\<rparr>]\<rparr>, nr_goto = goto\<rparr>"

definition funnel_page_of :: "string \<Rightarrow> string \<Rightarrow> string option \<Rightarrow> next_rule list \<Rightarrow> string option \<Rightarrow> funnel_page" where
  "funnel_page_of i ty q rules d = \<lparr>fp_id = i, fp_type = ty, fp_question_id = q, fp_next_rules = rules, fp_default_next = d\<rparr>"

definition sample_funnel :: "funnel_page list" where
  "sample_funnel = [funnel_page_of ''p1'' ''text_input'' (Some ''q1'') [rule_to ''q1'' ''pw''] None,
     funnel_page_of ''p2'' ''info'' None [] None, funnel_page_of ''pw'' ''paywall'' None [] None,
     funnel_page_of ''ok'' ''success'' None [] None]"

text \<open>
  C26. No visitor of a published funnel goes in circles: when the validator reports no error, no page
  id is one of the routing literals and no rule uses the literal paywall target, then whatever the
  answers are, every page is seen at most once, so a visit ends after at most as many pages as the
  funnel has.
\<close>

theorem accepted_funnel_visit_ends:
  assumes "fst (validateFunnelGraph pages) = []" and "plain_ids pages" and "no_paywall_literal pages"
    and "i \<in> fp_id ` set pages"
  shows "distinct (visits (page_map pages) (map fp_id pages) today as i)
    \<and> length (visits (page_map pages) (map fp_id pages) today as i) \<le> length pages"
proof -
  let ?b = "page_map pages" and ?o = "map fp_id pages"
  let ?R = "succ_rel ?b ?o \<inter> UNIV \<times> fp_id ` set pages"
  have "detectCycles pages ?b ?o = []" using assms(1) by (simp add: validateFunnelGraph_def Let_def)
  then have ac: "acyclic ?R" by (rule detectCycles_acyclic)
  have step: "(i, q) \<in> ?R" if "map_of ?b i = Some p" "evaluateNext p ?o a ?b today = NextPage q" for i p a q
    by (rule accepted_step [OF assms(1-3) that])
  have d: "distinct (visits ?b ?o today as i)" by (rule visits_reach(2) [OF step ac])
  have path: "\<forall>j \<in> set (tl (visits ?b ?o today as i)). (i, j) \<in> ?R\<^sup>+" by (rule visits_reach(1) [OF step])
  have "(i, j) \<in> ?R\<^sup>+ \<Longrightarrow> j \<in> fp_id ` set pages" for j by (auto elim: tranclE)
  then have tl: "set (tl (visits ?b ?o today as i)) \<subseteq> fp_id ` set pages" using path by blast
  have "visits ?b ?o today as i = i # tl (visits ?b ?o today as i)" by (cases as) simp_all
  then have "set (visits ?b ?o today as i) \<subseteq> fp_id ` set pages"
    using tl assms(4) by (metis insert_subset list.simps(15))
  then have "card (set (visits ?b ?o today as i)) \<le> card (fp_id ` set pages)" by (simp add: card_mono)
  also have "\<dots> \<le> length pages" by (metis card_length length_map list.set_map)
  finally show ?thesis using d by (simp add: distinct_card)
qed

theorem accepted_funnel_visit_ends_witness:
  "length (visits (page_map sample_funnel) (map fp_id sample_funnel) None (replicate 9 [(''q1'', FStr ''x'')]) ''p1'') \<le> 4"
proof -
  have "fst (validateFunnelGraph sample_funnel) = []" "plain_ids sample_funnel" "no_paywall_literal sample_funnel"
    "''p1'' \<in> fp_id ` set sample_funnel" "length sample_funnel = 4"
    by code_simp+
  then show ?thesis using accepted_funnel_visit_ends [of sample_funnel "''p1''" None "replicate 9 [(''q1'', FStr ''x'')]"] by simp
qed

text \<open>
  The reachability search returns exactly the ids that the target relation reaches from the first
  page, and warns about exactly the pages that it does not reach.
\<close>

lemma computeReachable_iff:
  assumes "pages = p # ps"
  shows "set (computeReachable pages (page_map pages) (map fp_id pages))
      = {t. (fp_id p, t) \<in> (succ_rel (page_map pages) (map fp_id pages))\<^sup>*}
    \<and> (\<forall>x. UNREACHABLE x \<in> set (snd (validateFunnelGraph pages)) \<longleftrightarrow>
         x \<in> fp_id ` set pages \<and> (fp_id p, x) \<notin> (succ_rel (page_map pages) (map fp_id pages))\<^sup>*)"
proof -
  have r: "set (computeReachable pages (page_map pages) (map fp_id pages))
      = {t. (fp_id p, t) \<in> (succ_rel (page_map pages) (map fp_id pages))\<^sup>*}"
    using assms reach_loop_iff [of "page_map pages" "map fp_id pages" "fp_id p"] by (simp add: computeReachable_def)
  have "UNREACHABLE x \<in> set (snd (validateFunnelGraph pages)) \<longleftrightarrow>
      x \<in> fp_id ` set pages \<and> x \<notin> set (computeReachable pages (page_map pages) (map fp_id pages))" for x
    by (auto simp: validateFunnelGraph_def Let_def)
  with r show ?thesis by simp
qed

text \<open>
  The literal paywall target escapes the cycle check: a funnel whose first page goes to the
  literal paywall and whose paywall page goes back to the first page is accepted, yet its visitors
  alternate between the two pages for ever; and the paywall page that the literal leads to can be
  reported as unreachable.
\<close>

lemma paywall_literal_cycle_accepted:
  "let pages = [funnel_page_of ''p1'' ''info'' None [] (Some ''paywall''),
                funnel_page_of ''pw'' ''paywall'' None [] (Some ''p1''),
                funnel_page_of ''ok'' ''success'' None [] None]
   in fst (validateFunnelGraph pages) = []
      \<and> UNREACHABLE ''pw'' \<in> set (snd (validateFunnelGraph pages))
      \<and> (\<forall>n. visits (page_map pages) (map fp_id pages) None (replicate (2 * n) []) ''p1''
             = concat (replicate n [''p1'', ''pw'']) @ [''p1''])"
proof -
  let ?pages = "[funnel_page_of ''p1'' ''info'' None [] (Some ''paywall''),
      funnel_page_of ''pw'' ''paywall'' None [] (Some ''p1''), funnel_page_of ''ok'' ''success'' None [] None]"
  let ?b = "page_map ?pages" and ?o = "map fp_id ?pages"
  have ok: "fst (validateFunnelGraph ?pages) = []" "UNREACHABLE ''pw'' \<in> set (snd (validateFunnelGraph ?pages))"
    by code_simp+
  have p: "map_of ?b ''p1'' = Some (?pages ! 0)" "map_of ?b ''pw'' = Some (?pages ! 1)"
    "evaluateNext (?pages ! 0) ?o [] ?b None = NextPage ''pw''"
    "evaluateNext (?pages ! 1) ?o [] ?b None = NextPage ''p1''"
    by code_simp+
  have "visits ?b ?o None (replicate (2 * n) []) ''p1'' = concat (replicate n [''p1'', ''pw'']) @ [''p1'']" for n
  proof (induction n)
    case (Suc n)
    have "replicate (2 * Suc n) ([] :: answer_map) = [] # [] # replicate (2 * n) []" by simp
    then show ?case using p Suc by (simp only: visits.simps option.case eval_result.case replicate_Suc concat.simps append.simps)
  qed simp
  with ok show ?thesis by (simp only: Let_def) blast
qed

lemma questions_known: "set (snd (fold question_check ps acc)) \<subseteq> set (snd acc) \<union> {q. \<exists>p \<in> set ps. fp_question_id p = Some q}"
proof (induction ps arbitrary: acc)
  case (Cons p ps)
  have "set (snd (question_check p acc)) \<subseteq> set (snd acc) \<union> {q. fp_question_id p = Some q}"
    by (auto simp: question_check_def split: option.splits if_splits)
  with Cons [of "question_check p acc"] show ?case by auto
qed simp

text \<open>
  A rule on a single contact field, which the evaluator reads and the rule editor offers, makes
  the funnel unpublishable: since no question id contains a dot, every clause on a dotted reference is
  reported as an unknown question.
\<close>

lemma subfield_rule_rejected:
  assumes "\<forall>p \<in> set pages. \<forall>q. fp_question_id p = Some q \<longrightarrow> CHR ''.'' \<notin> set q"
    and "p \<in> set pages" and "r \<in> set (fp_next_rules p)" and "c \<in> set (cd_clauses (nr_condition r))"
    and "cl_question_id c = base @ ''.'' @ field"
  shows "UNKNOWN_QUESTION_REF (fp_id p) (base @ ''.'' @ field) \<in> set (fst (validateFunnelGraph pages))"
proof -
  let ?known = "snd (fold question_check pages ([], []))"
  have "\<forall>q \<in> set ?known. CHR ''.'' \<notin> set q"
    using questions_known [of pages "([], [])"] assms(1) by auto
  then have "cl_question_id c \<notin> set ?known" using assms(5) by auto
  with assms(3-5) have "UNKNOWN_QUESTION_REF (fp_id p) (base @ ''.'' @ field) \<in> set (page_issues (page_map pages) ?known p)"
    by (force simp: page_issues_def)
  with assms(2) show ?thesis by (auto simp: validateFunnelGraph_def Let_def)
qed

end
