(* ===== verification/Paywall_Tree.thy ===== *)
theory Paywall_Tree
  imports Json_Text
begin

text \<open>
  The node tree of the paywall builder: the edits of the shared package
  (\<^verbatim>\<open>packages/shared/src/paywall/tree-op.ts\<close>) and the edits of the dashboard's builder
  (\<^verbatim>\<open>apps/dashboard/src/components/paywall-builder/tree-ops.ts\<close>).

  A node is its id, its type, the three fields that hold nodes, and the remaining properties as
  JSON values. The type decides which of the node-holding fields the code looks at. Both files
  declare their own \<^verbatim>\<open>findNode\<close>, \<^verbatim>\<open>findParent\<close> and \<^verbatim>\<open>transformNode\<close> with the same bodies; one
  definition stands for both. Copies that only preserve object identity are the values they copy.

  The lemmas go through \<open>slots\<close>, the list of the nodes the code descends into.
\<close>

section \<open>Nodes\<close>

datatype node_type = NStack | NText | NImage | NButton | NPackageList | NPurchaseButton | NSpacer
  | NDivider | NIcon | NFeatureList | NTimeline | NFooterLinks | NSocialProof | NStickyFooter
  | NCountdown | NCarousel | NVideo | NLottie

datatype pw_node = PwNode (pn_id: string) (pn_type: node_type) (pn_props: "(string \<times> json) list")
  (pn_children: "pw_node list") (pn_cellTemplate: "pw_node option") (pn_fallback: "pw_node option")

record builder_config =
  bc_formatVersion :: int
  bc_defaultLocale :: string
  bc_localizations :: "(string, (string, string) js_map) js_map"
  bc_background :: "json option"
  bc_root :: pw_node

definition container_type :: "node_type \<Rightarrow> bool" where
  "container_type ty = (ty = NStack \<or> ty = NCarousel \<or> ty = NStickyFooter)"

definition isContainerNode :: "pw_node \<Rightarrow> bool" where
  "isContainerNode n = container_type (pn_type n)"

definition set_children :: "pw_node list \<Rightarrow> pw_node \<Rightarrow> pw_node" where
  "set_children cs n = PwNode (pn_id n) (pn_type n) (pn_props n) cs (pn_cellTemplate n) (pn_fallback n)"

fun findNode :: "pw_node \<Rightarrow> string \<Rightarrow> pw_node option" where
  "findNode (PwNode i ty ps ch cell fb) nid =
     (if i = nid then Some (PwNode i ty ps ch cell fb)
      else case (if container_type ty then first_some (map (\<lambda>c. findNode c nid) ch) else None) of
        Some found \<Rightarrow> Some found
      | None \<Rightarrow>
          (case (if ty = NPackageList then (case cell of None \<Rightarrow> None | Some c \<Rightarrow> findNode c nid) else None) of
             Some found \<Rightarrow> Some found
           | None \<Rightarrow> (case fb of None \<Rightarrow> None | Some f \<Rightarrow> findNode f nid)))"

fun findParent :: "pw_node \<Rightarrow> string \<Rightarrow> (pw_node \<times> nat) option" where
  "findParent (PwNode i ty ps ch cell fb) nid =
     (case (if container_type ty then
              (case find_index (\<lambda>c. pn_id c = nid) ch of
                 Some k \<Rightarrow> Some (PwNode i ty ps ch cell fb, k)
               | None \<Rightarrow> first_some (map (\<lambda>c. findParent c nid) ch))
            else None) of
        Some found \<Rightarrow> Some found
      | None \<Rightarrow>
          (case (if ty = NPackageList then (case cell of None \<Rightarrow> None | Some c \<Rightarrow> findParent c nid) else None) of
             Some found \<Rightarrow> Some found
           | None \<Rightarrow> (case fb of None \<Rightarrow> None | Some f \<Rightarrow> findParent f nid)))"

fun transformNode :: "pw_node \<Rightarrow> string \<Rightarrow> (pw_node \<Rightarrow> pw_node) \<Rightarrow> pw_node" where
  "transformNode (PwNode i ty ps ch cell fb) target f =
     (if i = target then f (PwNode i ty ps ch cell fb)
      else PwNode i ty ps
        (if container_type ty then map (\<lambda>c. transformNode c target f) ch else ch)
        (if ty = NPackageList then map_option (\<lambda>c. transformNode c target f) cell else cell)
        (map_option (\<lambda>c. transformNode c target f) fb))"

section \<open>The shared edits\<close>

text \<open>
  The patch of \<^verbatim>\<open>updateProps\<close> is spread over the node. Its structural keys, when present, are
  taken with the type the node schema gives them.
\<close>

record node_patch =
  np_id :: "string option"
  np_type :: "node_type option"
  np_props :: "(string \<times> json) list"
  np_children :: "pw_node list option"
  np_cellTemplate :: "pw_node option option"
  np_fallback :: "pw_node option option"

definition spread :: "('k \<times> 'v) list \<Rightarrow> ('k, 'v) js_map \<Rightarrow> ('k, 'v) js_map" where
  "spread kvs m = fold (\<lambda>(k, v). AList.update k v) kvs m"

definition spread_patch :: "node_patch \<Rightarrow> pw_node \<Rightarrow> pw_node" where
  "spread_patch p n =
     PwNode (patched (np_id p) (pn_id n)) (patched (np_type p) (pn_type n))
       (spread (np_props p) (pn_props n))
       (patched (np_children p) (pn_children n)) (patched (np_cellTemplate p) (pn_cellTemplate n))
       (patched (np_fallback p) (pn_fallback n))"

datatype paywall_tree_op =
    OpInsert string int pw_node
  | OpReplace string pw_node
  | OpRemove string
  | OpUpdateProps string node_patch
  | OpSetLocalizations string "(string \<times> string) list"

datatype tree_op_error = TARGET_NOT_FOUND | NOT_A_CONTAINER | INDEX_OUT_OF_RANGE | CANNOT_REMOVE_ROOT

text \<open>\<^verbatim>\<open>children.splice(i, 0, x)\<close> for an index inside the array, and \<^verbatim>\<open>children.splice(i, 1)\<close>.\<close>

definition splice_in :: "nat \<Rightarrow> 'a \<Rightarrow> 'a list \<Rightarrow> 'a list" where
  "splice_in i x xs = take i xs @ x # drop i xs"

definition splice_out :: "nat \<Rightarrow> 'a list \<Rightarrow> 'a list" where
  "splice_out i xs = take i xs @ drop (Suc i) xs"

definition insert_child :: "nat \<Rightarrow> pw_node \<Rightarrow> pw_node \<Rightarrow> pw_node" where
  "insert_child i s n = (if \<not> isContainerNode n then n else set_children (splice_in i s (pn_children n)) n)"

definition remove_child :: "nat \<Rightarrow> pw_node \<Rightarrow> pw_node" where
  "remove_child i n = (if \<not> isContainerNode n then n else set_children (splice_out i (pn_children n)) n)"

fun applyTreeOp :: "builder_config \<Rightarrow> paywall_tree_op \<Rightarrow> tree_op_error + builder_config" where
  "applyTreeOp config (OpInsert parentId index subtree) =
     (case findNode (bc_root config) parentId of
        None \<Rightarrow> Inl TARGET_NOT_FOUND
      | Some parent \<Rightarrow>
          (if \<not> isContainerNode parent then Inl NOT_A_CONTAINER
           else if index < 0 \<or> index > int (length (pn_children parent)) then Inl INDEX_OUT_OF_RANGE
           else Inr (config\<lparr>bc_root :=
                  transformNode (bc_root config) parentId (insert_child (nat index) subtree)\<rparr>)))"
| "applyTreeOp config (OpReplace nodeId subtree) =
     (if nodeId = pn_id (bc_root config) then Inl CANNOT_REMOVE_ROOT
      else case findNode (bc_root config) nodeId of
        None \<Rightarrow> Inl TARGET_NOT_FOUND
      | Some _ \<Rightarrow> Inr (config\<lparr>bc_root := transformNode (bc_root config) nodeId (\<lambda>_. subtree)\<rparr>))"
| "applyTreeOp config (OpRemove nodeId) =
     (if nodeId = pn_id (bc_root config) then Inl CANNOT_REMOVE_ROOT
      else case findParent (bc_root config) nodeId of
        None \<Rightarrow> Inl TARGET_NOT_FOUND
      | Some (parent, i) \<Rightarrow>
          Inr (config\<lparr>bc_root := transformNode (bc_root config) (pn_id parent) (remove_child i)\<rparr>))"
| "applyTreeOp config (OpUpdateProps nodeId patch) =
     (case findNode (bc_root config) nodeId of
        None \<Rightarrow> Inl TARGET_NOT_FOUND
      | Some _ \<Rightarrow> Inr (config\<lparr>bc_root := transformNode (bc_root config) nodeId (spread_patch patch)\<rparr>))"
| "applyTreeOp config (OpSetLocalizations locale entries) =
     (let existing = (case map_of (bc_localizations config) locale of None \<Rightarrow> [] | Some t \<Rightarrow> t) in
      Inr (config\<lparr>bc_localizations :=
        AList.update locale (spread entries existing) (bc_localizations config)\<rparr>))"

section \<open>The builder's edits\<close>

definition MAX_BUILDER_DEPTH :: nat where "MAX_BUILDER_DEPTH = 32"
definition MAX_BUILDER_NODES :: nat where "MAX_BUILDER_NODES = 500"

definition resolveAddTargetId :: "pw_node \<Rightarrow> string option \<Rightarrow> string" where
  "resolveAddTargetId root selected =
     (case selected of
        None \<Rightarrow> pn_id root
      | Some sid \<Rightarrow>
          (case findNode root sid of
             Some n \<Rightarrow>
               (if isContainerNode n then pn_id n
                else (case findParent root sid of Some (p, _) \<Rightarrow> pn_id p | None \<Rightarrow> pn_id root))
           | None \<Rightarrow> (case findParent root sid of Some (p, _) \<Rightarrow> pn_id p | None \<Rightarrow> pn_id root)))"

definition insertNode :: "pw_node \<Rightarrow> string \<Rightarrow> pw_node \<Rightarrow> int option \<Rightarrow> pw_node" where
  "insertNode root parentId n index =
     transformNode root parentId (\<lambda>parent.
       if \<not> isContainerNode parent then parent
       else let len = int (length (pn_children parent));
                at = (case index of None \<Rightarrow> len | Some i \<Rightarrow> max 0 (min len i))
            in set_children (splice_in (nat at) n (pn_children parent)) parent)"

definition removeNode :: "pw_node \<Rightarrow> string \<Rightarrow> pw_node" where
  "removeNode root nid =
     (if nid = pn_id root then root
      else case findParent root nid of
        None \<Rightarrow> root
      | Some (parent, i) \<Rightarrow> transformNode root (pn_id parent) (remove_child i))"

definition swap_child :: "nat \<Rightarrow> nat \<Rightarrow> pw_node \<Rightarrow> pw_node" where
  "swap_child i target n =
     (if \<not> isContainerNode n then n
      else set_children (splice_in target (pn_children n ! i) (splice_out i (pn_children n))) n)"

definition moveNode :: "pw_node \<Rightarrow> string \<Rightarrow> int \<Rightarrow> pw_node" where
  "moveNode root nid dir =
     (if nid = pn_id root then root
      else case findParent root nid of
        None \<Rightarrow> root
      | Some (parent, i) \<Rightarrow>
          (let target = int i + dir in
           if target < 0 \<or> target \<ge> int (length (pn_children parent)) then root
           else transformNode root (pn_id parent) (swap_child i (nat target))))"

fun nodeDepth :: "pw_node \<Rightarrow> string \<Rightarrow> nat \<Rightarrow> nat option" where
  "nodeDepth (PwNode i ty ps ch cell fb) nid depth =
     (if i = nid then Some depth
      else case (if container_type ty then first_some (map (\<lambda>c. nodeDepth c nid (depth + 1)) ch) else None) of
        Some found \<Rightarrow> Some found
      | None \<Rightarrow>
          (case (if ty = NPackageList then (case cell of None \<Rightarrow> None | Some c \<Rightarrow> nodeDepth c nid (depth + 1)) else None) of
             Some found \<Rightarrow> Some found
           | None \<Rightarrow> (case fb of None \<Rightarrow> None | Some f \<Rightarrow> nodeDepth f nid (depth + 1))))"

fun subtreeHeight :: "pw_node \<Rightarrow> nat" where
  "subtreeHeight (PwNode i ty ps ch cell fb) =
     1 + max (max (if container_type ty then foldr max (map subtreeHeight ch) 0 else 0)
                  (if ty = NPackageList then (case cell of None \<Rightarrow> 0 | Some c \<Rightarrow> subtreeHeight c) else 0))
             (case fb of None \<Rightarrow> 0 | Some f \<Rightarrow> subtreeHeight f)"

fun containsId :: "pw_node \<Rightarrow> string \<Rightarrow> bool" where
  "containsId (PwNode i ty ps ch cell fb) nid =
     (i = nid
      \<or> (container_type ty \<and> list_ex (\<lambda>c. containsId c nid) ch)
      \<or> (ty = NPackageList \<and> (case cell of None \<Rightarrow> False | Some c \<Rightarrow> containsId c nid))
      \<or> (case fb of None \<Rightarrow> False | Some f \<Rightarrow> containsId f nid))"

definition moveNodeTo :: "pw_node \<Rightarrow> string \<Rightarrow> string \<Rightarrow> int \<Rightarrow> pw_node option" where
  "moveNodeTo root nid newParentId index =
     (if nid = pn_id root then None
      else case findParent root nid of
        None \<Rightarrow> None
      | Some (oldParent, oldIndex) \<Rightarrow>
          (let movingNode = pn_children oldParent ! oldIndex in
           case findNode root newParentId of
             None \<Rightarrow> None
           | Some newParent \<Rightarrow>
               (if \<not> isContainerNode newParent then None
                else if containsId movingNode newParentId then None
                else case nodeDepth root newParentId 1 of
                  None \<Rightarrow> None
                | Some parentDepth \<Rightarrow>
                    (if parentDepth + subtreeHeight movingNode > MAX_BUILDER_DEPTH then None
                     else if pn_id oldParent = newParentId \<and> index = int oldIndex then Some root
                     else let targetIndex =
                              (if pn_id oldParent = newParentId \<and> index > int oldIndex then index - 1 else index)
                          in Some (insertNode (removeNode root nid) newParentId movingNode (Some targetIndex))))))"

definition canMoveTo :: "pw_node \<Rightarrow> string \<Rightarrow> string \<Rightarrow> bool" where
  "canMoveTo root nid newParentId = (moveNodeTo root nid newParentId 0 \<noteq> None)"

definition updateNode :: "pw_node \<Rightarrow> string \<Rightarrow> node_patch \<Rightarrow> pw_node" where
  "updateNode root nid patch = transformNode root nid (spread_patch patch)"

section \<open>Slots\<close>

text \<open>The nodes the code descends into, in its order, and the copy of a node with them changed.\<close>

definition slots :: "pw_node \<Rightarrow> pw_node list" where
  "slots n = (if isContainerNode n then pn_children n else [])
     @ (if pn_type n = NPackageList then opt_list (pn_cellTemplate n) else [])
     @ opt_list (pn_fallback n)"

definition map_slots :: "(pw_node \<Rightarrow> pw_node) \<Rightarrow> pw_node \<Rightarrow> pw_node" where
  "map_slots g n = PwNode (pn_id n) (pn_type n) (pn_props n)
     (if isContainerNode n then map g (pn_children n) else pn_children n)
     (if pn_type n = NPackageList then map_option g (pn_cellTemplate n) else pn_cellTemplate n)
     (map_option g (pn_fallback n))"

lemma map_slots_simps [simp]:
  "pn_id (map_slots g n) = pn_id n"
  "pn_type (map_slots g n) = pn_type n"
  "isContainerNode (map_slots g n) = isContainerNode n"
  "isContainerNode n \<Longrightarrow> pn_children (map_slots g n) = map g (pn_children n)"
  "slots (map_slots g n) = map g (slots n)"
  by (auto simp: map_slots_def isContainerNode_def slots_def split: option.split)

lemma set_children_simps [simp]:
  "pn_id (set_children cs n) = pn_id n"
  "pn_type (set_children cs n) = pn_type n"
  "pn_children (set_children cs n) = cs"
  "pn_fallback (set_children cs n) = pn_fallback n"
  "isContainerNode (set_children cs n) = isContainerNode n"
  "set_children cs (set_children ds n) = set_children cs n"
  "set_children (pn_children n) n = n"
  by (simp_all add: set_children_def isContainerNode_def)

lemma container_not_packageList [simp]: "container_type NPackageList = False"
  by (simp add: container_type_def)

lemma slots_set_children:
  "isContainerNode n \<Longrightarrow> slots (set_children cs n) = cs @ opt_list (pn_fallback n)"
  by (auto simp: slots_def set_children_def isContainerNode_def container_type_def split: option.split)

lemma slots_container:
  "isContainerNode n \<Longrightarrow> slots n = pn_children n @ opt_list (pn_fallback n)"
  by (auto simp: slots_def isContainerNode_def container_type_def split: option.split)

lemma size_child: "c \<in> set ch \<Longrightarrow> size c < size (PwNode i ty ps ch cell fb)"
  by (induction ch) auto

lemma size_slot: "c \<in> set (slots n) \<Longrightarrow> size c < size n"
proof (cases n)
  case (PwNode i ty ps ch cell fb)
  moreover assume "c \<in> set (slots n)"
  ultimately have "c \<in> set ch \<or> cell = Some c \<or> fb = Some c"
    by (auto simp: slots_def split: if_splits)
  then show ?thesis
  proof (elim disjE)
    assume "c \<in> set ch"
    then show ?thesis unfolding PwNode by (rule size_child)
  qed (simp_all add: PwNode)
qed

lemma node_slot_induct [case_names node]:
  assumes "\<And>n. (\<And>c. c \<in> set (slots n) \<Longrightarrow> P c) \<Longrightarrow> P n"
  shows "P n"
proof (induction n rule: measure_induct_rule [of size])
  case (less n)
  show ?case
  proof (rule assms)
    fix c assume "c \<in> set (slots n)"
    then show "P c" by (intro less.IH size_slot)
  qed
qed

lemma findNode_slots:
  "findNode n t = (if pn_id n = t then Some n else first_some (map (\<lambda>c. findNode c t) (slots n)))"
  by (cases n; cases "isContainerNode n"; cases "pn_type n = NPackageList";
      cases "pn_cellTemplate n"; cases "pn_fallback n")
    (simp_all add: slots_def isContainerNode_def first_some_Cons split: option.split)

lemma findParent_slots:
  "findParent n t =
     (case (if isContainerNode n then find_index (\<lambda>c. pn_id c = t) (pn_children n) else None) of
        Some k \<Rightarrow> Some (n, k)
      | None \<Rightarrow> first_some (map (\<lambda>c. findParent c t) (slots n)))"
  by (cases n; cases "isContainerNode n"; cases "pn_type n = NPackageList";
      cases "pn_cellTemplate n"; cases "pn_fallback n")
    (simp_all add: slots_def isContainerNode_def first_some_Cons split: option.split)

lemma transformNode_slots:
  "transformNode n t f = (if pn_id n = t then f n else map_slots (\<lambda>c. transformNode c t f) n)"
  by (cases n) (simp add: map_slots_def isContainerNode_def)

lemma nodeDepth_slots:
  "nodeDepth n t d = (if pn_id n = t then Some d else first_some (map (\<lambda>c. nodeDepth c t (d + 1)) (slots n)))"
  by (cases n; cases "isContainerNode n"; cases "pn_type n = NPackageList";
      cases "pn_cellTemplate n"; cases "pn_fallback n")
    (simp_all add: slots_def isContainerNode_def first_some_Cons split: option.split)

lemma foldr_max_nat: "foldr max xs (a::nat) = max (foldr max xs 0) a"
  by (induction xs) (simp_all add: max.assoc)

lemma subtreeHeight_slots: "subtreeHeight n = 1 + foldr max (map subtreeHeight (slots n)) 0"
  by (cases n; cases "pn_cellTemplate n"; cases "pn_fallback n")
    (simp_all add: slots_def isContainerNode_def foldr_max_nat [of _ "subtreeHeight _"])

lemma containsId_slots: "containsId n t = (pn_id n = t \<or> (\<exists>c \<in> set (slots n). containsId c t))"
  by (cases n; cases "pn_cellTemplate n"; cases "pn_fallback n")
    (auto simp: slots_def isContainerNode_def list_ex_iff)

section \<open>Ids\<close>

text \<open>Every id the code can reach, in depth-first order.\<close>

fun node_ids :: "pw_node \<Rightarrow> string list" where
  "node_ids (PwNode i ty ps ch cell fb) =
     i # (if container_type ty then concat (map node_ids ch) else [])
       @ (if ty = NPackageList then (case cell of None \<Rightarrow> [] | Some c \<Rightarrow> node_ids c) else [])
       @ (case fb of None \<Rightarrow> [] | Some f \<Rightarrow> node_ids f)"

lemma node_ids_slots: "node_ids n = pn_id n # concat (map node_ids (slots n))"
  by (cases n; cases "pn_cellTemplate n"; cases "pn_fallback n") (simp_all add: slots_def isContainerNode_def)

lemma set_node_ids: "set (node_ids n) = insert (pn_id n) (\<Union>c \<in> set (slots n). set (node_ids c))"
  by (simp add: node_ids_slots [of n])

lemma id_in_node_ids [simp]: "pn_id n \<in> set (node_ids n)"
  by (simp add: set_node_ids [of n])

lemma findNode_None: "(findNode n t = None) = (t \<notin> set (node_ids n))"
proof (induction n rule: node_slot_induct)
  case (node n)
  then show ?case by (auto simp: findNode_slots [of n] set_node_ids [of n] first_some_None)
qed

lemma nodeDepth_None: "(nodeDepth n t d = None) = (t \<notin> set (node_ids n))"
proof (induction n arbitrary: d rule: node_slot_induct)
  case (node n)
  then show ?case by (auto simp: nodeDepth_slots [of n] set_node_ids [of n] first_some_None)
qed

lemma containsId_iff: "containsId n t = (t \<in> set (node_ids n))"
proof (induction n rule: node_slot_induct)
  case (node n)
  then show ?case unfolding containsId_slots [of n] set_node_ids [of n] by auto
qed

lemma findNode_id: "findNode n t = Some m \<Longrightarrow> pn_id m = t"
proof (induction n rule: node_slot_induct)
  case (node n)
  show ?case
  proof (cases "pn_id n = t")
    case False
    with node.prems have "Some m \<in> set (map (\<lambda>c. findNode c t) (slots n))"
      by (intro first_some_mem) (simp add: findNode_slots [of n])
    then obtain c where "c \<in> set (slots n)" "findNode c t = Some m" by auto
    then show ?thesis by (rule node.IH)
  qed (use node.prems in \<open>simp add: findNode_slots [of n]\<close>)
qed

lemma map_slots_same: "(\<And>c. c \<in> set (slots n) \<Longrightarrow> g c = c) \<Longrightarrow> map_slots g n = n"
  by (cases n; cases "pn_cellTemplate n"; cases "pn_fallback n") (auto simp: map_slots_def slots_def map_idI)

lemma transformNode_absent: "t \<notin> set (node_ids n) \<Longrightarrow> transformNode n t f = n"
proof (induction n rule: node_slot_induct)
  case (node n)
  then show ?case by (auto simp: transformNode_slots [of n] set_node_ids [of n] intro!: map_slots_same)
qed

lemma map_slots_comp: "map_slots g (map_slots h n) = map_slots (\<lambda>c. g (h c)) n"
  by (simp add: map_slots_def isContainerNode_def option.map_comp o_def)

lemma map_slots_cong: "(\<And>c. c \<in> set (slots n) \<Longrightarrow> g c = h c) \<Longrightarrow> map_slots g n = map_slots h n"
  by (cases n; cases "pn_cellTemplate n"; cases "pn_fallback n") (auto simp: map_slots_def slots_def)

lemma transformNode_twice:
  assumes "\<And>n. pn_id n = t \<Longrightarrow> pn_id (f n) = t"
  shows "transformNode (transformNode n t f) t g = transformNode n t (\<lambda>n. g (f n))"
proof (induction n rule: node_slot_induct)
  case (node n)
  show ?case
  proof (cases "pn_id n = t")
    case True
    with assms [OF True] show ?thesis by (simp add: transformNode_slots [of n] transformNode_slots [of "f n"])
  next
    case False
    then show ?thesis
      by (simp add: transformNode_slots [of n] transformNode_slots [of "map_slots _ n"] map_slots_comp)
        (rule map_slots_cong, rule node.IH)
  qed
qed

section \<open>Nodes at a unique place\<close>

text \<open>
  \<open>at_node n t e m\<close>: below \<open>n\<close>, \<open>e\<close> levels down, is \<open>m\<close> with the id \<open>t\<close>, and no node beside the
  path to it reaches that id. In a tree with distinct ids every lookup is of this form.
\<close>

inductive at_node :: "pw_node \<Rightarrow> string \<Rightarrow> nat \<Rightarrow> pw_node \<Rightarrow> bool" where
  here: "pn_id n = t \<Longrightarrow> at_node n t 0 n"
| below: "pn_id n \<noteq> t \<Longrightarrow> slots n = xs @ c # ys \<Longrightarrow> \<forall>d \<in> set xs \<union> set ys. t \<notin> set (node_ids d)
    \<Longrightarrow> at_node c t e m \<Longrightarrow> at_node n t (Suc e) m"

lemma at_node_mem: "at_node n t e m \<Longrightarrow> t \<in> set (node_ids n)"
proof (induction rule: at_node.induct)
  case (below n t xs c ys e m)
  then show ?case by (simp add: set_node_ids [of n])
qed auto

lemma distinct_slot: "distinct (node_ids n) \<Longrightarrow> slots n = xs @ c # ys \<Longrightarrow>
  distinct (node_ids c) \<and> (\<forall>d \<in> set xs \<union> set ys. set (node_ids c) \<inter> set (node_ids d) = {})"
  by (simp add: node_ids_slots [of n]) blast

lemma at_nodeI:
  assumes "distinct (node_ids n)" and "t \<in> set (node_ids n)"
  shows "\<exists>e m. at_node n t e m"
  using assms
proof (induction n rule: node_slot_induct)
  case (node n)
  show ?case
  proof (cases "pn_id n = t")
    case True
    then show ?thesis by (blast intro: at_node.here)
  next
    case False
    with node.prems(2) obtain c where c: "c \<in> set (slots n)" "t \<in> set (node_ids c)"
      by (auto simp: set_node_ids [of n])
    then obtain xs ys where xs: "slots n = xs @ c # ys" by (meson split_list)
    note d = distinct_slot [OF node.prems(1) xs]
    then obtain e m where "at_node c t e m" using node.IH c by blast
    moreover have "\<forall>d \<in> set xs \<union> set ys. t \<notin> set (node_ids d)" using d c(2) by blast
    ultimately show ?thesis using at_node.below False xs by blast
  qed
qed

lemma first_some_map_only:
  "\<forall>d \<in> set xs \<union> set ys. f d = None \<Longrightarrow> first_some (map f (xs @ c # ys)) = f c"
proof -
  assume "\<forall>d \<in> set xs \<union> set ys. f d = None"
  then have "first_some (map f xs) = None" "first_some (map f ys) = None"
    by (auto simp: first_some_None)
  then show ?thesis by (simp add: first_some_Cons split: option.split)
qed

lemma findNode_absent: "t \<notin> set (node_ids n) \<Longrightarrow> findNode n t = None"
  by (simp add: findNode_None)

lemma nodeDepth_absent: "t \<notin> set (node_ids n) \<Longrightarrow> nodeDepth n t d = None"
  by (simp add: nodeDepth_None)

lemma at_node_find: "at_node n t e m \<Longrightarrow> findNode n t = Some m"
proof (induction rule: at_node.induct)
  case (below n t xs c ys e m)
  have "first_some (map (\<lambda>c. findNode c t) (slots n)) = findNode c t"
    unfolding below.hyps(2) by (rule first_some_map_only) (use below.hyps(3) in \<open>simp add: findNode_absent\<close>)
  with below show ?case by (simp add: findNode_slots [of n])
qed (simp add: findNode_slots)

lemma at_node_depth: "at_node n t e m \<Longrightarrow> nodeDepth n t d = Some (d + e)"
proof (induction arbitrary: d rule: at_node.induct)
  case (below n t xs c ys e m)
  have "first_some (map (\<lambda>c. nodeDepth c t (d + 1)) (slots n)) = nodeDepth c t (d + 1)"
    unfolding below.hyps(2) by (rule first_some_map_only) (use below.hyps(3) in \<open>simp add: nodeDepth_absent\<close>)
  with below show ?case by (simp add: nodeDepth_slots [of n])
qed (simp add: nodeDepth_slots)

lemma find_at_node: "distinct (node_ids n) \<Longrightarrow> findNode n t = Some m \<Longrightarrow> \<exists>e. at_node n t e m"
  using at_nodeI [of n t] at_node_find [of n t] findNode_None [of n t] by fastforce

lemma at_node_slots_transform:
  assumes "slots n = xs @ c # ys" and "\<forall>d \<in> set xs \<union> set ys. t \<notin> set (node_ids d)" and "pn_id n \<noteq> t"
  shows "slots (transformNode n t f) = xs @ transformNode c t f # ys"
    and "pn_id (transformNode n t f) = pn_id n" and "pn_type (transformNode n t f) = pn_type n"
proof -
  have "map (\<lambda>d. transformNode d t f) xs = xs" "map (\<lambda>d. transformNode d t f) ys = ys"
    using assms(2) by (auto simp: transformNode_absent intro: map_idI)
  with assms show "slots (transformNode n t f) = xs @ transformNode c t f # ys"
    by (simp add: transformNode_slots [of n])
qed (use assms(3) in \<open>simp_all add: transformNode_slots [of n]\<close>)

text \<open>What every node of the tree is, as id and type.\<close>

fun node_tags :: "pw_node \<Rightarrow> (string \<times> node_type) list" where
  "node_tags (PwNode i ty ps ch cell fb) =
     (i, ty) # (if container_type ty then concat (map node_tags ch) else [])
       @ (if ty = NPackageList then (case cell of None \<Rightarrow> [] | Some c \<Rightarrow> node_tags c) else [])
       @ (case fb of None \<Rightarrow> [] | Some f \<Rightarrow> node_tags f)"

lemma node_tags_slots: "node_tags n = (pn_id n, pn_type n) # concat (map node_tags (slots n))"
  by (cases n; cases "pn_cellTemplate n"; cases "pn_fallback n") (simp_all add: slots_def isContainerNode_def)

lemma map_fst_tags: "map fst (node_tags n) = node_ids n"
proof (induction n rule: node_slot_induct)
  case (node n)
  then have "concat (map (map fst) (map node_tags (slots n))) = concat (map node_ids (slots n))"
    unfolding map_map comp_def by (simp cong: map_cong)
  then show ?case by (simp only: node_tags_slots [of n] node_ids_slots [of n] list.map map_concat fst_conv)
qed

lemma at_node_tags:
  "at_node n t e m \<Longrightarrow>
     mset (node_tags (transformNode n t f)) + mset (node_tags m) = mset (node_tags n) + mset (node_tags (f m))"
proof (induction rule: at_node.induct)
  case (below n t xs c ys e m)
  then show ?case
    by (simp add: node_tags_slots [of n] node_tags_slots [of "transformNode n t f"]
        at_node_slots_transform [OF below.hyps(2,3,1)])
qed (simp add: transformNode_slots add.commute)

lemma at_node_tag: "at_node n t e m \<Longrightarrow> (t, pn_type m) \<in> set (node_tags n)"
proof (induction rule: at_node.induct)
  case (here n t)
  then show ?case by (simp add: node_tags_slots [of n])
next
  case (below n t xs c ys e m)
  then show ?case by (simp add: node_tags_slots [of n])
qed

lemma at_node_height: "at_node n t e m \<Longrightarrow> e + subtreeHeight m \<le> subtreeHeight n"
proof (induction rule: at_node.induct)
  case (below n t xs c ys e m)
  have "subtreeHeight c \<le> foldr max (map subtreeHeight (slots n)) 0"
    by (simp add: below.hyps(2)) (induction xs, simp_all)
  with below.IH show ?case by (simp add: subtreeHeight_slots [of n])
qed simp

lemma foldr_max_change:
  "c' \<le> max c k \<Longrightarrow> foldr max (map f xs @ c' # zs) (0::nat) \<le> max (foldr max (map f xs @ c # zs) 0) k"
  by (induction xs) auto

lemma at_node_height_transform:
  "at_node n t e m \<Longrightarrow> subtreeHeight (transformNode n t f) \<le> max (subtreeHeight n) (e + subtreeHeight (f m))"
proof (induction rule: at_node.induct)
  case (below n t xs c ys e m)
  from foldr_max_change [OF below.IH, of subtreeHeight xs "map subtreeHeight ys"]
  show ?case
    by (simp add: subtreeHeight_slots [of n] subtreeHeight_slots [of "transformNode n t f"]
        at_node_slots_transform [OF below.hyps(2,3,1)] below.hyps(2))
qed (simp add: transformNode_slots)

lemma at_node_same: "at_node n t e m \<Longrightarrow> h m = m \<Longrightarrow> transformNode n t h = n"
proof (induction rule: at_node.induct)
  case (below n t xs c ys e m)
  have "map_slots (\<lambda>c. transformNode c t h) n = n"
  proof (rule map_slots_same)
    fix d assume "d \<in> set (slots n)"
    then have "d = c \<or> t \<notin> set (node_ids d)" using below.hyps by auto
    then show "transformNode d t h = d" using below transformNode_absent by auto
  qed
  with below.hyps(1) show ?case by (simp add: transformNode_slots [of n])
qed (simp add: transformNode_slots)

section \<open>Parents\<close>

lemma children_slots: "isContainerNode n \<Longrightarrow> c \<in> set (pn_children n) \<Longrightarrow> c \<in> set (slots n)"
  by (simp add: slots_container)

lemma findParent_absent: "x \<notin> set (node_ids n) \<Longrightarrow> findParent n x = None"
proof (induction n rule: node_slot_induct)
  case (node n)
  from node.prems have out: "\<And>c. c \<in> set (slots n) \<Longrightarrow> x \<notin> set (node_ids c)"
    by (simp add: set_node_ids [of n])
  have "pn_id c \<noteq> x" if "isContainerNode n" "c \<in> set (pn_children n)" for c
    using out [OF children_slots [OF that]] by auto
  moreover have "first_some (map (\<lambda>c. findParent c x) (slots n)) = None"
    using node.IH out by (simp add: first_some_None)
  ultimately have "(if isContainerNode n then find_index (\<lambda>c. pn_id c = x) (pn_children n) else None) = None"
    by (auto simp: find_index_None)
  then show ?case
    using \<open>first_some (map (\<lambda>c. findParent c x) (slots n)) = None\<close> by (simp only: findParent_slots [of n] option.case)
qed

lemma distinct_slot_at:
  assumes "distinct (node_ids n)" and "c \<in> set (slots n)" and "at_node c t e m"
  shows "at_node n t (Suc e) m"
proof -
  obtain xs ys where xs: "slots n = xs @ c # ys" using assms(2) by (meson split_list)
  have t: "t \<in> set (node_ids c)" by (rule at_node_mem [OF assms(3)])
  then have "pn_id n \<noteq> t" using assms(1,2) by (auto simp: node_ids_slots [of n])
  then show ?thesis
    using at_node.below [OF _ xs _ assms(3)] distinct_slot [OF assms(1) xs] t by blast
qed

lemma findParent_at:
  assumes "findParent n x = Some (q, k)" and "distinct (node_ids n)"
  shows "\<exists>e. at_node n (pn_id q) e q \<and> isContainerNode q \<and> k < length (pn_children q) \<and> pn_id (pn_children q ! k) = x"
  using assms
proof (induction n rule: node_slot_induct)
  case (node n)
  let ?i = "if isContainerNode n then find_index (\<lambda>c. pn_id c = x) (pn_children n) else None"
  show ?case
  proof (cases ?i)
    case None
    with node.prems(1) have "Some (q, k) \<in> set (map (\<lambda>c. findParent c x) (slots n))"
      by (intro first_some_mem) (simp add: findParent_slots [of n])
    then obtain c where c: "c \<in> set (slots n)" "findParent c x = Some (q, k)" by auto
    then have "distinct (node_ids c)"
      using node.prems(2) by (meson distinct_slot split_list)
    with node.IH [OF c] distinct_slot_at [OF node.prems(2) c(1)] show ?thesis by blast
  next
    case (Some j)
    with node.prems(1) have q: "q = n" "k = j" by (simp_all add: findParent_slots [of n])
    from Some have "isContainerNode n" "find_index (\<lambda>c. pn_id c = x) (pn_children n) = Some j"
      by (simp_all split: if_splits)
    with q find_index_Some [of _ "pn_children n" j] show ?thesis by (blast intro: at_node.here)
  qed
qed

lemma at_node_id: "at_node n t e m \<Longrightarrow> pn_id (f m) = t \<Longrightarrow> pn_id (transformNode n t f) = pn_id n"
  by (erule at_node.cases) (auto simp: transformNode_slots [of n])

lemma at_node_insert_parent:
  assumes "at_node n p e P" and "isContainerNode P" and "k \<le> length (pn_children P)"
    and "f P = set_children (splice_in k s (pn_children P)) P" and "pn_id s \<notin> set (node_ids n)"
  shows "findParent (transformNode n p f) (pn_id s) = Some (f P, k)"
  using assms
proof (induction rule: at_node.induct)
  case (here n t)
  have "\<forall>c \<in> set (take k (pn_children n)). pn_id c \<noteq> pn_id s"
    using here.prems(1,4) children_slots [OF here.prems(1)] id_in_node_ids
    by (metis UN_I in_set_takeD insertCI set_node_ids)
  then have "find_index (\<lambda>c. pn_id c = pn_id s) (splice_in k s (pn_children n)) = Some k"
    using here.prems(2) by (simp add: splice_in_def)
  with here show ?case
    by (simp add: transformNode_slots [of n] findParent_slots [of "set_children _ _"])
next
  case (below n t xs c ys e m)
  note tr = at_node_slots_transform [OF below.hyps(2,3,1), of f]
  have out: "\<forall>d \<in> set xs \<union> set ys. pn_id s \<notin> set (node_ids d)" "pn_id s \<notin> set (node_ids c)"
    using below.prems(4) by (auto simp: set_node_ids [of n] below.hyps(2))
  have "at_node c t e m" "pn_id (f m) = t"
    using below.hyps(4) below.prems(3) findNode_id [OF at_node_find [OF below.hyps(4)]] by auto
  then have "pn_id (transformNode c t f) = pn_id c" by (rule at_node_id)
  then have ids: "pn_id d \<noteq> pn_id s" if "d \<in> set (slots (transformNode n t f))" for d
  proof -
    from that have "d = transformNode c t f \<or> d \<in> set xs \<union> set ys" by (auto simp: tr(1))
    then show ?thesis
    proof
      assume "d \<in> set xs \<union> set ys"
      then have "pn_id s \<notin> set (node_ids d)" using out(1) by blast
      then show ?thesis using id_in_node_ids [of d] by metis
    qed (use \<open>pn_id (transformNode c t f) = pn_id c\<close> out(2) id_in_node_ids [of c] in metis)
  qed
  have "first_some (map (\<lambda>d. findParent d (pn_id s)) (slots (transformNode n t f)))
      = findParent (transformNode c t f) (pn_id s)"
    unfolding tr(1) by (rule first_some_map_only) (use out(1) in \<open>simp add: findParent_absent\<close>)
  moreover have "findParent (transformNode c t f) (pn_id s) = Some (f m, k)"
    using below.prems out(2) by (intro below.IH)
  moreover have "find_index (\<lambda>d. pn_id d = pn_id s) (pn_children (transformNode n t f)) = None"
    if "isContainerNode (transformNode n t f)"
    using ids children_slots [OF that] by (auto simp: find_index_None)
  ultimately show ?case by (simp add: findParent_slots [of "transformNode n t f"])
qed

section \<open>Removing and inserting\<close>

lemma splice_simps [simp]:
  "i < length xs \<Longrightarrow> mset (splice_out i xs) + {#xs ! i#} = mset xs"
  "i \<le> length xs \<Longrightarrow> splice_out i (splice_in i x xs) = xs"
proof -
  assume "i < length xs"
  then have "mset xs = mset (take i xs @ xs ! i # drop (Suc i) xs)" by (simp add: id_take_nth_drop [symmetric])
  then show "mset (splice_out i xs) + {#xs ! i#} = mset xs" by (simp add: splice_out_def)
qed (simp add: splice_out_def splice_in_def min_def)

lemma concat_splice_out:
  "i < length xs \<Longrightarrow> mset (concat (map g (splice_out i xs))) + mset (g (xs ! i)) = mset (concat (map g xs))"
proof -
  assume "i < length xs"
  then have "concat (map g xs) = concat (map g (take i xs @ xs ! i # drop (Suc i) xs))"
    by (simp add: id_take_nth_drop [symmetric])
  then show ?thesis by (simp add: splice_out_def)
qed

lemma concat_splice_in: "mset (concat (map g (splice_in i x xs))) = mset (concat (map g xs)) + mset (g x)"
proof -
  have "concat (map g xs) = concat (map g (take i xs @ drop i xs))" by simp
  then show ?thesis by (simp only: map_append concat_append) (simp add: splice_in_def)
qed

lemma tags_container:
  "isContainerNode n \<Longrightarrow> node_tags n = (pn_id n, pn_type n) # concat (map node_tags (pn_children n))
     @ concat (map node_tags (opt_list (pn_fallback n)))"
  by (simp only: node_tags_slots [of n] slots_container map_append concat_append)

lemma tags_set_children:
  "isContainerNode n \<Longrightarrow> node_tags (set_children cs n) = (pn_id n, pn_type n) # concat (map node_tags cs)
     @ concat (map node_tags (opt_list (pn_fallback n)))"
  by (simp only: node_tags_slots [of "set_children cs n"] slots_set_children map_append concat_append set_children_simps)

lemma tags_remove_child:
  "isContainerNode q \<Longrightarrow> k < length (pn_children q) \<Longrightarrow>
     mset (node_tags (remove_child k q)) + mset (node_tags (pn_children q ! k)) = mset (node_tags q)"
  using concat_splice_out [of k "pn_children q" node_tags]
  by (simp add: remove_child_def tags_set_children tags_container)

lemma tags_insert:
  "isContainerNode q \<Longrightarrow> mset (node_tags (set_children (splice_in k s (pn_children q)) q)) = mset (node_tags q) + mset (node_tags s)"
  by (simp add: tags_set_children tags_container concat_splice_in)

lemma height_container:
  "isContainerNode n \<Longrightarrow> subtreeHeight (set_children cs n) =
     1 + foldr max (map subtreeHeight cs) (foldr max (map subtreeHeight (opt_list (pn_fallback n))) 0)"
  by (simp add: subtreeHeight_slots [of "set_children cs n"] slots_set_children)

lemma foldr_max_le: "(foldr max xs (a::nat) \<le> b) = (a \<le> b \<and> (\<forall>x \<in> set xs. x \<le> b))"
  by (induction xs) auto

lemma foldr_max_start: "(a::nat) \<le> foldr max xs a"
  by (induction xs) auto

lemma foldr_max_ge: "(x::nat) \<in> set xs \<Longrightarrow> x \<le> foldr max xs a"
  by (induction xs) auto

lemma foldr_max_mono:
  "set xs \<subseteq> set ys \<Longrightarrow> foldr max (map f xs) (a::nat) \<le> foldr max (map f ys) a"
  using foldr_max_ge [of _ "map f ys" a] by (auto simp: foldr_max_le foldr_max_start)

lemma height_remove_child:
  assumes "isContainerNode q"
  shows "subtreeHeight (remove_child k q) \<le> subtreeHeight q"
proof -
  have "set (splice_out k (pn_children q)) \<subseteq> set (pn_children q)"
    by (auto simp: splice_out_def dest: in_set_takeD in_set_dropD)
  then have "subtreeHeight (set_children (splice_out k (pn_children q)) q) \<le> subtreeHeight (set_children (pn_children q) q)"
    using assms by (simp only: height_container add_le_cancel_left foldr_max_mono)
  with assms show ?thesis by (simp add: remove_child_def)
qed

lemma height_insert:
  assumes "isContainerNode q"
  shows "subtreeHeight (set_children (splice_in k s (pn_children q)) q) \<le> max (subtreeHeight q) (1 + subtreeHeight s)"
proof -
  have "set (splice_in k s (pn_children q)) \<subseteq> insert s (set (pn_children q))"
    by (auto simp: splice_in_def dest: in_set_takeD in_set_dropD)
  then have "foldr max (map subtreeHeight (splice_in k s (pn_children q))) a
      \<le> foldr max (map subtreeHeight (s # pn_children q)) a" for a
    by (intro foldr_max_mono) simp
  then have "foldr max (map subtreeHeight (splice_in k s (pn_children q))) a
      \<le> max (foldr max (map subtreeHeight (pn_children q)) a) (subtreeHeight s)" for a
    by (simp add: max.commute)
  then have "subtreeHeight (set_children (splice_in k s (pn_children q)) q)
      \<le> max (subtreeHeight (set_children (pn_children q) q)) (1 + subtreeHeight s)"
    using assms by (simp only: height_container) (simp add: le_max_iff_disj)
  then show ?thesis by simp
qed

lemma at_node_depth_transform:
  "at_node n t e m \<Longrightarrow> pn_id (f m) = t \<Longrightarrow> (\<And>d. nodeDepth (f m) p d = nodeDepth m p d)
     \<Longrightarrow> nodeDepth (transformNode n t f) p d = nodeDepth n p d"
proof (induction arbitrary: d rule: at_node.induct)
  case (below n t xs c ys e m)
  note tr = at_node_slots_transform [OF below.hyps(2,3,1), of f]
  have "nodeDepth (transformNode c t f) p (d + 1) = nodeDepth c p (d + 1)"
    using below.prems by (intro below.IH)
  then show ?case
    by (simp add: nodeDepth_slots [of n] nodeDepth_slots [of "transformNode n t f"] tr below.hyps(2))
qed (simp add: transformNode_slots)

lemma remove_child_depth:
  assumes "isContainerNode q" and "k < length (pn_children q)" and "p \<notin> set (node_ids (pn_children q ! k))"
  shows "nodeDepth (remove_child k q) p d = nodeDepth q p d"
proof -
  let ?f = "\<lambda>c. nodeDepth c p (d + 1)"
  have ch: "pn_children q = take k (pn_children q) @ pn_children q ! k # drop (Suc k) (pn_children q)"
    by (rule id_take_nth_drop [OF assms(2)])
  have "first_some (map ?f (pn_children q)) = first_some (map ?f (splice_out k (pn_children q)))"
    by (subst ch, simp only: splice_out_def map_append first_some_append list.map)
      (simp add: nodeDepth_absent [OF assms(3)] split: option.split)
  then have "first_some (map ?f (slots q)) = first_some (map ?f (slots (remove_child k q)))"
    using assms(1) by (simp add: remove_child_def slots_container slots_set_children)
  then show ?thesis
    using assms(1) by (simp add: nodeDepth_slots [of q] nodeDepth_slots [of "remove_child k q"])
      (simp add: remove_child_def)
qed

lemma remove_child_simps [simp]: "pn_id (remove_child k q) = pn_id q"
  by (simp add: remove_child_def)

lemma tags_ids:
  "mset (node_tags a) + mset (node_tags b) = mset (node_tags c) \<Longrightarrow> distinct (node_ids c) \<Longrightarrow>
   distinct (node_ids a) \<and> set (node_ids c) = set (node_ids a) \<union> set (node_ids b) \<and> set (node_ids a) \<inter> set (node_ids b) = {}"
proof -
  assume t: "mset (node_tags a) + mset (node_tags b) = mset (node_tags c)" and d: "distinct (node_ids c)"
  have "mset (map fst (node_tags a @ node_tags b)) = mset (map fst (node_tags c))"
    by (simp only: mset_map mset_append t)
  then have m: "mset (node_ids a @ node_ids b) = mset (node_ids c)" by (simp add: map_fst_tags)
  then have "distinct (node_ids a @ node_ids b)" using d mset_eq_imp_distinct_iff by blast
  with mset_eq_setD [OF m] show ?thesis by auto
qed

lemma mset_exchange:
  fixes a b r c x :: "'a multiset"
  shows "a + b = r + c \<Longrightarrow> c + x = b \<Longrightarrow> a + x = r"
    and "a + b = r + c \<Longrightarrow> c = b + x \<Longrightarrow> a = r + x"
proof -
  assume "a + b = r + c" "c + x = b"
  then have "c + (a + x) = c + r" by (metis add.assoc add.commute)
  then show "a + x = r" by simp
next
  assume "a + b = r + c" "c = b + x"
  then have "b + a = b + (r + x)" by (metis add.assoc add.commute)
  then show "a = r + x" by simp
qed

lemma removeNode_at:
  assumes "distinct (node_ids root)" and "x \<noteq> pn_id root" and "findParent root x = Some (q, k)"
  shows "mset (node_tags (removeNode root x)) + mset (node_tags (pn_children q ! k)) = mset (node_tags root)"
    and "subtreeHeight (removeNode root x) \<le> subtreeHeight root"
    and "\<And>p d. p \<notin> set (node_ids (pn_children q ! k)) \<Longrightarrow> nodeDepth (removeNode root x) p d = nodeDepth root p d"
    and "k < length (pn_children q)" and "pn_id (pn_children q ! k) = x"
proof -
  obtain e where q: "at_node root (pn_id q) e q" "isContainerNode q" "k < length (pn_children q)"
    "pn_id (pn_children q ! k) = x"
    using findParent_at [OF assms(3,1)] by blast
  have r: "removeNode root x = transformNode root (pn_id q) (remove_child k)"
    using assms(2,3) by (simp add: removeNode_def)
  show "mset (node_tags (removeNode root x)) + mset (node_tags (pn_children q ! k)) = mset (node_tags root)"
    unfolding r
    by (rule mset_exchange(1) [OF at_node_tags [OF q(1), of "remove_child k"] tags_remove_child [OF q(2,3)]])
  show "subtreeHeight (removeNode root x) \<le> subtreeHeight root"
    using at_node_height_transform [OF q(1), of "remove_child k"] at_node_height [OF q(1)]
      height_remove_child [OF q(2), of k] unfolding r by simp
  show "\<And>p d. p \<notin> set (node_ids (pn_children q ! k)) \<Longrightarrow> nodeDepth (removeNode root x) p d = nodeDepth root p d"
    unfolding r by (intro at_node_depth_transform [OF q(1)] remove_child_depth [OF q(2,3)]) simp_all
qed (use findParent_at [OF assms(3,1)] in blast)+

lemma insertNode_at:
  assumes "at_node r p e P" and "isContainerNode P" and "pn_id s \<notin> set (node_ids r)"
  shows "mset (node_tags (insertNode r p s i)) = mset (node_tags r) + mset (node_tags s)"
    and "subtreeHeight (insertNode r p s i) \<le> max (subtreeHeight r) (e + 1 + subtreeHeight s)"
    and "\<exists>q k. findParent (insertNode r p s i) (pn_id s) = Some (q, k) \<and> pn_id q = p \<and> pn_children q ! k = s"
proof -
  let ?at = "\<lambda>P. nat (case i of None \<Rightarrow> int (length (pn_children P))
     | Some j \<Rightarrow> max 0 (min (int (length (pn_children P))) j))"
  define f where "f = (\<lambda>P. if \<not> isContainerNode P then P
     else set_children (splice_in (?at P) s (pn_children P)) P)"
  have r: "insertNode r p s i = transformNode r p f"
    unfolding insertNode_def f_def Let_def ..
  have f: "f P = set_children (splice_in (?at P) s (pn_children P)) P" and k: "?at P \<le> length (pn_children P)"
    using assms(2) by (auto simp: f_def split: option.split)
  show "mset (node_tags (insertNode r p s i)) = mset (node_tags r) + mset (node_tags s)"
    unfolding r by (rule mset_exchange(2) [OF at_node_tags [OF assms(1), of f]]) (simp add: f tags_insert [OF assms(2)])
  show "subtreeHeight (insertNode r p s i) \<le> max (subtreeHeight r) (e + 1 + subtreeHeight s)"
    using at_node_height_transform [OF assms(1), of f] at_node_height [OF assms(1)]
      height_insert [OF assms(2), of "?at P" s] unfolding r f by linarith
  have "pn_children (f P) ! ?at P = s" using k by (simp add: f splice_in_def nth_append)
  moreover have "pn_id (f P) = p" using findNode_id [OF at_node_find [OF assms(1)]] by (simp add: f)
  ultimately show "\<exists>q k. findParent (insertNode r p s i) (pn_id s) = Some (q, k) \<and> pn_id q = p \<and> pn_children q ! k = s"
    using at_node_insert_parent [where f = f, OF assms(1,2) k f assms(3)] unfolding r by blast
qed

lemma tag_unique:
  "distinct (node_ids n) \<Longrightarrow> (t, a) \<in> set (node_tags n) \<Longrightarrow> (t, b) \<in> set (node_tags n) \<Longrightarrow> a = b"
  by (metis eq_key_imp_eq_value map_fst_tags)

lemma moveNodeTo_cases:
  assumes "moveNodeTo root x p i = Some r"
  obtains q k P d where "x \<noteq> pn_id root" "findParent root x = Some (q, k)" "findNode root p = Some P"
    "isContainerNode P" "p \<notin> set (node_ids (pn_children q ! k))" "nodeDepth root p 1 = Some d"
    "d + subtreeHeight (pn_children q ! k) \<le> MAX_BUILDER_DEPTH"
    "(pn_id q = p \<and> r = root) \<or> (\<exists>j. r = insertNode (removeNode root x) p (pn_children q ! k) (Some j))"
proof -
  from assms have root: "x \<noteq> pn_id root" by (auto simp: moveNodeTo_def)
  with assms obtain q k where q: "findParent root x = Some (q, k)"
    by (auto simp: moveNodeTo_def split: option.splits)
  with assms root obtain P where P: "findNode root p = Some P"
    by (auto simp: moveNodeTo_def Let_def split: option.splits)
  with assms root q have C: "isContainerNode P" and p: "\<not> containsId (pn_children q ! k) p"
    by (auto simp: moveNodeTo_def Let_def split: option.splits if_splits)
  with assms root q P obtain d where d: "nodeDepth root p 1 = Some d"
    by (auto simp: moveNodeTo_def Let_def split: option.splits if_splits)
  with assms root q P C p have dm: "d + subtreeHeight (pn_children q ! k) \<le> MAX_BUILDER_DEPTH"
    by (auto simp: moveNodeTo_def Let_def split: if_splits)
  have "(pn_id q = p \<and> r = root) \<or> (\<exists>j. r = insertNode (removeNode root x) p (pn_children q ! k) (Some j))"
    using assms root q P C p d dm by (auto simp: moveNodeTo_def Let_def split: if_splits)
  with root q P C p d dm show thesis by (intro that) (simp_all add: containsId_iff)
qed

section \<open>Properties\<close>

text \<open>A small paywall: a stack with a text, and a sticky footer that holds the purchase button.\<close>

definition sample_paywall :: pw_node where
  "sample_paywall = PwNode ''root'' NStack [] [PwNode ''title'' NText [] [] None None,
     PwNode ''footer'' NStickyFooter [] [PwNode ''buy'' NPurchaseButton [] [] None None] None None] None None"

definition sample_builder_config :: builder_config where
  "sample_builder_config = \<lparr>bc_formatVersion = 2, bc_defaultLocale = ''en'', bc_localizations = [(''en'', [])],
     bc_background = None, bc_root = sample_paywall\<rparr>"

text \<open>
  C32. A legal move in the builder loses and duplicates no node: in a tree with distinct ids the
  result holds exactly the same nodes (ids with types), the moved subtree is a child of the new
  parent, and a tree within the depth limit stays within it.
\<close>

theorem moveNodeTo_keeps_nodes:
  assumes "distinct (node_ids root)" and "moveNodeTo root x p i = Some r"
  shows "mset (node_tags r) = mset (node_tags root)
    \<and> (\<exists>q k q' k'. findParent root x = Some (q, k) \<and> findParent r x = Some (q', k')
         \<and> pn_id q' = p \<and> pn_children q' ! k' = pn_children q ! k)
    \<and> (subtreeHeight root \<le> MAX_BUILDER_DEPTH \<longrightarrow> subtreeHeight r \<le> MAX_BUILDER_DEPTH)"
  using assms(2)
proof (rule moveNodeTo_cases)
  fix q k P d
  assume root: "x \<noteq> pn_id root" and q: "findParent root x = Some (q, k)" and P: "findNode root p = Some P"
    and C: "isContainerNode P" and p: "p \<notin> set (node_ids (pn_children q ! k))"
    and d: "nodeDepth root p 1 = Some d" and lim: "d + subtreeHeight (pn_children q ! k) \<le> MAX_BUILDER_DEPTH"
    and r: "(pn_id q = p \<and> r = root) \<or> (\<exists>j. r = insertNode (removeNode root x) p (pn_children q ! k) (Some j))"
  note rm = removeNode_at [OF assms(1) root q]
  from r show ?thesis
  proof
    assume "\<exists>j. r = insertNode (removeNode root x) p (pn_children q ! k) (Some j)"
    then obtain j where r: "r = insertNode (removeNode root x) p (pn_children q ! k) (Some j)" ..
    note ids = tags_ids [OF rm(1) assms(1)]
    have "p \<in> set (node_ids (removeNode root x))"
      using ids p P findNode_None [of root p] by auto
    then obtain e P' where at: "at_node (removeNode root x) p e P'"
      using at_nodeI ids by blast
    have "1 + e = d" using at_node_depth [OF at, of 1] rm(3) [OF p, of 1] d by simp
    have "(p, pn_type P') \<in> set (node_tags root)"
      using at_node_tag [OF at] mset_eq_setD [of "node_tags (removeNode root x) @ node_tags (pn_children q ! k)"] rm(1)
      by auto
    moreover have "(p, pn_type P) \<in> set (node_tags root)"
      using find_at_node [OF assms(1) P] at_node_tag by blast
    ultimately have "isContainerNode P'"
      using tag_unique [OF assms(1)] C by (metis isContainerNode_def)
    moreover have "pn_id (pn_children q ! k) \<notin> set (node_ids (removeNode root x))"
      using ids by auto
    ultimately have ins: "mset (node_tags r) = mset (node_tags (removeNode root x)) + mset (node_tags (pn_children q ! k))"
      "subtreeHeight r \<le> max (subtreeHeight (removeNode root x)) (e + 1 + subtreeHeight (pn_children q ! k))"
      "\<exists>q' k'. findParent r x = Some (q', k') \<and> pn_id q' = p \<and> pn_children q' ! k' = pn_children q ! k"
      using insertNode_at [OF at, of "pn_children q ! k" "Some j"] rm(5) unfolding r by simp_all
    have "subtreeHeight r \<le> MAX_BUILDER_DEPTH" if "subtreeHeight root \<le> MAX_BUILDER_DEPTH"
      using ins(2) rm(2) lim \<open>1 + e = d\<close> that by simp
    with ins rm(1) q show ?thesis by auto
  qed (use q in auto)
qed

theorem moveNodeTo_keeps_nodes_witness:
  "\<exists>r. moveNodeTo sample_paywall ''title'' ''footer'' 1 = Some r
     \<and> mset (node_tags r) = mset (node_tags sample_paywall) \<and> subtreeHeight r \<le> MAX_BUILDER_DEPTH"
proof -
  have d: "distinct (node_ids sample_paywall)" and h: "subtreeHeight sample_paywall \<le> MAX_BUILDER_DEPTH"
    by code_simp+
  obtain r where r: "moveNodeTo sample_paywall ''title'' ''footer'' 1 = Some r"
  proof (cases "moveNodeTo sample_paywall ''title'' ''footer'' 1")
    case None
    moreover have "moveNodeTo sample_paywall ''title'' ''footer'' 1 \<noteq> None" by code_simp
    ultimately show ?thesis by simp
  qed simp
  from moveNodeTo_keeps_nodes [OF d r] h r show ?thesis by blast
qed

text \<open>
  Removing what was inserted gives the configuration back: in a tree with distinct ids, when an
  insert of a subtree with a fresh id succeeds, a remove of that id succeeds and undoes it exactly.
\<close>

lemma remove_undoes_insert:
  assumes "distinct (node_ids (bc_root config))" and "pn_id s \<notin> set (node_ids (bc_root config))"
    and "applyTreeOp config (OpInsert p i s) = Inr config'"
  shows "applyTreeOp config' (OpRemove (pn_id s)) = Inr config"
proof -
  from assms(3) obtain P where P: "findNode (bc_root config) p = Some P" "isContainerNode P"
      "0 \<le> i" "i \<le> int (length (pn_children P))"
    and c': "config' = config\<lparr>bc_root := transformNode (bc_root config) p (insert_child (nat i) s)\<rparr>"
    by (auto split: option.splits if_splits)
  obtain e where at: "at_node (bc_root config) p e P" using find_at_node [OF assms(1) P(1)] ..
  have ins: "insert_child (nat i) s P = set_children (splice_in (nat i) s (pn_children P)) P"
    using P(2) by (simp add: insert_child_def)
  have len: "nat i \<le> length (pn_children P)" using P(4) by linarith
  have par: "findParent (bc_root config') (pn_id s) = Some (insert_child (nat i) s P, nat i)"
    using at_node_insert_parent [where f = "insert_child (nat i) s", OF at P(2) len ins assms(2)] by (simp add: c')
  have idP: "pn_id P = p" by (rule findNode_id [OF P(1)])
  have "transformNode (bc_root config') p (remove_child (nat i))
      = transformNode (bc_root config) p (\<lambda>n. remove_child (nat i) (insert_child (nat i) s n))"
    unfolding c' by (simp, rule transformNode_twice) (simp add: insert_child_def)
  also have "\<dots> = bc_root config"
    by (rule at_node_same [OF at]) (use P(2) len in \<open>simp add: ins remove_child_def\<close>)
  finally have undone: "transformNode (bc_root config') p (remove_child (nat i)) = bc_root config" .
  have "pn_id (bc_root config') = pn_id (bc_root config)"
    unfolding c' using at_node_id [OF at, of "insert_child (nat i) s"] by (simp add: ins idP)
  then have "pn_id s \<noteq> pn_id (bc_root config')" using assms(2) by auto
  with par undone show ?thesis by (simp add: ins idP c')
qed

end
