(* ===== verification/Paywall_Diff.thy ===== *)
theory Paywall_Diff
  imports Paywall_Tree
begin

text \<open>
  The size guard in front of the paywall write path (\<^verbatim>\<open>measureNodeTree\<close> of
  \<^verbatim>\<open>packages/shared/src/paywall/schema.ts\<close>) and the structural diff between two configurations
  (\<^verbatim>\<open>packages/shared/src/paywall/diff.ts\<close>). Both walk the node tree with an explicit stack, and
  both leave out nodes that the edits of \<open>Paywall_Tree\<close> reach.
\<close>

section \<open>The size guard and the structural diff\<close>

text \<open>
  \<^verbatim>\<open>measureNodeTree\<close> walks the raw request body before it is parsed. The stack of the loop is a list
  with its top in front; \<^verbatim>\<open>pop\<close> takes the value pushed last, so the fallback comes before the
  children and these come in reverse. The loop stops when a limit is passed.
\<close>

definition json_children :: "json \<Rightarrow> json list" where
  "json_children v = (case jprop v ''children'' of Some (JArr cs) \<Rightarrow> cs | _ \<Rightarrow> [])"

definition json_fallback :: "json \<Rightarrow> json list" where
  "json_fallback v = (case jprop v ''fallback'' of Some f \<Rightarrow> if is_object f then [f] else [] | None \<Rightarrow> [])"

lemma size_list_prop: "(k, v) \<in> set ps \<Longrightarrow> size v < size_list (size_prod (\<lambda>x. 0) size) ps"
  by (induction ps) auto

lemma jprop_size: "jprop v k = Some w \<Longrightarrow> size w < size v"
  by (cases v) (auto simp: jprop_def split: option.splits if_splits json.splits
      dest!: map_of_SomeD size_list_prop)

function measure_loop :: "(json \<times> nat) list \<Rightarrow> nat \<Rightarrow> nat \<Rightarrow> nat \<times> nat" where
  "measure_loop [] nodes maxDepth = (maxDepth, nodes)"
| "measure_loop ((v, d) # st) nodes maxDepth =
     (if \<not> is_object v then measure_loop st nodes maxDepth
      else if nodes + 1 > MAX_BUILDER_NODES \<or> d > MAX_BUILDER_DEPTH then (max maxDepth d, nodes + 1)
      else measure_loop (map (\<lambda>c. (c, d + 1)) (json_fallback v @ rev (json_children v)) @ st)
             (nodes + 1) (max maxDepth d))"
  by pat_completeness auto

lemma json_children_size: "c \<in> set (json_children v) \<Longrightarrow> size c < size v"
proof -
  assume c: "c \<in> set (json_children v)"
  then obtain cs where cs: "jprop v ''children'' = Some (JArr cs)" "c \<in> set cs"
    by (cases "jprop v ''children''"; cases "the (jprop v ''children'')") (auto simp: json_children_def)
  have "size c < size (JArr cs)" using cs(2) by (induction cs) auto
  with jprop_size [OF cs(1)] show ?thesis by simp
qed

lemma json_fallback_size: "c \<in> set (json_fallback v) \<Longrightarrow> size c < size v"
  by (cases "jprop v ''fallback''") (auto simp: json_fallback_def dest: jprop_size split: if_splits)

termination measure_loop
proof (relation "inv_image (stack_rel (\<lambda>p. size (fst p))) fst")
  show "wf (inv_image (stack_rel (\<lambda>p. size (fst p))) fst)" by simp
next
  fix v :: json and d :: nat and st :: "(json \<times> nat) list" and nodes maxDepth :: nat
  show "((st, nodes, maxDepth), ((v, d) # st, nodes, maxDepth)) \<in> inv_image (stack_rel (\<lambda>p. size (fst p))) fst"
    by (simp add: stack_rel_pop)
next
  fix v :: json and d :: nat and st :: "(json \<times> nat) list" and nodes maxDepth :: nat
  have "size (fst y) < size v" if "y \<in> set (map (\<lambda>c. (c, d + 1)) (json_fallback v @ rev (json_children v)))" for y
    using that json_children_size json_fallback_size by auto
  then show "((map (\<lambda>c. (c, d + 1)) (json_fallback v @ rev (json_children v)) @ st, nodes + 1, max maxDepth d),
      ((v, d) # st, nodes, maxDepth)) \<in> inv_image (stack_rel (\<lambda>p. size (fst p))) fst"
    unfolding in_inv_image fst_conv by (intro stack_rel_push) simp
qed

definition measureNodeTree :: "json \<Rightarrow> nat \<times> nat" where
  "measureNodeTree raw =
     (case jprop raw ''root'' of
        Some root \<Rightarrow> if is_object root then measure_loop [(root, 1)] 0 0 else (0, 0)
      | None \<Rightarrow> (0, 0))"

text \<open>
  The diff. A value is flattened to its leaf paths; the properties of a node are listed with the
  type first. \<^verbatim>\<open>Object.entries\<close> of a date is empty.
\<close>

function (sequential) flatten :: "json \<Rightarrow> string \<Rightarrow> (string, string) js_map \<Rightarrow> (string, string) js_map" where
  "flatten JUndefined path out = out"
| "flatten (JArr vs) path out =
     (if vs = [] then AList.update path ''[]'' out
      else fold (\<lambda>(i, v) out. flatten v (path @ ''['' @ nat_text i @ '']'') out) (enumerate 0 vs) out)"
| "flatten (JObj ps) path out =
     (if ps = [] then AList.update path ''{}'' out
      else fold (\<lambda>(k, v) out. flatten v (if path = [] then k else path @ ''.'' @ k) out) ps out)"
| "flatten (JDate t) path out = AList.update path ''{}'' out"
| "flatten v path out = AList.update path (JSON_stringify v) out"

  by pat_completeness auto

lemma size_list_elem: "v \<in> set vs \<Longrightarrow> size v < size_list size vs"
  by (induction vs) auto

termination flatten
proof (relation "measure (\<lambda>(v, _, _). size v)")
  fix vs :: "json list" and i v and path :: string and out x out'
  assume "vs \<noteq> []" "x \<in> set (enumerate 0 vs)" "(i, v) = x"
  then have "v \<in> set vs" by (auto simp: enumerate_eq_zip dest: set_zip_rightD)
  then show "((v, path @ ''['' @ nat_text i @ '']'', out'), (JArr vs, path, out)) \<in> measure (\<lambda>(v, _, _). size v)"
    using size_list_elem [of v vs] by simp
qed (auto dest: size_list_prop)

definition nodeTypeText :: "node_type \<Rightarrow> string" where
  "nodeTypeText ty = (case ty of NStack \<Rightarrow> ''stack'' | NText \<Rightarrow> ''text'' | NImage \<Rightarrow> ''image''
     | NButton \<Rightarrow> ''button'' | NPackageList \<Rightarrow> ''packageList'' | NPurchaseButton \<Rightarrow> ''purchaseButton''
     | NSpacer \<Rightarrow> ''spacer'' | NDivider \<Rightarrow> ''divider'' | NIcon \<Rightarrow> ''icon'' | NFeatureList \<Rightarrow> ''featureList''
     | NTimeline \<Rightarrow> ''timeline'' | NFooterLinks \<Rightarrow> ''footerLinks'' | NSocialProof \<Rightarrow> ''socialProof''
     | NStickyFooter \<Rightarrow> ''stickyFooter'' | NCountdown \<Rightarrow> ''countdown'' | NCarousel \<Rightarrow> ''carousel''
     | NVideo \<Rightarrow> ''video'' | NLottie \<Rightarrow> ''lottie'')"

definition nodeProps :: "pw_node \<Rightarrow> (string, string) js_map" where
  "nodeProps n = fold (\<lambda>(k, v) out. flatten v k out)
     ((''type'', JStr (nodeTypeText (pn_type n))) # pn_props n) []"

definition diff_nested :: "pw_node \<Rightarrow> pw_node list" where
  "diff_nested n = (if pn_type n = NStack then pn_children n else [])
     @ (if pn_type n = NPackageList then opt_list (pn_cellTemplate n) else [])
     @ opt_list (pn_fallback n)"

lemma diff_nested_slots: "set (diff_nested n) \<subseteq> set (slots n)"
  by (auto simp: diff_nested_def slots_def isContainerNode_def container_type_def)

function collect_loop :: "pw_node list \<Rightarrow> (string, pw_node) js_map \<Rightarrow> (string, pw_node) js_map" where
  "collect_loop [] m = m"
| "collect_loop (n # st) m =
     collect_loop (diff_nested n @ st)
       (if map_of m (pn_id n) = None then AList.update (pn_id n) n m else m)"
  by pat_completeness auto
termination
proof (relation "inv_image (stack_rel size) fst")
  fix n :: pw_node and st :: "pw_node list" and m :: "(string, pw_node) js_map"
  show "((diff_nested n @ st, if map_of m (pn_id n) = None then AList.update (pn_id n) n m else m), n # st, m)
      \<in> inv_image (stack_rel size) fst"
    unfolding in_inv_image fst_conv
    by (rule stack_rel_push) (use diff_nested_slots [of n] size_slot [of _ n] in blast)
qed simp

definition collectNodes :: "pw_node option \<Rightarrow> (string, pw_node) js_map" where
  "collectNodes root = (case root of None \<Rightarrow> [] | Some n \<Rightarrow> collect_loop [n] [])"

datatype diff_kind = Added | Removed | Changed
datatype diff_scope = ScopeConfig | ScopeNode | ScopeLocalization

record diff_entry =
  de_kind :: diff_kind
  de_scope :: diff_scope
  de_nodeId :: "string option"
  de_nodeType :: "node_type option"
  de_field :: string
  de_from :: "string option"
  de_to :: "string option"

definition diffMaps ::
  "(string, string) js_map \<Rightarrow> (string, string) js_map
     \<Rightarrow> (diff_kind \<Rightarrow> string \<Rightarrow> string option \<Rightarrow> string option \<Rightarrow> diff_entry) \<Rightarrow> diff_entry list" where
  "diffMaps from to mk =
     concat (map (\<lambda>(field, a).
         case map_of to field of
           None \<Rightarrow> [mk Removed field (Some a) None]
         | Some b \<Rightarrow> if b \<noteq> a then [mk Changed field (Some a) (Some b)] else []) from)
     @ concat (map (\<lambda>(field, b).
         if map_of from field = None then [mk Added field None (Some b)] else []) to)"

definition configProps :: "builder_config option \<Rightarrow> (string, string) js_map" where
  "configProps config = (case config of None \<Rightarrow> []
     | Some c \<Rightarrow> (case bc_background c of
           None \<Rightarrow> flatten (JStr (bc_defaultLocale c)) ''defaultLocale'' []
         | Some bg \<Rightarrow> flatten bg ''background'' (flatten (JStr (bc_defaultLocale c)) ''defaultLocale'' [])))"

definition localizationProps :: "builder_config option \<Rightarrow> (string, string) js_map" where
  "localizationProps config = (case config of None \<Rightarrow> []
     | Some c \<Rightarrow> fold (\<lambda>(locale, entries). fold (\<lambda>(key, v). AList.update (locale @ ''.'' @ key)
           (JSON_stringify (JStr v))) entries) (bc_localizations c) [])"

definition diff_entry_of :: "diff_scope \<Rightarrow> string option \<Rightarrow> node_type option
    \<Rightarrow> diff_kind \<Rightarrow> string \<Rightarrow> string option \<Rightarrow> string option \<Rightarrow> diff_entry" where
  "diff_entry_of scope nid ty kind field a b = \<lparr>de_kind = kind, de_scope = scope, de_nodeId = nid,
     de_nodeType = ty, de_field = field, de_from = a, de_to = b\<rparr>"

definition diffBuilderConfigs :: "builder_config option \<Rightarrow> builder_config option \<Rightarrow> diff_entry list" where
  "diffBuilderConfigs from to =
     (let fromNodes = collectNodes (map_option bc_root from);
          toNodes = collectNodes (map_option bc_root to)
      in diffMaps (configProps from) (configProps to) (diff_entry_of ScopeConfig None None)
         @ concat (map (\<lambda>(nid, toNode).
             case map_of fromNodes nid of
               None \<Rightarrow> [diff_entry_of ScopeNode (Some nid) (Some (pn_type toNode)) Added ''node''
                          None (Some (nodeTypeText (pn_type toNode)))]
             | Some fromNode \<Rightarrow> diffMaps (nodeProps fromNode) (nodeProps toNode)
                 (diff_entry_of ScopeNode (Some nid) (Some (pn_type toNode)))) toNodes)
         @ concat (map (\<lambda>(nid, fromNode).
             if map_of toNodes nid \<noteq> None then []
             else [diff_entry_of ScopeNode (Some nid) (Some (pn_type fromNode)) Removed ''node''
                     (Some (nodeTypeText (pn_type fromNode))) None]) fromNodes)
         @ diffMaps (localizationProps from) (localizationProps to) (diff_entry_of ScopeLocalization None None))"

section \<open>Properties\<close>

lemma distinct_fold_keys:
  "distinct (map fst m) \<Longrightarrow> (\<And>x m. x \<in> set xs \<Longrightarrow> distinct (map fst m) \<Longrightarrow> distinct (map fst (g x m)))
     \<Longrightarrow> distinct (map fst (fold g xs m))"
  by (induction xs arbitrary: m) simp_all

lemma distinct_flatten: "distinct (map fst out) \<Longrightarrow> distinct (map fst (flatten v path out))"
proof (induction v path out rule: flatten.induct)
  case (2 vs path out)
  show ?case
  proof (cases "vs = []")
    case False
    then show ?thesis unfolding flatten.simps
      by (simp, intro distinct_fold_keys [OF "2.prems"]) (use "2.IH" [OF False] in \<open>force split: prod.split\<close>)
  qed (simp add: "2.prems" distinct_update)
next
  case (3 ps path out)
  show ?case
  proof (cases "ps = []")
    case False
    then show ?thesis unfolding flatten.simps
      by (simp, intro distinct_fold_keys [OF "3.prems"]) (auto intro: "3.IH" [OF False])
  qed (simp add: "3.prems" distinct_update)
qed (simp_all add: distinct_update)

lemma distinct_props [simp]:
  "distinct (map fst (nodeProps n))"
  "distinct (map fst (configProps c))"
  "distinct (map fst (localizationProps c))"
proof -
  show "distinct (map fst (nodeProps n))"
    unfolding nodeProps_def by (rule distinct_fold_keys) (auto intro: distinct_flatten)
  show "distinct (map fst (configProps c))"
    by (auto simp: configProps_def split: option.split intro!: distinct_flatten)
  show "distinct (map fst (localizationProps c))"
    by (cases c) (auto simp: localizationProps_def split: prod.split intro!: distinct_fold_keys distinct_update)
qed

lemma diffMaps_same [simp]: "distinct (map fst m) \<Longrightarrow> diffMaps m m mk = []"
  by (auto simp: diffMaps_def map_of_is_SomeI split: option.split)

text \<open>The walk of the diff over a stack whose only child is a container the walk does not enter.\<close>

lemma collectNodes_blind:
  assumes "ty \<in> {NStickyFooter, NCarousel}"
  shows "collectNodes (Some (PwNode rid NStack rps [PwNode fid ty fps cs None None] None None)) =
     (let r = (rid, PwNode rid NStack rps [PwNode fid ty fps cs None None] None None) in
      if rid = fid then [r] else [r, (fid, PwNode fid ty fps cs None None)])"
  using assms by (auto simp: collectNodes_def diff_nested_def Let_def)

text \<open>
  The structural diff does not see inside sticky footers and carousels: two configurations that
  differ only in the children of such a node, whatever they are, have an empty diff, although the
  edits reach these children and the header of the walk names all children.
\<close>

lemma diff_misses_container_children:
  assumes "ty \<in> {NStickyFooter, NCarousel}"
    and "bc_root config = PwNode rid NStack rps [PwNode fid ty fps cs None None] None None"
  shows "diffBuilderConfigs (Some config)
    (Some (config\<lparr>bc_root := PwNode rid NStack rps [PwNode fid ty fps cs' None None] None None\<rparr>)) = []"
proof -
  let ?config' = "config\<lparr>bc_root := PwNode rid NStack rps [PwNode fid ty fps cs' None None] None None\<rparr>"
  have same: "configProps (Some ?config') = configProps (Some config)"
    "localizationProps (Some ?config') = localizationProps (Some config)"
    by (cases "bc_background config"; simp add: configProps_def localizationProps_def)+
  have props: "nodeProps (PwNode a b c d1 e f) = nodeProps (PwNode a b c d2 e f)" for a b c d1 d2 e f
    by (simp add: nodeProps_def)
  have nodes: "diffMaps (nodeProps (PwNode a b c d1 e f)) (nodeProps (PwNode a b c d2 e f)) mk = []" for a b c d1 d2 e f mk
    by (subst props [of a b c d1 e f d2]) simp
  show ?thesis
    unfolding diffBuilderConfigs_def same
    using assms by (auto simp: collectNodes_blind nodes Let_def)
qed

text \<open>
  The size guard does not look into cell templates: a configuration whose package list carries
  any value as its cell template, however deep, measures as two nodes at depth two, so the guard
  lets it through to the recursive parse it is meant to protect.
\<close>

lemma size_guard_skips_cell_templates:
  "measureNodeTree (JObj [(''root'', JObj [(''type'', JStr ''stack''), (''children'',
      JArr [JObj [(''type'', JStr ''packageList''), (''cellTemplate'', v)]])])]) = (2, 2)"
  by (simp add: measureNodeTree_def jprop_def is_object_def json_children_def json_fallback_def
      MAX_BUILDER_DEPTH_def MAX_BUILDER_NODES_def)

end
