(* ===== verification/Csv_Import.thy ===== *)
theory Csv_Import
  imports Rovenue_Prelude
begin

text \<open>
  The streaming CSV parser of the data import (\<^verbatim>\<open>packages/shared/src/import/csv.ts\<close>).

  The parser state is the record of the source. A generator is the list of the events it yields
  before it ends, together with the state it leaves or the error it throws; events before an error
  have been delivered. The input is the list of decoded text chunks, what \<^verbatim>\<open>TextDecoder\<close> returns for
  the byte chunks. One step of the loop is \<open>consume_one\<close>, which consumes one character or, for an
  escaped quote that lies inside the chunk, two.

  The lemmas show the round trip of a written table, for quoted and for plain cells; that the
  division into chunks does not matter as long as no chunk ends in a quote; and what happens when
  one does.
\<close>

section \<open>The parser\<close>

definition COMMA :: char where "COMMA = CHR '',''"
definition DOUBLE_QUOTE :: char where "DOUBLE_QUOTE = CHR 0x22"
definition CARRIAGE_RETURN :: char where "CARRIAGE_RETURN = CHR 0x0D"
definition LINE_FEED :: char where "LINE_FEED = CHR 0x0A"

lemmas csv_chars = COMMA_def DOUBLE_QUOTE_def CARRIAGE_RETURN_def LINE_FEED_def

datatype csv_event = CsvHeader "string list" | CsvRow "string list" nat

datatype csv_error = ColumnCountMismatch nat nat nat

record parser_state =
  ps_cells :: "string list"
  ps_cell :: string
  ps_inQuotes :: bool
  ps_rowStarted :: bool
  ps_lineNumber :: nat
  ps_header :: "string list option"

definition createParserState :: parser_state where
  "createParserState = \<lparr>ps_cells = [], ps_cell = [], ps_inQuotes = False, ps_rowStarted = False,
     ps_lineNumber = 1, ps_header = None\<rparr>"

type_synonym csv_result = "csv_event list \<times> (csv_error + parser_state)"

text \<open>\<^verbatim>\<open>yield*\<close> followed by the rest of the generator.\<close>

definition and_then :: "csv_result \<Rightarrow> (parser_state \<Rightarrow> csv_result) \<Rightarrow> csv_result" where
  "and_then r k = (case snd r of Inl e \<Rightarrow> (fst r, Inl e) | Inr st \<Rightarrow> (fst r @ fst (k st), snd (k st)))"

definition finishRow :: "parser_state \<Rightarrow> csv_result" where
  "finishRow st =
     (if \<not> ps_rowStarted st then ([], Inr st)
      else
        let row = ps_cells st @ [ps_cell st];
            st' = st\<lparr>ps_cells := [], ps_cell := [], ps_rowStarted := False,
                     ps_lineNumber := ps_lineNumber st + 1\<rparr>
        in case ps_header st of
             None \<Rightarrow> ([CsvHeader row], Inr (st'\<lparr>ps_header := Some row\<rparr>))
           | Some h \<Rightarrow>
               (if length row \<noteq> length h
                then ([], Inl (ColumnCountMismatch (ps_lineNumber st) (length row) (length h)))
                else ([CsvRow row (ps_lineNumber st)], Inr st')))"

definition consume_quoted :: "parser_state \<Rightarrow> char \<Rightarrow> string \<Rightarrow> parser_state \<times> string" where
  "consume_quoted st ch rest =
     (if ch = DOUBLE_QUOTE then
        (if rest \<noteq> [] \<and> hd rest = DOUBLE_QUOTE
         then (st\<lparr>ps_cell := ps_cell st @ [DOUBLE_QUOTE]\<rparr>, tl rest)
         else (st\<lparr>ps_inQuotes := False\<rparr>, rest))
      else (st\<lparr>ps_cell := ps_cell st @ [ch], ps_rowStarted := True\<rparr>, rest))"

definition consume_plain :: "parser_state \<Rightarrow> char \<Rightarrow> csv_result" where
  "consume_plain st ch =
     (if ch = DOUBLE_QUOTE \<and> ps_cell st = [] then ([], Inr (st\<lparr>ps_inQuotes := True, ps_rowStarted := True\<rparr>))
      else if ch = COMMA then
        ([], Inr (st\<lparr>ps_cells := ps_cells st @ [ps_cell st], ps_cell := [], ps_rowStarted := True\<rparr>))
      else if ch = CARRIAGE_RETURN then ([], Inr st)
      else if ch = LINE_FEED then finishRow st
      else ([], Inr (st\<lparr>ps_cell := ps_cell st @ [ch], ps_rowStarted := True\<rparr>)))"

lemma consume_quoted_rest: "length (snd (consume_quoted st ch rest)) \<le> length rest"
  by (simp add: consume_quoted_def)

function consumeChunk :: "parser_state \<Rightarrow> string \<Rightarrow> csv_result" where
  "consumeChunk st [] = ([], Inr st)"
| "consumeChunk st (ch # rest) =
     (if ps_inQuotes st
      then consumeChunk (fst (consume_quoted st ch rest)) (snd (consume_quoted st ch rest))
      else and_then (consume_plain st ch) (\<lambda>st'. consumeChunk st' rest))"
  by pat_completeness auto
termination
proof (relation "measure (\<lambda>(_, text). length text)")
  fix st ch rest
  show "((fst (consume_quoted st ch rest), snd (consume_quoted st ch rest)), st, ch # rest)
      \<in> measure (\<lambda>(_, text). length text)"
    using consume_quoted_rest [of st ch rest] by (simp add: case_prod_beta)
qed auto

fun consume_chunks :: "parser_state \<Rightarrow> string list \<Rightarrow> csv_result" where
  "consume_chunks st [] = ([], Inr st)"
| "consume_chunks st (text # texts) = and_then (consumeChunk st text) (\<lambda>st'. consume_chunks st' texts)"

definition flush :: "parser_state \<Rightarrow> csv_result" where
  "flush st = finishRow st"

text \<open>The events of a whole stream, and the error that ended it if there was one.\<close>

definition parseCsvStream :: "string list \<Rightarrow> csv_event list \<times> csv_error option" where
  "parseCsvStream texts =
     (let r = and_then (consume_chunks createParserState texts) flush
      in (fst r, case snd r of Inl e \<Rightarrow> Some e | Inr _ \<Rightarrow> None))"

fun collect_event :: "csv_event \<Rightarrow> string list \<times> string list list \<times> nat list \<Rightarrow> string list \<times> string list list \<times> nat list" where
  "collect_event (CsvHeader h) (_, rows, lines) = (h, rows, lines)"
| "collect_event (CsvRow row line) (h, rows, lines) = (h, rows @ [row], lines @ [line])"

definition parseCsvToRows :: "string list \<Rightarrow> csv_error + string list \<times> string list list \<times> nat list" where
  "parseCsvToRows texts =
     (case parseCsvStream texts of
        (_, Some e) \<Rightarrow> Inl e
      | (events, None) \<Rightarrow> Inr (fold collect_event events ([], [], [])))"

section \<open>Division into chunks\<close>

lemma and_then_simps [simp]:
  "and_then (es, Inl e) k = (es, Inl e)"
  "and_then (es, Inr st) k = (es @ fst (k st), snd (k st))"
  "and_then r (\<lambda>st. ([], Inr st)) = r"
  by (cases r; cases "snd r"; simp add: and_then_def)+

lemma and_then_assoc: "and_then (and_then r k) l = and_then r (\<lambda>st. and_then (k st) l)"
  by (cases r; cases "snd r") (auto simp: and_then_def split: sum.split)

lemma consume_quoted_append:
  "rest \<noteq> [] \<or> ch \<noteq> DOUBLE_QUOTE \<Longrightarrow> consume_quoted st ch (rest @ b)
     = (fst (consume_quoted st ch rest), snd (consume_quoted st ch rest) @ b)"
  by (cases rest) (auto simp: consume_quoted_def)

lemma consume_quoted_last:
  "snd (consume_quoted st ch rest) \<noteq> [] \<Longrightarrow> last (snd (consume_quoted st ch rest)) = last (ch # rest)"
  by (cases rest) (auto simp: consume_quoted_def split: if_splits)

lemma consumeChunk_append:
  "a = [] \<or> last a \<noteq> DOUBLE_QUOTE \<Longrightarrow>
     consumeChunk st (a @ b) = and_then (consumeChunk st a) (\<lambda>st'. consumeChunk st' b)"
proof (induction st a rule: consumeChunk.induct)
  case (1 st)
  then show ?case by simp
next
  case (2 st ch rest)
  show ?case
  proof (cases "ps_inQuotes st")
    case True
    have "rest \<noteq> [] \<or> ch \<noteq> DOUBLE_QUOTE" using "2.prems" by (cases rest) auto
    note q = consume_quoted_append [OF this, of st b]
    have "snd (consume_quoted st ch rest) = [] \<or> last (snd (consume_quoted st ch rest)) \<noteq> DOUBLE_QUOTE"
      using consume_quoted_last [of st ch rest] "2.prems" by auto
    from "2.IH"(1) [OF True this] show ?thesis by (simp add: True q)
  next
    case False
    have l: "rest = [] \<or> last rest \<noteq> DOUBLE_QUOTE" using "2.prems" by (cases rest) auto
    have "and_then (consume_plain st ch) (\<lambda>st'. consumeChunk st' (rest @ b))
        = and_then (consume_plain st ch) (\<lambda>st'. and_then (consumeChunk st' rest) (\<lambda>st'. consumeChunk st' b))"
      using "2.IH"(2) [OF False l] by (simp add: and_then_def split: sum.split)
    then show ?thesis by (simp add: False and_then_assoc)
  qed
qed

lemma consume_chunks_concat:
  "\<forall>t \<in> set (butlast texts). t = [] \<or> last t \<noteq> DOUBLE_QUOTE \<Longrightarrow>
     consume_chunks st texts = consumeChunk st (concat texts)"
proof (induction texts arbitrary: st)
  case (Cons t texts)
  show ?case
  proof (cases "texts = []")
    case False
    with Cons.prems have t: "t = [] \<or> last t \<noteq> DOUBLE_QUOTE"
      and rest: "\<forall>t \<in> set (butlast texts). t = [] \<or> last t \<noteq> DOUBLE_QUOTE" by simp_all
    show ?thesis by (simp add: consumeChunk_append [OF t] Cons.IH [OF rest])
  qed simp
qed simp

section \<open>Written tables\<close>

text \<open>
  A cell is written in quotes, with its quotes doubled, or plainly when it is not empty and has no
  separator and no quote; the first component says which.
\<close>

definition escape :: "string \<Rightarrow> string" where
  "escape c = concat (map (\<lambda>x. if x = DOUBLE_QUOTE then [DOUBLE_QUOTE, DOUBLE_QUOTE] else [x]) c)"

definition encode_cell :: "bool \<times> string \<Rightarrow> string" where
  "encode_cell cell = (if fst cell then DOUBLE_QUOTE # escape (snd cell) @ [DOUBLE_QUOTE] else snd cell)"

definition plain_text :: "string \<Rightarrow> bool" where
  "plain_text c = list_all (\<lambda>x. x \<notin> {DOUBLE_QUOTE, COMMA, CARRIAGE_RETURN, LINE_FEED}) c"

definition cell_ok :: "bool \<times> string \<Rightarrow> bool" where
  "cell_ok cell = (fst cell \<or> (snd cell \<noteq> [] \<and> plain_text (snd cell)))"

fun encode_row :: "(bool \<times> string) list \<Rightarrow> string" where
  "encode_row [] = [LINE_FEED]"
| "encode_row [cell] = encode_cell cell @ [LINE_FEED]"
| "encode_row (cell # cells) = encode_cell cell @ COMMA # encode_row cells"

definition encode_table :: "(bool \<times> string) list list \<Rightarrow> string" where
  "encode_table rows = concat (map encode_row rows)"

lemma char_neqs [simp]:
  "COMMA \<noteq> DOUBLE_QUOTE" "LINE_FEED \<noteq> DOUBLE_QUOTE" "LINE_FEED \<noteq> COMMA" "LINE_FEED \<noteq> CARRIAGE_RETURN"
  "COMMA \<noteq> CARRIAGE_RETURN" "DOUBLE_QUOTE \<noteq> COMMA" "DOUBLE_QUOTE \<noteq> LINE_FEED" "DOUBLE_QUOTE \<noteq> CARRIAGE_RETURN"
  by (simp_all add: csv_chars)

lemma escape_simps [simp]:
  "escape [] = []"
  "escape (x # c) = (if x = DOUBLE_QUOTE then [DOUBLE_QUOTE, DOUBLE_QUOTE] else [x]) @ escape c"
  by (simp_all add: escape_def)

lemma started_same [simp]: "ps_rowStarted st \<Longrightarrow> st\<lparr>ps_rowStarted := True\<rparr> = st"
  by (cases st) simp

lemma consume_steps:
  "ps_inQuotes st \<Longrightarrow> consumeChunk st (DOUBLE_QUOTE # DOUBLE_QUOTE # r) = consumeChunk (st\<lparr>ps_cell := ps_cell st @ [DOUBLE_QUOTE]\<rparr>) r"
  "ps_inQuotes st \<Longrightarrow> ps_rowStarted st \<Longrightarrow> x \<noteq> DOUBLE_QUOTE \<Longrightarrow> consumeChunk st (x # r) = consumeChunk (st\<lparr>ps_cell := ps_cell st @ [x]\<rparr>) r"
  "ps_inQuotes st \<Longrightarrow> y \<noteq> DOUBLE_QUOTE \<Longrightarrow> consumeChunk st (DOUBLE_QUOTE # y # r) = consumeChunk (st\<lparr>ps_inQuotes := False\<rparr>) (y # r)"
  "\<not> ps_inQuotes st \<Longrightarrow> plain_text [x] \<Longrightarrow> consumeChunk st (x # r) = consumeChunk (st\<lparr>ps_cell := ps_cell st @ [x], ps_rowStarted := True\<rparr>) r"
  "\<not> ps_inQuotes st \<Longrightarrow> ps_cell st = [] \<Longrightarrow> consumeChunk st (DOUBLE_QUOTE # r) = consumeChunk (st\<lparr>ps_inQuotes := True, ps_rowStarted := True\<rparr>) r"
  "\<not> ps_inQuotes st \<Longrightarrow> consumeChunk st (COMMA # r) = consumeChunk (st\<lparr>ps_cells := ps_cells st @ [ps_cell st], ps_cell := [], ps_rowStarted := True\<rparr>) r"
  "\<not> ps_inQuotes st \<Longrightarrow> consumeChunk st (LINE_FEED # r) = and_then (finishRow st) (\<lambda>st'. consumeChunk st' r)"
  by (subst consumeChunk.simps(2), simp add: consume_quoted_def consume_plain_def plain_text_def del: consumeChunk.simps(2))+

declare consumeChunk.simps(2) [simp del]

lemma consume_escaped:
  "ps_inQuotes st \<Longrightarrow> ps_rowStarted st \<Longrightarrow> y \<noteq> DOUBLE_QUOTE \<Longrightarrow>
     consumeChunk st (escape c @ DOUBLE_QUOTE # y # rest)
     = consumeChunk (st\<lparr>ps_cell := ps_cell st @ c, ps_inQuotes := False\<rparr>) (y # rest)"
proof (induction c arbitrary: st)
  case (Cons x c)
  let ?st = "st\<lparr>ps_cell := ps_cell st @ [x]\<rparr>"
  have "consumeChunk st (escape (x # c) @ DOUBLE_QUOTE # y # rest) = consumeChunk ?st (escape c @ DOUBLE_QUOTE # y # rest)"
    using Cons.prems by (simp add: consume_steps)
  also have "\<dots> = consumeChunk (?st\<lparr>ps_cell := ps_cell ?st @ c, ps_inQuotes := False\<rparr>) (y # rest)"
    using Cons.prems by (intro Cons.IH) simp_all
  finally show ?case by simp
qed (simp add: consume_steps)

lemma consume_plain_text:
  "plain_text c \<Longrightarrow> \<not> ps_inQuotes st \<Longrightarrow> ps_rowStarted st \<Longrightarrow>
     consumeChunk st (c @ rest) = consumeChunk (st\<lparr>ps_cell := ps_cell st @ c\<rparr>) rest"
proof (induction c arbitrary: st)
  case (Cons x c)
  let ?st = "st\<lparr>ps_cell := ps_cell st @ [x]\<rparr>"
  have c: "plain_text [x]" "plain_text c" using Cons.prems(1) by (simp_all add: plain_text_def)
  then have "consumeChunk st ((x # c) @ rest) = consumeChunk ?st (c @ rest)"
    using Cons.prems by (simp add: consume_steps(4))
  also have "\<dots> = consumeChunk (?st\<lparr>ps_cell := ps_cell ?st @ c\<rparr>) rest"
    using Cons.prems c by (intro Cons.IH) simp_all
  finally show ?case by simp
qed simp

lemma consume_cell:
  assumes "cell_ok cell" and "\<not> ps_inQuotes st" and "ps_cell st = []" and "y \<noteq> DOUBLE_QUOTE"
  shows "consumeChunk st (encode_cell cell @ y # rest)
    = consumeChunk (st\<lparr>ps_cell := snd cell, ps_rowStarted := True\<rparr>) (y # rest)"
proof (cases "fst cell")
  case True
  then have "consumeChunk st (encode_cell cell @ y # rest)
      = consumeChunk (st\<lparr>ps_inQuotes := True, ps_rowStarted := True\<rparr>) (escape (snd cell) @ DOUBLE_QUOTE # y # rest)"
    using assms by (simp add: encode_cell_def consume_steps(5))
  also have "\<dots> = consumeChunk (st\<lparr>ps_inQuotes := True, ps_rowStarted := True, ps_cell := ps_cell st @ snd cell, ps_inQuotes := False\<rparr>) (y # rest)"
    using assms by (subst consume_escaped) simp_all
  finally show ?thesis using assms by (cases st) simp
next
  case False
  then obtain x c where c: "snd cell = x # c" "plain_text [x]" "plain_text c"
    using assms(1) by (cases "snd cell") (auto simp: cell_ok_def plain_text_def)
  let ?st = "st\<lparr>ps_cell := [x], ps_rowStarted := True\<rparr>"
  have "consumeChunk st (encode_cell cell @ y # rest) = consumeChunk ?st (c @ y # rest)"
    using False c assms by (simp add: encode_cell_def consume_steps(4))
  also have "\<dots> = consumeChunk (?st\<lparr>ps_cell := ps_cell ?st @ c\<rparr>) (y # rest)"
    using c assms by (intro consume_plain_text) simp_all
  finally show ?thesis by (cases st) (simp add: c)
qed

lemma consume_row:
  "list_all cell_ok cells \<Longrightarrow> cells \<noteq> [] \<Longrightarrow> \<not> ps_inQuotes st \<Longrightarrow> ps_cell st = [] \<Longrightarrow>
     consumeChunk st (encode_row cells @ rest)
     = and_then (finishRow (st\<lparr>ps_cells := ps_cells st @ map snd (butlast cells), ps_cell := snd (last cells), ps_rowStarted := True\<rparr>))
         (\<lambda>st'. consumeChunk st' rest)"
proof (induction cells arbitrary: st rule: encode_row.induct)
  case (2 cell)
  then show ?case by (simp add: consume_cell consume_steps(7))
next
  case (3 cell c cells)
  let ?st = "st\<lparr>ps_cells := ps_cells st @ [snd cell], ps_rowStarted := True\<rparr>"
  have "consumeChunk st (encode_row (cell # c # cells) @ rest) = consumeChunk ?st (encode_row (c # cells) @ rest)"
    using "3.prems" by (simp add: consume_cell consume_steps(6)) (cases st, simp)
  also have "\<dots> = and_then (finishRow (?st\<lparr>ps_cells := ps_cells ?st @ map snd (butlast (c # cells)),
      ps_cell := snd (last (c # cells)), ps_rowStarted := True\<rparr>)) (\<lambda>st'. consumeChunk st' rest)"
    using "3.prems" by (intro "3.IH") simp_all
  finally show ?case by (cases st) simp
qed simp

text \<open>A state between two rows.\<close>

definition between_rows :: "nat \<Rightarrow> string list option \<Rightarrow> parser_state" where
  "between_rows line h = \<lparr>ps_cells = [], ps_cell = [], ps_inQuotes = False, ps_rowStarted = False,
     ps_lineNumber = line, ps_header = h\<rparr>"

lemma consume_full_row:
  assumes "list_all cell_ok cells" and "cells \<noteq> []"
  shows "consumeChunk (between_rows line h) (encode_row cells @ rest) =
    (case h of
       None \<Rightarrow> (CsvHeader (map snd cells) # fst (consumeChunk (between_rows (line + 1) (Some (map snd cells))) rest),
                 snd (consumeChunk (between_rows (line + 1) (Some (map snd cells))) rest))
     | Some h' \<Rightarrow>
         if length cells \<noteq> length h' then ([], Inl (ColumnCountMismatch line (length cells) (length h')))
         else (CsvRow (map snd cells) line # fst (consumeChunk (between_rows (line + 1) h) rest),
               snd (consumeChunk (between_rows (line + 1) h) rest)))"
proof -
  have "map snd (butlast cells) @ [snd (last cells)] = map snd cells"
    using assms(2) by (metis append_butlast_last_id list.simps(8,9) map_append)
  then show ?thesis
    using assms by (subst consume_row) (auto simp: between_rows_def finishRow_def Let_def split: option.split)
qed

lemma consume_table:
  "list_all (\<lambda>r. list_all cell_ok r \<and> r \<noteq> [] \<and> length r = length h) rows \<Longrightarrow>
     consumeChunk (between_rows line (Some h)) (encode_table rows)
     = (map2 (\<lambda>r i. CsvRow (map snd r) (line + i)) rows [0..<length rows],
        Inr (between_rows (line + length rows) (Some h)))"
proof (induction rows arbitrary: line)
  case (Cons r rows)
  have "map2 (\<lambda>r i. CsvRow (map snd r) (line + i)) rows [1..<Suc (length rows)]
      = map2 (\<lambda>r i. CsvRow (map snd r) (line + 1 + i)) rows [0..<length rows]"
    by (rule nth_equalityI) (simp_all del: upt_Suc)
  moreover have "[0..<length (r # rows)] = 0 # [1..<Suc (length rows)]" by (simp add: upt_conv_Cons del: upt_Suc)
  ultimately show ?case using Cons
    by (simp add: encode_table_def consume_full_row del: upt_Suc)
qed (simp add: encode_table_def)

lemma parse_table:
  assumes "list_all cell_ok h" and "h \<noteq> []"
    and "list_all (\<lambda>r. list_all cell_ok r \<and> r \<noteq> [] \<and> length r = length h) rows"
    and "concat texts = encode_table (h # rows)"
    and "\<forall>t \<in> set (butlast texts). t = [] \<or> last t \<noteq> DOUBLE_QUOTE"
  shows "parseCsvStream texts
    = (CsvHeader (map snd h) # map2 (\<lambda>r i. CsvRow (map snd r) (2 + i)) rows [0..<length rows], None)"
proof -
  have start: "createParserState = between_rows 1 None" by (simp add: createParserState_def between_rows_def)
  have "consume_chunks createParserState texts
      = consumeChunk (between_rows 1 None) (encode_row h @ encode_table rows)"
    by (simp add: consume_chunks_concat [OF assms(5)] assms(4) start) (simp add: encode_table_def)
  also have "\<dots> = (CsvHeader (map snd h) # map2 (\<lambda>r i. CsvRow (map snd r) (2 + i)) rows [0..<length rows],
      Inr (between_rows (2 + length rows) (Some (map snd h))))"
    using assms consume_table [of "map snd h" rows 2] by (simp add: consume_full_row numeral_2_eq_2)
  finally show ?thesis
    by (simp add: parseCsvStream_def Let_def flush_def finishRow_def) (simp add: between_rows_def)
qed

section \<open>Properties\<close>

text \<open>
  C33. Reading back a written table: for a header and rows of its length, with every cell in quotes
  (any characters, its quotes doubled) or plain, parsing the text yields the header, then every row
  with its cells and the number of the row counted from 2, and no error, for every division of the
  text into chunks in which no chunk before the last ends in a quote.
\<close>

theorem parse_encoded_table:
  assumes "list_all cell_ok h" and "h \<noteq> []"
    and "list_all (\<lambda>r. list_all cell_ok r \<and> length r = length h) rows"
    and "concat texts = encode_table (h # rows)"
    and "\<forall>t \<in> set (butlast texts). t = [] \<or> last t \<noteq> DOUBLE_QUOTE"
  shows "parseCsvStream texts
    = (CsvHeader (map snd h) # map2 (\<lambda>r i. CsvRow (map snd r) (2 + i)) rows [0..<length rows], None)"
proof (rule parse_table [OF assms(1,2) _ assms(4,5)])
  show "list_all (\<lambda>r. list_all cell_ok r \<and> r \<noteq> [] \<and> length r = length h) rows"
    using assms(2,3) by (auto simp: list_all_iff)
qed

theorem parse_encoded_table_witness:
  "parseCsvStream [''id,no'', ''te'' @ [LINE_FEED, CHR ''1'', COMMA, DOUBLE_QUOTE, CHR ''a'', COMMA],
      [DOUBLE_QUOTE, DOUBLE_QUOTE, LINE_FEED, DOUBLE_QUOTE, LINE_FEED]]
   = ([CsvHeader [''id'', ''note''], CsvRow [''1'', [CHR ''a'', COMMA, DOUBLE_QUOTE, LINE_FEED]] 2], None)"
proof -
  let ?texts = "[''id,no'', ''te'' @ [LINE_FEED, CHR ''1'', COMMA, DOUBLE_QUOTE, CHR ''a'', COMMA],
      [DOUBLE_QUOTE, DOUBLE_QUOTE, LINE_FEED, DOUBLE_QUOTE, LINE_FEED]]"
  let ?h = "[(False, ''id''), (False, ''note'')]"
  let ?rows = "[[(False, ''1''), (True, [CHR ''a'', COMMA, DOUBLE_QUOTE, LINE_FEED])]]"
  have "list_all cell_ok ?h" "?h \<noteq> []" by code_simp+
  moreover have "list_all (\<lambda>r. list_all cell_ok r \<and> length r = length ?h) ?rows" by code_simp
  moreover have "concat ?texts = encode_table (?h # ?rows)" by code_simp
  moreover have "\<forall>t \<in> set (butlast ?texts). t = [] \<or> last t \<noteq> DOUBLE_QUOTE" by code_simp
  ultimately have "parseCsvStream ?texts = (CsvHeader (map snd ?h) #
      map2 (\<lambda>r i. CsvRow (map snd r) (2 + i)) ?rows [0..<length ?rows], None)"
    by (rule parse_encoded_table)
  then show ?thesis by simp
qed

text \<open>
  The division into chunks does matter when a chunk ends between the two quotes of an escaped
  quote: the same file, cut there, gives a cell with a spurious quote, and when a comma follows it is
  rejected with a column-count error.
\<close>

lemma split_escaped_quote_misread:
  "(let file = (\<lambda>tail. [''a,b'' @ [LINE_FEED, CHR ''1'', COMMA, DOUBLE_QUOTE, CHR ''x'', DOUBLE_QUOTE], DOUBLE_QUOTE # tail]);
        t1 = [CHR ''y'', DOUBLE_QUOTE, LINE_FEED]; t2 = [COMMA, DOUBLE_QUOTE, LINE_FEED]
    in parseCsvStream [concat (file t1)] = ([CsvHeader [''a'', ''b''], CsvRow [''1'', [CHR ''x'', DOUBLE_QUOTE, CHR ''y'']] 2], None)
     \<and> parseCsvStream (file t1) = ([CsvHeader [''a'', ''b''], CsvRow [''1'', [CHR ''x'', DOUBLE_QUOTE, CHR ''y'', DOUBLE_QUOTE]] 2], None)
     \<and> parseCsvStream [concat (file t2)] = ([CsvHeader [''a'', ''b''], CsvRow [''1'', [CHR ''x'', DOUBLE_QUOTE, COMMA]] 2], None)
     \<and> parseCsvStream (file t2) = ([CsvHeader [''a'', ''b'']], Some (ColumnCountMismatch 2 3 2)))"
  by code_simp

text \<open>
  A row is numbered by the rows before it, not by its line in the file: after an empty line, or a
  line feed inside quotes, the number is smaller than the line.
\<close>

lemma line_number_counts_rows:
  "parseCsvStream [''a'' @ [LINE_FEED, LINE_FEED, CHR ''1'', LINE_FEED]] = ([CsvHeader [''a''], CsvRow [''1''] 2], None)"
  by code_simp

end
