(* ===== verification/Webhook_Events.thy ===== *)
theory Webhook_Events
  imports Json_Text
begin

text \<open>
  The inbox of store notifications: \<^verbatim>\<open>packages/db/src/drizzle/repositories/webhook-events.ts\<close> (the
  claim under a lease, the updates, the reclaim) and \<^verbatim>\<open>apps/api/src/workers/webhook-reaper.ts\<close>
  (the replay of orphaned rows), with the retry arithmetic of
  \<^verbatim>\<open>apps/api/src/services/webhook-processor.ts\<close>.

  Every statement of the repository is atomic. An event that one of the handlers has claimed is in
  flight until the handler writes the outcome or its process dies; \<open>inbox_step\<close> interleaves claims,
  outcomes, crashes, reaper runs and the passing of time.

  The lemmas show that handlers that keep within the lease exclude each other and that a processed
  event is then never handled again, that the retries of a job outlast the lease, and what the reaper
  replays. They also show what a handler that outlives its lease can undo, and the events a reaper
  strands when its queue fails.
\<close>

section \<open>Rows\<close>

datatype webhook_source = SRC_APPLE | SRC_GOOGLE | SRC_STRIPE | SRC_STRIPE_BILLING

datatype webhook_event_status = EV_RECEIVED | EV_PROCESSING | EV_PROCESSED | EV_FAILED

record webhook_event =
  we_id :: string
  we_projectId :: string
  we_source :: webhook_source
  we_eventType :: string
  we_storeEventId :: string
  we_payload :: json
  we_status :: webhook_event_status
  we_subscriberId :: "string option"
  we_purchaseId :: "string option"
  we_errorMessage :: "string option"
  we_processedAt :: "timestamp option"
  we_retryCount :: nat
  we_claimedAt :: "timestamp option"
  we_createdAt :: timestamp

type_synonym event_db = "webhook_event list"

record claim_input =
  ci_projectId :: string
  ci_source :: webhook_source
  ci_eventType :: string
  ci_storeEventId :: string
  ci_payload :: json

record event_patch =
  ep_status :: "webhook_event_status option"
  ep_processedAt :: "timestamp option option"
  ep_errorMessage :: "string option option"
  ep_subscriberId :: "string option option"
  ep_purchaseId :: "string option option"
  ep_incrementRetryCount :: bool

text \<open>The id and the creation time are the database's, handed to the insert.\<close>

definition new_event :: "string \<Rightarrow> timestamp \<Rightarrow> claim_input \<Rightarrow> webhook_event_status \<Rightarrow> timestamp option \<Rightarrow> webhook_event" where
  "new_event freshId created input status claimed =
     \<lparr>we_id = freshId, we_projectId = ci_projectId input, we_source = ci_source input,
      we_eventType = ci_eventType input, we_storeEventId = ci_storeEventId input,
      we_payload = ci_payload input, we_status = status, we_subscriberId = None,
      we_purchaseId = None, we_errorMessage = None, we_processedAt = None, we_retryCount = 0,
      we_claimedAt = claimed, we_createdAt = created\<rparr>"

section \<open>The repository\<close>

definition event_key :: "webhook_event \<Rightarrow> webhook_source \<times> string" where
  "event_key r = (we_source r, we_storeEventId r)"

definition findWebhookEventByStoreId :: "event_db \<Rightarrow> webhook_source \<Rightarrow> string \<Rightarrow> webhook_event option" where
  "findWebhookEventByStoreId db src storeEventId =
     find (\<lambda>r. we_source r = src \<and> we_storeEventId r = storeEventId) db"

definition findWebhookEventById :: "event_db \<Rightarrow> string \<Rightarrow> webhook_event option" where
  "findWebhookEventById db i = find (\<lambda>r. we_id r = i) db"

text \<open>A descending order puts null first, so a processed row without a date hides the others.\<close>

definition findLastProcessedWebhookAt :: "event_db \<Rightarrow> string \<Rightarrow> webhook_source \<Rightarrow> timestamp option" where
  "findLastProcessedWebhookAt db projectId src =
     (let dates = map we_processedAt (filter (\<lambda>r. we_projectId r = projectId \<and> we_source r = src
                                                \<and> we_status r = EV_PROCESSED) db)
      in if dates = [] \<or> None \<in> set dates then None
         else Some (Max (set (map the dates))))"

definition upsertWebhookEvent ::
  "string \<Rightarrow> timestamp \<Rightarrow> event_db \<Rightarrow> claim_input \<Rightarrow> webhook_event_status \<Rightarrow> webhook_event \<times> event_db" where
  "upsertWebhookEvent freshId created db input status =
     (case findWebhookEventByStoreId db (ci_source input) (ci_storeEventId input) of
        Some r \<Rightarrow> (r, db)
      | None \<Rightarrow> let r = new_event freshId created input status None in (r, db @ [r]))"

definition WEBHOOK_CLAIM_LEASE_MS :: int where "WEBHOOK_CLAIM_LEASE_MS = 5 * 60000"

datatype claim_result = Claimed webhook_event | Duplicate | In_Progress

text \<open>A comparison with a null claim time is not true.\<close>

definition claim_expired :: "timestamp \<Rightarrow> webhook_event \<Rightarrow> bool" where
  "claim_expired now r =
     (case we_claimedAt r of None \<Rightarrow> False | Some t \<Rightarrow> t < now - WEBHOOK_CLAIM_LEASE_MS)"

definition claimable :: "timestamp \<Rightarrow> webhook_event \<Rightarrow> bool" where
  "claimable now r =
     (we_status r \<noteq> EV_PROCESSED \<and> (we_status r \<noteq> EV_PROCESSING \<or> claim_expired now r))"

definition take_claim :: "timestamp \<Rightarrow> webhook_event \<Rightarrow> webhook_event" where
  "take_claim now r = r\<lparr>we_status := EV_PROCESSING, we_claimedAt := Some now\<rparr>"

definition claimWebhookEvent ::
  "string \<Rightarrow> timestamp \<Rightarrow> event_db \<Rightarrow> claim_input \<Rightarrow> timestamp \<Rightarrow> claim_result \<times> event_db" where
  "claimWebhookEvent freshId created db input now =
     (case findWebhookEventByStoreId db (ci_source input) (ci_storeEventId input) of
        None \<Rightarrow> let r = new_event freshId created input EV_PROCESSING (Some now) in (Claimed r, db @ [r])
      | Some r \<Rightarrow>
          if claimable now r
          then (Claimed (take_claim now r),
                map (\<lambda>x. if event_key x = event_key r then take_claim now x else x) db)
          else (if we_status r = EV_PROCESSED then Duplicate else In_Progress, db))"

definition RECLAIM_ERROR_MESSAGE :: string where
  "RECLAIM_ERROR_MESSAGE = ''reclaimed: orphaned PROCESSING past lease''"

definition orphaned :: "timestamp \<Rightarrow> webhook_event \<Rightarrow> bool" where
  "orphaned now r = (we_status r = EV_PROCESSING \<and> claim_expired now r)"

definition reclaim :: "webhook_event \<Rightarrow> webhook_event" where
  "reclaim r = r\<lparr>we_status := EV_FAILED, we_errorMessage := Some RECLAIM_ERROR_MESSAGE,
     we_retryCount := we_retryCount r + 1\<rparr>"

definition reclaimStaleWebhookEvents :: "event_db \<Rightarrow> timestamp \<Rightarrow> webhook_event list \<times> event_db" where
  "reclaimStaleWebhookEvents db now =
     (map reclaim (filter (orphaned now) db), map (\<lambda>r. if orphaned now r then reclaim r else r) db)"

definition patch_event :: "event_patch \<Rightarrow> webhook_event \<Rightarrow> webhook_event" where
  "patch_event p r = r\<lparr>we_status := patched (ep_status p) (we_status r),
     we_processedAt := patched (ep_processedAt p) (we_processedAt r),
     we_errorMessage := patched (ep_errorMessage p) (we_errorMessage r),
     we_subscriberId := patched (ep_subscriberId p) (we_subscriberId r),
     we_purchaseId := patched (ep_purchaseId p) (we_purchaseId r),
     we_retryCount := we_retryCount r + (if ep_incrementRetryCount p then 1 else 0)\<rparr>"

definition no_event_patch :: event_patch where
  "no_event_patch = \<lparr>ep_status = None, ep_processedAt = None, ep_errorMessage = None,
     ep_subscriberId = None, ep_purchaseId = None, ep_incrementRetryCount = False\<rparr>"

definition updateWebhookEvent :: "event_db \<Rightarrow> string \<Rightarrow> event_patch \<Rightarrow> event_db" where
  "updateWebhookEvent db i p =
     (if p = no_event_patch then db else map (\<lambda>r. if we_id r = i then patch_event p r else r) db)"

definition delete_batch :: "timestamp \<Rightarrow> nat \<Rightarrow> event_db \<Rightarrow> nat \<times> event_db" where
  "delete_batch cutoff batchSize db =
     (let victims = map we_id (take batchSize (sort_key we_createdAt (filter (\<lambda>r. we_createdAt r < cutoff) db)))
      in (length (filter (\<lambda>r. we_id r \<in> set victims) db), filter (\<lambda>r. we_id r \<notin> set victims) db))"

fun deleteWebhookEventsOlderThan :: "timestamp \<Rightarrow> nat \<Rightarrow> nat \<Rightarrow> event_db \<Rightarrow> nat \<times> event_db" where
  "deleteWebhookEventsOlderThan cutoff batchSize 0 db = (0, db)"
| "deleteWebhookEventsOlderThan cutoff batchSize (Suc batches) db =
     (let (n, db') = delete_batch cutoff batchSize db
      in if n < batchSize then (n, db')
         else let (m, db'') = deleteWebhookEventsOlderThan cutoff batchSize batches db' in (n + m, db''))"

definition countWebhookEventsInPeriod :: "event_db \<Rightarrow> string \<Rightarrow> timestamp \<Rightarrow> timestamp \<Rightarrow> nat" where
  "countWebhookEventsInPeriod db projectId periodStart periodEnd =
     length (filter (\<lambda>r. we_projectId r = projectId \<and> periodStart \<le> we_createdAt r
                       \<and> we_createdAt r < periodEnd) db)"

section \<open>The reaper\<close>

datatype webhook_job = Job_Apple string string | Job_Google string json | Job_Stripe string json

definition MAX_REAPER_REQUEUES :: nat where "MAX_REAPER_REQUEUES = 5"

definition buildReplayJobData :: "webhook_event \<Rightarrow> webhook_job option" where
  "buildReplayJobData row =
     (let payload = we_payload row
      in case we_source row of
           SRC_APPLE \<Rightarrow> map_option (Job_Apple (we_projectId row)) (str_prop payload ''signedPayload'')
         | SRC_GOOGLE \<Rightarrow>
             (case jprop payload ''pushBody'' of
                None \<Rightarrow> None
              | Some body \<Rightarrow>
                  (case jprop body ''message'' of
                     None \<Rightarrow> None
                   | Some m \<Rightarrow> if str_prop m ''messageId'' = None then None
                              else Some (Job_Google (we_projectId row) body)))
         | SRC_STRIPE \<Rightarrow>
             if str_prop payload ''id'' = None \<or> str_prop payload ''type'' = None then None
             else Some (Job_Stripe (we_projectId row) payload)
         | SRC_STRIPE_BILLING \<Rightarrow> None)"

definition replayJobId :: "webhook_event \<Rightarrow> string" where
  "replayJobId row = ''webhook-replay:'' @ we_id row @ '':'' @ nat_text (we_retryCount row)"

text \<open>\<open>fails\<close> tells for which job ids the queue throws; a throw leaves the loop.\<close>

fun requeue_loop :: "(string \<Rightarrow> bool) \<Rightarrow> webhook_event list \<Rightarrow> bool \<times> (webhook_job \<times> string) list" where
  "requeue_loop fails [] = (True, [])"
| "requeue_loop fails (row # rows) =
     (if we_retryCount row > MAX_REAPER_REQUEUES then requeue_loop fails rows
      else case buildReplayJobData row of
        None \<Rightarrow> requeue_loop fails rows
      | Some jobData \<Rightarrow>
          if fails (replayJobId row) then (False, [])
          else let (ok, jobs) = requeue_loop fails rows in (ok, (jobData, replayJobId row) # jobs))"

record reaper_result =
  rr_reclaimed :: nat
  rr_requeued :: nat

definition runWebhookReaper ::
  "event_db \<Rightarrow> timestamp \<Rightarrow> (string \<Rightarrow> bool) \<Rightarrow>
     reaper_result option \<times> (webhook_job \<times> string) list \<times> event_db" where
  "runWebhookReaper db now fails =
     (let (rows, db') = reclaimStaleWebhookEvents db now;
          (ok, jobs) = requeue_loop fails rows
      in (if ok then Some \<lparr>rr_reclaimed = length rows, rr_requeued = length jobs\<rparr> else None, jobs, db'))"

section \<open>Retries of a job\<close>

definition WEBHOOK_JOB_ATTEMPTS :: nat where "WEBHOOK_JOB_ATTEMPTS = 8"
definition WEBHOOK_JOB_BACKOFF_INITIAL_MS :: int where "WEBHOOK_JOB_BACKOFF_INITIAL_MS = 5000"

definition webhookRetrySpanMs :: "nat \<Rightarrow> int \<Rightarrow> int" where
  "webhookRetrySpanMs attempts initialDelayMs =
     fold (\<lambda>retry span. span + initialDelayMs * 2 ^ retry) [0..<attempts - 1] 0"

section \<open>Handlers in flight\<close>

text \<open>
  What the handlers write around their dispatch (the same frame in \<^verbatim>\<open>apple-webhook.ts\<close>,
  \<^verbatim>\<open>google-webhook.ts\<close> and \<^verbatim>\<open>stripe-webhook.ts\<close>): the claim, then the success or the failure of the
  dispatch and its side effects.
\<close>

definition processed_patch :: "timestamp \<Rightarrow> string option \<Rightarrow> string option \<Rightarrow> event_patch" where
  "processed_patch now subscriberId purchaseId =
     no_event_patch\<lparr>ep_status := Some EV_PROCESSED, ep_processedAt := Some (Some now),
       ep_subscriberId := map_option Some subscriberId, ep_purchaseId := map_option Some purchaseId\<rparr>"

definition failed_patch :: "string \<Rightarrow> event_patch" where
  "failed_patch message =
     no_event_patch\<lparr>ep_status := Some EV_FAILED, ep_errorMessage := Some (Some message),
       ep_incrementRetryCount := True\<rparr>"

record inbox =
  ib_events :: event_db
  ib_live :: "(string \<times> timestamp) list"
  ib_now :: timestamp

datatype inbox_op =
    Claim string claim_input
  | Succeed string timestamp "string option" "string option"
  | Fail string timestamp string
  | Crash string timestamp
  | Reap
  | Tick int

text \<open>
  A run in flight is the id of its event with the time of its claim. A handler that finds the event
  processed returns, one that finds it in progress throws: both leave the state as it is.
\<close>

fun inbox_step :: "inbox \<Rightarrow> inbox_op \<Rightarrow> inbox" where
  "inbox_step st (Claim freshId input) =
     (case claimWebhookEvent freshId (ib_now st) (ib_events st) input (ib_now st) of
        (Claimed r, db) \<Rightarrow> st\<lparr>ib_events := db, ib_live := (we_id r, ib_now st) # ib_live st\<rparr>
      | (_, db) \<Rightarrow> st\<lparr>ib_events := db\<rparr>)"
| "inbox_step st (Succeed i t subscriberId purchaseId) =
     (if (i, t) \<in> set (ib_live st)
      then st\<lparr>ib_events := updateWebhookEvent (ib_events st) i (processed_patch (ib_now st) subscriberId purchaseId),
              ib_live := remove1 (i, t) (ib_live st)\<rparr>
      else st)"
| "inbox_step st (Fail i t message) =
     (if (i, t) \<in> set (ib_live st)
      then st\<lparr>ib_events := updateWebhookEvent (ib_events st) i (failed_patch message),
              ib_live := remove1 (i, t) (ib_live st)\<rparr>
      else st)"
| "inbox_step st (Crash i t) = st\<lparr>ib_live := remove1 (i, t) (ib_live st)\<rparr>"
| "inbox_step st Reap = st\<lparr>ib_events := snd (reclaimStaleWebhookEvents (ib_events st) (ib_now st))\<rparr>"
| "inbox_step st (Tick d) = st\<lparr>ib_now := ib_now st + max 0 d\<rparr>"

definition inbox_run :: "inbox \<Rightarrow> inbox_op list \<Rightarrow> inbox" where
  "inbox_run st ops = foldl inbox_step st ops"

definition empty_inbox :: inbox where
  "empty_inbox = \<lparr>ib_events = [], ib_live = [], ib_now = 0\<rparr>"

text \<open>A run is timely when no handler is in flight past its lease and fresh ids are fresh.\<close>

definition timely :: "inbox \<Rightarrow> bool" where
  "timely st = (\<forall>(i, t) \<in> set (ib_live st). ib_now st - WEBHOOK_CLAIM_LEASE_MS \<le> t)"

fun fresh_op :: "inbox \<Rightarrow> inbox_op \<Rightarrow> bool" where
  "fresh_op st (Claim freshId input) = (freshId \<notin> we_id ` set (ib_events st))"
| "fresh_op st _ = True"

fun timely_run :: "inbox \<Rightarrow> inbox_op list \<Rightarrow> bool" where
  "timely_run st [] = True"
| "timely_run st (op # ops) =
     (fresh_op st op \<and> timely (inbox_step st op) \<and> timely_run (inbox_step st op) ops)"

section \<open>Invariant\<close>

definition events_ok :: "event_db \<Rightarrow> bool" where
  "events_ok db = (distinct (map we_id db) \<and> distinct (map event_key db))"

definition holds_claim :: "event_db \<Rightarrow> string \<times> timestamp \<Rightarrow> bool" where
  "holds_claim db l =
     (\<exists>r \<in> set db. we_id r = fst l \<and> we_status r = EV_PROCESSING \<and> we_claimedAt r = Some (snd l))"

definition inbox_ok :: "inbox \<Rightarrow> bool" where
  "inbox_ok st = (events_ok (ib_events st) \<and> distinct (map fst (ib_live st))
     \<and> (\<forall>l \<in> set (ib_live st). holds_claim (ib_events st) l \<and> snd l \<le> ib_now st))"

section \<open>Facts\<close>

lemma event_field_simps [row_simps, simp]:
  "we_id (take_claim now r) = we_id r" "event_key (take_claim now r) = event_key r"
  "we_status (take_claim now r) = EV_PROCESSING" "we_claimedAt (take_claim now r) = Some now"
  "we_id (reclaim r) = we_id r" "event_key (reclaim r) = event_key r"
  "we_status (reclaim r) = EV_FAILED"
  "we_id (patch_event p r) = we_id r" "event_key (patch_event p r) = event_key r"
  "we_status (patch_event p r) = patched (ep_status p) (we_status r)"
  "we_id (new_event i c input s t) = i"
  "event_key (new_event i c input s t) = (ci_source input, ci_storeEventId input)"
  "we_status (new_event i c input s t) = s" "we_claimedAt (new_event i c input s t) = t"
  by (simp_all add: take_claim_def reclaim_def patch_event_def new_event_def event_key_def)

lemma patch_status_simps [simp]:
  "ep_status (processed_patch now s p) = Some EV_PROCESSED" "ep_status (failed_patch m) = Some EV_FAILED"
  by (simp_all add: processed_patch_def failed_patch_def)

lemma updateWebhookEvent_map:
  "updateWebhookEvent db i p = map (\<lambda>r. if we_id r = i then patch_event p r else r) db"
proof (cases "p = no_event_patch")
  case True
  have "patch_event no_event_patch r = r" for r
    by (cases r) (simp add: patch_event_def no_event_patch_def patched_def)
  with True show ?thesis by (simp add: updateWebhookEvent_def cong: if_cong)
qed (simp add: updateWebhookEvent_def)

lemma events_ok_map:
  assumes "\<And>r. we_id (f r) = we_id r" and "\<And>r. event_key (f r) = event_key r"
  shows "events_ok (map f db) = events_ok db"
proof -
  have "we_id \<circ> f = we_id" "event_key \<circ> f = event_key" using assms by (auto simp: fun_eq_iff)
  then show ?thesis by (simp add: events_ok_def)
qed

lemma event_row_unique:
  "events_ok db \<Longrightarrow> r \<in> set db \<Longrightarrow> r' \<in> set db \<Longrightarrow> we_id r = we_id r' \<Longrightarrow> r = r'"
  "events_ok db \<Longrightarrow> r \<in> set db \<Longrightarrow> r' \<in> set db \<Longrightarrow> event_key r = event_key r' \<Longrightarrow> r = r'"
  by (auto simp: events_ok_def dest: distinct_map_eqD)

lemma find_event_key:
  "findWebhookEventByStoreId db src sid = find (\<lambda>r. event_key r = (src, sid)) db"
  by (simp add: findWebhookEventByStoreId_def event_key_def)

lemma find_event_row:
  assumes "events_ok db" and "r \<in> set db" and "event_key r = (src, sid)"
  shows "findWebhookEventByStoreId db src sid = Some r"
  unfolding find_event_key using assms event_row_unique(2) [OF assms(1)] by (intro find_unique) auto

lemma claim_existing:
  assumes "events_ok db" and "r \<in> set db" and "event_key r = (ci_source input, ci_storeEventId input)"
  shows "claimWebhookEvent fid c db input now =
      (if claimable now r
       then (Claimed (take_claim now r), map (\<lambda>x. if we_id x = we_id r then take_claim now x else x) db)
       else (if we_status r = EV_PROCESSED then Duplicate else In_Progress, db))"
proof -
  have "(if event_key x = event_key r then take_claim now x else x)
      = (if we_id x = we_id r then take_claim now x else x)" if "x \<in> set db" for x
    using event_row_unique [OF assms(1) that assms(2)] by auto
  then have "map (\<lambda>x. if event_key x = event_key r then take_claim now x else x) db
      = map (\<lambda>x. if we_id x = we_id r then take_claim now x else x) db" by simp
  then show ?thesis by (simp add: claimWebhookEvent_def find_event_row [OF assms])
qed

lemma claim_new:
  assumes "(ci_source input, ci_storeEventId input) \<notin> event_key ` set db"
  shows "claimWebhookEvent fid c db input now =
      (Claimed (new_event fid c input EV_PROCESSING (Some now)), db @ [new_event fid c input EV_PROCESSING (Some now)])"
proof -
  have "findWebhookEventByStoreId db (ci_source input) (ci_storeEventId input) = None"
    using assms by (force simp: find_event_key find_None_iff_all)
  then show ?thesis by (simp add: claimWebhookEvent_def Let_def)
qed

lemma live_unexpired:
  assumes "inbox_ok st" and "timely st" and "l \<in> set (ib_live st)" and "r \<in> set (ib_events st)" and "we_id r = fst l"
  shows "we_status r = EV_PROCESSING" and "\<not> claim_expired (ib_now st) r" and "we_claimedAt r = Some (snd l)"
proof -
  obtain r' where r': "r' \<in> set (ib_events st)" "we_id r' = fst l" "we_status r' = EV_PROCESSING"
      "we_claimedAt r' = Some (snd l)"
    using assms(1,3) by (auto simp: inbox_ok_def holds_claim_def)
  then have "r = r'" using assms(1,4,5) event_row_unique(1) by (auto simp: inbox_ok_def)
  moreover have "ib_now st - WEBHOOK_CLAIM_LEASE_MS \<le> snd l" using assms(2,3) by (auto simp: timely_def)
  ultimately show "we_status r = EV_PROCESSING" "\<not> claim_expired (ib_now st) r" "we_claimedAt r = Some (snd l)"
    using r' by (simp_all add: claim_expired_def)
qed

lemma holds_claim_map:
  assumes "holds_claim db l" and "\<And>r. r \<in> set db \<Longrightarrow> we_id r = fst l \<Longrightarrow> f r = r"
  shows "holds_claim (map f db) l"
  using assms unfolding holds_claim_def by force

lemma inbox_ok_claim:
  assumes ok: "inbox_ok st" and tm: "timely st" and fresh: "fresh_op st (Claim fid input)"
  shows "inbox_ok (inbox_step st (Claim fid input))"
proof (cases "(ci_source input, ci_storeEventId input) \<in> event_key ` set (ib_events st)")
  case False
  let ?r = "new_event fid (ib_now st) input EV_PROCESSING (Some (ib_now st))"
  have live: "fid \<noteq> fst l" if "l \<in> set (ib_live st)" for l
    using ok fresh that by (force simp: inbox_ok_def holds_claim_def)
  have "events_ok (ib_events st @ [?r])" using ok fresh False by (auto simp: inbox_ok_def events_ok_def)
  moreover have "holds_claim (ib_events st @ [?r]) l" if "l \<in> set (ib_live st)" for l
    using ok that unfolding inbox_ok_def holds_claim_def by fastforce
  ultimately show ?thesis using ok live by (auto simp: claim_new [OF False] inbox_ok_def holds_claim_def)
next
  case True
  then obtain r where r: "r \<in> set (ib_events st)" "event_key r = (ci_source input, ci_storeEventId input)" by auto
  have ev: "events_ok (ib_events st)" using ok by (simp add: inbox_ok_def)
  let ?f = "\<lambda>x. if we_id x = we_id r then take_claim (ib_now st) x else x"
  show ?thesis
  proof (cases "claimable (ib_now st) r")
    case True
    have notlive: "we_id r \<noteq> fst l" if "l \<in> set (ib_live st)" for l
      using live_unexpired(1,2) [OF ok tm that r(1)] True by (auto simp: claimable_def)
    have "events_ok (map ?f (ib_events st))" using ev by (subst events_ok_map) auto
    moreover have "holds_claim (map ?f (ib_events st)) l" if "l \<in> set (ib_live st)" for l
      using ok that notlive [OF that] by (intro holds_claim_map) (auto simp: inbox_ok_def)
    moreover have "holds_claim (map ?f (ib_events st)) (we_id r, ib_now st)"
      using r(1) unfolding holds_claim_def by (intro bexI [of _ "take_claim (ib_now st) r"]) (auto intro!: image_eqI [of _ _ r])
    ultimately show ?thesis using ok notlive by (auto simp: claim_existing [OF ev r] True inbox_ok_def)
  next
    case False
    then show ?thesis using ok by (simp add: claim_existing [OF ev r] inbox_ok_def)
  qed
qed

lemma inbox_ok_rows:
  assumes ok: "inbox_ok st" and f: "\<And>r. we_id (f r) = we_id r" "\<And>r. event_key (f r) = event_key r"
    and live: "\<And>l r. l \<in> set ls \<Longrightarrow> r \<in> set (ib_events st) \<Longrightarrow> we_id r = fst l \<Longrightarrow> f r = r"
    and ls: "distinct (map fst ls)" "set ls \<subseteq> set (ib_live st)" and n: "ib_now st \<le> n"
  shows "inbox_ok \<lparr>ib_events = map f (ib_events st), ib_live = ls, ib_now = n\<rparr>"
proof -
  have "holds_claim (map f (ib_events st)) l \<and> snd l \<le> n" if "l \<in> set ls" for l
  proof
    have l: "l \<in> set (ib_live st)" using that ls(2) by blast
    show "holds_claim (map f (ib_events st)) l" using ok l live [OF that]
      by (intro holds_claim_map) (auto simp: inbox_ok_def)
    show "snd l \<le> n" using ok l n by (fastforce simp: inbox_ok_def)
  qed
  then show ?thesis using ok ls(1) by (simp add: inbox_ok_def events_ok_map [OF f])
qed

lemma live_remove1:
  assumes "inbox_ok st" and "(i, t) \<in> set (ib_live st)"
  shows "distinct (map fst (remove1 (i, t) (ib_live st)))"
    and "l \<in> set (remove1 (i, t) (ib_live st)) \<Longrightarrow> l \<in> set (ib_live st) \<and> fst l \<noteq> i"
proof -
  have d: "distinct (map fst (ib_live st))" using assms(1) by (simp add: inbox_ok_def)
  then show "distinct (map fst (remove1 (i, t) (ib_live st)))"
    by (metis distinct_map distinct_remove1 inj_on_subset set_remove1_subset)
  show "l \<in> set (ib_live st) \<and> fst l \<noteq> i" if "l \<in> set (remove1 (i, t) (ib_live st))"
  proof -
    have "l \<noteq> (i, t)" "l \<in> set (ib_live st)" using that d by (auto simp: distinct_map)
    then show ?thesis using distinct_map_eqD [OF d, of l "(i, t)"] assms(2) by auto
  qed
qed

lemma inbox_ok_finish:
  assumes ok: "inbox_ok st" and l: "(i, t) \<in> set (ib_live st)"
  shows "inbox_ok (st\<lparr>ib_events := updateWebhookEvent (ib_events st) i p, ib_live := remove1 (i, t) (ib_live st)\<rparr>)"
proof -
  have "inbox_ok \<lparr>ib_events = map (\<lambda>r. if we_id r = i then patch_event p r else r) (ib_events st),
      ib_live = remove1 (i, t) (ib_live st), ib_now = ib_now st\<rparr>"
    using live_remove1 [OF ok l] by (intro inbox_ok_rows [OF ok]) auto
  then show ?thesis by (cases st) (simp add: updateWebhookEvent_map)
qed

lemma inbox_ok_crash:
  assumes ok: "inbox_ok st"
  shows "inbox_ok (st\<lparr>ib_live := remove1 (i, t) (ib_live st)\<rparr>)"
proof (cases "(i, t) \<in> set (ib_live st)")
  case True
  have "inbox_ok \<lparr>ib_events = map (\<lambda>r. r) (ib_events st), ib_live = remove1 (i, t) (ib_live st), ib_now = ib_now st\<rparr>"
    using live_remove1 [OF ok True] by (intro inbox_ok_rows [OF ok]) auto
  then show ?thesis by (cases st) simp
next
  case False
  then show ?thesis using ok by (cases st) (simp add: remove1_idem)
qed

lemma inbox_ok_reap:
  assumes ok: "inbox_ok st" and tm: "timely st"
  shows "inbox_ok (st\<lparr>ib_events := snd (reclaimStaleWebhookEvents (ib_events st) (ib_now st))\<rparr>)"
proof -
  have "inbox_ok \<lparr>ib_events = map (\<lambda>r. if orphaned (ib_now st) r then reclaim r else r) (ib_events st),
      ib_live = ib_live st, ib_now = ib_now st\<rparr>"
    using live_unexpired [OF ok tm] ok
    by (intro inbox_ok_rows [OF ok]) (auto simp: orphaned_def inbox_ok_def)
  then show ?thesis by (cases st) (simp add: reclaimStaleWebhookEvents_def)
qed

lemma inbox_ok_tick: "inbox_ok st \<Longrightarrow> inbox_ok (inbox_step st (Tick d))"
  by (fastforce simp: inbox_ok_def)

lemma inbox_ok_step: "inbox_ok st \<Longrightarrow> timely st \<Longrightarrow> fresh_op st op \<Longrightarrow> inbox_ok (inbox_step st op)"
  by (cases op)
    (auto simp del: inbox_step.simps(1,6) intro: inbox_ok_claim inbox_ok_tick inbox_ok_finish inbox_ok_crash inbox_ok_reap)

text \<open>A key is done when its event is processed.\<close>

definition event_done :: "event_db \<Rightarrow> webhook_source \<times> string \<Rightarrow> bool" where
  "event_done db k = (\<exists>r \<in> set db. event_key r = k \<and> we_status r = EV_PROCESSED)"

lemma done_map:
  assumes "event_done db k" and "\<And>r. event_key (f r) = event_key r"
    and "\<And>r. r \<in> set db \<Longrightarrow> we_status r = EV_PROCESSED \<Longrightarrow> we_status (f r) = EV_PROCESSED"
  shows "event_done (map f db) k"
  using assms unfolding event_done_def by force

lemma done_claim:
  assumes "events_ok db" and "event_done db k"
  shows "event_done (snd (claimWebhookEvent fid c db input now)) k"
proof (cases "(ci_source input, ci_storeEventId input) \<in> event_key ` set db")
  case False
  with assms(2) show ?thesis by (auto simp: claim_new event_done_def)
next
  case True
  then obtain r where r: "r \<in> set db" "event_key r = (ci_source input, ci_storeEventId input)" by auto
  have keep: "we_status x \<noteq> EV_PROCESSED" if "claimable now r" "x \<in> set db" "we_id x = we_id r" for x
    using that event_row_unique(1) [OF assms(1) that(2) r(1)] by (auto simp: claimable_def)
  have "event_done (map (\<lambda>x. if we_id x = we_id r then take_claim now x else x) db) k" if "claimable now r"
    using assms(2) keep [OF that] by (intro done_map) auto
  then show ?thesis using assms(2) by (simp add: claim_existing [OF assms(1) r])
qed

lemma done_step:
  assumes ok: "inbox_ok st" and tm: "timely st" and d: "event_done (ib_events st) k"
  shows "event_done (ib_events (inbox_step st op)) k"
proof (cases op)
  case (Claim fid input)
  have "ib_events (inbox_step st op) = snd (claimWebhookEvent fid (ib_now st) (ib_events st) input (ib_now st))"
    unfolding Claim by (auto split: prod.split claim_result.split)
  then show ?thesis using done_claim [OF _ d] ok by (simp add: inbox_ok_def)
next
  case (Fail i t m)
  have "event_done (map (\<lambda>r. if we_id r = i then patch_event (failed_patch m) r else r) (ib_events st)) k"
    if "(i, t) \<in> set (ib_live st)"
    using live_unexpired(1) [OF ok tm that] by (intro done_map [OF d]) auto
  with d show ?thesis unfolding Fail by (simp add: updateWebhookEvent_map)
next
  case (Succeed i t s p)
  have "event_done (map (\<lambda>r. if we_id r = i then patch_event (processed_patch (ib_now st) s p) r else r) (ib_events st)) k"
    by (intro done_map [OF d]) (auto simp: patched_def)
  with d show ?thesis unfolding Succeed by (simp add: updateWebhookEvent_map)
next
  case Reap
  have "event_done (map (\<lambda>r. if orphaned (ib_now st) r then reclaim r else r) (ib_events st)) k"
    by (intro done_map [OF d]) (auto simp: orphaned_def)
  then show ?thesis unfolding Reap by (simp add: reclaimStaleWebhookEvents_def)
qed (use d in simp_all)

lemma timely_run_keeps:
  "inbox_ok st \<Longrightarrow> timely st \<Longrightarrow> timely_run st ops \<Longrightarrow>
     inbox_ok (inbox_run st ops) \<and> timely (inbox_run st ops)
     \<and> (event_done (ib_events st) k \<longrightarrow> event_done (ib_events (inbox_run st ops)) k)"
proof (induction ops arbitrary: st)
  case (Cons op ops)
  then have "inbox_ok (inbox_step st op)" "timely (inbox_step st op)" "timely_run (inbox_step st op) ops"
    by (auto intro: inbox_ok_step)
  with Cons.IH [of "inbox_step st op"] done_step [OF Cons.prems(1,2)] show ?case
    by (simp add: inbox_run_def)
qed (simp add: inbox_run_def)

lemma timely_run_append:
  "timely_run st (ops @ later) = (timely_run st ops \<and> timely_run (inbox_run st ops) later)"
  by (induction ops arbitrary: st) (simp_all add: inbox_run_def)

lemma inbox_run_append: "inbox_run st (ops @ later) = inbox_run (inbox_run st ops) later"
  by (simp add: inbox_run_def)

lemma empty_inbox_ok: "inbox_ok empty_inbox" "timely empty_inbox"
  by (simp_all add: empty_inbox_def inbox_ok_def events_ok_def timely_def)

lemma done_duplicate:
  assumes "events_ok db" and "event_done db (ci_source input, ci_storeEventId input)"
  shows "claimWebhookEvent fid c db input now = (Duplicate, db)"
proof -
  obtain r where r: "r \<in> set db" "event_key r = (ci_source input, ci_storeEventId input)" "we_status r = EV_PROCESSED"
    using assms(2) by (auto simp: event_done_def)
  then show ?thesis by (simp add: claim_existing [OF assms(1) r(1,2)] claimable_def)
qed

lemma live_in_progress:
  assumes "inbox_ok st" and "timely st" and "l \<in> set (ib_live st)" and "r \<in> set (ib_events st)" and "we_id r = fst l"
    and "event_key r = (ci_source input, ci_storeEventId input)"
  shows "claimWebhookEvent fid c (ib_events st) input (ib_now st) = (In_Progress, ib_events st)"
proof -
  have "events_ok (ib_events st)" using assms(1) by (simp add: inbox_ok_def)
  then show ?thesis using live_unexpired [OF assms(1-5)]
    by (simp add: claim_existing [OF _ assms(4,6)] claimable_def)
qed

text \<open>The jobs the reaper's loop adds when the queue accepts all of them.\<close>

definition replay_of :: "webhook_event \<Rightarrow> (webhook_job \<times> string) option" where
  "replay_of row =
     (if we_retryCount row > MAX_REAPER_REQUEUES then None
      else map_option (\<lambda>d. (d, replayJobId row)) (buildReplayJobData row))"

definition replays :: "webhook_event list \<Rightarrow> (webhook_job \<times> string) list" where
  "replays rows = concat (map (opt_list \<circ> replay_of) rows)"

lemma replays_simps [simp]:
  "replays [] = []" "replays (r # rs) = opt_list (replay_of r) @ replays rs"
  "replays (xs @ ys) = replays xs @ replays ys"
  by (simp_all add: replays_def)

lemma mem_replays: "j \<in> set (replays rows) \<longleftrightarrow> (\<exists>r \<in> set rows. replay_of r = Some j)"
  by (induction rows) (auto simp: opt_list_simps split: option.splits)

lemma requeue_loop_replays:
  "requeue_loop fails rows =
     ((\<forall>j \<in> set (replays rows). \<not> fails (snd j)), takeWhile (\<lambda>j. \<not> fails (snd j)) (replays rows))"
  by (induction rows) (auto simp: replay_of_def opt_list_simps split: option.splits)

lemma reaper_effect:
  "runWebhookReaper db now fails =
     (let js = replays (map reclaim (filter (orphaned now) db))
      in (if \<forall>j \<in> set js. \<not> fails (snd j)
          then Some \<lparr>rr_reclaimed = length (filter (orphaned now) db), rr_requeued = length js\<rparr> else None,
          takeWhile (\<lambda>j. \<not> fails (snd j)) js,
          map (\<lambda>r. if orphaned now r then reclaim r else r) db))"
  by (auto simp: runWebhookReaper_def reclaimStaleWebhookEvents_def requeue_loop_replays Let_def takeWhile_eq_all_conv [THEN iffD2])

lemma build_reclaim [simp]: "buildReplayJobData (reclaim r) = buildReplayJobData r"
proof -
  have "we_payload (reclaim r) = we_payload r" "we_source (reclaim r) = we_source r" "we_projectId (reclaim r) = we_projectId r"
    by (simp_all add: reclaim_def)
  then show ?thesis unfolding buildReplayJobData_def by (simp only:)
qed

lemma reclaim_retries: "we_retryCount (reclaim r) = Suc (we_retryCount r)"
  by (simp add: reclaim_def)

lemma replay_of_reclaim:
  "replay_of (reclaim r) = (if we_retryCount r < MAX_REAPER_REQUEUES
     then map_option (\<lambda>d. (d, replayJobId (reclaim r))) (buildReplayJobData r) else None)"
  by (simp add: replay_of_def reclaim_retries less_Suc_eq_le not_less)

lemma span_step: "webhookRetrySpanMs (Suc (Suc n)) d = webhookRetrySpanMs (Suc n) d + d * 2 ^ n"
  by (simp add: webhookRetrySpanMs_def)

lemma span_closed: "webhookRetrySpanMs (Suc n) d = d * (2 ^ n - 1)"
proof (induction n)
  case (Suc n)
  then show ?case by (simp add: span_step algebra_simps)
qed (simp add: webhookRetrySpanMs_def)

text \<open>A delivery of an Apple notification.\<close>

definition sample_event :: "nat \<Rightarrow> claim_input" where
  "sample_event n = \<lparr>ci_projectId = ''prj'', ci_source = SRC_APPLE, ci_eventType = ''DID_RENEW'',
     ci_storeEventId = ''uuid'' @ replicate n CHR ''x'',
     ci_payload = JObj [(''signedPayload'', JStr ''jws'')]\<rparr>"

section \<open>Properties\<close>



text \<open>
  The writes of an outcome are not tied to the claim. A handler that fails after its lease was
  taken over marks the event failed even when the second handler has processed it, and the next
  delivery or replay claims it again.
\<close>

lemma late_failure_reopens_event:
  assumes "events_ok (ib_events st)" and "(i, t) \<in> set (ib_live st)"
    and "r \<in> set (ib_events st)" and "we_id r = i" and "we_status r = EV_PROCESSED"
    and "(ci_source input, ci_storeEventId input) = event_key r"
  shows "\<exists>r'. fst (claimWebhookEvent fid c (ib_events (inbox_step st (Fail i t message))) input now) = Claimed r'
              \<and> we_id r' = i"
proof -
  let ?f = "\<lambda>r. if we_id r = i then patch_event (failed_patch message) r else r"
  have ev: "ib_events (inbox_step st (Fail i t message)) = map ?f (ib_events st)"
    using assms(2) by (simp add: updateWebhookEvent_map)
  have "events_ok (map ?f (ib_events st))" using assms(1) by (subst events_ok_map) auto
  moreover have "?f r \<in> set (map ?f (ib_events st))" using assms(3) by simp
  moreover have "event_key (?f r) = (ci_source input, ci_storeEventId input)" using assms(6) by simp
  ultimately have "claimWebhookEvent fid c (map ?f (ib_events st)) input now =
      (if claimable now (?f r)
       then (Claimed (take_claim now (?f r)), map (\<lambda>x. if we_id x = we_id (?f r) then take_claim now x else x) (map ?f (ib_events st)))
       else (if we_status (?f r) = EV_PROCESSED then Duplicate else In_Progress, map ?f (ib_events st)))"
    by (rule claim_existing)
  then show ?thesis using assms(4) unfolding ev by (simp add: claimable_def patched_def)
qed

text \<open>
  A reaper run whose queue accepts every job replays exactly the orphaned events: those whose
  handler has held the claim for more than the lease, each once, unless the event was retried five
  times already or its payload cannot be replayed; all of them are failed, and so claimable, after
  the run.
\<close>

lemma reaper_replays_orphans:
  assumes "runWebhookReaper db now (\<lambda>_. False) = (res, jobs, db')"
  shows "(\<forall>d i. (d, i) \<in> set jobs \<longleftrightarrow>
            (\<exists>r \<in> set db. orphaned now r \<and> we_retryCount r < MAX_REAPER_REQUEUES
               \<and> buildReplayJobData r = Some d \<and> i = replayJobId (reclaim r)))
       \<and> (\<forall>r \<in> set db. orphaned now r \<longrightarrow> reclaim r \<in> set db' \<and> claimable now (reclaim r))
       \<and> filter (orphaned now) db' = []
       \<and> res = Some \<lparr>rr_reclaimed = length (filter (orphaned now) db), rr_requeued = length jobs\<rparr>"
proof -
  have eff: "jobs = replays (map reclaim (filter (orphaned now) db))"
      "db' = map (\<lambda>r. if orphaned now r then reclaim r else r) db"
      "res = Some \<lparr>rr_reclaimed = length (filter (orphaned now) db), rr_requeued = length jobs\<rparr>"
    using assms by (auto simp: reaper_effect Let_def takeWhile_eq_all_conv [THEN iffD2])
  have "(d, i) \<in> set jobs \<longleftrightarrow> (\<exists>r \<in> set db. orphaned now r \<and> we_retryCount r < MAX_REAPER_REQUEUES
      \<and> buildReplayJobData r = Some d \<and> i = replayJobId (reclaim r))" for d i
    unfolding eff(1) mem_replays by (auto simp: replay_of_reclaim split: if_splits)
  moreover have "\<forall>r \<in> set db. orphaned now r \<longrightarrow> reclaim r \<in> set db' \<and> claimable now (reclaim r)"
    unfolding eff(2) by (force simp: claimable_def)
  moreover have "filter (orphaned now) db' = []" unfolding eff(2) by (auto simp: filter_empty_conv orphaned_def)
  ultimately show ?thesis using eff(3) by blast
qed

text \<open>
  The reaper marks every orphaned row failed before it enqueues the first replay. When the queue
  throws for one of them, that event and all later ones of the batch stay failed without a job, and no
  later run of the reaper selects them again.
\<close>

lemma reaper_failure_strands:
  assumes "filter (orphaned now) db = before @ r # rest"
    and "we_retryCount r < MAX_REAPER_REQUEUES" and "buildReplayJobData r \<noteq> None" and "fails (replayJobId (reclaim r))"
    and "runWebhookReaper db now fails = (res, jobs, db')"
  shows "res = None \<and> set jobs \<subseteq> set (replays (map reclaim before))
    \<and> (\<forall>x \<in> set (r # rest). reclaim x \<in> set db' \<and> we_status (reclaim x) = EV_FAILED
         \<and> (\<forall>later. reclaim x \<notin> set (filter (orphaned later) db')
              \<and> reclaim x \<in> set (snd (snd (runWebhookReaper db' later (\<lambda>_. False))))))"
proof -
  let ?js = "replays (map reclaim (filter (orphaned now) db))"
  obtain d where d: "replay_of (reclaim r) = Some (d, replayJobId (reclaim r))"
    using assms(2,3) by (auto simp: replay_of_reclaim)
  have js: "?js = replays (map reclaim before) @ (d, replayJobId (reclaim r)) # replays (map reclaim rest)"
    by (simp add: assms(1) d opt_list_simps)
  have eff: "res = None" "jobs = takeWhile (\<lambda>j. \<not> fails (snd j)) ?js"
      "db' = map (\<lambda>r. if orphaned now r then reclaim r else r) db"
    using assms(4,5) js by (auto simp: reaper_effect Let_def split: if_splits)
  have "set jobs \<subseteq> set (replays (map reclaim before))"
    using assms(4) unfolding eff(2) js by (auto simp: takeWhile_append split: if_splits dest: set_takeWhileD)
  moreover have "reclaim x \<in> set db'" if "x \<in> set (r # rest)" for x
  proof -
    have "x \<in> set (filter (orphaned now) db)" using that unfolding assms(1) by auto
    then show ?thesis unfolding eff(3) by force
  qed
  moreover have "reclaim x \<in> set (snd (snd (runWebhookReaper db' later (\<lambda>_. False))))" if "reclaim x \<in> set db'" for x later
    using that by (force simp: reaper_effect Let_def orphaned_def)
  ultimately show ?thesis using eff(1) by (auto simp: orphaned_def)
qed

text \<open>
  The retries of a job outlast the lease: whichever attempt of the eight dies with its claim in
  place, except the last, the final attempt runs after that claim has expired. The whole span is 635
  seconds.
\<close>

lemma retries_outlast_lease:
  assumes "1 \<le> k" and "k < WEBHOOK_JOB_ATTEMPTS"
  shows "webhookRetrySpanMs WEBHOOK_JOB_ATTEMPTS WEBHOOK_JOB_BACKOFF_INITIAL_MS
           - webhookRetrySpanMs k WEBHOOK_JOB_BACKOFF_INITIAL_MS > WEBHOOK_CLAIM_LEASE_MS
       \<and> webhookRetrySpanMs WEBHOOK_JOB_ATTEMPTS WEBHOOK_JOB_BACKOFF_INITIAL_MS = 635000"
proof -
  obtain n where n: "k = Suc n" "n \<le> 6" using assms by (cases k) (auto simp: WEBHOOK_JOB_ATTEMPTS_def)
  have "(2::int) ^ n \<le> 2 ^ 6" using n(2) by (intro power_increasing) auto
  then show ?thesis using span_closed [of 7 5000] span_closed [of n 5000]
    by (simp add: n(1) WEBHOOK_JOB_ATTEMPTS_def WEBHOOK_JOB_BACKOFF_INITIAL_MS_def WEBHOOK_CLAIM_LEASE_MS_def)
qed

end
