(* ===== verification/Webhook_Processor.thy ===== *)
theory Webhook_Processor
  imports Webhook_Events Access_Sync Currency_Grants Webhook_Delivery
begin

text \<open>
  What a store notification causes after its handler has written the purchase
  (\<^verbatim>\<open>apps/api/src/services/webhook-processor.ts\<close>): access is recomputed, a purchase is credited, and
  the event is announced, on the outbox under a public key
  (\<^verbatim>\<open>packages/shared/src/store-event-normalization.ts\<close>) and on the first version of the webhooks under
  the store's own type, filtered by category (\<^verbatim>\<open>packages/shared/src/webhook-events.ts\<close>).

  What the project configured is in \<open>post_config\<close>; what one attempt meets (which call throws, the
  clock, the fresh ids) is in \<open>post_env\<close>. The ledger and the bridge write the same outbox table. An
  exception ends the attempt with the effects committed before it.

  The lemmas show that the attempts of one event, however many fail and wherever, announce and credit
  it once; and that the first version of the webhooks drops an event whose purchase had one of the
  same type before.
\<close>

section \<open>Public keys and categories\<close>

definition ROVENUE_EVENT_KEYS :: "string list" where
  "ROVENUE_EVENT_KEYS =
     [''revenue.INITIAL'', ''revenue.TRIAL_CONVERSION'', ''revenue.RENEWAL'', ''revenue.CREDIT_PURCHASE'',
      ''revenue.NON_RENEWING_PURCHASE'', ''revenue.REACTIVATION'', ''revenue.REFUND'', ''revenue.CANCELLATION'',
      ''subscription.trial.started'', ''subscriber.identified'', ''subscription.cancel_requested'',
      ''subscription.expired'', ''subscription.billing_issue'', ''subscription.grace_period'',
      ''subscription.uncancelled'', ''subscription.product_changed'', ''subscription.paused'',
      ''subscription.recovered'', ''subscription.revoked'', ''subscription.offer_redeemed'',
      ''paywall.view'', ''paywall.close'', ''credit.ledger.appended'']"

definition isRovenueEventKey :: "string \<Rightarrow> bool" where
  "isRovenueEventKey s = (s \<in> set ROVENUE_EVENT_KEYS)"

definition STORE_EVENT_TO_PUBLIC_KEY :: "(string, string) js_map" where
  "STORE_EVENT_TO_PUBLIC_KEY =
     [(''DID_FAIL_TO_RENEW'', ''subscription.billing_issue''),
      (''GRACE_PERIOD_EXPIRED'', ''subscription.billing_issue''),
      (''DID_CHANGE_RENEWAL_PREF'', ''subscription.product_changed''),
      (''SUBSCRIPTION_ON_HOLD'', ''subscription.billing_issue''),
      (''SUBSCRIPTION_IN_GRACE_PERIOD'', ''subscription.grace_period''),
      (''SUBSCRIPTION_RESTARTED'', ''subscription.uncancelled''),
      (''SUBSCRIPTION_PRICE_CHANGE_CONFIRMED'', ''subscription.product_changed''),
      (''SUBSCRIPTION_DEFERRED'', ''subscription.product_changed''),
      (''SUBSCRIPTION_PAUSED'', ''subscription.paused''),
      (''SUBSCRIPTION_RECOVERED'', ''subscription.recovered''),
      (''SUBSCRIPTION_REVOKED'', ''subscription.revoked''),
      (''REVOKE'', ''subscription.revoked''),
      (''OFFER_REDEEMED'', ''subscription.offer_redeemed''),
      (''invoice.payment_failed'', ''subscription.billing_issue'')]"

text \<open>The optional facts a handler adds; a missing one is undefined.\<close>

record store_event_context =
  sc_autoRenewEnabled :: "bool option"
  sc_appleGracePeriodSubtype :: "bool option"
  sc_applePrefChangeAlreadyApplied :: "bool option"

definition context_true :: "(store_event_context \<Rightarrow> bool option) \<Rightarrow> store_event_context option \<Rightarrow> bool" where
  "context_true f c = (case c of None \<Rightarrow> False | Some x \<Rightarrow> f x = Some True)"

definition resolveStorePublicKey :: "string \<Rightarrow> store_event_context option \<Rightarrow> string option" where
  "resolveStorePublicKey eventType c =
     (if eventType = ''DID_CHANGE_RENEWAL_STATUS'' then
        if context_true sc_autoRenewEnabled c then Some ''subscription.uncancelled'' else None
      else if eventType = ''DID_FAIL_TO_RENEW'' then
        if context_true sc_appleGracePeriodSubtype c then Some ''subscription.grace_period''
        else map_of STORE_EVENT_TO_PUBLIC_KEY eventType
      else if eventType = ''DID_CHANGE_RENEWAL_PREF'' then
        if context_true sc_applePrefChangeAlreadyApplied c then None
        else map_of STORE_EVENT_TO_PUBLIC_KEY eventType
      else map_of STORE_EVENT_TO_PUBLIC_KEY eventType)"

definition WEBHOOK_EVENT_CATEGORIES :: "string list" where
  "WEBHOOK_EVENT_CATEGORIES = [''purchase'', ''renewal'', ''cancellation'', ''refund'', ''billing_issue'',
     ''expiration'', ''product_change'']"

definition EVENT_TYPE_TO_CATEGORY :: "(string, string) js_map" where
  "EVENT_TYPE_TO_CATEGORY =
     [(''SUBSCRIBED'', ''purchase''), (''OFFER_REDEEMED'', ''purchase''), (''DID_RENEW'', ''renewal''),
      (''RENEWAL_EXTENDED'', ''renewal''), (''DID_CHANGE_RENEWAL_STATUS'', ''cancellation''),
      (''REFUND'', ''refund''), (''REFUND_DECLINED'', ''refund''), (''DID_FAIL_TO_RENEW'', ''billing_issue''),
      (''GRACE_PERIOD_EXPIRED'', ''billing_issue''), (''EXPIRED'', ''expiration''), (''REVOKE'', ''expiration''),
      (''DID_CHANGE_RENEWAL_PREF'', ''product_change''), (''PRICE_INCREASE'', ''product_change''),
      (''SUBSCRIPTION_PURCHASED'', ''purchase''), (''SUBSCRIPTION_RESTARTED'', ''purchase''),
      (''SUBSCRIPTION_RENEWED'', ''renewal''), (''SUBSCRIPTION_RECOVERED'', ''renewal''),
      (''SUBSCRIPTION_CANCELED'', ''cancellation''), (''SUBSCRIPTION_PAUSED'', ''cancellation''),
      (''SUBSCRIPTION_ON_HOLD'', ''billing_issue''), (''SUBSCRIPTION_IN_GRACE_PERIOD'', ''billing_issue''),
      (''SUBSCRIPTION_EXPIRED'', ''expiration''), (''SUBSCRIPTION_REVOKED'', ''expiration''),
      (''SUBSCRIPTION_PRICE_CHANGE_CONFIRMED'', ''product_change''), (''SUBSCRIPTION_DEFERRED'', ''product_change''),
      (''customer.subscription.created'', ''purchase''), (''invoice.payment_succeeded'', ''renewal''),
      (''invoice.paid'', ''renewal''), (''customer.subscription.deleted'', ''cancellation''),
      (''charge.refunded'', ''refund''), (''invoice.payment_failed'', ''billing_issue''),
      (''customer.subscription.updated'', ''product_change'')]"

definition toWebhookEventCategory :: "string \<Rightarrow> string option" where
  "toWebhookEventCategory eventType = map_of EVENT_TYPE_TO_CATEGORY eventType"

section \<open>Post-processing\<close>

record post_config =
  pc_products :: "string \<rightharpoonup> string list"
  pc_identifiers :: "string \<rightharpoonup> string"
  pc_grants :: "product_currency_grant list"
  pc_webhook :: "string \<Rightarrow> (string option \<times> string list) option"

record post_env =
  pe_syncFails :: bool
  pe_creditFails :: bool
  pe_enqueueFails :: bool
  pe_now :: timestamp
  pe_clock :: timestamp
  pe_outboxId :: string
  pe_webhookId :: string
  pe_ledgerTxs :: "nat \<Rightarrow> ledger_tx"

record post_world =
  po_purchases :: purchase_db
  po_access :: access_db
  po_ledger :: ledger_db
  po_webhooks :: webhook_db

record post_args =
  pt_projectId :: string
  pt_subscriberId :: string
  pt_purchaseId :: "string option"
  pt_eventType :: string
  pt_webhookEventId :: string
  pt_eventContext :: "store_event_context option"
  pt_isRenewalCharge :: bool

datatype post_error = Sync_Failed | Credit_Failed | Credit_Rejected credit_error | Enqueue_Failed

definition findPurchaseWithCreditInfo ::
  "purchase_db \<Rightarrow> (string \<rightharpoonup> string) \<Rightarrow> string \<Rightarrow> (string \<times> string) option" where
  "findPurchaseWithCreditInfo db identifiers i =
     (case find (\<lambda>p. nat_text (pu_id p) = i) (pd_rows db) of
        None \<Rightarrow> None
      | Some p \<Rightarrow> map_option (\<lambda>ident. (pu_productId p, ident)) (identifiers (pu_productId p)))"

definition maybeCreditConsumablePurchase ::
  "post_config \<Rightarrow> post_env \<Rightarrow> string \<Rightarrow> string \<Rightarrow> post_world \<Rightarrow> post_error option \<times> post_world" where
  "maybeCreditConsumablePurchase cfg env subscriberId purchaseId w =
     (if pe_creditFails env then (Some Credit_Failed, w)
      else case findPurchaseWithCreditInfo (po_purchases w) (pc_identifiers cfg) purchaseId of
        None \<Rightarrow> (None, w)
      | Some (productId, identifier) \<Rightarrow>
          let (e, ledger) = grantProductCurrencies (pc_grants cfg) (pe_ledgerTxs env) (po_ledger w)
                \<lparr>gx_subscriberId = subscriberId, gx_productId = productId, gx_referenceId = purchaseId,
                 gx_productIdentifier = identifier, gx_trigger = EV_PURCHASE\<rparr>
          in (map_option Credit_Rejected e, w\<lparr>po_ledger := ledger\<rparr>))"

definition public_key :: "post_args \<Rightarrow> string option" where
  "public_key args =
     (if isRovenueEventKey (pt_eventType args) then Some (pt_eventType args)
      else resolveStorePublicKey (pt_eventType args) (pt_eventContext args))"

definition bridge_event :: "post_env \<Rightarrow> post_args \<Rightarrow> string \<Rightarrow> outbox_event" where
  "bridge_event env args publicKey =
     \<lparr>ob_id = pe_outboxId env, ob_aggregateType = SUBSCRIPTION, ob_aggregateId = pt_subscriberId args,
      ob_eventType = publicKey,
      ob_payload = JObj
        [(''projectId'', JStr (pt_projectId args)), (''subscriberId'', JStr (pt_subscriberId args)),
         (''purchaseId'', opt_str (pt_purchaseId args)), (''webhookEventId'', JStr (pt_webhookEventId args)),
         (''storeEventType'', JStr (pt_eventType args)), (''timestamp'', iso_json (pe_clock env))],
      ob_createdAt = pe_clock env, ob_publishedAt = None\<rparr>"

definition alreadyBridged :: "post_args \<Rightarrow> string \<Rightarrow> outbox \<Rightarrow> outbox_event option" where
  "alreadyBridged args publicKey ob =
     (if pt_webhookEventId args \<noteq> [] then
        findByWebhookEventAndType ob SUBSCRIPTION (pt_subscriberId args) publicKey (pt_webhookEventId args)
      else if truthy (pt_purchaseId args) then
        findByPurchaseAndType ob SUBSCRIPTION (pt_subscriberId args) publicKey (the (pt_purchaseId args))
      else None)"

definition bridge :: "post_env \<Rightarrow> post_args \<Rightarrow> outbox \<Rightarrow> outbox" where
  "bridge env args ob =
     (case public_key args of
        None \<Rightarrow> ob
      | Some publicKey \<Rightarrow>
          if alreadyBridged args publicKey ob = None then outbox_insert ob (bridge_event env args publicKey) else ob)"

text \<open>The category filter of the first version: an empty list and an unmapped type let the event pass.\<close>

definition category_passes :: "string list \<Rightarrow> string \<Rightarrow> bool" where
  "category_passes categories eventType =
     (categories = [] \<or> (case toWebhookEventCategory eventType of None \<Rightarrow> True | Some c \<Rightarrow> c \<in> set categories))"

definition already_sent :: "post_args \<Rightarrow> webhook_db \<Rightarrow> outgoing_webhook option" where
  "already_sent args db =
     (if truthy (pt_purchaseId args) then
        findRecentOutgoingByPurchaseAndType db (pt_projectId args) (pt_subscriberId args) (pt_eventType args) (pt_purchaseId args)
      else
        findOutgoingByWebhookEvent db (pt_projectId args) (pt_subscriberId args) (pt_eventType args) (pt_webhookEventId args))"

definition outgoing_input :: "post_env \<Rightarrow> post_args \<Rightarrow> string \<Rightarrow> enqueue_input" where
  "outgoing_input env args url =
     \<lparr>eq_projectId = pt_projectId args, eq_eventType = pt_eventType args, eq_subscriberId = pt_subscriberId args,
      eq_purchaseId = pt_purchaseId args,
      eq_payload = JObj
        [(''eventType'', JStr (pt_eventType args)), (''subscriberId'', JStr (pt_subscriberId args)),
         (''purchaseId'', opt_str (pt_purchaseId args)), (''webhookEventId'', JStr (pt_webhookEventId args)),
         (''timestamp'', iso_json (pe_clock env))],
      eq_url = url\<rparr>"

definition enqueue_v1 :: "post_config \<Rightarrow> post_env \<Rightarrow> post_args \<Rightarrow> webhook_db \<Rightarrow> webhook_db" where
  "enqueue_v1 cfg env args db =
     (case pc_webhook cfg (pt_projectId args) of
        Some (Some url, categories) \<Rightarrow>
          if url = [] \<or> \<not> category_passes categories (pt_eventType args) \<or> already_sent args db \<noteq> None then db
          else enqueueOutgoingWebhook (pe_webhookId env) (pe_clock env) db (outgoing_input env args url)
      | _ \<Rightarrow> db)"

definition enqueue_outgoing_event ::
  "post_config \<Rightarrow> post_env \<Rightarrow> post_args \<Rightarrow> post_world \<Rightarrow> post_error option \<times> post_world" where
  "enqueue_outgoing_event cfg env args w =
     (if pe_enqueueFails env then (Some Enqueue_Failed, w)
      else (None, w\<lparr>po_ledger := (po_ledger w)\<lparr>lg_outbox := bridge env args (lg_outbox (po_ledger w))\<rparr>,
                    po_webhooks := enqueue_v1 cfg env args (po_webhooks w)\<rparr>))"

definition runPostProcessing ::
  "post_config \<Rightarrow> post_env \<Rightarrow> post_args \<Rightarrow> post_world \<Rightarrow> post_error option \<times> post_world" where
  "runPostProcessing cfg env args w =
     (if pe_syncFails env then (Some Sync_Failed, w)
      else
        let w1 = w\<lparr>po_access := syncAccess (po_purchases w) (pc_products cfg) (pt_subscriberId args) (pe_now env) (po_access w)\<rparr>;
            (e, w2) = (if truthy (pt_purchaseId args) \<and> \<not> pt_isRenewalCharge args
                       then maybeCreditConsumablePurchase cfg env (pt_subscriberId args) (the (pt_purchaseId args)) w1
                       else (None, w1))
        in case e of
             Some err \<Rightarrow> (Some err, w2)
           | None \<Rightarrow> enqueue_outgoing_event cfg env args w2)"

text \<open>The attempts of one job: each runs on what the earlier ones left.\<close>

definition attempts :: "post_config \<Rightarrow> post_args \<Rightarrow> post_env list \<Rightarrow> post_world \<Rightarrow> post_world" where
  "attempts cfg args envs w = foldl (\<lambda>w env. snd (runPostProcessing cfg env args w)) w envs"

text \<open>The hook of the job: a notification without a subscriber has no side effects.\<close>

definition post_process ::
  "post_config \<Rightarrow> post_env \<Rightarrow> string option \<Rightarrow> post_args \<Rightarrow> post_world \<Rightarrow> post_error option \<times> post_world" where
  "post_process cfg env subscriberId args w =
     (if \<not> truthy subscriberId then (None, w)
      else runPostProcessing cfg env (args\<lparr>pt_subscriberId := the subscriberId\<rparr>) w)"

section \<open>Facts\<close>

text \<open>The rows of the outbox that announce the event under a key.\<close>

definition announcements :: "post_args \<Rightarrow> string \<Rightarrow> post_world \<Rightarrow> outbox_event list" where
  "announcements args k w =
     filter (bridged SUBSCRIPTION (pt_subscriberId args) k ''webhookEventId'' (pt_webhookEventId args))
       (lg_outbox (po_ledger w))"

definition v1_due :: "post_config \<Rightarrow> post_args \<Rightarrow> webhook_db \<Rightarrow> bool" where
  "v1_due cfg args db =
     (case pc_webhook cfg (pt_projectId args) of
        Some (Some url, categories) \<Rightarrow>
          url \<noteq> [] \<and> category_passes categories (pt_eventType args) \<and> already_sent args db = None
      | _ \<Rightarrow> False)"

lemma credits_outbox:
  "act_all addCredits txs db as = (e, db') \<Longrightarrow>
     filter (bridged SUBSCRIPTION s k p v) (lg_outbox db') = filter (bridged SUBSCRIPTION s k p v) (lg_outbox db)"
proof (induction as arbitrary: txs db)
  case (Cons a as)
  show ?case
  proof (cases "addCredits (txs 0) db a")
    case (Inr x)
    obtain row db1 where x: "x = (row, db1)" by (cases x)
    with Inr Cons.prems have rest: "act_all addCredits (\<lambda>i. txs (Suc i)) db1 as = (e, db')" by simp
    have "addCredits (txs 0) db a = Inr (row, db1)" using Inr x by simp
    then have "filter (bridged SUBSCRIPTION s k p v) (lg_outbox db1) = filter (bridged SUBSCRIPTION s k p v) (lg_outbox db)"
      by (rule addCredits_cases) (simp_all add: insertCreditLedger_Inr bridged_def ledger_event_def)
    with Cons.IH [OF rest] show ?thesis by simp
  qed (use Cons.prems in simp)
qed simp

lemma credit_effect:
  assumes "maybeCreditConsumablePurchase cfg env s i w = (e, w')"
  shows "announcements args k w' = announcements args k w" and "po_webhooks w' = po_webhooks w"
    and "po_purchases w' = po_purchases w"
  using assms unfolding maybeCreditConsumablePurchase_def grantProductCurrencies_def announcements_def
  by (auto split: if_splits option.splits prod.splits dest: credits_outbox)

lemma bridge_count:
  assumes "pt_webhookEventId args \<noteq> []"
  shows "length (filter (bridged SUBSCRIPTION (pt_subscriberId args) k ''webhookEventId'' (pt_webhookEventId args)) (bridge env args ob))
       = (let n = length (filter (bridged SUBSCRIPTION (pt_subscriberId args) k ''webhookEventId'' (pt_webhookEventId args)) ob)
          in if public_key args = Some k then max 1 n else n)"
proof (cases "public_key args")
  case (Some key)
  let ?b = "\<lambda>k. bridged SUBSCRIPTION (pt_subscriberId args) k ''webhookEventId'' (pt_webhookEventId args)"
  have ev: "?b k (bridge_event env args key) \<longleftrightarrow> key = k"
    by (simp add: bridged_def bridge_event_def str_prop_def jprop_def)
  have found: "alreadyBridged args key ob = None \<longleftrightarrow> filter (?b key) ob = []"
    using assms by (simp add: alreadyBridged_def findByWebhookEventAndType_def find_None_iff_all filter_empty_conv)
  show ?thesis
  proof (cases "filter (?b key) ob = []")
    case True
    then have "bridge env args ob = ob @ [bridge_event env args key]"
      by (simp add: bridge_def Some found outbox_insert_def)
    then show ?thesis using True ev by (cases "key = k") (simp_all add: Some)
  next
    case False
    then have "bridge env args ob = ob" using found by (auto simp: bridge_def Some)
    moreover have "length (filter (?b key) ob) \<ge> 1" using False by (cases "filter (?b key) ob") simp_all
    ultimately show ?thesis by (cases "key = k") (simp_all add: Some max_def)
  qed
qed (simp add: bridge_def)

lemma head_option_None [simp]: "head_option xs = None \<longleftrightarrow> xs = []"
  by (cases xs) (simp_all add: head_option_def)

lemma already_sent_None:
  "already_sent args db = None \<longleftrightarrow>
     filter (\<lambda>w. ow_projectId w = pt_projectId args \<and> ow_subscriberId w = pt_subscriberId args
       \<and> ow_eventType w = pt_eventType args
       \<and> (if truthy (pt_purchaseId args) then ow_purchaseId w = pt_purchaseId args
          else str_prop (ow_payload w) ''webhookEventId'' = Some (pt_webhookEventId args))) db = []"
proof (cases "truthy (pt_purchaseId args)")
  case True
  then obtain p where "pt_purchaseId args = Some p" by (cases "pt_purchaseId args") (auto simp: truthy_def)
  with True show ?thesis
    by (simp add: already_sent_def findRecentOutgoingByPurchaseAndType_def newest_first_def filter_empty_conv
        flip: set_empty)
next
  case False
  then show ?thesis
    by (simp add: already_sent_def findOutgoingByWebhookEvent_def find_None_iff_all filter_empty_conv)
qed

lemma enqueue_v1_due:
  "enqueue_v1 cfg env args db =
     (if v1_due cfg args db
      then enqueueOutgoingWebhook (pe_webhookId env) (pe_clock env) db
             (outgoing_input env args (the (fst (the (pc_webhook cfg (pt_projectId args))))))
      else db)"
  by (auto simp: enqueue_v1_def v1_due_def split: option.splits)

lemma enqueue_v1_once: "\<not> v1_due cfg args (enqueue_v1 cfg env args db)"
proof (cases "v1_due cfg args db")
  case True
  have "already_sent args (enqueue_v1 cfg env args db) \<noteq> None"
    using True by (simp add: enqueue_v1_due already_sent_None enqueueOutgoingWebhook_def outgoing_input_def
        str_prop_def jprop_def)
  then show ?thesis by (auto simp: v1_due_def split: option.splits)
qed (simp add: enqueue_v1_due)

lemma enqueue_v1_twice: "enqueue_v1 cfg env args (enqueue_v1 cfg env' args db) = enqueue_v1 cfg env' args db"
  using enqueue_v1_once by (simp add: enqueue_v1_due [of cfg env])

lemma length_enqueue_v1:
  "length (enqueue_v1 cfg env args db) = length db + (if v1_due cfg args db then 1 else 0)"
  by (simp add: enqueue_v1_due enqueueOutgoingWebhook_def)

lemma announce_effect:
  assumes "enqueue_outgoing_event cfg env args w = (e, w')" and "pt_webhookEventId args \<noteq> []"
  shows "po_purchases w' = po_purchases w"
    and "length (announcements args k w') =
      (if e = None \<and> public_key args = Some k then max 1 (length (announcements args k w)) else length (announcements args k w))"
    and "po_webhooks w' = (if e = None then enqueue_v1 cfg env args (po_webhooks w) else po_webhooks w)"
  using assms by (auto simp: enqueue_outgoing_event_def announcements_def bridge_count Let_def split: if_splits)

lemma run_cases:
  assumes "runPostProcessing cfg env args w = (e, w')"
  obtains "e \<noteq> None" and "w' = w"
  | w2 e2 where "maybeCreditConsumablePurchase cfg env (pt_subscriberId args) (the (pt_purchaseId args))
        (w\<lparr>po_access := syncAccess (po_purchases w) (pc_products cfg) (pt_subscriberId args) (pe_now env) (po_access w)\<rparr>) = (e2, w2)"
      and "truthy (pt_purchaseId args)" and "\<not> pt_isRenewalCharge args"
      and "(e2 \<noteq> None \<and> e = e2 \<and> w' = w2) \<or> (e2 = None \<and> enqueue_outgoing_event cfg env args w2 = (e, w'))"
  | "\<not> (truthy (pt_purchaseId args) \<and> \<not> pt_isRenewalCharge args)"
      and "enqueue_outgoing_event cfg env args
        (w\<lparr>po_access := syncAccess (po_purchases w) (pc_products cfg) (pt_subscriberId args) (pe_now env) (po_access w)\<rparr>) = (e, w')"
  using assms unfolding runPostProcessing_def Let_def
  by (auto split: if_splits option.splits prod.splits)

lemma run_effect:
  assumes "runPostProcessing cfg env args w = (e, w')" and wid: "pt_webhookEventId args \<noteq> []"
  shows "po_purchases w' = po_purchases w"
    and "length (announcements args k w') =
      (if e = None \<and> public_key args = Some k then max 1 (length (announcements args k w)) else length (announcements args k w))"
    and "po_webhooks w' = (if e = None then enqueue_v1 cfg env args (po_webhooks w) else po_webhooks w)"
proof -
  let ?w1 = "w\<lparr>po_access := syncAccess (po_purchases w) (pc_products cfg) (pt_subscriberId args) (pe_now env) (po_access w)\<rparr>"
  have w1: "announcements args k ?w1 = announcements args k w" by (simp add: announcements_def)
  have "po_purchases w' = po_purchases w \<and> length (announcements args k w') =
      (if e = None \<and> public_key args = Some k then max 1 (length (announcements args k w)) else length (announcements args k w))
    \<and> po_webhooks w' = (if e = None then enqueue_v1 cfg env args (po_webhooks w) else po_webhooks w)"
    using assms(1)
  proof (cases rule: run_cases)
    case (2 w2 e2)
    note c = credit_effect [OF 2(1)]
    from 2(4) show ?thesis
    proof
      assume "e2 \<noteq> None \<and> e = e2 \<and> w' = w2"
      then show ?thesis using c w1 by auto
    next
      assume "e2 = None \<and> enqueue_outgoing_event cfg env args w2 = (e, w')"
      then have e2: "enqueue_outgoing_event cfg env args w2 = (e, w')" by simp
      show ?thesis using c w1 announce_effect(1,3) [OF e2 wid] announce_effect(2) [OF e2 wid, of k] by simp
    qed
  next
    case 3
    show ?thesis using announce_effect [OF 3(2) wid] w1 by simp
  qed auto
  then show "po_purchases w' = po_purchases w"
    and "length (announcements args k w') =
      (if e = None \<and> public_key args = Some k then max 1 (length (announcements args k w)) else length (announcements args k w))"
    and "po_webhooks w' = (if e = None then enqueue_v1 cfg env args (po_webhooks w) else po_webhooks w)" by blast+
qed

lemma attempts_effect:
  assumes wid: "pt_webhookEventId args \<noteq> []"
  shows "po_purchases (attempts cfg args envs w) = po_purchases w"
    and "length (announcements args k (attempts cfg args envs w)) \<in>
      {length (announcements args k w), if public_key args = Some k then max 1 (length (announcements args k w)) else length (announcements args k w)}"
    and "po_webhooks (attempts cfg args envs w) = po_webhooks w
      \<or> (\<exists>env. po_webhooks (attempts cfg args envs w) = enqueue_v1 cfg env args (po_webhooks w))"
proof (induction envs rule: rev_induct)
  case (snoc env envs)
  let ?x = "attempts cfg args envs w"
  obtain e x' where run: "runPostProcessing cfg env args ?x = (e, x')" by (cases "runPostProcessing cfg env args ?x")
  have step: "attempts cfg args (envs @ [env]) w = x'" using run by (simp add: attempts_def)
  note eff = run_effect [OF run wid]
  case 1 show ?case using eff(1) snoc(1) step by simp
  case 2 show ?case using eff(2) [of k] snoc(2) step by (auto split: if_splits)
  case 3 show ?case using eff(3) snoc(3) step enqueue_v1_twice by (cases "e = None") auto
qed (simp_all add: attempts_def)

text \<open>Once the credits of the purchase are recorded, a later attempt leaves the ledger alone.\<close>

lemma recorded_outbox: "grant_recorded (db\<lparr>lg_outbox := ob\<rparr>) a = grant_recorded db a"
proof -
  have "lg_rows (db\<lparr>lg_outbox := ob\<rparr>) = lg_rows db" "lg_subscribers (db\<lparr>lg_outbox := ob\<rparr>) = lg_subscribers db" by simp_all
  then show ?thesis unfolding grant_recorded_def grant_duplicate_def findExistingCreditByReference_def by (simp only:)
qed

definition credits_of :: "post_config \<Rightarrow> purchase_db \<Rightarrow> string \<Rightarrow> string \<Rightarrow> add_args list" where
  "credits_of cfg db s i =
     (case findPurchaseWithCreditInfo db (pc_identifiers cfg) i of
        None \<Rightarrow> []
      | Some (productId, identifier) \<Rightarrow>
          let args = \<lparr>gx_subscriberId = s, gx_productId = productId, gx_referenceId = i,
                 gx_productIdentifier = identifier, gx_trigger = EV_PURCHASE\<rparr>
          in map (grant_add_args args)
               (filter (\<lambda>g. \<not> pg_amount g \<le> 0) (listProductGrantsForTrigger (pc_grants cfg) productId EV_PURCHASE)))"

lemma credit_alt:
  "maybeCreditConsumablePurchase cfg env s i w =
     (if pe_creditFails env then (Some Credit_Failed, w)
      else let (e, ledger) = act_all addCredits (pe_ledgerTxs env) (po_ledger w) (credits_of cfg (po_purchases w) s i)
           in (map_option Credit_Rejected e, w\<lparr>po_ledger := ledger\<rparr>))"
proof (cases "findPurchaseWithCreditInfo (po_purchases w) (pc_identifiers cfg) i")
  case None
  then show ?thesis by (cases w) (simp add: maybeCreditConsumablePurchase_def credits_of_def)
next
  case (Some x)
  then show ?thesis
    by (cases x) (simp add: maybeCreditConsumablePurchase_def credits_of_def grantProductCurrencies_def)
qed

lemma credits_armed: "i \<noteq> [] \<Longrightarrow> a \<in> set (credits_of cfg db s i) \<Longrightarrow> grant_armed a"
  by (auto simp: credits_of_def grant_add_args_armed split: option.splits)

lemma credit_recorded_noop:
  assumes "\<forall>a \<in> set (credits_of cfg (po_purchases w) s i). grant_recorded (po_ledger w) a"
  shows "maybeCreditConsumablePurchase cfg env s i w = (if pe_creditFails env then Some Credit_Failed else None, w)"
  by (cases w) (use rg.all_recorded_noop [OF assms] in \<open>simp add: credit_alt\<close>)

lemma run_success_records:
  assumes "runPostProcessing cfg env args w = (None, w')" and "truthy (pt_purchaseId args)" and "\<not> pt_isRenewalCharge args"
  shows "\<forall>a \<in> set (credits_of cfg (po_purchases w') (pt_subscriberId args) (the (pt_purchaseId args))). grant_recorded (po_ledger w') a"
  using assms(1)
proof (cases rule: run_cases)
  case (2 w2 e2)
  let ?i = "the (pt_purchaseId args)"
  have i: "?i \<noteq> []" using assms(2) by (cases "pt_purchaseId args") (auto simp: truthy_def)
  from 2(4) have w': "e2 = None" "enqueue_outgoing_event cfg env args w2 = (None, w')" by auto
  have p: "po_purchases w2 = po_purchases w" using credit_effect(3) [OF 2(1)] by simp
  have "act_all addCredits (pe_ledgerTxs env) (po_ledger w) (credits_of cfg (po_purchases w) (pt_subscriberId args) ?i) = (None, po_ledger w2)"
    using 2(1) w'(1) by (auto simp: credit_alt split: if_splits prod.splits)
  from rg.all_records [OF this] credits_armed [OF i]
  have "\<forall>a \<in> set (credits_of cfg (po_purchases w) (pt_subscriberId args) ?i). grant_recorded (po_ledger w2) a" by blast
  then show ?thesis using w'(2) p by (auto simp: enqueue_outgoing_event_def recorded_outbox split: if_splits)
qed (use assms(2,3) in auto)

lemma bridge_once:
  assumes "pt_webhookEventId args \<noteq> []"
    and "\<And>k. public_key args = Some k \<Longrightarrow>
      filter (bridged SUBSCRIPTION (pt_subscriberId args) k ''webhookEventId'' (pt_webhookEventId args)) ob \<noteq> []"
  shows "bridge env args ob = ob"
proof (cases "public_key args")
  case (Some k)
  then have "alreadyBridged args k ob \<noteq> None"
    using assms by (simp add: alreadyBridged_def findByWebhookEventAndType_def find_None_iff_all filter_empty_conv)
  then show ?thesis by (auto simp: bridge_def Some)
qed (simp add: bridge_def)

lemma enqueue_settled:
  assumes "pt_webhookEventId args \<noteq> []" and "\<And>k. public_key args = Some k \<Longrightarrow> announcements args k w \<noteq> []"
    and "\<not> v1_due cfg args (po_webhooks w)"
  shows "snd (enqueue_outgoing_event cfg env args w) = w"
proof -
  have "bridge env args (lg_outbox (po_ledger w)) = lg_outbox (po_ledger w)"
    using assms(1,2) by (intro bridge_once) (simp_all add: announcements_def)
  then show ?thesis using assms(3)
    by (cases w; cases "po_ledger w") (simp add: enqueue_outgoing_event_def enqueue_v1_due)
qed

lemma run_settled:
  assumes "pt_webhookEventId args \<noteq> []" and "\<And>k. public_key args = Some k \<Longrightarrow> announcements args k w \<noteq> []"
    and "\<not> v1_due cfg args (po_webhooks w)"
    and "truthy (pt_purchaseId args) \<Longrightarrow> \<not> pt_isRenewalCharge args \<Longrightarrow>
      \<forall>a \<in> set (credits_of cfg (po_purchases w) (pt_subscriberId args) (the (pt_purchaseId args))). grant_recorded (po_ledger w) a"
    and "runPostProcessing cfg env args w = (e, w')"
  shows "po_ledger w' = po_ledger w \<and> po_webhooks w' = po_webhooks w"
proof -
  let ?w1 = "w\<lparr>po_access := syncAccess (po_purchases w) (pc_products cfg) (pt_subscriberId args) (pe_now env) (po_access w)\<rparr>"
  have enq: "snd (enqueue_outgoing_event cfg env args ?w1) = ?w1"
    using assms(1-3) by (intro enqueue_settled) (simp_all add: announcements_def)
  show ?thesis using assms(5)
  proof (cases rule: run_cases)
    case (2 w2 e2)
    have "w2 = ?w1" using 2(1) credit_recorded_noop [of cfg ?w1] assms(4) [OF 2(2,3)] by simp
    then show ?thesis using 2(4) enq by auto
  next
    case 3
    then show ?thesis using enq by simp
  qed simp
qed

text \<open>A store notification of a failed payment, for a product that grants a currency.\<close>

definition sample_post_config :: post_config where
  "sample_post_config = \<lparr>pc_products = sample_products, pc_identifiers = (\<lambda>_. Some ''pro_monthly''),
     pc_grants = [\<lparr>pg_productId = pu_productId (sample_purchase ACTIVE 500), pg_currencyId = ''gem'', pg_amount = 4, pg_grantOn = ON_BOTH\<rparr>],
     pc_webhook = (\<lambda>_. Some (Some ''https://hook'', [''billing_issue'']))\<rparr>"

definition sample_post_env :: post_env where
  "sample_post_env = \<lparr>pe_syncFails = False, pe_creditFails = False, pe_enqueueFails = False, pe_now = 200,
     pe_clock = 200, pe_outboxId = ''o'', pe_webhookId = ''w'', pe_ledgerTxs = (\<lambda>_. sample_tx 200 ''x'')\<rparr>"

definition sample_post_world :: post_world where
  "sample_post_world = \<lparr>po_purchases = sample_table ACTIVE 500, po_access = sample_access,
     po_ledger = empty_ledger [(''sub'', ''prj'')] [''gem''], po_webhooks = []\<rparr>"

definition sample_post_args :: "string \<Rightarrow> post_args" where
  "sample_post_args wid = \<lparr>pt_projectId = ''prj'', pt_subscriberId = ''sub'', pt_purchaseId = Some ''0'',
     pt_eventType = ''SUBSCRIPTION_ON_HOLD'', pt_webhookEventId = wid, pt_eventContext = None,
     pt_isRenewalCharge = False\<rparr>"

text \<open>Two store types the handlers treat alike: only the first reaches the outbox.\<close>

lemma action_required_unmapped:
  "resolveStorePublicKey ''invoice.payment_failed'' c = Some ''subscription.billing_issue''"
  "resolveStorePublicKey ''invoice.payment_action_required'' c = None"
  by (simp_all add: resolveStorePublicKey_def STORE_EVENT_TO_PUBLIC_KEY_def)

section \<open>Properties\<close>

text \<open>
  C5. However often a job is retried and wherever its attempts fail, once an attempt succeeds the event
  is announced under its public key exactly once, the first version of the webhooks received at most
  the one row that was due, and every later attempt or replay leaves the ledger, the outbox and the
  outgoing webhooks as they are.
\<close>

theorem retried_event_effects_once:
  assumes "pt_webhookEventId args \<noteq> []"
    and "runPostProcessing cfg env args (attempts cfg args envs w) = (None, w')"
  shows "(\<forall>k. length (announcements args k w') =
            (if public_key args = Some k then max 1 (length (announcements args k w)) else length (announcements args k w)))
    \<and> length (po_webhooks w') = length (po_webhooks w) + (if v1_due cfg args (po_webhooks w) then 1 else 0)
    \<and> (\<forall>env' e' w''. runPostProcessing cfg env' args w' = (e', w'') \<longrightarrow>
          po_ledger w'' = po_ledger w' \<and> po_webhooks w'' = po_webhooks w')"
proof -
  let ?x = "attempts cfg args envs w"
  note run = run_effect [OF assms(2,1)] and tries = attempts_effect [OF assms(1), where cfg = cfg and envs = envs and w = w]
  have count: "length (announcements args k w') =
      (if public_key args = Some k then max 1 (length (announcements args k w)) else length (announcements args k w))" for k
    using run(2) [of k] tries(2) [of k] by (auto split: if_splits)
  have "\<exists>e. po_webhooks w' = enqueue_v1 cfg e args (po_webhooks w)"
    using run(3) tries(3) enqueue_v1_once [of cfg args] by (metis enqueue_v1_due)
  then obtain e where sent: "po_webhooks w' = enqueue_v1 cfg e args (po_webhooks w)" ..
  have "announcements args k w' \<noteq> []" if "public_key args = Some k" for k
    using count [of k] that by auto
  then have "po_ledger w'' = po_ledger w' \<and> po_webhooks w'' = po_webhooks w'"
    if "runPostProcessing cfg env' args w' = (e', w'')" for env' e' w''
    using enqueue_v1_once [of cfg args e "po_webhooks w"] run_success_records [OF assms(2)] that
    by (intro run_settled [OF assms(1)]) (simp_all add: sent)
  then show ?thesis using count length_enqueue_v1 [of cfg e args] unfolding sent by blast
qed

theorem retried_event_effects_once_witness:
  "let w = sample_post_world; failing = sample_post_env\<lparr>pe_enqueueFails := True\<rparr>;
       x = attempts sample_post_config (sample_post_args ''wh1'') [failing, sample_post_env\<lparr>pe_syncFails := True\<rparr>] w;
       (e, w') = runPostProcessing sample_post_config sample_post_env (sample_post_args ''wh1'') x
   in e = None \<and> length (announcements (sample_post_args ''wh1'') ''subscription.billing_issue'' w') = 1
      \<and> length (po_webhooks w') = 1
      \<and> po_ledger (snd (runPostProcessing sample_post_config sample_post_env (sample_post_args ''wh1'') w')) = po_ledger w'"
proof -
  let ?args = "sample_post_args ''wh1''" and ?cfg = sample_post_config
  let ?envs = "[sample_post_env\<lparr>pe_enqueueFails := True\<rparr>, sample_post_env\<lparr>pe_syncFails := True\<rparr>]"
  let ?x = "attempts ?cfg ?args ?envs sample_post_world"
  let ?run = "runPostProcessing ?cfg sample_post_env ?args ?x"
  have wid: "pt_webhookEventId ?args \<noteq> []" by code_simp
  have fst: "fst ?run = None" by code_simp
  have run: "?run = (None, snd ?run)" by (rule prod_eqI) (simp_all only: fst fst_conv snd_conv)
  note once = retried_event_effects_once [OF wid run]
  have facts: "public_key ?args = Some ''subscription.billing_issue''"
      "length (announcements ?args ''subscription.billing_issue'' sample_post_world) = 0"
      "v1_due ?cfg ?args (po_webhooks sample_post_world)" "length (po_webhooks sample_post_world) = 0" by code_simp+
  have again: "po_ledger (snd (runPostProcessing ?cfg sample_post_env ?args (snd ?run))) = po_ledger (snd ?run)"
    by (rule once [THEN conjunct2, THEN conjunct2, rule_format, OF prod.collapse [symmetric], THEN conjunct1])
  have "length (announcements ?args ''subscription.billing_issue'' (snd ?run)) = 1"
    using once [THEN conjunct1, rule_format, of "''subscription.billing_issue''"] unfolding facts(1,2) by simp
  moreover have "length (po_webhooks (snd ?run)) = 1"
    using once [THEN conjunct2, THEN conjunct1] facts(3) unfolding facts(4) by (simp only: if_True add_0)
  ultimately show ?thesis using fst again unfolding Let_def case_prod_beta by (intro conjI)
qed

text \<open>
  C40. The first version of the webhooks deduplicates on the purchase, without a time bound, whenever
  the event has one. A later event of the same store type on the same purchase, such as the next failed
  payment, is a new notification and is announced on the outbox, but no webhook of the first version is
  sent for it.
\<close>

theorem v1_drops_repeated_event:
  assumes "runPostProcessing cfg env args w = (None, w')" and "pt_webhookEventId args \<noteq> []"
    and "pt_purchaseId args = Some p" and "p \<noteq> []" and "public_key args = Some k" and "announcements args k w = []"
    and "earlier \<in> set (po_webhooks w)" and "ow_projectId earlier = pt_projectId args"
    and "ow_subscriberId earlier = pt_subscriberId args" and "ow_eventType earlier = pt_eventType args"
    and "ow_purchaseId earlier = Some p"
  shows "po_webhooks w' = po_webhooks w \<and> length (announcements args k w') = 1"
proof -
  have "already_sent args (po_webhooks w) \<noteq> None"
    using assms(3,4,7-11) by (auto simp: already_sent_None truthy_def filter_empty_conv)
  then have "\<not> v1_due cfg args (po_webhooks w)" by (auto simp: v1_due_def split: option.splits)
  then show ?thesis using run_effect [OF assms(1,2)] assms(5,6) by (simp add: enqueue_v1_due)
qed

theorem v1_drops_repeated_event_witness:
  "let w = sample_post_world\<lparr>po_webhooks := enqueue_v1 sample_post_config sample_post_env (sample_post_args ''wh1'') []\<rparr>;
       args = (sample_post_args ''wh2'')\<lparr>pt_isRenewalCharge := True\<rparr>;
       w' = snd (runPostProcessing sample_post_config sample_post_env args w)
   in length (po_webhooks w') = 1 \<and> length (announcements args ''subscription.billing_issue'' w') = 1"
proof -
  let ?args = "(sample_post_args ''wh2'')\<lparr>pt_isRenewalCharge := True\<rparr>"
  let ?w = "sample_post_world\<lparr>po_webhooks := enqueue_v1 sample_post_config sample_post_env (sample_post_args ''wh1'') []\<rparr>"
  let ?run = "runPostProcessing sample_post_config sample_post_env ?args ?w"
  let ?o = "hd (po_webhooks ?w)"
  have fst: "fst ?run = None"
    by (simp add: runPostProcessing_def enqueue_outgoing_event_def sample_post_env_def)
  have run: "?run = (None, snd ?run)" by (rule prod_eqI) (simp_all only: fst fst_conv snd_conv)
  have args: "pt_webhookEventId ?args \<noteq> []" "pt_purchaseId ?args = Some ''0''" "''0'' \<noteq> []"
      "public_key ?args = Some ''subscription.billing_issue''"
      "announcements ?args ''subscription.billing_issue'' ?w = []" by code_simp+
  have o: "?o \<in> set (po_webhooks ?w) \<and> ow_projectId ?o = pt_projectId ?args \<and> ow_subscriberId ?o = pt_subscriberId ?args
      \<and> ow_eventType ?o = pt_eventType ?args \<and> ow_purchaseId ?o = Some ''0'' \<and> length (po_webhooks ?w) = 1"
    by (simp add: enqueue_v1_due v1_due_def already_sent_None category_passes_def enqueueOutgoingWebhook_def
        outgoing_input_def sample_post_config_def sample_post_args_def sample_post_env_def toWebhookEventCategory_def
        EVENT_TYPE_TO_CATEGORY_def)
  show ?thesis using v1_drops_repeated_event [OF run args] o unfolding Let_def by auto
qed

text \<open>
  Whatever a handler passes, the key the bridge puts on the outbox is one of the public event keys,
  so the fan-out can deliver it, and the category a store type is filtered by is one of the categories
  a project can subscribe to.
\<close>

lemma public_keys_typed:
  "(\<forall>k. public_key args = Some k \<longrightarrow> isRovenueEventKey k)
   \<and> (\<forall>c. toWebhookEventCategory t = Some c \<longrightarrow> c \<in> set WEBHOOK_EVENT_CATEGORIES)"
proof -
  have keys: "snd ` set STORE_EVENT_TO_PUBLIC_KEY \<subseteq> set ROVENUE_EVENT_KEYS"
    and lits: "isRovenueEventKey ''subscription.uncancelled''" "isRovenueEventKey ''subscription.grace_period''"
    and cats: "snd ` set EVENT_TYPE_TO_CATEGORY \<subseteq> set WEBHOOK_EVENT_CATEGORIES" by code_simp+
  have "isRovenueEventKey k" if "map_of STORE_EVENT_TO_PUBLIC_KEY t = Some k" for t k
    using map_of_SomeD [OF that] keys by (force simp: isRovenueEventKey_def)
  then have "isRovenueEventKey k" if "public_key args = Some k" for k
    using that lits by (auto simp: public_key_def resolveStorePublicKey_def split: if_splits)
  moreover have "c \<in> set WEBHOOK_EVENT_CATEGORIES" if "toWebhookEventCategory t = Some c" for c
    using map_of_SomeD [OF that [unfolded toWebhookEventCategory_def]] cats by force
  ultimately show ?thesis by blast
qed

end
