(* ===== verification/Experiment_Bucketing.thy ===== *)
theory Experiment_Bucketing
  imports Json_Text Complex_Main "HOL-Library.Word"
begin

text \<open>
  The pure part of experiments and feature flags (\<^verbatim>\<open>packages/shared/src/experiments\<close>): hashing a
  subscriber into one of 10,000 buckets on the server and in the browser, the choice of a variant by
  weight, rollouts, the validation of audience rules and of experiments.

  SHA-256 is the parameter \<open>sha\<close>, a function to bytes. Weights and percentages are rationals; the
  rounding error of doubles, which the source corrects by rounding the boundaries, is not represented.
  Evaluating audience rules is the \<^verbatim>\<open>sift\<close> package, the parameter \<open>sift\<close>.

  The lemmas show that the two hashes agree, that the choice gives every variant its share of the
  buckets up to one and never needs its fallback, that a rollout that grows only adds subscribers, what
  rule documents are accepted, and that a variant with a small weight can be left without traffic.
\<close>

section \<open>Buckets\<close>

definition BUCKET_COUNT :: int where "BUCKET_COUNT = 10000"

definition readUInt32BE :: "8 word list \<Rightarrow> int" where
  "readUInt32BE d = uint (d ! 0) * 2 ^ 24 + uint (d ! 1) * 2 ^ 16 + uint (d ! 2) * 2 ^ 8 + uint (d ! 3)"

definition assignBucket :: "(string \<Rightarrow> 8 word list) \<Rightarrow> string \<Rightarrow> string \<Rightarrow> int" where
  "assignBucket sha subscriberId seed = readUInt32BE (sha (subscriberId @ '':'' @ seed)) mod BUCKET_COUNT"

text \<open>
  The operators of the language on numbers: \<^verbatim>\<open><<\<close> works on 32 bits and gives a signed result,
  \<^verbatim>\<open>>>> 0\<close> reads 32 bits without a sign.
\<close>

definition js_shl :: "int \<Rightarrow> nat \<Rightarrow> int" where
  "js_shl x n = sint (push_bit n (word_of_int x :: 32 word))"

definition js_unsigned :: "int \<Rightarrow> int" where
  "js_unsigned x = uint (word_of_int x :: 32 word)"

definition assignBucketWeb :: "(string \<Rightarrow> 8 word list) \<Rightarrow> string \<Rightarrow> string \<Rightarrow> int" where
  "assignBucketWeb sha subscriberId seed =
     (let digest = sha (subscriberId @ '':'' @ seed);
          hash = js_unsigned (js_shl (uint (digest ! 0)) 24) + js_shl (uint (digest ! 1)) 16
                 + js_shl (uint (digest ! 2)) 8 + uint (digest ! 3)
      in js_unsigned hash mod BUCKET_COUNT)"

definition isInRollout :: "(string \<Rightarrow> 8 word list) \<Rightarrow> string \<Rightarrow> string \<Rightarrow> rat \<Rightarrow> bool" where
  "isInRollout sha subscriberId seed percentage =
     (if percentage \<le> 0 then False
      else if percentage \<ge> 1 then True
      else of_int (assignBucket sha subscriberId seed) < percentage * of_int BUCKET_COUNT)"

section \<open>Variants\<close>

record variant =
  va_id :: string
  va_name :: string
  va_value :: json
  va_weight :: rat

definition js_round :: "rat \<Rightarrow> int" where
  "js_round x = \<lfloor>x + 1 / 2\<rfloor>"

fun select_loop :: "int \<Rightarrow> rat \<Rightarrow> variant list \<Rightarrow> variant option" where
  "select_loop bucket cumulative [] = None"
| "select_loop bucket cumulative (v # vs) =
     (let cumulative' = cumulative + va_weight v * of_int BUCKET_COUNT
      in if bucket < js_round cumulative' then Some v else select_loop bucket cumulative' vs)"

text \<open>Without variants the result is undefined: \<open>None\<close>.\<close>

definition selectVariant :: "int \<Rightarrow> variant list \<Rightarrow> variant option" where
  "selectVariant bucket variants =
     (case select_loop bucket 0 variants of
        Some v \<Rightarrow> Some v
      | None \<Rightarrow> if variants = [] then None else Some (last variants))"

section \<open>Validation of experiments\<close>

datatype experiment_type = ET_FLAG | ET_OFFERING | ET_PAYWALL | ET_ELEMENT

definition WEIGHT_SUM_TOLERANCE :: rat where "WEIGHT_SUM_TOLERANCE = 1 / 1000000"

record experiment_input =
  xi_type :: experiment_type
  xi_key :: string
  xi_variants :: "variant list"

datatype experiment_issue =
    Empty_Text
  | Weight_Out_Of_Range string
  | Too_Few_Variants
  | Weights_Must_Sum_To_One rat
  | Duplicate_Variant_Id string
  | Zero_Weight string
  | Duplicate_Offering string
  | Identical_Values

text \<open>The checks of the schema's fields, then those of its refinement, which sees values of the right types.\<close>

definition object_issues :: "experiment_input \<Rightarrow> experiment_issue list" where
  "object_issues data =
     (if xi_key data = [] then [Empty_Text] else [])
     @ concat (map (\<lambda>v. (if va_id v = [] \<or> va_name v = [] then [Empty_Text] else [])
         @ (if va_weight v < 0 \<or> 1 < va_weight v then [Weight_Out_Of_Range (va_id v)] else [])) (xi_variants data))
     @ (if length (xi_variants data) < 2 then [Too_Few_Variants] else [])"

fun repeated :: "'a list \<Rightarrow> 'a list \<Rightarrow> 'a list" where
  "repeated seen [] = []"
| "repeated seen (x # xs) = (if x \<in> set seen then [x] else []) @ repeated (x # seen) xs"

definition value_text :: "variant \<Rightarrow> string" where
  "value_text v = JSON_stringify (if va_value v = JUndefined then JNull else va_value v)"

definition refine_issues :: "experiment_input \<Rightarrow> experiment_issue list" where
  "refine_issues data =
     (let vs = xi_variants data; total = sum_list (map va_weight vs); serialized = map value_text vs
      in (if \<bar>total - 1\<bar> > WEIGHT_SUM_TOLERANCE then [Weights_Must_Sum_To_One total] else [])
         @ map Duplicate_Variant_Id (repeated [] (map va_id vs))
         @ concat (map (\<lambda>v. if va_weight v = 0 then [Zero_Weight (va_id v)] else []) vs)
         @ (if xi_type data = ET_OFFERING then map Duplicate_Offering (repeated [] serialized)
            else if vs \<noteq> [] \<and> (\<forall>s \<in> set serialized. s = hd serialized) then [Identical_Values] else []))"

definition experimentSchema :: "experiment_input \<Rightarrow> experiment_issue list" where
  "experimentSchema data = object_issues data @ refine_issues data"

section \<open>Audience rules\<close>

definition ALLOWED_OPERATORS :: "string list" where
  "ALLOWED_OPERATORS = [''$eq'', ''$ne'', ''$gt'', ''$gte'', ''$lt'', ''$lte'', ''$in'', ''$nin'', ''$exists'',
     ''$and'', ''$or'', ''$nor'', ''$not'', ''$all'', ''$size'']"

definition MAX_DEPTH :: nat where "MAX_DEPTH = 8"
definition MAX_NODES :: nat where "MAX_NODES = 256"
definition MAX_ARRAY_LEN :: nat where "MAX_ARRAY_LEN = 500"

datatype rule_error = Not_An_Object | Too_Deep | Too_Many_Nodes | Array_Too_Long | Operator_Not_Allowed string

definition operator_allowed :: "string \<Rightarrow> bool" where
  "operator_allowed k = (take 1 k = ''$'' \<longrightarrow> k \<in> set ALLOWED_OPERATORS)"

text \<open>The walk carries the node counter; an array and a date have no own entries but their items.\<close>

fun walk :: "json \<Rightarrow> nat \<Rightarrow> nat \<Rightarrow> rule_error + nat"
  and walk_items :: "json list \<Rightarrow> nat \<Rightarrow> nat \<Rightarrow> rule_error + nat"
  and walk_entries :: "(string \<times> json) list \<Rightarrow> nat \<Rightarrow> nat \<Rightarrow> rule_error + nat" where
  "walk v depth n =
     (if depth > MAX_DEPTH then Inl Too_Deep
      else if n + 1 > MAX_NODES then Inl Too_Many_Nodes
      else case v of
        JArr vs \<Rightarrow> if length vs > MAX_ARRAY_LEN then Inl Array_Too_Long else walk_items vs (depth + 1) (n + 1)
      | JObj ps \<Rightarrow> walk_entries ps (depth + 1) (n + 1)
      | _ \<Rightarrow> Inr (n + 1))"
| "walk_items [] depth n = Inr n"
| "walk_items (v # vs) depth n =
     (case walk v depth n of Inl e \<Rightarrow> Inl e | Inr n' \<Rightarrow> walk_items vs depth n')"
| "walk_entries [] depth n = Inr n"
| "walk_entries ((k, v) # ps) depth n =
     (if \<not> operator_allowed k then Inl (Operator_Not_Allowed k)
      else case walk v depth n of Inl e \<Rightarrow> Inl e | Inr n' \<Rightarrow> walk_entries ps depth n')"

definition validateAudienceRules :: "json \<Rightarrow> rule_error option" where
  "validateAudienceRules rules =
     (case rules of
        JNull \<Rightarrow> None
      | JUndefined \<Rightarrow> None
      | JArr _ \<Rightarrow> Some Not_An_Object
      | v \<Rightarrow> if \<not> is_object v then Some Not_An_Object
             else (case walk v 0 0 of Inl e \<Rightarrow> Some e | Inr _ \<Rightarrow> None))"

definition matchesAudience :: "(json \<Rightarrow> json \<Rightarrow> bool) \<Rightarrow> json \<Rightarrow> json \<Rightarrow> bool" where
  "matchesAudience sift attributes rules =
     (case rules of
        JObj ps \<Rightarrow> if ps = [] then True else sift rules attributes
      | _ \<Rightarrow> True)"

section \<open>Facts\<close>

lemma byte_bound: "0 \<le> uint (b :: 8 word)" "uint (b :: 8 word) < 256"
  using unsigned_less [of b, where ?'a = int] by simp_all

lemma push_bit_word: "push_bit n (word_of_int x :: 32 word) = word_of_int (x * 2 ^ n)"
  by (simp add: push_bit_eq_mult)

lemma shl_unsigned:
  assumes "0 \<le> x" and "x * 2 ^ n < 2 ^ 32"
  shows "uint (push_bit n (word_of_int x :: 32 word)) = x * 2 ^ n"
  unfolding push_bit_word uint_word_of_int_eq using assms by (intro take_bit_int_eq_self) simp_all

lemma js_shl_small:
  assumes "0 \<le> x" and "x * 2 ^ n < 2 ^ 31"
  shows "js_shl x n = x * 2 ^ n"
proof -
  have "- (2 ^ 31) \<le> x * 2 ^ n" using assms(1) by (simp add: order.trans [of _ 0])
  then show ?thesis using assms(2) unfolding js_shl_def push_bit_word signed_of_int
    by (simp add: signed_take_bit_int_eq_self)
qed

lemma js_shl_top:
  assumes "0 \<le> x" and "x < 256"
  shows "js_unsigned (js_shl x 24) = x * 2 ^ 24"
proof -
  have "word_of_int (js_shl x 24) = push_bit 24 (word_of_int x :: 32 word)" by (simp add: js_shl_def)
  then show ?thesis using assms shl_unsigned [of x 24] by (simp add: js_unsigned_def)
qed

lemma bucket_range: "0 \<le> assignBucket sha s seed" "assignBucket sha s seed < 10000"
  by (simp_all add: assignBucket_def BUCKET_COUNT_def)

lemma js_round_mono: "x \<le> y \<Longrightarrow> js_round x \<le> js_round y"
  by (simp add: js_round_def floor_mono)

lemma js_round_zero: "js_round 0 = 0"
  unfolding js_round_def by (intro floor_unique) simp_all

lemma js_round_near: "\<bar>of_int (js_round (x + d)) - of_int (js_round x) - d\<bar> < (1::rat)"
  unfolding js_round_def by (simp add: abs_less_iff) linarith

text \<open>The boundary of a variant: the rounded sum of the weights up to it.\<close>

definition weight_before :: "nat \<Rightarrow> variant list \<Rightarrow> rat" where
  "weight_before i vs = sum_list (map va_weight (take i vs)) * of_int BUCKET_COUNT"

lemma weight_before_simps [simp]:
  "weight_before 0 vs = 0"
  "weight_before (Suc i) (v # vs) = va_weight v * of_int BUCKET_COUNT + weight_before i vs"
  by (simp_all add: weight_before_def algebra_simps)

lemma weight_before_Suc:
  "i < length vs \<Longrightarrow> weight_before (Suc i) vs = weight_before i vs + va_weight (vs ! i) * of_int BUCKET_COUNT"
  by (simp add: weight_before_def take_Suc_conv_app_nth algebra_simps)

lemma weight_before_mono:
  assumes "\<forall>v \<in> set vs. 0 \<le> va_weight v" and "i \<le> j" and "j \<le> length vs"
  shows "weight_before i vs \<le> weight_before j vs"
  using assms(2,3)
proof (induction j)
  case (Suc j)
  show ?case
  proof (cases "i = Suc j")
    case False
    then have "weight_before i vs \<le> weight_before j vs" using Suc by simp
    also have "\<dots> \<le> weight_before (Suc j) vs"
      using Suc.prems(2) assms(1) by (simp add: weight_before_Suc BUCKET_COUNT_def)
    finally show ?thesis .
  qed simp
qed simp

lemma select_loop_first:
  "i < length vs \<Longrightarrow> b < js_round (c + weight_before (Suc i) vs) \<Longrightarrow>
   (\<And>j. j < i \<Longrightarrow> js_round (c + weight_before (Suc j) vs) \<le> b) \<Longrightarrow> select_loop b c vs = Some (vs ! i)"
proof (induction vs arbitrary: i c)
  case (Cons v vs)
  let ?c = "c + va_weight v * of_int BUCKET_COUNT"
  show ?case
  proof (cases i)
    case 0
    with Cons.prems(2) show ?thesis by (simp add: Let_def)
  next
    case (Suc k)
    have "js_round ?c \<le> b" using Cons.prems(3) [of 0] Suc by simp
    moreover have "select_loop b ?c vs = Some (vs ! k)"
    proof (rule Cons.IH)
      show "k < length vs" using Cons.prems(1) Suc by simp
      show "b < js_round (?c + weight_before (Suc k) vs)" using Cons.prems(2) Suc by (simp add: add.assoc)
      show "js_round (?c + weight_before (Suc j) vs) \<le> b" if "j < k" for j
        using Cons.prems(3) [of "Suc j"] that Suc by (simp add: add.assoc)
    qed
    ultimately show ?thesis using Suc by (simp add: Let_def)
  qed
qed simp

text \<open>What the schema guarantees about the weights.\<close>

definition weights_ok :: "variant list \<Rightarrow> bool" where
  "weights_ok vs = ((\<forall>v \<in> set vs. 0 \<le> va_weight v) \<and> \<bar>sum_list (map va_weight vs) - 1\<bar> \<le> WEIGHT_SUM_TOLERANCE)"

lemma schema_weights_ok: "experimentSchema data = [] \<Longrightarrow> weights_ok (xi_variants data) \<and> 2 \<le> length (xi_variants data)"
  by (auto simp: experimentSchema_def object_issues_def refine_issues_def weights_ok_def Let_def not_less
      split: if_splits)

lemma last_boundary: "weights_ok vs \<Longrightarrow> js_round (weight_before (length vs) vs) = 10000"
  unfolding weights_ok_def weight_before_def js_round_def WEIGHT_SUM_TOLERANCE_def BUCKET_COUNT_def
  by (intro floor_unique) (auto simp: abs_if split: if_splits)

lemma select_slot:
  assumes "weights_ok vs" and "i < length vs"
    and "js_round (weight_before i vs) \<le> b" and "b < js_round (weight_before (Suc i) vs)"
  shows "selectVariant b vs = Some (vs ! i)"
proof -
  have "js_round (weight_before (Suc j) vs) \<le> b" if "j < i" for j
  proof -
    have "weight_before (Suc j) vs \<le> weight_before i vs"
      using assms(1,2) that by (intro weight_before_mono) (auto simp: weights_ok_def)
    then show ?thesis using js_round_mono assms(3) by (meson order_trans)
  qed
  then have "select_loop b 0 vs = Some (vs ! i)" using select_loop_first [of i vs b 0] assms(2,4) by simp
  then show ?thesis by (simp add: selectVariant_def)
qed

lemma slot_exists:
  assumes "weights_ok vs" and "0 \<le> b" and "b < 10000"
  shows "\<exists>i < length vs. js_round (weight_before i vs) \<le> b \<and> b < js_round (weight_before (Suc i) vs)"
proof -
  have "\<exists>i < n. js_round (weight_before i vs) \<le> b \<and> b < js_round (weight_before (Suc i) vs)"
    if "b < js_round (weight_before n vs)" for n
    using that
  proof (induction n)
    case 0
    then show ?case using assms(2) by (simp add: js_round_zero)
  next
    case (Suc n)
    then show ?case by (cases "b < js_round (weight_before n vs)") (auto intro: less_SucI)
  qed
  then show ?thesis using last_boundary [OF assms(1)] assms(3) by (metis)
qed

lemma repeated_Nil: "repeated seen xs = [] \<longleftrightarrow> distinct xs \<and> set xs \<inter> set seen = {}"
  by (induction xs arbitrary: seen) auto

lemma schema_distinct_ids: "experimentSchema data = [] \<Longrightarrow> distinct (map va_id (xi_variants data))"
  by (simp add: experimentSchema_def refine_issues_def Let_def repeated_Nil)

lemma select_slot_iff:
  assumes "weights_ok vs" and "distinct vs" and "i < length vs" and "0 \<le> b" and "b < 10000"
  shows "selectVariant b vs = Some (vs ! i) \<longleftrightarrow> js_round (weight_before i vs) \<le> b \<and> b < js_round (weight_before (Suc i) vs)"
proof
  assume sel: "selectVariant b vs = Some (vs ! i)"
  obtain j where j: "j < length vs" "js_round (weight_before j vs) \<le> b" "b < js_round (weight_before (Suc j) vs)"
    using slot_exists [OF assms(1,4,5)] by blast
  with sel have "vs ! i = vs ! j" using select_slot [OF assms(1) j] by simp
  then have "i = j" using assms(2,3) j(1) by (simp add: nth_eq_iff_index_eq)
  with j show "js_round (weight_before i vs) \<le> b \<and> b < js_round (weight_before (Suc i) vs)" by simp
qed (use select_slot [OF assms(1,3)] in blast)

lemma slot_bounds:
  assumes "weights_ok vs" and "i < length vs"
  shows "0 \<le> js_round (weight_before i vs)" and "js_round (weight_before (Suc i) vs) \<le> 10000"
    and "js_round (weight_before i vs) \<le> js_round (weight_before (Suc i) vs)"
proof -
  have nn: "\<forall>v \<in> set vs. 0 \<le> va_weight v" using assms(1) by (simp add: weights_ok_def)
  have "js_round (weight_before 0 vs) \<le> js_round (weight_before i vs)"
    using assms(2) by (intro js_round_mono weight_before_mono [OF nn]) simp_all
  then show "0 \<le> js_round (weight_before i vs)" by (simp add: js_round_zero)
  show "js_round (weight_before (Suc i) vs) \<le> 10000"
    unfolding last_boundary [OF assms(1), symmetric]
    using assms(2) by (intro js_round_mono weight_before_mono [OF nn]) simp_all
  show "js_round (weight_before i vs) \<le> js_round (weight_before (Suc i) vs)"
    using assms(2) by (intro js_round_mono weight_before_mono [OF nn]) simp_all
qed

lemma select_loop_total:
  assumes "weights_ok vs" and "b \<in> {0..<BUCKET_COUNT}"
  shows "select_loop b 0 vs \<noteq> None"
proof -
  let ?P = "\<lambda>j. j < length vs \<and> b < js_round (weight_before (Suc j) vs)"
  obtain j where "?P j" using slot_exists [OF assms(1), of b] assms(2) by (auto simp: BUCKET_COUNT_def)
  then have k: "?P (LEAST j. ?P j)" by (rule LeastI)
  have "js_round (0 + weight_before (Suc m) vs) \<le> b" if "m < (LEAST j. ?P j)" for m
    using not_less_Least [OF that] that k by simp
  then show ?thesis using select_loop_first [of "LEAST j. ?P j" vs b 0] k by simp
qed

text \<open>The measures that the walk over a rule document bounds.\<close>

fun json_nodes :: "json \<Rightarrow> nat" where
  "json_nodes (JArr vs) = 1 + sum_list (map json_nodes vs)"
| "json_nodes (JObj ps) = 1 + sum_list (map (\<lambda>p. json_nodes (snd p)) ps)"
| "json_nodes _ = 1"

fun within_depth :: "nat \<Rightarrow> json \<Rightarrow> bool" where
  "within_depth d (JArr vs) = (d \<le> MAX_DEPTH \<and> (\<forall>v \<in> set vs. within_depth (d + 1) v))"
| "within_depth d (JObj ps) = (d \<le> MAX_DEPTH \<and> (\<forall>p \<in> set ps. within_depth (d + 1) (snd p)))"
| "within_depth d _ = (d \<le> MAX_DEPTH)"

fun rules_plain :: "json \<Rightarrow> bool" where
  "rules_plain (JArr vs) = (length vs \<le> MAX_ARRAY_LEN \<and> (\<forall>v \<in> set vs. rules_plain v))"
| "rules_plain (JObj ps) = (\<forall>p \<in> set ps. operator_allowed (fst p) \<and> rules_plain (snd p))"
| "rules_plain _ = True"

definition walk_result :: "rule_error + nat \<Rightarrow> nat option" where
  "walk_result r = (case r of Inl _ \<Rightarrow> None | Inr n \<Rightarrow> Some n)"

lemma walk_result_simps [simp]: "walk_result (Inl e) = None" "walk_result (Inr n) = Some n"
  by (simp_all add: walk_result_def)

lemma nodes_pos: "1 \<le> json_nodes v"
  by (cases v) simp_all

declare walk.simps [simp del]

lemma walk_measures:
  "n \<le> MAX_NODES \<Longrightarrow> walk_result (walk v d n) =
     (if within_depth d v \<and> rules_plain v \<and> n + json_nodes v \<le> MAX_NODES then Some (n + json_nodes v) else None)"
  "n \<le> MAX_NODES \<Longrightarrow> walk_result (walk_items vs d n) =
     (if (\<forall>v \<in> set vs. within_depth d v \<and> rules_plain v) \<and> n + sum_list (map json_nodes vs) \<le> MAX_NODES
      then Some (n + sum_list (map json_nodes vs)) else None)"
  "n \<le> MAX_NODES \<Longrightarrow> walk_result (walk_entries ps d n) =
     (if (\<forall>p \<in> set ps. within_depth d (snd p) \<and> operator_allowed (fst p) \<and> rules_plain (snd p))
          \<and> n + sum_list (map (\<lambda>p. json_nodes (snd p)) ps) \<le> MAX_NODES
      then Some (n + sum_list (map (\<lambda>p. json_nodes (snd p)) ps)) else None)"
proof (induction v d n and vs d n and ps d n rule: walk_walk_items_walk_entries.induct)
  case (1 v d n)
  show ?case
  proof (cases "d > MAX_DEPTH \<or> n + 1 > MAX_NODES")
    case True
    moreover have "\<not> within_depth d v" if "d > MAX_DEPTH" using that by (cases v) simp_all
    moreover have "\<not> n + json_nodes v \<le> MAX_NODES" if "n + 1 > MAX_NODES" using that nodes_pos [of v] by simp
    ultimately show ?thesis by (auto simp: walk.simps [of v])
  next
    case False
    then show ?thesis using 1 by (cases v) (auto simp: walk.simps)
  qed
next
  case (3 v vs d n)
  show ?case
  proof (cases "walk v d n")
    case (Inl e)
    then show ?thesis using 3 by (auto split: if_splits)
  next
    case (Inr m)
    then show ?thesis using 3 by (auto split: if_splits)
  qed
next
  case (5 k v ps d n)
  show ?case
  proof (cases "operator_allowed k")
    case True
    then show ?thesis using 5 by (cases "walk v d n") (auto split: if_splits)
  qed simp
qed simp_all

text \<open>Two variants, the first with the given weight.\<close>

definition sample_variants :: "rat \<Rightarrow> variant list" where
  "sample_variants w =
     [\<lparr>va_id = ''a'', va_name = ''Control'', va_value = JBool False, va_weight = w\<rparr>,
      \<lparr>va_id = ''b'', va_name = ''Treatment'', va_value = JBool True, va_weight = 1 - w\<rparr>]"

definition sample_experiment :: "rat \<Rightarrow> experiment_input" where
  "sample_experiment w = \<lparr>xi_type = ET_FLAG, xi_key = ''paywall_color'', xi_variants = sample_variants w\<rparr>"

lemma sample_experiment_valid: "0 < w \<Longrightarrow> w < 1 \<Longrightarrow> experimentSchema (sample_experiment w) = []"
  by (auto simp: experimentSchema_def object_issues_def refine_issues_def sample_experiment_def sample_variants_def
      WEIGHT_SUM_TOLERANCE_def value_text_def)

section \<open>Properties\<close>

text \<open>
  C36. The browser and the server hash a subscriber into the same bucket, whatever the digest, although
  the browser assembles the number with signed 32-bit shifts; the bucket is below 10,000.
\<close>

theorem browser_bucket_agrees:
  "assignBucketWeb sha subscriberId seed = assignBucket sha subscriberId seed
   \<and> assignBucket sha subscriberId seed \<in> {0..<BUCKET_COUNT}"
proof -
  let ?d = "sha (subscriberId @ '':'' @ seed)"
  have b: "0 \<le> uint (?d ! i)" "uint (?d ! i) < 256" for i using byte_bound by blast+
  have top: "js_unsigned (js_shl (uint (?d ! 0)) 24) = uint (?d ! 0) * 2 ^ 24" using js_shl_top b by blast
  have mid: "js_shl (uint (?d ! 1)) 16 = uint (?d ! 1) * 2 ^ 16" "js_shl (uint (?d ! 2)) 8 = uint (?d ! 2) * 2 ^ 8"
    using js_shl_small [of "uint (?d ! 1)" 16] js_shl_small [of "uint (?d ! 2)" 8] b(1) [of 1] b(2) [of 1] b(1) [of 2] b(2) [of 2]
    by simp_all
  let ?h = "uint (?d ! 0) * 2 ^ 24 + uint (?d ! 1) * 2 ^ 16 + uint (?d ! 2) * 2 ^ 8 + uint (?d ! 3)"
  have h: "js_unsigned ?h = ?h"
    unfolding js_unsigned_def uint_word_of_int_eq
    using b(1) [of 0] b(2) [of 0] b(1) [of 1] b(2) [of 1] b(1) [of 2] b(2) [of 2] b(1) [of 3] b(2) [of 3]
    by (intro take_bit_int_eq_self) simp_all
  have "assignBucketWeb sha subscriberId seed = assignBucket sha subscriberId seed"
    unfolding assignBucketWeb_def Let_def top mid h assignBucket_def readUInt32BE_def by (rule refl)
  then show ?thesis using bucket_range by (simp add: BUCKET_COUNT_def)
qed

text \<open>
  In an experiment that the schema accepts, every bucket chooses a variant without the fallback,
  and the number of buckets that choose a variant differs from its weight, in ten-thousandths, by less
  than one.
\<close>

lemma variant_share:
  assumes "experimentSchema data = []" and "i < length (xi_variants data)"
  shows "\<bar>of_nat (card {b \<in> {0..<BUCKET_COUNT}. selectVariant b (xi_variants data) = Some (xi_variants data ! i)})
            - va_weight (xi_variants data ! i) * of_int BUCKET_COUNT\<bar> < 1
       \<and> (\<forall>b \<in> {0..<BUCKET_COUNT}. select_loop b 0 (xi_variants data) \<noteq> None)"
proof
  let ?vs = "xi_variants data"
  have w: "weights_ok ?vs" using schema_weights_ok [OF assms(1)] by simp
  have d: "distinct ?vs" using schema_distinct_ids [OF assms(1)] by (simp add: distinct_map)
  let ?lo = "js_round (weight_before i ?vs)" and ?hi = "js_round (weight_before (Suc i) ?vs)"
  have "b \<in> {0..<BUCKET_COUNT} \<and> selectVariant b ?vs = Some (?vs ! i) \<longleftrightarrow> b \<in> {?lo..<?hi}" for b
    using select_slot_iff [OF w d assms(2), of b] slot_bounds(1,2) [OF w assms(2)]
    unfolding BUCKET_COUNT_def atLeastLessThan_iff by linarith
  then have "{b \<in> {0..<BUCKET_COUNT}. selectVariant b ?vs = Some (?vs ! i)} = {?lo..<?hi}" by blast
  then have "of_nat (card {b \<in> {0..<BUCKET_COUNT}. selectVariant b ?vs = Some (?vs ! i)}) = (of_int ?hi - of_int ?lo :: rat)"
    using slot_bounds(3) [OF w assms(2)] by simp
  then show "\<bar>of_nat (card {b \<in> {0..<BUCKET_COUNT}. selectVariant b ?vs = Some (?vs ! i)})
      - va_weight (?vs ! i) * of_int BUCKET_COUNT\<bar> < 1"
    using js_round_near [of "weight_before i ?vs" "va_weight (?vs ! i) * of_int BUCKET_COUNT"]
    by (simp add: weight_before_Suc [OF assms(2)])
  show "\<forall>b \<in> {0..<BUCKET_COUNT}. select_loop b 0 ?vs \<noteq> None"
    using select_loop_total [OF w] by simp
qed

text \<open>
  The schema asks that every variant receives traffic but rejects the weight zero only. A first
  variant with a positive weight below half a bucket passes and is never chosen.
\<close>

lemma small_weight_gets_no_traffic:
  assumes "0 < w" and "w < 1 / 20000" and "0 \<le> b"
  shows "experimentSchema (sample_experiment w) = [] \<and> selectVariant b (sample_variants w) = Some (sample_variants w ! 1)"
proof
  show "experimentSchema (sample_experiment w) = []" using assms(1,2) by (intro sample_experiment_valid) simp_all
  have "js_round (w * 10000) = 0" unfolding js_round_def using assms(1,2) by (intro floor_unique) simp_all
  then have "\<not> b < js_round (w * 10000)" using assms(3) by simp
  then show "selectVariant b (sample_variants w) = Some (sample_variants w ! 1)"
    by (simp add: selectVariant_def sample_variants_def BUCKET_COUNT_def split: option.split)
qed

text \<open>
  C37. A rule document is stored exactly when it is absent or an object that is at most eight levels
  deep, has at most 256 nodes and arrays of at most 500 items, and uses no operator outside the list.
\<close>

theorem accepted_rules_iff:
  "validateAudienceRules rules = None \<longleftrightarrow>
     rules = JNull \<or> rules = JUndefined
     \<or> (is_object rules \<and> (\<forall>vs. rules \<noteq> JArr vs) \<and> within_depth 0 rules \<and> rules_plain rules \<and> json_nodes rules \<le> MAX_NODES)"
proof -
  have walk: "(case walk rules 0 0 of Inl e \<Rightarrow> Some e | Inr _ \<Rightarrow> None) = None \<longleftrightarrow>
      within_depth 0 rules \<and> rules_plain rules \<and> json_nodes rules \<le> MAX_NODES"
    using walk_measures(1) [of 0 rules 0]
    by (cases "walk rules 0 0") (auto simp: MAX_NODES_def split: if_splits)
  show ?thesis
  proof (cases rules)
    case (JObj ps)
    with walk show ?thesis by (simp add: validateAudienceRules_def is_object_def)
  next
    case (JDate t)
    with walk show ?thesis by (simp add: validateAudienceRules_def is_object_def)
  qed (simp_all add: validateAudienceRules_def is_object_def)
qed

end
