(* ===== verification/Experiment_Engine.thy ===== *)
theory Experiment_Engine
  imports Experiment_Bucketing Outbox
begin

text \<open>
  Experiments and feature flags of a subscriber: \<^verbatim>\<open>apps/api/src/services/experiment-engine.ts\<close>,
  \<^verbatim>\<open>apps/api/src/services/flag-engine.ts\<close> and
  \<^verbatim>\<open>packages/db/src/drizzle/repositories/experiment-assignments.ts\<close>.

  The cache in Redis is the argument \<open>cached\<close>, what the read returned. SHA-256 and \<^verbatim>\<open>sift\<close> are
  parameters, as in \<open>Experiment_Bucketing\<close>. What one call meets (clock, fresh ids, which writes throw)
  is in \<open>eval_env\<close>. A call that throws is the result \<open>None\<close>. Results keep the order of evaluation.

  The lemmas show that an assignment sticks while its variant exists, whatever the weights become; that
  a subscriber is in at most one experiment of an exclusion group; and that raising the rollout of a
  flag rule only moves subscribers to its value.
\<close>

section \<open>Tables\<close>

datatype experiment_status = XS_DRAFT | XS_RUNNING | XS_PAUSED | XS_COMPLETED

record experiment_row =
  xp_id :: string
  xp_projectId :: string
  xp_key :: string
  xp_type :: experiment_type
  xp_status :: experiment_status
  xp_audienceId :: string
  xp_group :: "string option"
  xp_variants :: "variant list"
  xp_metrics :: "string list option"
  xp_createdAt :: timestamp

record assignment =
  as_id :: string
  as_experimentId :: string
  as_subscriberId :: string
  as_variantId :: string
  as_hashVersion :: nat
  as_assignedAt :: timestamp
  as_events :: "json list"
  as_convertedAt :: "timestamp option"
  as_purchaseId :: "string option"
  as_revenue :: "string option"

record new_assignment =
  na_experimentId :: string
  na_subscriberId :: string
  na_variantId :: string
  na_hashVersion :: nat

definition experiment_of :: "experiment_row list \<Rightarrow> string \<Rightarrow> experiment_row option" where
  "experiment_of xs i = find (\<lambda>x. xp_id x = i) xs"

text \<open>The inner join: an assignment with the status and the group of its experiment.\<close>

definition findSubscriberAssignments ::
  "experiment_row list \<Rightarrow> assignment list \<Rightarrow> string \<Rightarrow> string \<Rightarrow> (assignment \<times> experiment_row) list" where
  "findSubscriberAssignments xs db projectId subscriberId =
     concat (map (\<lambda>a. case experiment_of xs (as_experimentId a) of
                        Some x \<Rightarrow> if xp_projectId x = projectId then [(a, x)] else []
                      | None \<Rightarrow> [])
       (filter (\<lambda>a. as_subscriberId a = subscriberId) db))"

definition findAssignmentsWithMetrics ::
  "experiment_row list \<Rightarrow> assignment list \<Rightarrow> string \<Rightarrow> (assignment \<times> experiment_row) list" where
  "findAssignmentsWithMetrics xs db subscriberId =
     concat (map (\<lambda>a. case experiment_of xs (as_experimentId a) of
                        Some x \<Rightarrow> if xp_status x = XS_RUNNING then [(a, x)] else []
                      | None \<Rightarrow> [])
       (filter (\<lambda>a. as_subscriberId a = subscriberId) db))"

definition findAssignmentsByExperiment :: "assignment list \<Rightarrow> string \<Rightarrow> assignment list" where
  "findAssignmentsByExperiment db i = filter (\<lambda>a. as_experimentId a = i) db"

definition countAssignments :: "assignment list \<Rightarrow> string \<Rightarrow> nat" where
  "countAssignments db i = length (findAssignmentsByExperiment db i)"

definition countConvertedAssignments :: "assignment list \<Rightarrow> string \<Rightarrow> nat" where
  "countConvertedAssignments db i =
     length (filter (\<lambda>a. as_experimentId a = i \<and> as_convertedAt a \<noteq> None) db)"

definition assignment_key :: "assignment \<Rightarrow> string \<times> string" where
  "assignment_key a = (as_experimentId a, as_subscriberId a)"

definition new_row :: "(string \<Rightarrow> string) \<Rightarrow> timestamp \<Rightarrow> new_assignment \<Rightarrow> assignment" where
  "new_row freshId now r =
     \<lparr>as_id = freshId (na_experimentId r), as_experimentId = na_experimentId r, as_subscriberId = na_subscriberId r,
      as_variantId = na_variantId r, as_hashVersion = na_hashVersion r, as_assignedAt = now, as_events = [],
      as_convertedAt = None, as_purchaseId = None, as_revenue = None\<rparr>"

definition insert_assignment :: "(string \<Rightarrow> string) \<Rightarrow> timestamp \<Rightarrow> new_assignment \<Rightarrow> assignment list \<Rightarrow> assignment list" where
  "insert_assignment freshId now r db =
     (if (na_experimentId r, na_subscriberId r) \<in> assignment_key ` set db then db else db @ [new_row freshId now r])"

definition insertAssignmentsSkipDuplicates ::
  "(string \<Rightarrow> string) \<Rightarrow> timestamp \<Rightarrow> assignment list \<Rightarrow> new_assignment list \<Rightarrow> assignment list" where
  "insertAssignmentsSkipDuplicates freshId now db rows = fold (insert_assignment freshId now) rows db"

record event_recording =
  ev_events :: "json list"
  ev_convertedAt :: "timestamp option"
  ev_purchaseId :: "string option"
  ev_revenue :: "string option"

definition updateAssignmentEvents :: "assignment list \<Rightarrow> string \<Rightarrow> event_recording \<Rightarrow> assignment list" where
  "updateAssignmentEvents db i p =
     map (\<lambda>a. if as_id a = i
              then a\<lparr>as_events := ev_events p,
                     as_convertedAt := (if ev_convertedAt p = None then as_convertedAt a else ev_convertedAt p),
                     as_purchaseId := (if ev_purchaseId p = None then as_purchaseId a else ev_purchaseId p),
                     as_revenue := (if ev_revenue p = None then as_revenue a else ev_revenue p)\<rparr>
              else a) db"

section \<open>The bundle\<close>

record cached_experiment =
  ce_id :: string
  ce_key :: string
  ce_type :: experiment_type
  ce_audienceId :: string
  ce_group :: "string option"
  ce_variants :: "variant list"
  ce_metrics :: "string list option"

definition BUNDLE_SCHEMA_VERSION :: nat where "BUNDLE_SCHEMA_VERSION = 2"

record experiment_bundle =
  eb_schemaVersion :: nat
  eb_experiments :: "cached_experiment list"
  eb_audiences :: "(string, json) js_map"
  eb_holdoutPercentage :: rat

definition findRunningExperimentsByProject :: "experiment_row list \<Rightarrow> string \<Rightarrow> experiment_row list" where
  "findRunningExperimentsByProject xs projectId =
     sort_key (\<lambda>x. (xp_createdAt x, xp_id x)) (filter (\<lambda>x. xp_projectId x = projectId \<and> xp_status x = XS_RUNNING) xs)"

definition cache_experiment :: "experiment_row \<Rightarrow> cached_experiment" where
  "cache_experiment x =
     \<lparr>ce_id = xp_id x, ce_key = xp_key x, ce_type = xp_type x, ce_audienceId = xp_audienceId x,
      ce_group = xp_group x, ce_variants = xp_variants x, ce_metrics = xp_metrics x\<rparr>"

definition loadBundleFromDb :: "experiment_row list \<Rightarrow> (string, json) js_map \<Rightarrow> rat \<Rightarrow> string \<Rightarrow> experiment_bundle" where
  "loadBundleFromDb xs audiences holdout projectId =
     \<lparr>eb_schemaVersion = BUNDLE_SCHEMA_VERSION,
      eb_experiments = map cache_experiment (findRunningExperimentsByProject xs projectId),
      eb_audiences = audiences, eb_holdoutPercentage = holdout\<rparr>"

definition loadBundle :: "experiment_bundle option \<Rightarrow> experiment_bundle \<Rightarrow> experiment_bundle" where
  "loadBundle cached fresh =
     (case cached of
        Some b \<Rightarrow> if eb_schemaVersion b = BUNDLE_SCHEMA_VERSION then b else fresh
      | None \<Rightarrow> fresh)"

section \<open>Evaluation\<close>

definition HOLDOUT_COHORT_ID :: string where "HOLDOUT_COHORT_ID = ''__rovenue_holdout__''"
definition HOLDOUT_BUCKET_SEED :: string where "HOLDOUT_BUCKET_SEED = ''__rovenue_holdout_seed__''"

record experiment_result =
  xr_experimentId :: string
  xr_key :: string
  xr_type :: experiment_type
  xr_variantId :: string
  xr_variantName :: string
  xr_value :: json

definition result_of :: "cached_experiment \<Rightarrow> variant \<Rightarrow> experiment_result" where
  "result_of e v = \<lparr>xr_experimentId = ce_id e, xr_key = ce_key e, xr_type = ce_type e, xr_variantId = va_id v,
     xr_variantName = va_name v, xr_value = va_value v\<rparr>"

record eval_env =
  vv_sha :: "string \<Rightarrow> 8 word list"
  vv_sift :: "json \<Rightarrow> json \<Rightarrow> bool"
  vv_clock :: timestamp
  vv_freshId :: "string \<Rightarrow> string"
  vv_outboxId :: "string \<Rightarrow> string"
  vv_exposureFails :: "string \<Rightarrow> bool"
  vv_writeFails :: bool

record eval_call =
  vc_projectId :: string
  vc_subscriberId :: string
  vc_attributes :: json

record eval_state =
  vs_claimed :: "string list"
  vs_results :: "(string, experiment_result) js_map"
  vs_new :: "new_assignment list"
  vs_outbox :: outbox

definition publishExposure :: "eval_env \<Rightarrow> string \<Rightarrow> string \<Rightarrow> string \<Rightarrow> string \<Rightarrow> string option \<Rightarrow> outbox_event" where
  "publishExposure env experimentId variantId projectId subscriberId placementId =
     \<lparr>ob_id = vv_outboxId env experimentId, ob_aggregateType = EXPOSURE, ob_aggregateId = experimentId,
      ob_eventType = ''experiment.exposure.recorded'',
      ob_payload = JObj
        [(''experimentId'', JStr experimentId), (''variantId'', JStr variantId), (''projectId'', JStr projectId),
         (''subscriberId'', JStr subscriberId), (''platform'', JNull), (''country'', JNull),
         (''exposedAt'', iso_json (vv_clock env)), (''placementId'', opt_str placementId)],
      ob_createdAt = vv_clock env, ob_publishedAt = None\<rparr>"

definition isHeldOut :: "eval_env \<Rightarrow> experiment_bundle \<Rightarrow> string \<Rightarrow> bool" where
  "isHeldOut env b subscriberId =
     (eb_holdoutPercentage b > 0
      \<and> isInRollout (vv_sha env) subscriberId HOLDOUT_BUCKET_SEED (eb_holdoutPercentage b / 100))"

definition assignmentByExperiment :: "(assignment \<times> experiment_row) list \<Rightarrow> (string, string) js_map" where
  "assignmentByExperiment rows = fold (\<lambda>(a, x). AList.update (as_experimentId a) (as_variantId a)) rows []"

definition namespacesClaimed :: "(assignment \<times> experiment_row) list \<Rightarrow> string list" where
  "namespacesClaimed rows = concat (map (\<lambda>(a, x). if truthy (xp_group x) then [the (xp_group x)] else []) rows)"

definition sticky_variant :: "(string, string) js_map \<Rightarrow> cached_experiment \<Rightarrow> variant option" where
  "sticky_variant assigned e =
     (case map_of assigned (ce_id e) of
        Some i \<Rightarrow> if i = [] then None else find (\<lambda>v. va_id v = i) (ce_variants e)
      | None \<Rightarrow> None)"

definition excluded :: "(string, string) js_map \<Rightarrow> eval_state \<Rightarrow> cached_experiment \<Rightarrow> bool" where
  "excluded assigned st e =
     (truthy (ce_group e) \<and> the (ce_group e) \<in> set (vs_claimed st) \<and> map_of assigned (ce_id e) = None)"

definition evaluate_experiment ::
  "eval_env \<Rightarrow> eval_call \<Rightarrow> experiment_bundle \<Rightarrow> (string, string) js_map \<Rightarrow> cached_experiment \<Rightarrow> eval_state \<Rightarrow> eval_state option" where
  "evaluate_experiment env call b assigned e st =
     (case map_of (eb_audiences b) (ce_audienceId e) of
        None \<Rightarrow> Some st
      | Some rules \<Rightarrow>
          if \<not> matchesAudience (vv_sift env) (vc_attributes call) rules then Some st
          else if isHeldOut env b (vc_subscriberId call) then
            Some (if vv_exposureFails env (ce_id e) then st
                  else st\<lparr>vs_outbox := outbox_insert (vs_outbox st)
                         (publishExposure env (ce_id e) HOLDOUT_COHORT_ID (vc_projectId call) (vc_subscriberId call) None)\<rparr>)
          else if excluded assigned st e then Some st
          else case sticky_variant assigned e of
            Some v \<Rightarrow> Some (st\<lparr>vs_results := AList.update (ce_key e) (result_of e v) (vs_results st)\<rparr>)
          | None \<Rightarrow>
              (case selectVariant (assignBucket (vv_sha env) (vc_subscriberId call) (ce_key e)) (ce_variants e) of
                 None \<Rightarrow> None
               | Some v \<Rightarrow>
                   Some (st\<lparr>vs_results := AList.update (ce_key e) (result_of e v) (vs_results st),
                     vs_new := vs_new st @ [\<lparr>na_experimentId = ce_id e, na_subscriberId = vc_subscriberId call,
                                             na_variantId = va_id v, na_hashVersion = 1\<rparr>],
                     vs_claimed := (if truthy (ce_group e) then the (ce_group e) # vs_claimed st else vs_claimed st)\<rparr>)))"

fun evaluate_loop ::
  "eval_env \<Rightarrow> eval_call \<Rightarrow> experiment_bundle \<Rightarrow> (string, string) js_map \<Rightarrow> cached_experiment list \<Rightarrow> eval_state \<Rightarrow> eval_state option" where
  "evaluate_loop env call b assigned [] st = Some st"
| "evaluate_loop env call b assigned (e # es) st =
     (case evaluate_experiment env call b assigned e st of
        None \<Rightarrow> None
      | Some st' \<Rightarrow> evaluate_loop env call b assigned es st')"

record experiment_world =
  xw_experiments :: "experiment_row list"
  xw_assignments :: "assignment list"
  xw_outbox :: outbox

definition evaluateExperiments ::
  "eval_env \<Rightarrow> experiment_bundle \<Rightarrow> eval_call \<Rightarrow> experiment_world \<Rightarrow>
     (string, experiment_result) js_map option \<times> experiment_world" where
  "evaluateExperiments env b call w =
     (if eb_experiments b = [] then (Some [], w)
      else
        let rows = findSubscriberAssignments (xw_experiments w) (xw_assignments w) (vc_projectId call) (vc_subscriberId call)
        in case evaluate_loop env call b (assignmentByExperiment rows) (eb_experiments b)
                  \<lparr>vs_claimed = namespacesClaimed rows, vs_results = [], vs_new = [], vs_outbox = xw_outbox w\<rparr> of
             None \<Rightarrow> (None, w)
           | Some st \<Rightarrow>
               (Some (vs_results st),
                w\<lparr>xw_outbox := vs_outbox st,
                  xw_assignments := (if vv_writeFails env then xw_assignments w
                     else insertAssignmentsSkipDuplicates (vv_freshId env) (vv_clock env) (xw_assignments w) (vs_new st))\<rparr>))"

text \<open>The offering an experiment chooses, the requested one, or the default of the project.\<close>

definition resolveProductGroup ::
  "(string \<Rightarrow> 'o option) \<Rightarrow> 'o option \<Rightarrow> (string, experiment_result) js_map \<Rightarrow> string option \<Rightarrow> 'o option" where
  "resolveProductGroup findOfferingByIdentifier findDefaultOffering experiments requestedGroup =
     (let override = (case find (\<lambda>r. xr_type r = ET_OFFERING) (map snd experiments) of
                        Some r \<Rightarrow> (case xr_value r of JStr i \<Rightarrow> findOfferingByIdentifier i | _ \<Rightarrow> None)
                      | None \<Rightarrow> None);
          requested = (if truthy requestedGroup then findOfferingByIdentifier (the requestedGroup) else None)
      in case override of Some g \<Rightarrow> Some g
         | None \<Rightarrow> (case requested of Some g \<Rightarrow> Some g | None \<Rightarrow> findDefaultOffering))"

record event_metadata =
  em_purchaseId :: "string option"
  em_revenue :: "string option"
  em_fields :: "(string \<times> json) list"

definition event_json :: "string \<Rightarrow> timestamp \<Rightarrow> event_metadata option \<Rightarrow> json" where
  "event_json eventType now meta =
     JObj ([(''type'', JStr eventType), (''timestamp'', iso_json now)]
       @ (case meta of Some m \<Rightarrow> if em_fields m \<noteq> [] then [(''metadata'', JObj (em_fields m))] else [] | None \<Rightarrow> []))"

definition recording :: "string \<Rightarrow> timestamp \<Rightarrow> event_metadata option \<Rightarrow> assignment \<Rightarrow> experiment_row \<Rightarrow> event_recording" where
  "recording eventType now meta a x =
     (let first = (eventType \<in> set (case xp_metrics x of None \<Rightarrow> [] | Some ms \<Rightarrow> ms) \<and> as_convertedAt a = None)
      in \<lparr>ev_events = as_events a @ [event_json eventType now meta],
          ev_convertedAt = (if first then Some now else None),
          ev_purchaseId = (case meta of Some m \<Rightarrow> if first \<and> truthy (em_purchaseId m) then em_purchaseId m else None | None \<Rightarrow> None),
          ev_revenue = (case meta of Some m \<Rightarrow> if first then em_revenue m else None | None \<Rightarrow> None)\<rparr>)"

definition recordEvent :: "experiment_world \<Rightarrow> string \<Rightarrow> string \<Rightarrow> timestamp \<Rightarrow> event_metadata option \<Rightarrow> experiment_world" where
  "recordEvent w subscriberId eventType now meta =
     w\<lparr>xw_assignments := fold (\<lambda>(a, x) db. updateAssignmentEvents db (as_id a) (recording eventType now meta a x))
        (findAssignmentsWithMetrics (xw_experiments w) (xw_assignments w) subscriberId) (xw_assignments w)\<rparr>"

section \<open>Feature flags\<close>

record flag_rule =
  fr_audienceId :: "string option"
  fr_conditions :: "json option"
  fr_value :: json
  fr_rolloutPercentage :: "rat option"

record cached_flag =
  cf_id :: string
  cf_key :: string
  cf_isEnabled :: bool
  cf_defaultValue :: json
  cf_rules :: "flag_rule list"

record flag_bundle =
  fb_flags :: "cached_flag list"
  fb_audiences :: "(string, json) js_map"

definition rule_targets :: "eval_env \<Rightarrow> json \<Rightarrow> (string, json) js_map \<Rightarrow> flag_rule \<Rightarrow> bool" where
  "rule_targets env attributes audiences r =
     ((case fr_audienceId r of
         None \<Rightarrow> True
       | Some i \<Rightarrow> (case map_of audiences i of None \<Rightarrow> False | Some rules \<Rightarrow> matchesAudience (vv_sift env) attributes rules))
      \<and> (case fr_conditions r of None \<Rightarrow> True | Some c \<Rightarrow> matchesAudience (vv_sift env) attributes c))"

definition rule_seed :: "string \<Rightarrow> nat \<Rightarrow> string" where
  "rule_seed key i = key @ '':'' @ nat_text i"

fun first_rule ::
  "eval_env \<Rightarrow> string \<Rightarrow> string \<Rightarrow> json \<Rightarrow> (string, json) js_map \<Rightarrow> nat \<Rightarrow> flag_rule list \<Rightarrow> json option" where
  "first_rule env key subscriberId attributes audiences i [] = None"
| "first_rule env key subscriberId attributes audiences i (r # rs) =
     (if \<not> rule_targets env attributes audiences r then first_rule env key subscriberId attributes audiences (Suc i) rs
      else case fr_rolloutPercentage r of
        None \<Rightarrow> Some (fr_value r)
      | Some p \<Rightarrow>
          if isInRollout (vv_sha env) subscriberId (rule_seed key i) p then Some (fr_value r)
          else first_rule env key subscriberId attributes audiences (Suc i) rs)"

definition evaluate :: "eval_env \<Rightarrow> cached_flag \<Rightarrow> string \<Rightarrow> json \<Rightarrow> (string, json) js_map \<Rightarrow> json" where
  "evaluate env flag subscriberId attributes audiences =
     (if \<not> cf_isEnabled flag then cf_defaultValue flag
      else case first_rule env (cf_key flag) subscriberId attributes audiences 0 (cf_rules flag) of
        Some v \<Rightarrow> v
      | None \<Rightarrow> cf_defaultValue flag)"

definition evaluateFlag :: "eval_env \<Rightarrow> flag_bundle \<Rightarrow> string \<Rightarrow> string \<Rightarrow> json \<Rightarrow> json" where
  "evaluateFlag env b flagKey subscriberId attributes =
     (case find (\<lambda>f. cf_key f = flagKey) (fb_flags b) of
        None \<Rightarrow> JNull
      | Some f \<Rightarrow> evaluate env f subscriberId attributes (fb_audiences b))"

definition evaluateAllFlags :: "eval_env \<Rightarrow> flag_bundle \<Rightarrow> string \<Rightarrow> json \<Rightarrow> (string, json) js_map" where
  "evaluateAllFlags env b subscriberId attributes =
     fold (\<lambda>f. if cf_isEnabled f then AList.update (cf_key f) (evaluate env f subscriberId attributes (fb_audiences b)) else id)
       (fb_flags b) []"

section \<open>Facts about the tables\<close>

definition assignments_ok :: "assignment list \<Rightarrow> bool" where
  "assignments_ok db = distinct (map assignment_key db)"

definition in_project :: "experiment_row list \<Rightarrow> string \<Rightarrow> string \<Rightarrow> bool" where
  "in_project xs p i = (case experiment_of xs i of None \<Rightarrow> False | Some x \<Rightarrow> xp_projectId x = p)"

definition group_of :: "experiment_row list \<Rightarrow> string \<Rightarrow> string option" where
  "group_of xs i = (case experiment_of xs i of None \<Rightarrow> None | Some x \<Rightarrow> xp_group x)"

lemma joined_mem:
  "(a, x) \<in> set (findSubscriberAssignments xs db p s) \<longleftrightarrow>
     a \<in> set db \<and> as_subscriberId a = s \<and> experiment_of xs (as_experimentId a) = Some x \<and> xp_projectId x = p"
proof (induction db)
  case (Cons b db)
  then show ?case
    by (cases "experiment_of xs (as_experimentId b)") (auto simp: findSubscriberAssignments_def)
qed (simp add: findSubscriberAssignments_def)

lemma assigned_snoc:
  "map_of (assignmentByExperiment (rows @ [(a, x)])) = (map_of (assignmentByExperiment rows))(as_experimentId a \<mapsto> as_variantId a)"
  by (simp add: assignmentByExperiment_def update_conv')

lemma assigned_Some:
  "map_of (assignmentByExperiment rows) i = Some v \<Longrightarrow> \<exists>(a, x) \<in> set rows. as_experimentId a = i \<and> as_variantId a = v"
proof (induction rows rule: rev_induct)
  case (snoc r rows)
  then show ?case by (cases r) (force simp: assigned_snoc split: if_splits)
qed (simp add: assignmentByExperiment_def)

lemma assigned_dom: "map_of (assignmentByExperiment rows) i \<noteq> None \<longleftrightarrow> (\<exists>(a, x) \<in> set rows. as_experimentId a = i)"
proof (induction rows rule: rev_induct)
  case (snoc r rows)
  then show ?case by (cases r) (auto simp: assigned_snoc)
qed (simp add: assignmentByExperiment_def)

abbreviation recorded_for :: "experiment_row list \<Rightarrow> assignment list \<Rightarrow> string \<Rightarrow> string \<Rightarrow> (string, string) js_map" where
  "recorded_for xs db p s \<equiv> assignmentByExperiment (findSubscriberAssignments xs db p s)"

lemma recorded_iff:
  assumes "assignments_ok db" and "in_project xs p i"
  shows "map_of (recorded_for xs db p s) i = Some v \<longleftrightarrow>
     (\<exists>a \<in> set db. as_subscriberId a = s \<and> as_experimentId a = i \<and> as_variantId a = v)"
proof
  assume "map_of (recorded_for xs db p s) i = Some v"
  from assigned_Some [OF this] show "\<exists>a \<in> set db. as_subscriberId a = s \<and> as_experimentId a = i \<and> as_variantId a = v"
    by (auto simp: joined_mem)
next
  assume "\<exists>a \<in> set db. as_subscriberId a = s \<and> as_experimentId a = i \<and> as_variantId a = v"
  then obtain a where a: "a \<in> set db" "as_subscriberId a = s" "as_experimentId a = i" "as_variantId a = v" by blast
  obtain x where x: "experiment_of xs i = Some x" "xp_projectId x = p"
    using assms(2) by (auto simp: in_project_def split: option.splits)
  then have "map_of (recorded_for xs db p s) i \<noteq> None" unfolding assigned_dom using a joined_mem [of a x] by force
  then obtain v' where v': "map_of (recorded_for xs db p s) i = Some v'" by auto
  then obtain b y where "(b, y) \<in> set (findSubscriberAssignments xs db p s)" "as_experimentId b = i" "as_variantId b = v'"
    using assigned_Some by fastforce
  then have b: "b \<in> set db" "assignment_key b = assignment_key a" "as_variantId b = v'"
    using a by (auto simp: joined_mem assignment_key_def)
  then have "b = a" using assms(1) a(1) distinct_map_eqD unfolding assignments_ok_def by metis
  with b a(4) v' show "map_of (recorded_for xs db p s) i = Some v" by simp
qed

lemma recorded_None:
  assumes "in_project xs p i"
  shows "map_of (recorded_for xs db p s) i = None \<longleftrightarrow> (\<forall>a \<in> set db. as_subscriberId a = s \<longrightarrow> as_experimentId a \<noteq> i)"
proof -
  obtain x where x: "experiment_of xs i = Some x" "xp_projectId x = p"
    using assms by (auto simp: in_project_def split: option.splits)
  have "map_of (recorded_for xs db p s) i \<noteq> None \<longleftrightarrow> (\<exists>a \<in> set db. as_subscriberId a = s \<and> as_experimentId a = i)"
  proof -
    have "(\<exists>(a, y) \<in> set (findSubscriberAssignments xs db p s). as_experimentId a = i)
        \<longleftrightarrow> (\<exists>a y. (a, y) \<in> set (findSubscriberAssignments xs db p s) \<and> as_experimentId a = i)" by blast
    then show ?thesis unfolding assigned_dom joined_mem using x by auto
  qed
  then show ?thesis by blast
qed

lemma new_row_key [simp]: "assignment_key (new_row f t r) = (na_experimentId r, na_subscriberId r)"
  "as_experimentId (new_row f t r) = na_experimentId r" "as_subscriberId (new_row f t r) = na_subscriberId r"
  "as_variantId (new_row f t r) = na_variantId r"
  by (simp_all add: new_row_def assignment_key_def)

lemma insert_assignment_ok: "assignments_ok db \<Longrightarrow> assignments_ok (insert_assignment f t r db)"
  by (auto simp: insert_assignment_def assignments_ok_def)

lemma inserts_ok: "assignments_ok db \<Longrightarrow> assignments_ok (insertAssignmentsSkipDuplicates f t db rows)"
  unfolding insertAssignmentsSkipDuplicates_def by (induction rows arbitrary: db) (simp_all add: insert_assignment_ok)

lemma inserts_keep: "a \<in> set db \<Longrightarrow> a \<in> set (insertAssignmentsSkipDuplicates f t db rows)"
  unfolding insertAssignmentsSkipDuplicates_def
  by (induction rows arbitrary: db) (simp_all add: insert_assignment_def)

lemma inserts_mem:
  "a \<in> set (insertAssignmentsSkipDuplicates f t db rows) \<Longrightarrow> a \<in> set db \<or> (\<exists>r \<in> set rows. a = new_row f t r)"
  unfolding insertAssignmentsSkipDuplicates_def
proof (induction rows arbitrary: db)
  case (Cons r rows)
  from Cons.IH [of "insert_assignment f t r db"] Cons.prems show ?case
    by (auto simp: insert_assignment_def split: if_splits)
qed simp

lemma inserts_covers:
  "r \<in> set rows \<Longrightarrow> (na_experimentId r, na_subscriberId r) \<in> assignment_key ` set (insertAssignmentsSkipDuplicates f t db rows)"
  unfolding insertAssignmentsSkipDuplicates_def
proof (induction rows arbitrary: db)
  case (Cons q rows)
  have "assignment_key ` set db' \<subseteq> assignment_key ` set (fold (insert_assignment f t) rows db')" for db'
    using inserts_keep unfolding insertAssignmentsSkipDuplicates_def by blast
  moreover have "(na_experimentId q, na_subscriberId q) \<in> assignment_key ` set (insert_assignment f t q db)"
    by (auto simp: insert_assignment_def rev_image_eqI)
  ultimately show ?case using Cons by auto
qed simp

section \<open>Facts about the evaluation\<close>

definition draw :: "eval_env \<Rightarrow> eval_call \<Rightarrow> cached_experiment \<Rightarrow> variant option" where
  "draw env call e = selectVariant (assignBucket (vv_sha env) (vc_subscriberId call) (ce_key e)) (ce_variants e)"

definition new_of :: "eval_call \<Rightarrow> cached_experiment \<Rightarrow> variant \<Rightarrow> new_assignment" where
  "new_of call e v = \<lparr>na_experimentId = ce_id e, na_subscriberId = vc_subscriberId call, na_variantId = va_id v, na_hashVersion = 1\<rparr>"

definition targeted :: "eval_env \<Rightarrow> eval_call \<Rightarrow> experiment_bundle \<Rightarrow> cached_experiment \<Rightarrow> bool" where
  "targeted env call b e =
     (case map_of (eb_audiences b) (ce_audienceId e) of
        None \<Rightarrow> False
      | Some rules \<Rightarrow> matchesAudience (vv_sift env) (vc_attributes call) rules)"

lemma evaluate_experiment_cases:
  assumes "evaluate_experiment env call b assigned e st = Some st'"
  obtains "vs_results st' = vs_results st" and "vs_new st' = vs_new st" and "vs_claimed st' = vs_claimed st"
    and "\<not> targeted env call b e \<or> isHeldOut env b (vc_subscriberId call) \<or> excluded assigned st e"
  | v where "targeted env call b e" and "\<not> isHeldOut env b (vc_subscriberId call)" and "sticky_variant assigned e = Some v"
      and "st' = st\<lparr>vs_results := AList.update (ce_key e) (result_of e v) (vs_results st)\<rparr>"
  | v where "targeted env call b e" and "\<not> isHeldOut env b (vc_subscriberId call)" and "\<not> excluded assigned st e"
      and "sticky_variant assigned e = None" and "draw env call e = Some v"
      and "vs_results st' = AList.update (ce_key e) (result_of e v) (vs_results st)"
      and "vs_new st' = vs_new st @ [new_of call e v]"
      and "vs_claimed st' = (if truthy (ce_group e) then the (ce_group e) # vs_claimed st else vs_claimed st)"
proof (cases "targeted env call b e \<and> \<not> isHeldOut env b (vc_subscriberId call) \<and> \<not> excluded assigned st e")
  case False
  have "vs_results st' = vs_results st \<and> vs_new st' = vs_new st \<and> vs_claimed st' = vs_claimed st"
    using assms False unfolding evaluate_experiment_def targeted_def by (auto split: option.splits if_splits)
  with False show thesis using that(1) by blast
next
  case True
  then obtain rules where r: "map_of (eb_audiences b) (ce_audienceId e) = Some rules"
      "matchesAudience (vv_sift env) (vc_attributes call) rules"
    by (auto simp: targeted_def split: option.splits)
  show thesis
  proof (cases "sticky_variant assigned e")
    case (Some v)
    then have "st' = st\<lparr>vs_results := AList.update (ce_key e) (result_of e v) (vs_results st)\<rparr>"
      using assms True r by (simp add: evaluate_experiment_def)
    with True Some show thesis using that(2) by blast
  next
    case None
    then obtain v where "draw env call e = Some v"
      using assms True r by (auto simp: evaluate_experiment_def draw_def split: option.splits)
    moreover from this None have "st' = st\<lparr>vs_results := AList.update (ce_key e) (result_of e v) (vs_results st),
        vs_new := vs_new st @ [new_of call e v],
        vs_claimed := (if truthy (ce_group e) then the (ce_group e) # vs_claimed st else vs_claimed st)\<rparr>"
      using assms True r by (simp add: evaluate_experiment_def draw_def new_of_def)
    ultimately show thesis using True None by (intro that(3) [of v]) simp_all
  qed
qed

lemma loop_Cons:
  assumes "evaluate_loop env call b assigned (e # es) st = Some st'"
  obtains st1 where "evaluate_experiment env call b assigned e st = Some st1"
    and "evaluate_loop env call b assigned es st1 = Some st'"
  using assms by (auto split: option.splits)

lemma loop_new_mono: "evaluate_loop env call b assigned es st = Some st' \<Longrightarrow> set (vs_new st) \<subseteq> set (vs_new st')"
proof (induction es arbitrary: st)
  case (Cons e es)
  obtain st1 where one: "evaluate_experiment env call b assigned e st = Some st1"
    and rest: "evaluate_loop env call b assigned es st1 = Some st'" using Cons.prems by (rule loop_Cons)
  show ?case using one Cons.IH [OF rest] by (cases rule: evaluate_experiment_cases) auto
qed simp

lemma loop_results:
  "evaluate_loop env call b assigned es st = Some st' \<Longrightarrow> map_of (vs_results st') k = Some r \<Longrightarrow>
   map_of (vs_results st) k = Some r
   \<or> (\<exists>e \<in> set es. \<exists>v. r = result_of e v \<and> (sticky_variant assigned e = Some v
        \<or> (sticky_variant assigned e = None \<and> new_of call e v \<in> set (vs_new st'))))"
proof (induction es arbitrary: st)
  case (Cons e es)
  obtain st1 where one: "evaluate_experiment env call b assigned e st = Some st1"
    and rest: "evaluate_loop env call b assigned es st1 = Some st'" using Cons.prems(1) by (rule loop_Cons)
  from Cons.IH [OF rest Cons.prems(2)] show ?case
  proof
    assume r: "map_of (vs_results st1) k = Some r"
    show ?thesis using one
    proof (cases rule: evaluate_experiment_cases)
      case (2 v)
      with r show ?thesis by (auto simp: update_conv' split: if_splits)
    next
      case (3 v)
      then have "new_of call e v \<in> set (vs_new st')" using loop_new_mono [OF rest] by auto
      with 3 r show ?thesis by (auto simp: update_conv' split: if_splits)
    qed (use r in auto)
  qed auto
qed simp

lemma loop_new:
  "evaluate_loop env call b assigned es st = Some st' \<Longrightarrow> n \<in> set (vs_new st') \<Longrightarrow>
   n \<in> set (vs_new st)
   \<or> (\<exists>e \<in> set es. \<exists>v. sticky_variant assigned e = None \<and> draw env call e = Some v \<and> n = new_of call e v)"
proof (induction es arbitrary: st)
  case (Cons e es)
  obtain st1 where one: "evaluate_experiment env call b assigned e st = Some st1"
    and rest: "evaluate_loop env call b assigned es st1 = Some st'" using Cons.prems(1) by (rule loop_Cons)
  from Cons.IH [OF rest Cons.prems(2)] show ?case
  proof
    assume n: "n \<in> set (vs_new st1)"
    show ?thesis using one by (cases rule: evaluate_experiment_cases) (use n in auto)
  qed auto
qed simp

lemma loop_keeps:
  "evaluate_loop env call b assigned es st = Some st' \<Longrightarrow> k \<notin> ce_key ` set es \<Longrightarrow>
   map_of (vs_results st') k = map_of (vs_results st) k"
proof (induction es arbitrary: st)
  case (Cons e es)
  obtain st1 where one: "evaluate_experiment env call b assigned e st = Some st1"
    and rest: "evaluate_loop env call b assigned es st1 = Some st'" using Cons.prems(1) by (rule loop_Cons)
  have "map_of (vs_results st1) k = map_of (vs_results st) k"
    using one Cons.prems(2) by (cases rule: evaluate_experiment_cases) (auto simp: update_conv')
  then show ?case using Cons.IH [OF rest] Cons.prems(2) by simp
qed simp

lemma loop_sticky:
  "evaluate_loop env call b assigned es st = Some st' \<Longrightarrow> distinct (map ce_key es) \<Longrightarrow> e \<in> set es \<Longrightarrow>
   targeted env call b e \<Longrightarrow> \<not> isHeldOut env b (vc_subscriberId call) \<Longrightarrow> sticky_variant assigned e = Some v \<Longrightarrow>
   map_of (vs_results st') (ce_key e) = Some (result_of e v)"
proof (induction es arbitrary: st)
  case (Cons d es)
  obtain st1 where one: "evaluate_experiment env call b assigned d st = Some st1"
    and rest: "evaluate_loop env call b assigned es st1 = Some st'" using Cons.prems(1) by (rule loop_Cons)
  show ?case
  proof (cases "e = d")
    case False
    then show ?thesis using Cons.IH [OF rest] Cons.prems by simp
  next
    case True
    have "\<not> excluded assigned st e" using Cons.prems(6) by (auto simp: excluded_def sticky_variant_def split: option.splits)
    with one have r: "map_of (vs_results st1) (ce_key e) = Some (result_of e v)"
      by (cases rule: evaluate_experiment_cases) (use True Cons.prems(4-6) in \<open>auto simp: update_conv'\<close>)
    have "ce_key e \<notin> ce_key ` set es" using Cons.prems(2) True by simp
    then show ?thesis using loop_keeps [OF rest] r by simp
  qed
qed simp

lemma evaluate_run:
  assumes "evaluateExperiments env b call w = (Some res, w')"
  obtains "eb_experiments b = []" and "res = []" and "w' = w"
  | st where "eb_experiments b \<noteq> []"
      and "evaluate_loop env call b (recorded_for (xw_experiments w) (xw_assignments w) (vc_projectId call) (vc_subscriberId call))
        (eb_experiments b) \<lparr>vs_claimed = namespacesClaimed (findSubscriberAssignments (xw_experiments w) (xw_assignments w)
            (vc_projectId call) (vc_subscriberId call)), vs_results = [], vs_new = [], vs_outbox = xw_outbox w\<rparr> = Some st"
      and "res = vs_results st" and "xw_experiments w' = xw_experiments w"
      and "xw_assignments w' = (if vv_writeFails env then xw_assignments w
             else insertAssignmentsSkipDuplicates (vv_freshId env) (vv_clock env) (xw_assignments w) (vs_new st))"
  using assms unfolding evaluateExperiments_def Let_def by (auto split: if_splits option.splits)

text \<open>The bundle is in step with the table: its experiments belong to the project and have its groups.\<close>

definition bundle_in_step :: "experiment_row list \<Rightarrow> string \<Rightarrow> experiment_bundle \<Rightarrow> bool" where
  "bundle_in_step xs p b =
     (distinct (map ce_id (eb_experiments b)) \<and> distinct (map ce_key (eb_experiments b))
      \<and> (\<forall>e \<in> set (eb_experiments b). in_project xs p (ce_id e) \<and> ce_group e = group_of xs (ce_id e)))"

lemma recorded_after:
  assumes "evaluateExperiments env b call w = (Some res, w')" and "\<not> vv_writeFails env"
    and ok: "assignments_ok (xw_assignments w)" and b: "bundle_in_step (xw_experiments w) (vc_projectId call) b"
    and r: "map_of res k = Some r"
    and old: "\<And>i v. map_of (recorded_for (xw_experiments w) (xw_assignments w) (vc_projectId call) (vc_subscriberId call)) (xr_experimentId r) = Some i \<Longrightarrow>
       i \<noteq> [] \<and> (\<forall>e \<in> set (eb_experiments b). ce_id e = xr_experimentId r \<longrightarrow> i \<in> va_id ` set (ce_variants e))"
  shows "assignments_ok (xw_assignments w') \<and> in_project (xw_experiments w') (vc_projectId call) (xr_experimentId r)
    \<and> map_of (recorded_for (xw_experiments w') (xw_assignments w') (vc_projectId call) (vc_subscriberId call)) (xr_experimentId r)
        = Some (xr_variantId r)"
  using assms(1)
proof (cases rule: evaluate_run)
  case 1
  with r show ?thesis by simp
next
  case (2 st)
  let ?xs = "xw_experiments w" and ?db = "xw_assignments w" and ?p = "vc_projectId call" and ?s = "vc_subscriberId call"
  let ?assigned = "recorded_for ?xs ?db ?p ?s"
  have db': "xw_assignments w' = insertAssignmentsSkipDuplicates (vv_freshId env) (vv_clock env) ?db (vs_new st)"
    using 2(5) assms(2) by simp
  have ok': "assignments_ok (xw_assignments w')" unfolding db' by (rule inserts_ok [OF ok])
  obtain e v where e: "e \<in> set (eb_experiments b)" "r = result_of e v"
      "sticky_variant ?assigned e = Some v \<or> (sticky_variant ?assigned e = None \<and> new_of call e v \<in> set (vs_new st))"
    using loop_results [OF 2(2), of k r] r unfolding 2(3) by auto
  have ids: "xr_experimentId r = ce_id e" "xr_variantId r = va_id v" using e(2) by (simp_all add: result_of_def)
  have inp: "in_project ?xs ?p (ce_id e)" using b e(1) by (simp add: bundle_in_step_def)
  have "\<exists>a \<in> set (xw_assignments w'). as_subscriberId a = ?s \<and> as_experimentId a = ce_id e \<and> as_variantId a = va_id v"
    using e(3)
  proof
    assume "sticky_variant ?assigned e = Some v"
    then have "map_of ?assigned (ce_id e) = Some (va_id v)"
      by (auto simp: sticky_variant_def split: option.splits if_splits dest: find_Some_iff_mem)
    then obtain a where "a \<in> set ?db" "as_subscriberId a = ?s" "as_experimentId a = ce_id e" "as_variantId a = va_id v"
      using recorded_iff [OF ok inp] by blast
    then show ?thesis unfolding db' using inserts_keep by blast
  next
    assume n: "sticky_variant ?assigned e = None \<and> new_of call e v \<in> set (vs_new st)"
    have none: "map_of ?assigned (ce_id e) = None"
    proof (cases "map_of ?assigned (ce_id e)")
      case (Some i)
      from old [unfolded ids, OF Some] e(1) obtain u where "u \<in> set (ce_variants e)" "va_id u = i" "i \<noteq> []" by auto
      then have "sticky_variant ?assigned e \<noteq> None" using Some by (auto simp: sticky_variant_def find_None_iff_all)
      with n show ?thesis by simp
    qed
    have "(na_experimentId (new_of call e v), na_subscriberId (new_of call e v)) \<in> assignment_key ` set (xw_assignments w')"
      unfolding db' using n by (intro inserts_covers) simp
    then obtain a where a: "a \<in> set (xw_assignments w')" "assignment_key a = (ce_id e, ?s)"
      by (force simp: new_of_def)
    have "a \<notin> set ?db" using none a(2) recorded_None [OF inp] by (auto simp: assignment_key_def)
    then obtain q where q: "q \<in> set (vs_new st)" "a = new_row (vv_freshId env) (vv_clock env) q"
      using inserts_mem a(1) unfolding db' by blast
    then obtain d u where d: "d \<in> set (eb_experiments b)" "draw env call d = Some u" "q = new_of call d u"
      using loop_new [OF 2(2) q(1)] by auto
    obtain d' u' where d': "d' \<in> set (eb_experiments b)" "draw env call d' = Some u'" "new_of call e v = new_of call d' u'"
      using loop_new [OF 2(2), of "new_of call e v"] n by auto
    have "ce_id d = ce_id e" using a(2) q(2) d(3) by (simp add: new_of_def)
    then have "d = e" using b d(1) e(1) by (auto simp: bundle_in_step_def dest: distinct_map_eqD)
    moreover have "d' = e" using b d'(1,3) e(1) by (auto simp: bundle_in_step_def new_of_def dest: distinct_map_eqD)
    ultimately have "va_id u = va_id v" using d(2) d'(2,3) by (simp add: new_of_def)
    then show ?thesis using a q d \<open>d = e\<close> by (intro bexI [of _ a]) (auto simp: new_of_def assignment_key_def)
  qed
  then show ?thesis using ok' inp recorded_iff [OF ok'] 2(4) ids by simp
qed

section \<open>Exclusion groups\<close>

definition exclusive :: "(string \<Rightarrow> string option) \<Rightarrow> string set \<Rightarrow> bool" where
  "exclusive G H = (\<forall>i \<in> H. \<forall>j \<in> H. truthy (G i) \<and> G i = G j \<longrightarrow> i = j)"

lemma exclusive_mono: "exclusive G H \<Longrightarrow> H' \<subseteq> H \<Longrightarrow> exclusive G H'"
  unfolding exclusive_def by blast

text \<open>
  The invariant of the loop over the experiments held by the subscriber, in the table or among the new
  ones: they exclude each other and their groups are claimed.
\<close>

definition loop_inv :: "(string \<Rightarrow> string option) \<Rightarrow> (string, string) js_map \<Rightarrow> eval_state \<Rightarrow> bool" where
  "loop_inv G assigned st =
     (let H = dom (map_of assigned) \<union> na_experimentId ` set (vs_new st)
      in exclusive G H \<and> (\<forall>i \<in> H. truthy (G i) \<longrightarrow> the (G i) \<in> set (vs_claimed st)))"

lemma loop_inv_step:
  assumes "evaluate_experiment env call b assigned e st = Some st'" and inv: "loop_inv G assigned st"
    and g: "ce_group e = G (ce_id e)"
  shows "loop_inv G assigned st'"
  using assms(1)
proof (cases rule: evaluate_experiment_cases)
  case 1
  with inv show ?thesis by (simp add: loop_inv_def)
next
  case (2 v)
  with inv show ?thesis by (simp add: loop_inv_def)
next
  case (3 v)
  let ?H = "dom (map_of assigned) \<union> na_experimentId ` set (vs_new st)"
  have H': "dom (map_of assigned) \<union> na_experimentId ` set (vs_new st') = insert (ce_id e) ?H"
    using 3(7) by (auto simp: new_of_def)
  have ex: "exclusive G ?H" and claimed: "\<And>i. i \<in> ?H \<Longrightarrow> truthy (G i) \<Longrightarrow> the (G i) \<in> set (vs_claimed st)"
    using inv by (auto simp: loop_inv_def Let_def)
  have same: "ce_id e = j" if "j \<in> ?H" "truthy (G j)" "G (ce_id e) = G j" for j
  proof -
    have "ce_id e \<in> ?H" using 3(3) claimed [OF that(1,2)] that(2,3) g by (auto simp: excluded_def)
    then show ?thesis using ex that unfolding exclusive_def by metis
  qed
  have "exclusive G (insert (ce_id e) ?H)"
    unfolding exclusive_def
  proof (intro ballI impI)
    fix i j assume i: "i \<in> insert (ce_id e) ?H" and j: "j \<in> insert (ce_id e) ?H" and t: "truthy (G i) \<and> G i = G j"
    show "i = j"
    proof (cases "i = ce_id e \<or> j = ce_id e")
      case True
      then show ?thesis using same i j t by (metis insertE)
    next
      case False
      then show ?thesis using i j t ex unfolding exclusive_def by blast
    qed
  qed
  moreover have "the (G i) \<in> set (vs_claimed st')" if "i \<in> insert (ce_id e) ?H" "truthy (G i)" for i
    using that claimed g unfolding 3(8) by auto
  ultimately show ?thesis unfolding loop_inv_def Let_def H' by blast
qed

lemma loop_inv_loop:
  "evaluate_loop env call b assigned es st = Some st' \<Longrightarrow> loop_inv G assigned st \<Longrightarrow>
   \<forall>e \<in> set es. ce_group e = G (ce_id e) \<Longrightarrow> loop_inv G assigned st'"
proof (induction es arbitrary: st)
  case (Cons e es)
  obtain st1 where "evaluate_experiment env call b assigned e st = Some st1"
    "evaluate_loop env call b assigned es st1 = Some st'" using Cons.prems(1) by (rule loop_Cons)
  with Cons show ?case using loop_inv_step by simp
qed simp

definition held :: "assignment list \<Rightarrow> string \<Rightarrow> string set" where
  "held db s = as_experimentId ` {a \<in> set db. as_subscriberId a = s}"

text \<open>All assignments belong to the project, and no subscriber holds two of a group.\<close>

definition world_exclusive :: "string \<Rightarrow> experiment_world \<Rightarrow> bool" where
  "world_exclusive p w =
     (assignments_ok (xw_assignments w)
      \<and> (\<forall>a \<in> set (xw_assignments w). in_project (xw_experiments w) p (as_experimentId a))
      \<and> (\<forall>s. exclusive (group_of (xw_experiments w)) (held (xw_assignments w) s)))"

lemma recorded_dom:
  assumes "\<forall>a \<in> set db. in_project xs p (as_experimentId a)"
  shows "dom (map_of (recorded_for xs db p s)) = held db s"
proof (intro set_eqI iffI)
  fix i assume "i \<in> dom (map_of (recorded_for xs db p s))"
  then obtain v where "map_of (recorded_for xs db p s) i = Some v" by auto
  from assigned_Some [OF this] show "i \<in> held db s" by (auto simp: joined_mem held_def)
next
  fix i assume "i \<in> held db s"
  then obtain a where a: "a \<in> set db" "as_subscriberId a = s" "as_experimentId a = i" by (auto simp: held_def)
  then have "map_of (recorded_for xs db p s) i \<noteq> None" using recorded_None [of xs p i db s] assms by blast
  then show "i \<in> dom (map_of (recorded_for xs db p s))" by blast
qed

lemma claimed_joined:
  assumes "\<forall>a \<in> set db. in_project xs p (as_experimentId a)" and "i \<in> held db s" and "truthy (group_of xs i)"
  shows "the (group_of xs i) \<in> set (namespacesClaimed (findSubscriberAssignments xs db p s))"
proof -
  obtain a where a: "a \<in> set db" "as_subscriberId a = s" "as_experimentId a = i" using assms(2) by (auto simp: held_def)
  then obtain x where x: "experiment_of xs i = Some x" "xp_projectId x = p"
    using assms(1) by (auto simp: in_project_def split: option.splits)
  then have "(a, x) \<in> set (findSubscriberAssignments xs db p s)" using a by (simp add: joined_mem)
  moreover have "group_of xs i = xp_group x" using x by (simp add: group_of_def)
  ultimately show ?thesis using assms(3) unfolding namespacesClaimed_def by force
qed

lemma evaluate_exclusive:
  assumes "evaluateExperiments env b call w = (r, w')" and we: "world_exclusive (vc_projectId call) w"
    and b: "bundle_in_step (xw_experiments w) (vc_projectId call) b"
  shows "world_exclusive (vc_projectId call) w' \<and> xw_experiments w' = xw_experiments w"
proof (cases r)
  case None
  then have "w' = w" using assms(1) unfolding evaluateExperiments_def Let_def by (auto split: if_splits option.splits)
  with we show ?thesis by simp
next
  case (Some res)
  with assms(1) have "evaluateExperiments env b call w = (Some res, w')" by simp
  then show ?thesis
  proof (cases rule: evaluate_run)
    case (2 st)
    let ?xs = "xw_experiments w" and ?db = "xw_assignments w" and ?p = "vc_projectId call" and ?s = "vc_subscriberId call"
    let ?db' = "insertAssignmentsSkipDuplicates (vv_freshId env) (vv_clock env) ?db (vs_new st)"
    have ok: "assignments_ok ?db" and inp: "\<forall>a \<in> set ?db. in_project ?xs ?p (as_experimentId a)"
      and ex: "\<And>s. exclusive (group_of ?xs) (held ?db s)" using we by (auto simp: world_exclusive_def)
    have "loop_inv (group_of ?xs) (recorded_for ?xs ?db ?p ?s) st"
      by (rule loop_inv_loop [OF 2(2)])
        (use b ex claimed_joined [OF inp] in \<open>auto simp: loop_inv_def recorded_dom [OF inp] bundle_in_step_def\<close>)
    then have inv: "exclusive (group_of ?xs) (held ?db ?s \<union> na_experimentId ` set (vs_new st))"
      by (simp add: loop_inv_def recorded_dom [OF inp] Let_def)
    have new: "na_subscriberId n = ?s \<and> in_project ?xs ?p (na_experimentId n)" if "n \<in> set (vs_new st)" for n
      using loop_new [OF 2(2) that] b by (auto simp: new_of_def bundle_in_step_def)
    have "held ?db' s \<subseteq> held ?db s \<union> (if s = ?s then na_experimentId ` set (vs_new st) else {})" for s
      using new by (auto simp: held_def dest!: inserts_mem)
    note sub = this
    have "exclusive (group_of ?xs) (held ?db' s)" for s
    proof (cases "s = ?s")
      case True
      then show ?thesis using exclusive_mono [OF inv] sub [of ?s] by simp
    next
      case False
      then show ?thesis using exclusive_mono [OF ex [of s]] sub [of s] by simp
    qed
    moreover have "\<forall>a \<in> set ?db'. in_project ?xs ?p (as_experimentId a)"
      using inp new by (auto dest!: inserts_mem)
    ultimately have "world_exclusive ?p (w'\<lparr>xw_assignments := ?db'\<rparr>)"
      using inserts_ok [OF ok] 2(4) by (simp add: world_exclusive_def)
    then show ?thesis using 2(4,5) we by (cases "vv_writeFails env") (simp_all add: world_exclusive_def)
  qed (use we in simp)
qed

definition evaluations :: "experiment_world \<Rightarrow> (eval_env \<times> experiment_bundle \<times> eval_call) list \<Rightarrow> experiment_world" where
  "evaluations w calls = foldl (\<lambda>w (env, b, call). snd (evaluateExperiments env b call w)) w calls"


lemma evaluation_keeps:
  assumes "evaluateExperiments env b call w = (r, w')"
  shows "xw_experiments w' = xw_experiments w \<and> set (xw_assignments w) \<subseteq> set (xw_assignments w')
    \<and> (assignments_ok (xw_assignments w) \<longrightarrow> assignments_ok (xw_assignments w'))"
  using assms inserts_ok inserts_keep unfolding evaluateExperiments_def Let_def
  by (auto split: if_splits option.splits)

lemma evaluations_keep:
  "xw_experiments (evaluations w calls) = xw_experiments w
   \<and> set (xw_assignments w) \<subseteq> set (xw_assignments (evaluations w calls))
   \<and> (assignments_ok (xw_assignments w) \<longrightarrow> assignments_ok (xw_assignments (evaluations w calls)))"
proof (induction calls arbitrary: w)
  case (Cons c calls)
  obtain env b call where c: "c = (env, b, call)" by (cases c)
  obtain r w1 where e: "evaluateExperiments env b call w = (r, w1)" by fastforce
  have "evaluations w (c # calls) = evaluations w1 calls" by (simp add: evaluations_def c e)
  then show ?case using Cons.IH [of w1] evaluation_keeps [OF e] by auto
qed (simp add: evaluations_def)

lemma evaluations_exclusive:
  "world_exclusive p w \<Longrightarrow>
   \<forall>(env, b, call) \<in> set calls. vc_projectId call = p \<and> bundle_in_step (xw_experiments w) p b \<Longrightarrow>
   world_exclusive p (evaluations w calls)"
proof (induction calls arbitrary: w)
  case (Cons c calls)
  obtain env b call where c: "c = (env, b, call)" by (cases c)
  obtain r w1 where e: "evaluateExperiments env b call w = (r, w1)" by fastforce
  have "world_exclusive p w1 \<and> xw_experiments w1 = xw_experiments w"
    using evaluate_exclusive [OF e] Cons.prems c by auto
  then have "world_exclusive p (evaluations w1 calls)" using Cons by auto
  then show ?case by (simp add: evaluations_def c e)
qed (simp add: evaluations_def)

lemma in_bundle_result:
  assumes "evaluateExperiments env b call w = (Some res, w1)" and "bundle_in_step (xw_experiments w) (vc_projectId call) b"
    and "map_of res k = Some r"
  shows "in_project (xw_experiments w) (vc_projectId call) (xr_experimentId r)"
  using assms(1)
proof (cases rule: evaluate_run)
  case (2 st)
  obtain e v where "e \<in> set (eb_experiments b)" "r = result_of e v"
    using loop_results [OF 2(2), of k r] assms(3) unfolding 2(3) by auto
  then show ?thesis using assms(2) by (simp add: bundle_in_step_def result_of_def)
qed (use assms(3) in simp)

lemma sticky_found:
  assumes "map_of assigned (ce_id e) = Some i" and "i \<noteq> []" and "i \<in> va_id ` set (ce_variants e)"
  shows "\<exists>v. sticky_variant assigned e = Some v \<and> va_id v = i"
proof -
  obtain v where "find (\<lambda>v. va_id v = i) (ce_variants e) = Some v"
    using assms(3) by (cases "find (\<lambda>v. va_id v = i) (ce_variants e)") (auto simp: find_None_iff_all)
  moreover from this have "va_id v = i" by (auto dest: find_Some_iff_mem)
  ultimately show ?thesis using assms(1,2) by (simp add: sticky_variant_def)
qed

section \<open>Properties\<close>

text \<open>
  C21. Mutual exclusion. From an empty table, after any sequence of evaluations of a project, for any
  subscribers, whatever the audiences, hashes, holdout and failed writes, no subscriber holds assignments
  in two different experiments of the same exclusion group.
\<close>

theorem one_experiment_per_group:
  assumes "xw_assignments w = []"
    and "\<forall>(env, b, call) \<in> set calls. vc_projectId call = p \<and> bundle_in_step (xw_experiments w) p b"
    and "a \<in> set (xw_assignments (evaluations w calls))" and "c \<in> set (xw_assignments (evaluations w calls))"
    and "as_subscriberId a = as_subscriberId c"
    and "group_of (xw_experiments w) (as_experimentId a) = Some g" and "g \<noteq> []"
    and "group_of (xw_experiments w) (as_experimentId c) = Some g"
  shows "a = c"
proof -
  have "world_exclusive p w" using assms(1) by (simp add: world_exclusive_def assignments_ok_def held_def exclusive_def)
  then have we: "world_exclusive p (evaluations w calls)" using evaluations_exclusive assms(2) by blast
  then have "exclusive (group_of (xw_experiments w)) (held (xw_assignments (evaluations w calls)) (as_subscriberId a))"
    using evaluations_keep [of w calls] by (simp add: world_exclusive_def)
  then have "as_experimentId a = as_experimentId c"
    using assms(3-8) unfolding exclusive_def held_def by (auto simp: truthy_def)
  then have "assignment_key a = assignment_key c" using assms(5) by (simp add: assignment_key_def)
  then show ?thesis using we assms(3,4) distinct_map_eqD unfolding world_exclusive_def assignments_ok_def by metis
qed


text \<open>Raising the percentage of a rule.\<close>

lemma isInRollout_mono: "isInRollout sha s seed p \<Longrightarrow> p \<le> q \<Longrightarrow> isInRollout sha s seed q"
proof -
  assume "isInRollout sha s seed p" and "p \<le> q"
  moreover have "p * of_int BUCKET_COUNT \<le> q * of_int BUCKET_COUNT"
    using \<open>p \<le> q\<close> by (intro mult_right_mono) (simp_all add: BUCKET_COUNT_def)
  ultimately show ?thesis by (auto simp: isInRollout_def split: if_splits)
qed

lemma first_rule_ramp:
  assumes "p \<le> q"
  shows "first_rule env key s attrs auds i (xs @ r\<lparr>fr_rolloutPercentage := Some q\<rparr> # ys)
      = first_rule env key s attrs auds i (xs @ r\<lparr>fr_rolloutPercentage := Some p\<rparr> # ys)
    \<or> first_rule env key s attrs auds i (xs @ r\<lparr>fr_rolloutPercentage := Some q\<rparr> # ys) = Some (fr_value r)"
proof (induction xs arbitrary: i)
  case Nil
  have t: "rule_targets env attrs auds (r\<lparr>fr_rolloutPercentage := x\<rparr>) = rule_targets env attrs auds r" for x
    by (simp add: rule_targets_def)
  show ?case using isInRollout_mono [OF _ assms] by (auto simp: t)
next
  case (Cons x xs)
  then show ?case by (auto split: option.splits)
qed

text \<open>
  C23. Ramping up a flag. When the rollout percentage of one rule of a flag is raised, every subscriber
  keeps the value it had or moves to the value of that rule; in particular nobody who had that value
  loses it, whatever the rules before and after it.
\<close>

theorem ramp_up_only_adds:
  assumes "p \<le> q" and "cf_rules flag = xs @ r\<lparr>fr_rolloutPercentage := Some p\<rparr> # ys"
    and "raised = flag\<lparr>cf_rules := xs @ r\<lparr>fr_rolloutPercentage := Some q\<rparr> # ys\<rparr>"
  shows "evaluate env raised s attrs auds = evaluate env flag s attrs auds
    \<or> (cf_isEnabled flag \<and> evaluate env raised s attrs auds = fr_value r)"
proof -
  have f: "cf_defaultValue raised = cf_defaultValue flag" "cf_key raised = cf_key flag" "cf_isEnabled raised = cf_isEnabled flag"
    "cf_rules raised = xs @ r\<lparr>fr_rolloutPercentage := Some q\<rparr> # ys" by (simp_all add: assms(3))
  show ?thesis
    using first_rule_ramp [OF assms(1), of env "cf_key flag" s attrs auds 0 xs r ys]
    unfolding evaluate_def f assms(2) by auto
qed

section \<open>Witnesses\<close>

definition hash_sample :: "string \<Rightarrow> 8 word list" where
  "hash_sample s = (if s = ''sub:A'' then [0, 0, 0x10, 0] else if s = ''sub:flag:0'' then [0, 0, 0x10, 0] else [0, 0, 0x20, 0])"

definition env_sample :: eval_env where
  "env_sample = \<lparr>vv_sha = hash_sample, vv_sift = (\<lambda>q d. True), vv_clock = 7, vv_freshId = (\<lambda>i. ''as-'' @ i),
     vv_outboxId = (\<lambda>i. ''ob-'' @ i), vv_exposureFails = (\<lambda>i. False), vv_writeFails = False\<rparr>"

definition arms :: "rat \<Rightarrow> variant list" where
  "arms p = [\<lparr>va_id = ''on'', va_name = ''On'', va_value = JBool True, va_weight = p\<rparr>,
     \<lparr>va_id = ''off'', va_name = ''Off'', va_value = JBool False, va_weight = 1 - p\<rparr>]"

definition row_sample :: "string \<Rightarrow> rat \<Rightarrow> experiment_row" where
  "row_sample i p = \<lparr>xp_id = i, xp_projectId = ''p'', xp_key = i, xp_type = ET_FLAG, xp_status = XS_RUNNING,
     xp_audienceId = ''all'', xp_group = Some ''g'', xp_variants = arms p, xp_metrics = None, xp_createdAt = 0\<rparr>"

definition experiments_sample :: experiment_world where
  "experiments_sample = \<lparr>xw_experiments = [row_sample ''A'' (1/2), row_sample ''B'' (1/2)], xw_assignments = [], xw_outbox = []\<rparr>"

definition bundle_sample :: "rat \<Rightarrow> experiment_bundle" where
  "bundle_sample p = loadBundleFromDb [row_sample ''A'' p, row_sample ''B'' p] [(''all'', JObj [])] 0 ''p''"

definition call_sample :: eval_call where
  "call_sample = \<lparr>vc_projectId = ''p'', vc_subscriberId = ''sub'', vc_attributes = JObj []\<rparr>"

definition calls_sample :: "(eval_env \<times> experiment_bundle \<times> eval_call) list" where
  "calls_sample = [(env_sample, bundle_sample (1/2), call_sample), (env_sample, bundle_sample (1/1000), call_sample)]"

definition assignment_sample :: assignment where
  "assignment_sample = \<lparr>as_id = ''as-A'', as_experimentId = ''A'', as_subscriberId = ''sub'', as_variantId = ''on'',
     as_hashVersion = 1, as_assignedAt = 7, as_events = [], as_convertedAt = None, as_purchaseId = None, as_revenue = None\<rparr>"

definition result_sample :: experiment_result where
  "result_sample = \<lparr>xr_experimentId = ''A'', xr_key = ''A'', xr_type = ET_FLAG, xr_variantId = ''on'',
     xr_variantName = ''On'', xr_value = JBool True\<rparr>"

lemma first_evaluation_sample:
  "evaluateExperiments env_sample (bundle_sample (1/2)) call_sample experiments_sample
     = (Some [(''A'', result_sample)], experiments_sample\<lparr>xw_assignments := [assignment_sample]\<rparr>)"
  by code_simp

lemma later_evaluation_sample:
  "evaluateExperiments env_sample (bundle_sample (1/1000)) call_sample (experiments_sample\<lparr>xw_assignments := [assignment_sample]\<rparr>)
     = (Some [(''A'', result_sample)], experiments_sample\<lparr>xw_assignments := [assignment_sample]\<rparr>)"
  by code_simp

lemma evaluations_sample:
  "evaluations experiments_sample calls_sample = experiments_sample\<lparr>xw_assignments := [assignment_sample]\<rparr>"
  by (simp add: evaluations_def calls_sample_def first_evaluation_sample later_evaluation_sample)

lemma bundles_in_step_sample:
  "bundle_in_step (xw_experiments experiments_sample) ''p'' (bundle_sample (1/2))"
  "bundle_in_step (xw_experiments experiments_sample) ''p'' (bundle_sample (1/1000))"
  by code_simp+

theorem one_experiment_per_group_witness:
  "assignment_sample \<in> set (xw_assignments (evaluations experiments_sample calls_sample))
   \<and> hd (xw_assignments (evaluations experiments_sample calls_sample)) = assignment_sample"
proof -
  have m: "assignment_sample \<in> set (xw_assignments (evaluations experiments_sample calls_sample))"
    "hd (xw_assignments (evaluations experiments_sample calls_sample)) \<in> set (xw_assignments (evaluations experiments_sample calls_sample))"
    by (simp_all add: evaluations_sample)
  have g: "group_of (xw_experiments experiments_sample) ''A'' = Some ''g''" "xw_assignments experiments_sample = []" by code_simp+
  have h: "hd (xw_assignments (evaluations experiments_sample calls_sample)) = assignment_sample" by (simp add: evaluations_sample)
  have c: "\<forall>(env, b, call) \<in> set calls_sample. vc_projectId call = ''p'' \<and> bundle_in_step (xw_experiments experiments_sample) ''p'' b"
    by (simp add: bundles_in_step_sample calls_sample_def call_sample_def)
  have i: "as_experimentId assignment_sample = ''A''" by (simp add: assignment_sample_def)
  have "hd (xw_assignments (evaluations experiments_sample calls_sample)) = assignment_sample"
    by (rule one_experiment_per_group [where w = experiments_sample and calls = calls_sample and p = "''p''" and g = "''g''"])
      (use m in \<open>simp_all add: h i g c\<close>)
  with m show ?thesis by simp
qed


definition flag_sample :: "rat \<Rightarrow> cached_flag" where
  "flag_sample p = \<lparr>cf_id = ''f'', cf_key = ''flag'', cf_isEnabled = True, cf_defaultValue = JNull,
     cf_rules = [] @ \<lparr>fr_audienceId = None, fr_conditions = None, fr_value = JBool True, fr_rolloutPercentage = None\<rparr>
       \<lparr>fr_rolloutPercentage := Some p\<rparr> # []\<rparr>"

theorem ramp_up_only_adds_witness:
  "evaluate env_sample (flag_sample (1/10)) ''sub'' (JObj []) [] = JNull
   \<and> evaluate env_sample (flag_sample (1/2)) ''sub'' (JObj []) [] = JBool True"
proof -
  have d: "evaluate env_sample (flag_sample (1/10)) ''sub'' (JObj []) [] = JNull"
    "evaluate env_sample (flag_sample (1/2)) ''sub'' (JObj []) [] \<noteq> JNull" by code_simp+
  then show ?thesis
    using ramp_up_only_adds [where p = "1/10" and q = "1/2" and flag = "flag_sample (1/10)" and raised = "flag_sample (1/2)"
        and xs = "[]" and ys = "[]" and env = env_sample and s = "''sub''" and attrs = "JObj []" and auds = "[]"
        and r = "\<lparr>fr_audienceId = None, fr_conditions = None, fr_value = JBool True, fr_rolloutPercentage = None\<rparr>"]
    by (simp add: flag_sample_def)
qed

end
