(* ===== verification/Subscriber_Identity.thy ===== *)
theory Subscriber_Identity
  imports Access_Sync Credit_Ledger Revenue_Events Experiment_Engine Audit_Chain
begin

text \<open>
  Who a device is: the identity part of \<^verbatim>\<open>packages/db/src/drizzle/repositories/subscribers.ts\<close>, the
  resolution of a device id (\<^verbatim>\<open>apps/api/src/lib/resolve-or-create-subscriber.ts\<close>), binding an account
  label to a device (\<^verbatim>\<open>services/identify.ts\<close>) and merging two subscribers
  (\<^verbatim>\<open>services/subscriber-transfer.ts\<close>).

  The table is a list in the order in which the database returns rows to a query without ORDER BY. That
  order is not fixed; where a result depends on it the lemma says which row comes first. A transaction
  that raises leaves the world as it was: its result is the left summand. Waking the config streams of
  the devices has no state.

  The lemmas show that a merge moves purchases, access, revenue, assignments and every wallet to the
  survivor and keeps the unique keys; that the devices of the merged subscriber resolve to the survivor
  while the chain is within its five hops and not beyond; that an erased subscriber is never written; and
  two ways in which identity or credit is lost.
\<close>

section \<open>The table\<close>

record subscriber =
  sb_id :: string
  sb_projectId :: string
  sb_rovenueId :: string
  sb_appUserId :: "string option"
  sb_attributes :: json
  sb_deletedAt :: "timestamp option"
  sb_mergedInto :: "string option"
  sb_identifiedAt :: "timestamp option"
  sb_sdkInstalledAt :: "timestamp option"
  sb_appleAppAccountToken :: "string option"
  sb_lastSeenAt :: timestamp
  sb_lastAccessReconciledAt :: "timestamp option"

definition alive :: "subscriber \<Rightarrow> bool" where
  "alive s = (sb_deletedAt s = None)"

definition countActiveSubscribers :: "subscriber list \<Rightarrow> string \<Rightarrow> nat" where
  "countActiveSubscribers db p = length (filter (\<lambda>s. sb_projectId s = p \<and> alive s) db)"

definition findSubscriberById :: "subscriber list \<Rightarrow> string \<Rightarrow> subscriber option" where
  "findSubscriberById db i = find (\<lambda>s. sb_id s = i) db"

definition findSubscriberByAppUserId :: "subscriber list \<Rightarrow> string \<Rightarrow> string \<Rightarrow> subscriber option" where
  "findSubscriberByAppUserId db projectId appUserId =
     find (\<lambda>s. sb_projectId s = projectId \<and> sb_appUserId s = Some appUserId) db"

definition findSubscriberByRovenueId :: "subscriber list \<Rightarrow> string \<Rightarrow> string \<Rightarrow> subscriber option" where
  "findSubscriberByRovenueId db projectId rovenueId =
     find (\<lambda>s. sb_projectId s = projectId \<and> sb_rovenueId s = rovenueId) db"

definition findSubscriberByAppleAppAccountToken :: "subscriber list \<Rightarrow> string \<Rightarrow> string \<Rightarrow> subscriber option" where
  "findSubscriberByAppleAppAccountToken db projectId token =
     find (\<lambda>s. sb_projectId s = projectId \<and> sb_appleAppAccountToken s = Some token) db"

definition findSubscriberProjectId :: "subscriber list \<Rightarrow> string \<Rightarrow> string option" where
  "findSubscriberProjectId db i = map_option sb_projectId (findSubscriberById db i)"

text \<open>The redirects of merged rows, at most \<open>n\<close> of them.\<close>

fun follow :: "subscriber list \<Rightarrow> nat \<Rightarrow> subscriber \<Rightarrow> subscriber option" where
  "follow db 0 cursor = Some cursor"
| "follow db (Suc n) cursor =
     (if sb_deletedAt cursor \<noteq> None \<and> truthy (sb_mergedInto cursor)
      then case findSubscriberById db (the (sb_mergedInto cursor)) of
             None \<Rightarrow> None
           | Some next \<Rightarrow> follow db n next
      else Some cursor)"

definition resolveSubscriberByRovenueId :: "subscriber list \<Rightarrow> string \<Rightarrow> string \<Rightarrow> subscriber option" where
  "resolveSubscriberByRovenueId db projectId rovenueId =
     (case findSubscriberByRovenueId db projectId rovenueId of
        None \<Rightarrow> None
      | Some s \<Rightarrow>
          if sb_deletedAt s = None then Some s
          else case follow db 5 s of
            None \<Rightarrow> None
          | Some cursor \<Rightarrow> if sb_deletedAt cursor \<noteq> None then None else Some cursor)"

definition resolveSubscriberByRovenueIdOrLegacy :: "subscriber list \<Rightarrow> string \<Rightarrow> string \<Rightarrow> subscriber option" where
  "resolveSubscriberByRovenueIdOrLegacy db projectId key =
     (case resolveSubscriberByRovenueId db projectId key of
        Some s \<Rightarrow> Some s
      | None \<Rightarrow> findSubscriberByAppUserId db projectId key)"

datatype identity_error =
    Unique_Violation
  | Device_Not_Found
  | Device_Merged_Unresolved
  | Same_Account
  | Source_Not_Found | Source_Already_Transferred
  | Target_Not_Found | Target_Already_Transferred
  | Source_Not_In_Project | Target_Not_In_Project
  | Ledger_Error credit_error
  | Audit_Error audit_error

definition update_row :: "string \<Rightarrow> (subscriber \<Rightarrow> subscriber) \<Rightarrow> subscriber list \<Rightarrow> subscriber list" where
  "update_row i f db = map (\<lambda>s. if sb_id s = i then f s else s) db"

text \<open>The partial unique index on the label: among live rows.\<close>

definition label_free :: "subscriber list \<Rightarrow> subscriber \<Rightarrow> string \<Rightarrow> bool" where
  "label_free db s appUserId =
     (\<not> alive s \<or> \<not> list_ex (\<lambda>r. sb_id r \<noteq> sb_id s \<and> alive r \<and> sb_projectId r = sb_projectId s \<and> sb_appUserId r = Some appUserId) db)"

definition setAppUserId :: "string \<Rightarrow> string \<Rightarrow> timestamp \<Rightarrow> subscriber list \<Rightarrow> identity_error + subscriber list" where
  "setAppUserId i appUserId identifiedAt db =
     (if list_all (\<lambda>s. sb_id s = i \<longrightarrow> label_free db s appUserId) db
      then Inr (update_row i (\<lambda>s. s\<lparr>sb_appUserId := Some appUserId, sb_identifiedAt := Some identifiedAt\<rparr>) db)
      else Inl Unique_Violation)"

definition updateSubscriberAttributesById :: "string \<Rightarrow> json \<Rightarrow> timestamp \<Rightarrow> subscriber list \<Rightarrow> subscriber list" where
  "updateSubscriberAttributesById i attributes now = update_row i (\<lambda>s. s\<lparr>sb_attributes := attributes, sb_lastSeenAt := now\<rparr>)"

definition setAppleAppAccountToken :: "string \<Rightarrow> string \<Rightarrow> subscriber list \<Rightarrow> identity_error + subscriber list" where
  "setAppleAppAccountToken i token db =
     (if list_ex (\<lambda>s. sb_id s = i \<and> list_ex (\<lambda>r. sb_id r \<noteq> i \<and> sb_projectId r = sb_projectId s
           \<and> sb_appleAppAccountToken r = Some token) db) db
      then Inl Unique_Violation
      else Inr (update_row i (\<lambda>s. s\<lparr>sb_appleAppAccountToken := Some token\<rparr>) db))"

definition clearAppleAppAccountToken :: "string \<Rightarrow> subscriber list \<Rightarrow> subscriber list" where
  "clearAppleAppAccountToken i = update_row i (\<lambda>s. s\<lparr>sb_appleAppAccountToken := None\<rparr>)"

definition softDeleteSubscriberAsMerged :: "string \<Rightarrow> string \<Rightarrow> timestamp \<Rightarrow> subscriber list \<Rightarrow> subscriber list" where
  "softDeleteSubscriberAsMerged i mergedIntoId deletedAt =
     update_row i (\<lambda>s. s\<lparr>sb_deletedAt := Some deletedAt, sb_mergedInto := Some mergedIntoId\<rparr>)"

definition anonymizeSubscriberRow :: "string \<Rightarrow> string \<Rightarrow> timestamp \<Rightarrow> subscriber list \<Rightarrow> subscriber list" where
  "anonymizeSubscriberRow i anonymousId deletedAt =
     update_row i (\<lambda>s. s\<lparr>sb_appUserId := Some anonymousId, sb_attributes := JObj [],
       sb_appleAppAccountToken := None, sb_deletedAt := Some deletedAt\<rparr>)"

record upsert_input =
  ui_projectId :: string
  ui_rovenueId :: string
  ui_appUserId :: "string option"
  ui_createAttributes :: "json option"
  ui_updateAttributes :: "json option"
  ui_appleAppAccountToken :: "string option"
  ui_sdkInstalledAt :: "timestamp option"

definition new_subscriber :: "string \<Rightarrow> timestamp \<Rightarrow> upsert_input \<Rightarrow> subscriber" where
  "new_subscriber freshId now u =
     \<lparr>sb_id = freshId, sb_projectId = ui_projectId u, sb_rovenueId = ui_rovenueId u, sb_appUserId = ui_appUserId u,
      sb_attributes = (case ui_createAttributes u of Some a \<Rightarrow> a | None \<Rightarrow> JObj []), sb_deletedAt = None, sb_mergedInto = None,
      sb_identifiedAt = None, sb_sdkInstalledAt = ui_sdkInstalledAt u,
      sb_appleAppAccountToken = ui_appleAppAccountToken u, sb_lastSeenAt = now,
      sb_lastAccessReconciledAt = None\<rparr>"

definition conflict_update :: "timestamp \<Rightarrow> upsert_input \<Rightarrow> subscriber \<Rightarrow> subscriber" where
  "conflict_update now u s =
     s\<lparr>sb_lastSeenAt := now,
       sb_attributes := (case ui_updateAttributes u of Some a \<Rightarrow> a | None \<Rightarrow> sb_attributes s),
       sb_appleAppAccountToken := (case ui_appleAppAccountToken u of Some t \<Rightarrow> Some t | None \<Rightarrow> sb_appleAppAccountToken s)\<rparr>"

definition token_taken :: "subscriber list \<Rightarrow> string \<Rightarrow> string \<Rightarrow> string option \<Rightarrow> bool" where
  "token_taken db i projectId token =
     (token \<noteq> None \<and> list_ex (\<lambda>r. sb_id r \<noteq> i \<and> sb_projectId r = projectId \<and> sb_appleAppAccountToken r = token) db)"

definition upsertSubscriber ::
  "string \<Rightarrow> timestamp \<Rightarrow> upsert_input \<Rightarrow> subscriber list \<Rightarrow> identity_error + subscriber \<times> subscriber list" where
  "upsertSubscriber freshId now u db =
     (case findSubscriberByRovenueId db (ui_projectId u) (ui_rovenueId u) of
        Some s \<Rightarrow>
          if token_taken db (sb_id s) (ui_projectId u) (ui_appleAppAccountToken u) then Inl Unique_Violation
          else Inr (conflict_update now u s, update_row (sb_id s) (conflict_update now u) db)
      | None \<Rightarrow>
          let s = new_subscriber freshId now u
          in if token_taken db freshId (ui_projectId u) (ui_appleAppAccountToken u)
                \<or> (case ui_appUserId u of None \<Rightarrow> False | Some a \<Rightarrow> \<not> label_free db s a)
             then Inl Unique_Violation
             else Inr (s, db @ [s]))"

section \<open>Resolution for writes\<close>

text \<open>The result: the row, whether its chain is dead, and the table.\<close>

definition resolveSubscriberForWrite ::
  "string \<Rightarrow> timestamp \<Rightarrow> string \<Rightarrow> string \<Rightarrow> json \<Rightarrow> bool \<Rightarrow> subscriber list \<Rightarrow>
     identity_error + (subscriber \<times> bool) \<times> subscriber list" where
  "resolveSubscriberForWrite freshId now projectId rovenueId createAttributes markSdkInstall db =
     (case resolveSubscriberByRovenueId db projectId rovenueId of
        Some s \<Rightarrow> Inr ((s, False), db)
      | None \<Rightarrow>
          (case findSubscriberByRovenueId db projectId rovenueId of
             Some s \<Rightarrow> Inr ((s, True), db)
           | None \<Rightarrow>
               (case upsertSubscriber freshId now
                       \<lparr>ui_projectId = projectId, ui_rovenueId = rovenueId, ui_appUserId = None,
                        ui_createAttributes = Some createAttributes, ui_updateAttributes = None,
                        ui_appleAppAccountToken = None, ui_sdkInstalledAt = (if markSdkInstall then Some now else None)\<rparr> db of
                  Inl e \<Rightarrow> Inl e
                | Inr (s, db') \<Rightarrow> Inr ((s, False), db'))))"

definition resolveOrCreateSubscriber ::
  "string \<Rightarrow> timestamp \<Rightarrow> string \<Rightarrow> string \<Rightarrow> string option \<Rightarrow> subscriber list \<Rightarrow>
     identity_error + (subscriber \<times> bool) \<times> subscriber list" where
  "resolveOrCreateSubscriber freshId now projectId key platform db =
     resolveSubscriberForWrite freshId now projectId key
       (if truthy platform
        then JObj [(''platform'', JObj [(''value'', JStr (the platform)), (''updatedAt'', iso_json now), (''source'', JStr ''sdk'')])]
        else JObj []) True db"

section \<open>Merging\<close>

record merge_world =
  mw_subscribers :: "subscriber list"
  mw_purchases :: purchase_db
  mw_revenue :: revenue_db
  mw_access :: access_db
  mw_assignments :: "assignment list"
  mw_ledger :: ledger_db
  mw_audit :: "audit_row list"

record merge_env =
  me_now :: timestamp
  me_txStart :: timestamp
  me_rowId :: "string \<Rightarrow> bool \<Rightarrow> string"
  me_outboxId :: "string \<Rightarrow> bool \<Rightarrow> string"
  me_sha256 :: "string \<Rightarrow> string"
  me_auditId :: string
  me_products :: "string \<rightharpoonup> string list"
  me_syncNow :: timestamp
  me_syncFails :: bool

definition reassignPurchases :: "string \<Rightarrow> string \<Rightarrow> purchase_db \<Rightarrow> purchase_db" where
  "reassignPurchases from to db =
     db\<lparr>pd_rows := map (\<lambda>r. if pu_subscriberId r = from then r\<lparr>pu_subscriberId := to\<rparr> else r) (pd_rows db)\<rparr>"

definition reassignRevenueEvents :: "string \<Rightarrow> string \<Rightarrow> revenue_db \<Rightarrow> revenue_db" where
  "reassignRevenueEvents from to db =
     db\<lparr>rd_rows := map (\<lambda>r. if rv_subscriberId r = from then r\<lparr>rv_subscriberId := to\<rparr> else r) (rd_rows db)\<rparr>"

definition reassignSubscriberAccess :: "string \<Rightarrow> string \<Rightarrow> access_db \<Rightarrow> access_db" where
  "reassignSubscriberAccess from to db =
     db\<lparr>ad_rows := map (\<lambda>r. if ar_subscriberId r = from then r\<lparr>ar_subscriberId := to\<rparr> else r) (ad_rows db)\<rparr>"

definition reassignExperimentAssignments :: "string \<Rightarrow> string \<Rightarrow> assignment list \<Rightarrow> assignment list" where
  "reassignExperimentAssignments from to db =
     map (\<lambda>a. if as_subscriberId a = from then a\<lparr>as_subscriberId := to\<rparr> else a)
       (filter (\<lambda>a. \<not> (as_subscriberId a = from
                      \<and> list_ex (\<lambda>b. as_experimentId b = as_experimentId a \<and> as_subscriberId b = to) db)) db)"

definition merge_tx :: "merge_env \<Rightarrow> string \<Rightarrow> bool \<Rightarrow> ledger_tx" where
  "merge_tx env currencyId outgoing =
     \<lparr>lt_start = me_txStart env, lt_rowId = me_rowId env currencyId outgoing, lt_outboxId = me_outboxId env currencyId outgoing\<rparr>"

definition transfer_entry :: "string \<Rightarrow> string \<Rightarrow> string \<Rightarrow> credit_ledger_type \<Rightarrow> int \<Rightarrow> int \<Rightarrow> string \<Rightarrow> string \<Rightarrow> ledger_entry" where
  "transfer_entry projectId subscriberId currencyId ty amount balance referenceId description =
     \<lparr>le_projectId = projectId, le_subscriberId = subscriberId, le_currencyId = currencyId, le_type = ty, le_amount = amount,
      le_balance = balance, le_referenceType = Some ''transfer'', le_referenceId = Some referenceId,
      le_description = Some description, le_metadata = None\<rparr>"

text \<open>
  The loop over the balances of the source, which were read before it; the table may have changed since.
\<close>

fun move_credits ::
  "merge_env \<Rightarrow> string \<Rightarrow> string \<times> string \<Rightarrow> string \<times> string \<Rightarrow> (string \<times> int) list \<Rightarrow> int \<Rightarrow> ledger_db \<Rightarrow> credit_error + int \<times> ledger_db" where
  "move_credits env projectId from to [] moved db = Inr (moved, db)"
| "move_credits env projectId from to ((currencyId, balance) # rest) moved db =
     (if balance \<le> 0 then move_credits env projectId from to rest moved db
      else case insertCreditLedger (merge_tx env currencyId True) db
             (transfer_entry projectId (fst from) currencyId CL_TRANSFER_OUT (- balance) 0 (fst to) (''Credits transferred to '' @ snd to)) of
        Inl e \<Rightarrow> Inl e
      | Inr (_, db1) \<Rightarrow>
          (case insertCreditLedger (merge_tx env currencyId False) db1
                  (transfer_entry projectId (fst to) currencyId CL_TRANSFER_IN balance (getBalance db1 (fst to) currencyId + balance)
                    (fst from) (''Credits received from '' @ snd from)) of
             Inl e \<Rightarrow> Inl e
           | Inr (_, db2) \<Rightarrow> move_credits env projectId from to rest (moved + balance) db2))"

definition in_this_project :: "subscriber list \<Rightarrow> string \<Rightarrow> string \<Rightarrow> bool" where
  "in_this_project db projectId i = (case findSubscriberById db i of None \<Rightarrow> False | Some s \<Rightarrow> sb_projectId s = projectId)"

definition reassignAllAssets ::
  "merge_env \<Rightarrow> string \<Rightarrow> string \<times> string \<Rightarrow> string \<times> string \<Rightarrow> merge_world \<Rightarrow> identity_error + int \<times> merge_world" where
  "reassignAllAssets env projectId from to w =
     (if \<not> in_this_project (mw_subscribers w) projectId (fst from) then Inl Source_Not_In_Project
      else if \<not> in_this_project (mw_subscribers w) projectId (fst to) then Inl Target_Not_In_Project
      else case move_credits env projectId from to (findAllBalances (mw_ledger w) (fst from)) 0 (mw_ledger w) of
        Inl e \<Rightarrow> Inl (Ledger_Error e)
      | Inr (creditsTransferred, ledger) \<Rightarrow>
          Inr (creditsTransferred,
               w\<lparr>mw_purchases := reassignPurchases (fst from) (fst to) (mw_purchases w),
                 mw_revenue := reassignRevenueEvents (fst from) (fst to) (mw_revenue w),
                 mw_access := reassignSubscriberAccess (fst from) (fst to) (mw_access w),
                 mw_assignments := reassignExperimentAssignments (fst from) (fst to) (mw_assignments w),
                 mw_ledger := ledger,
                 mw_subscribers := softDeleteSubscriberAsMerged (fst from) (fst to) (me_now env) (mw_subscribers w)\<rparr>))"

definition safeSyncAccessAfterMerge :: "merge_env \<Rightarrow> string \<Rightarrow> merge_world \<Rightarrow> merge_world" where
  "safeSyncAccessAfterMerge env subscriberId w =
     (if me_syncFails env then w
      else w\<lparr>mw_access := syncAccess (mw_purchases w) (me_products env) subscriberId (me_syncNow env) (mw_access w)\<rparr>)"

definition merge_audit ::
  "merge_env \<Rightarrow> string \<Rightarrow> string option \<Rightarrow> string \<Rightarrow> json \<Rightarrow> json \<Rightarrow> merge_world \<Rightarrow> identity_error + merge_world" where
  "merge_audit env projectId userId resourceId before after w =
     (if \<not> truthy userId then Inr w
      else case audit (me_sha256 env) (me_now env) (me_auditId env)
             \<lparr>en_projectId = projectId, en_userId = userId, en_action = ''update'', en_resource = ''subscriber'',
              en_resourceId = resourceId, en_before = Some before, en_after = Some after,
              en_ipAddress = None, en_userAgent = None\<rparr> (mw_audit w) of
        Inl e \<Rightarrow> Inl (Audit_Error e)
      | Inr rows \<Rightarrow> Inr (w\<lparr>mw_audit := rows\<rparr>))"

record transfer_result =
  tf_fromSubscriberId :: string
  tf_toSubscriberId :: string
  tf_creditsTransferred :: int

definition transferSubscriber ::
  "merge_env \<Rightarrow> string \<Rightarrow> string \<Rightarrow> string \<Rightarrow> string option \<Rightarrow> merge_world \<Rightarrow> identity_error + transfer_result \<times> merge_world" where
  "transferSubscriber env projectId fromAppUserId toAppUserId userId w =
     (if fromAppUserId = toAppUserId then Inl Same_Account
      else case findSubscriberByAppUserId (mw_subscribers w) projectId fromAppUserId of
        None \<Rightarrow> Inl Source_Not_Found
      | Some from \<Rightarrow>
          if sb_deletedAt from \<noteq> None then Inl Source_Already_Transferred
          else case findSubscriberByAppUserId (mw_subscribers w) projectId toAppUserId of
            None \<Rightarrow> Inl Target_Not_Found
          | Some to \<Rightarrow>
              if sb_deletedAt to \<noteq> None then Inl Target_Already_Transferred
              else case reassignAllAssets env projectId (sb_id from, fromAppUserId) (sb_id to, toAppUserId) w of
                Inl e \<Rightarrow> Inl e
              | Inr (creditsTransferred, w1) \<Rightarrow>
                  (case merge_audit env projectId userId (sb_id from) (JObj [(''appUserId'', JStr fromAppUserId)])
                          (JObj [(''mergedInto'', JStr (sb_id to)), (''appUserId'', JStr toAppUserId)]) w1 of
                     Inl e \<Rightarrow> Inl e
                   | Inr w2 \<Rightarrow>
                       Inr (\<lparr>tf_fromSubscriberId = sb_id from, tf_toSubscriberId = sb_id to,
                              tf_creditsTransferred = creditsTransferred\<rparr>,
                            safeSyncAccessAfterMerge env (sb_id to) w2)))"

section \<open>Binding an account\<close>

record bind_result =
  br_subscriberId :: string
  br_appUserId :: string
  br_transferred :: bool

definition bind_self :: "subscriber list \<Rightarrow> string \<Rightarrow> string \<Rightarrow> identity_error + subscriber" where
  "bind_self db projectId rovenueId =
     (case findSubscriberByRovenueId db projectId rovenueId of
        None \<Rightarrow> Inl Device_Not_Found
      | Some s \<Rightarrow>
          if sb_deletedAt s = None then Inr s
          else case resolveSubscriberByRovenueId db projectId rovenueId of
            None \<Rightarrow> Inl Device_Merged_Unresolved
          | Some canonical \<Rightarrow> Inr canonical)"

definition take_over ::
  "merge_env \<Rightarrow> string \<Rightarrow> string \<Rightarrow> string \<Rightarrow> subscriber \<Rightarrow> merge_world \<Rightarrow> identity_error + bool \<times> merge_world" where
  "take_over env projectId rovenueId appUserId self w =
     (case findSubscriberByAppUserId (mw_subscribers w) projectId appUserId of
        None \<Rightarrow> Inr (False, w)
      | Some other \<Rightarrow>
          if sb_deletedAt other = None \<and> sb_id other \<noteq> sb_id self
          then (case reassignAllAssets env projectId (sb_id other, appUserId) (sb_id self, rovenueId) w of
                  Inl e \<Rightarrow> Inl e
                | Inr (_, w') \<Rightarrow> Inr (True, w'))
          else Inr (False, w))"

definition bindAppUserId ::
  "merge_env \<Rightarrow> string \<Rightarrow> string \<Rightarrow> string \<Rightarrow> string option \<Rightarrow> merge_world \<Rightarrow> identity_error + bind_result \<times> merge_world" where
  "bindAppUserId env projectId rovenueId appUserId userId w =
     (case bind_self (mw_subscribers w) projectId rovenueId of
        Inl e \<Rightarrow> Inl e
      | Inr self \<Rightarrow>
          let result = (\<lambda>transferred. \<lparr>br_subscriberId = sb_id self, br_appUserId = appUserId, br_transferred = transferred\<rparr>)
          in if sb_appUserId self = Some appUserId
             then (if sb_identifiedAt self \<noteq> None then Inr (result False, w)
                   else case setAppUserId (sb_id self) appUserId (me_now env) (mw_subscribers w) of
                     Inl e \<Rightarrow> Inl e
                   | Inr db \<Rightarrow> Inr (result False, w\<lparr>mw_subscribers := db\<rparr>))
             else case take_over env projectId rovenueId appUserId self w of
               Inl e \<Rightarrow> Inl e
             | Inr (transferred, w1) \<Rightarrow>
                 (case setAppUserId (sb_id self) appUserId (me_now env) (mw_subscribers w1) of
                    Inl e \<Rightarrow> Inl e
                  | Inr db \<Rightarrow>
                      (case merge_audit env projectId userId (sb_id self)
                              (JObj [(''rovenueId'', JStr rovenueId), (''appUserId'', opt_str (sb_appUserId self))])
                              (JObj [(''appUserId'', JStr appUserId), (''transferred'', JBool transferred)])
                              (w1\<lparr>mw_subscribers := db\<rparr>) of
                         Inl e \<Rightarrow> Inl e
                       | Inr w2 \<Rightarrow>
                           Inr (result transferred,
                                if transferred then safeSyncAccessAfterMerge env (sb_id self) w2 else w2))))"

section \<open>Wallets in a merge\<close>

lemma getBalance_insert:
  assumes "insertCreditLedger tx db e = Inr (row, db')" and "newest_stamp tx db (le_subscriberId e) (le_currencyId e)"
  shows "getBalance db' s c =
    (if s = le_subscriberId e \<and> c = le_currencyId e then le_balance e else getBalance db s c)"
proof (cases "s = le_subscriberId e \<and> c = le_currencyId e")
  case True
  have "latest (wallet_rows db s c @ [row]) = Some row"
    by (rule latest_newest) (use assms(2) True insert_stamp [OF assms(1)] in \<open>auto simp: newest_stamp_def\<close>)
  moreover have "le_balance row = le_balance e" using insertCreditLedger_Inr(1) [OF assms(1)] by simp
  ultimately show ?thesis using True by (simp add: getBalance_latest wallet_rows_insert [OF assms(1)])
next
  case False
  then show ?thesis by (auto simp: getBalance_latest wallet_rows_insert [OF assms(1)])
qed

definition stamps_newest :: "merge_env \<Rightarrow> string \<Rightarrow> string \<Rightarrow> string set \<Rightarrow> ledger_db \<Rightarrow> bool" where
  "stamps_newest env from to cs db =
     (\<forall>c \<in> cs. newest_stamp (merge_tx env c True) db from c \<and> newest_stamp (merge_tx env c False) db to c)"

lemma transfer_entry_fields [simp]:
  "le_subscriberId (transfer_entry p s c ty a b r d) = s" "le_currencyId (transfer_entry p s c ty a b r d) = c"
  "le_amount (transfer_entry p s c ty a b r d) = a" "le_balance (transfer_entry p s c ty a b r d) = b"
  by (simp_all add: transfer_entry_def)

lemma newest_other_wallet:
  "insertCreditLedger tx db e = Inr (row, db') \<Longrightarrow> newest_stamp tx' db s c \<Longrightarrow>
   \<not> (s = le_subscriberId e \<and> c = le_currencyId e) \<Longrightarrow> newest_stamp tx' db' s c"
  by (auto simp: newest_stamp_def wallet_rows_insert)

lemma stamps_other_currency:
  "insertCreditLedger tx db e = Inr (row, db') \<Longrightarrow> stamps_newest env from to cs db \<Longrightarrow> le_currencyId e \<notin> cs \<Longrightarrow>
   stamps_newest env from to cs db'"
  unfolding stamps_newest_def by (metis newest_other_wallet)

lemma move_credits_Cons:
  assumes "move_credits env p from to ((c, b) # bs) n db = Inr (m, db')" and "0 < b"
  obtains r1 db1 r2 db2 where
    "insertCreditLedger (merge_tx env c True) db
       (transfer_entry p (fst from) c CL_TRANSFER_OUT (- b) 0 (fst to) (''Credits transferred to '' @ snd to)) = Inr (r1, db1)"
    and "insertCreditLedger (merge_tx env c False) db1
       (transfer_entry p (fst to) c CL_TRANSFER_IN b (getBalance db1 (fst to) c + b) (fst from) (''Credits received from '' @ snd from)) = Inr (r2, db2)"
    and "move_credits env p from to bs (n + b) db2 = Inr (m, db')"
  using assms by (auto split: sum.splits)

text \<open>What the loop leaves, whatever the balances it was given.\<close>

definition moved :: "string \<Rightarrow> string \<Rightarrow> (string \<times> int) list \<Rightarrow> ledger_db \<Rightarrow> string \<Rightarrow> string \<Rightarrow> int" where
  "moved from to bs db s c =
     (case map_of bs c of
        Some b \<Rightarrow> if 0 < b \<and> s = from then 0 else if 0 < b \<and> s = to then getBalance db to c + b else getBalance db s c
      | None \<Rightarrow> getBalance db s c)"

lemma move_credits_moved:
  assumes "move_credits env p from to bs n db = Inr (m, db')" and "fst from \<noteq> fst to" and "distinct (map fst bs)"
    and "stamps_newest env (fst from) (fst to) (fst ` set bs) db"
  shows "getBalance db' s c = moved (fst from) (fst to) bs db s c"
  using assms
proof (induction bs arbitrary: n db)
  case Nil
  then show ?case by (simp add: moved_def)
next
  case (Cons cb bs)
  obtain d b where cb: "cb = (d, b)" by (cases cb)
  have new: "d \<notin> fst ` set bs" using Cons.prems(3) cb by simp
  then have none: "map_of bs d = None" by (simp add: map_of_eq_None_iff)
  show ?case
  proof (cases "0 < b")
    case False
    then have "getBalance db' s c = moved (fst from) (fst to) bs db s c"
      using Cons.IH [of n db] Cons.prems cb by (simp add: stamps_newest_def)
    then show ?thesis using False none by (auto simp: moved_def cb)
  next
    case True
    from Cons.prems(1)[unfolded cb] True show ?thesis
    proof (cases rule: move_credits_Cons)
      case (1 r1 db1 r2 db2)
      have st: "newest_stamp (merge_tx env d True) db (fst from) d" "newest_stamp (merge_tx env d False) db (fst to) d"
        using Cons.prems(4) cb by (simp_all add: stamps_newest_def)
      have bal1: "getBalance db1 u v = (if u = fst from \<and> v = d then 0 else getBalance db u v)" for u v
        using getBalance_insert [OF 1(1)] st(1) by simp
      have "newest_stamp (merge_tx env d False) db1 (fst to) d"
        using newest_other_wallet [OF 1(1) st(2)] Cons.prems(2) by auto
      then have bal2: "getBalance db2 u v = (if u = fst to \<and> v = d then getBalance db1 (fst to) d + b else getBalance db1 u v)" for u v
        using getBalance_insert [OF 1(2)] by simp
      have "stamps_newest env (fst from) (fst to) (fst ` set bs) db" using Cons.prems(4) by (simp add: stamps_newest_def)
      from stamps_other_currency [OF 1(2) stamps_other_currency [OF 1(1) this]] new
      have "getBalance db' s c = moved (fst from) (fst to) bs db2 s c"
        using Cons.IH [OF 1(3) Cons.prems(2)] Cons.prems(3) by simp
      moreover have "moved (fst from) (fst to) bs db2 s c = moved (fst from) (fst to) ((d, b) # bs) db s c"
      proof (cases "c = d")
        case True
        then show ?thesis using none \<open>0 < b\<close> Cons.prems(2) by (simp add: moved_def bal2) (simp add: bal1)
      next
        case False
        then have "getBalance db2 u c = getBalance db u c" for u by (simp add: bal2) (simp add: bal1)
        then show ?thesis using False by (simp add: moved_def split: option.split)
      qed
      ultimately show ?thesis by (simp only: cb)
    qed
  qed
qed

lemma move_credits_ok:
  assumes "move_credits env p from to bs n db = Inr (m, db')" and "ledger_ok db" and "fst from \<noteq> fst to"
    and "distinct (map fst bs)" and "\<forall>(c, b) \<in> set bs. b = getBalance db (fst from) c"
    and "stamps_newest env (fst from) (fst to) (fst ` set bs) db"
  shows "ledger_ok db' \<and> m = n + sum_list (map snd bs)"
  using assms
proof (induction bs arbitrary: n db)
  case (Cons cb bs)
  obtain d b where cb: "cb = (d, b)" by (cases cb)
  have b: "b = getBalance db (fst from) d" and new: "d \<notin> fst ` set bs" using Cons.prems(4,5) cb by auto
  have pos: "0 \<le> b" using ledger_ok_balance [OF Cons.prems(2)] b by simp
  have st: "stamps_newest env (fst from) (fst to) (fst ` set bs) db" using Cons.prems(6) by (simp add: stamps_newest_def)
  show ?case
  proof (cases "0 < b")
    case False
    then show ?thesis using Cons.IH [of n db] Cons.prems st pos by (simp add: cb)
  next
    case True
    from Cons.prems(1)[unfolded cb] True show ?thesis
    proof (cases rule: move_credits_Cons)
      case (1 r1 db1 r2 db2)
      have n: "newest_stamp (merge_tx env d True) db (fst from) d" "newest_stamp (merge_tx env d False) db (fst to) d"
        using Cons.prems(6) cb by (simp_all add: stamps_newest_def)
      have ok1: "ledger_ok db1" using insert_ledger_ok [OF 1(1) Cons.prems(2)] n(1) b by simp
      have n1: "newest_stamp (merge_tx env d False) db1 (fst to) d"
        using newest_other_wallet [OF 1(1) n(2)] Cons.prems(3) by auto
      have ok2: "ledger_ok db2" using insert_ledger_ok [OF 1(2) ok1] n1 by simp
      have bal1: "getBalance db1 u v = getBalance db u v" if "v \<noteq> d" for u v
        using getBalance_insert [OF 1(1), of u v] n(1) that by simp
      have bal2: "getBalance db2 u v = getBalance db u v" if "v \<noteq> d" for u v
        using getBalance_insert [OF 1(2), of u v] n1 that bal1 [OF that] by simp
      have "\<forall>(v, x) \<in> set bs. x = getBalance db2 (fst from) v"
      proof (intro ballI, clarify)
        fix v x assume m: "(v, x) \<in> set bs"
        then have "v \<noteq> d" using new by force
        then show "x = getBalance db2 (fst from) v" using bal2 Cons.prems(5) m by auto
      qed
      then have "ledger_ok db' \<and> m = n + b + sum_list (map snd bs)"
        using Cons.IH [OF 1(3) ok2 Cons.prems(3)] Cons.prems(4) stamps_other_currency [OF 1(2) stamps_other_currency [OF 1(1) st]] new
        by simp
      then show ?thesis by (simp add: cb)
    qed
  qed
qed simp

lemma all_balances:
  "distinct (map fst (findAllBalances db s))" "\<forall>(c, b) \<in> set (findAllBalances db s). b = getBalance db s c"
  "c \<notin> fst ` set (findAllBalances db s) \<Longrightarrow> getBalance db s c = 0"
proof -
  have fst: "map fst (findAllBalances db s) = sort (remdups (map le_currencyId (filter (\<lambda>r. le_subscriberId r = s) (lg_rows db))))"
    by (simp add: findAllBalances_def comp_def)
  then show "distinct (map fst (findAllBalances db s))" by simp
  show "\<forall>(c, b) \<in> set (findAllBalances db s). b = getBalance db s c" by (auto simp: findAllBalances_def getBalance_def)
  assume "c \<notin> fst ` set (findAllBalances db s)"
  then have "c \<notin> set (map fst (findAllBalances db s))" by simp
  then have "wallet_rows db s c = []" unfolding fst by (auto simp: wallet_rows_def in_wallet_def filter_empty_conv)
  then show "getBalance db s c = 0" by (simp add: getBalance_latest)
qed

lemma merge_balances:
  assumes "move_credits env p from to (findAllBalances db (fst from)) 0 db = Inr (m, db')" and "ledger_ok db"
    and "fst from \<noteq> fst to" and "stamps_newest env (fst from) (fst to) UNIV db"
  shows "getBalance db' (fst from) c = 0 \<and> getBalance db' (fst to) c = getBalance db (fst to) c + getBalance db (fst from) c
    \<and> (s \<notin> {fst from, fst to} \<longrightarrow> getBalance db' s c = getBalance db s c)"
proof -
  have st: "stamps_newest env (fst from) (fst to) (fst ` set (findAllBalances db (fst from))) db"
    using assms(4) by (simp add: stamps_newest_def)
  note m = move_credits_moved [OF assms(1,3) all_balances(1) st]
  show ?thesis
  proof (cases "map_of (findAllBalances db (fst from)) c")
    case None
    then have "getBalance db (fst from) c = 0" using all_balances(3) by (simp add: map_of_eq_None_iff)
    then show ?thesis using None by (simp add: m moved_def)
  next
    case (Some b)
    then have "b = getBalance db (fst from) c" using all_balances(2) map_of_SomeD by fastforce
    moreover have "0 \<le> getBalance db (fst from) c" using ledger_ok_balance [OF assms(2)] by simp
    ultimately show ?thesis using Some assms(3) by (auto simp: m moved_def)
  qed
qed

section \<open>Redirects\<close>

abbreviation merged_row :: "string \<Rightarrow> timestamp \<Rightarrow> subscriber \<Rightarrow> subscriber" where
  "merged_row i t s \<equiv> s\<lparr>sb_deletedAt := Some t, sb_mergedInto := Some i\<rparr>"

definition upd :: "subscriber \<Rightarrow> subscriber \<Rightarrow> timestamp \<Rightarrow> subscriber \<Rightarrow> subscriber" where
  "upd from to t s = (if sb_id s = sb_id from then merged_row (sb_id to) t s else s)"

lemma upd_keys [simp]:
  "sb_id (upd from to t s) = sb_id s" "sb_projectId (upd from to t s) = sb_projectId s"
  "sb_rovenueId (upd from to t s) = sb_rovenueId s" "sb_appUserId (upd from to t s) = sb_appUserId s"
  by (simp_all add: upd_def)

lemma softDelete_upd: "softDeleteSubscriberAsMerged (sb_id from) (sb_id to) t db = map (upd from to t) db"
  by (simp add: softDeleteSubscriberAsMerged_def update_row_def upd_def)

lemma find_mapped: "(\<And>x. P (f x) = P x) \<Longrightarrow> find P (map f xs) = map_option f (find P xs)"
  by (induction xs) simp_all

lemma find_upd:
  "findSubscriberById (map (upd from to t) db) i = map_option (upd from to t) (findSubscriberById db i)"
  "findSubscriberByRovenueId (map (upd from to t) db) p r = map_option (upd from to t) (findSubscriberByRovenueId db p r)"
  "findSubscriberByAppUserId (map (upd from to t) db) p l = map_option (upd from to t) (findSubscriberByAppUserId db p l)"
  unfolding findSubscriberById_def findSubscriberByRovenueId_def findSubscriberByAppUserId_def
  by (rule find_mapped; simp)+

lemma find_by_id: "distinct (map sb_id db) \<Longrightarrow> s \<in> set db \<Longrightarrow> findSubscriberById db (sb_id s) = Some s"
  unfolding findSubscriberById_def by (rule find_unique) (auto dest: distinct_map_eqD)

lemma find_by_id_mem: "findSubscriberById db i = Some s \<Longrightarrow> s \<in> set db \<and> sb_id s = i"
  unfolding findSubscriberById_def by (auto dest: find_Some_iff_mem)

lemma follow_alive: "alive s \<Longrightarrow> follow db n s = Some s"
  by (cases n) (simp_all add: alive_def)

text \<open>Two live rows of a table with unique ids, one of which is merged into the other.\<close>

definition mergeable :: "subscriber list \<Rightarrow> subscriber \<Rightarrow> subscriber \<Rightarrow> bool" where
  "mergeable db from to =
     (distinct (map sb_id db) \<and> from \<in> set db \<and> to \<in> set db \<and> alive from \<and> alive to \<and> sb_id from \<noteq> sb_id to \<and> sb_id to \<noteq> [])"

lemma mergeable_id: "mergeable db from to \<Longrightarrow> s \<in> set db \<Longrightarrow> sb_id s = sb_id from \<longleftrightarrow> s = from"
  unfolding mergeable_def by (metis find_by_id option.inject)

lemma mergeable_upd:
  "mergeable db from to \<Longrightarrow> s \<in> set db \<Longrightarrow> upd from to t s = (if s = from then merged_row (sb_id to) t from else s)"
  using mergeable_id by (auto simp: upd_def)

lemma follow_dead:
  "\<not> alive c \<Longrightarrow> follow db (Suc n) c =
     (if truthy (sb_mergedInto c)
      then case findSubscriberById db (the (sb_mergedInto c)) of None \<Rightarrow> None | Some x \<Rightarrow> follow db n x
      else Some c)"
  by (simp add: alive_def)

declare follow.simps(2) [simp del]

lemma find_to: "mergeable db from to \<Longrightarrow> findSubscriberById (map (upd from to t) db) (sb_id to) = Some to"
  using mergeable_upd [of db "from" to to t] find_by_id [of db to] by (auto simp: find_upd mergeable_def)

lemma follow_merged:
  assumes m: "mergeable db from to" and "c \<in> set db" and "follow db n c = Some x" and "alive x"
  shows "(x \<noteq> from \<longrightarrow> follow (map (upd from to t) db) n (upd from to t c) = Some x)
    \<and> (x = from \<longrightarrow> follow (map (upd from to t) db) (Suc n) (upd from to t c) = Some to)"
  using assms(2,3)
proof (induction n arbitrary: c)
  case 0
  then have "c = x" by simp
  then show ?case
    using mergeable_upd [OF m 0(1)] find_to [OF m] follow_alive [of to] m
    by (auto simp: truthy_def mergeable_def follow.simps(2))
next
  case (Suc n)
  show ?case
  proof (cases "alive c")
    case True
    then have cx: "c = x" using Suc.prems(2) follow_alive [OF True, of db "Suc n"] by simp
    show ?thesis
    proof (cases "c = from")
      case True
      then have "follow (map (upd from to t) db) (Suc (Suc n)) (upd from to t c) = follow (map (upd from to t) db) (Suc n) to"
        using mergeable_upd [OF m Suc.prems(1)] find_to [OF m] m by (simp add: truthy_def mergeable_def follow.simps(2))
      then show ?thesis using True cx follow_alive [of to] m by (simp add: mergeable_def)
    next
      case False
      then show ?thesis using cx mergeable_upd [OF m Suc.prems(1)] follow_alive [OF True] by simp
    qed
  next
    case False
    then have c: "c \<noteq> from" "upd from to t c = c" using m mergeable_upd [OF m Suc.prems(1)] by (auto simp: mergeable_def)
    obtain y where y: "truthy (sb_mergedInto c)" "findSubscriberById db (the (sb_mergedInto c)) = Some y" "follow db n y = Some x"
    proof (cases "truthy (sb_mergedInto c)")
      case True
      with Suc.prems(2) False show thesis by (auto simp: follow_dead intro: that split: option.splits)
    next
      case False
      with Suc.prems(2) \<open>\<not> alive c\<close> assms(4) show thesis by (simp add: follow_dead)
    qed
    have "findSubscriberById (map (upd from to t) db) (the (sb_mergedInto c)) = Some (upd from to t y)"
      using y(2) by (simp add: find_upd)
    then have "follow (map (upd from to t) db) (Suc k) c = follow (map (upd from to t) db) k (upd from to t y)" for k
      using False y(1) by (simp add: follow_dead)
    then show ?thesis using Suc.IH [of y] y find_by_id_mem [OF y(2)] c by simp
  qed
qed

text \<open>A chain that needs all its hops for the merged row ends on the retired row.\<close>

lemma follow_cut:
  assumes m: "mergeable db from to" and "c \<in> set db" and "follow db (Suc n) c = Some from" and "follow db n c \<noteq> Some from"
  shows "follow (map (upd from to t) db) (Suc n) (upd from to t c) = Some (merged_row (sb_id to) t from)"
  using assms(2-4)
proof (induction n arbitrary: c)
  case 0
  then have d: "\<not> alive c" "truthy (sb_mergedInto c)" "findSubscriberById db (the (sb_mergedInto c)) = Some from"
    by (auto simp: alive_def follow.simps(2) split: if_splits option.splits)
  have u: "upd from to t c = c" "upd from to t from = merged_row (sb_id to) t from"
    using d(1) m mergeable_upd [OF m 0(1)] mergeable_upd [OF m, of "from"] by (auto simp: mergeable_def)
  show ?case using d u by (simp add: follow_dead find_upd)
next
  case (Suc n)
  have d: "\<not> alive c" using Suc.prems(2,3) follow_alive [of c db] by (metis option.inject)
  have tr: "truthy (sb_mergedInto c)" using Suc.prems(2,3) d by (auto simp: follow_dead split: if_splits)
  obtain y where y: "findSubscriberById db (the (sb_mergedInto c)) = Some y" "follow db (Suc n) y = Some from"
    using Suc.prems(2) d tr by (auto simp: follow_dead [of c db "Suc n"] split: option.splits)
  have "follow db n y \<noteq> Some from" using Suc.prems(3) d tr y by (simp add: follow_dead)
  then have "follow (map (upd from to t) db) (Suc n) (upd from to t y) = Some (merged_row (sb_id to) t from)"
    using Suc.IH [of y] y find_by_id_mem [OF y(1)] by simp
  moreover have "upd from to t c = c" using d m mergeable_upd [OF m Suc.prems(1)] by (auto simp: mergeable_def)
  ultimately show ?case using d tr y by (simp add: follow_dead find_upd)
qed

section \<open>The other tables\<close>

definition access_of :: "(string \<rightharpoonup> string list) \<Rightarrow> purchase \<Rightarrow> purchase_access option" where
  "access_of products r = map_option (\<lambda>ids. \<lparr>pa_id = pu_id r, pa_status = pu_status r, pa_expiresDate = pu_expiresDate r,
     pa_gracePeriodExpires = pu_gracePeriodExpires r, pa_store = pu_store r, pa_accessIds = ids\<rparr>) (products (pu_productId r))"

lemma set_map_filter: "y \<in> set (List.map_filter f xs) \<longleftrightarrow> (\<exists>x \<in> set xs. f x = Some y)"
  by (induction xs) (auto simp: List.map_filter_simps split: option.splits)

lemma find_access_mem:
  "y \<in> set (findPurchasesWithAccessIds db products s) \<longleftrightarrow> (\<exists>r \<in> set (pd_rows db). pu_subscriberId r = s \<and> access_of products r = Some y)"
  unfolding findPurchasesWithAccessIds_def set_map_filter access_of_def by (simp split: if_split) blast

lemma reassign_purchases_find:
  "y \<in> set (findPurchasesWithAccessIds (reassignPurchases from to db) products to) \<longleftrightarrow>
   y \<in> set (findPurchasesWithAccessIds db products to) \<or> y \<in> set (findPurchasesWithAccessIds db products from)"
proof -
  let ?f = "\<lambda>r. if pu_subscriberId r = from then r\<lparr>pu_subscriberId := to\<rparr> else r"
  let ?P = "\<lambda>r. pu_subscriberId r = to \<and> access_of products r = Some y"
  have "pd_rows (reassignPurchases from to db) = map ?f (pd_rows db)" by (simp add: reassignPurchases_def)
  then have "(\<exists>r \<in> set (pd_rows (reassignPurchases from to db)). ?P r) \<longleftrightarrow> (\<exists>r \<in> set (pd_rows db). ?P (?f r))"
    by (simp only: set_map bex_simps)
  also have "\<dots> \<longleftrightarrow> (\<exists>r \<in> set (pd_rows db). (pu_subscriberId r = from \<or> pu_subscriberId r = to) \<and> access_of products r = Some y)"
    by (rule bex_cong) (simp_all add: access_of_def)
  finally have "(\<exists>r \<in> set (pd_rows (reassignPurchases from to db)). ?P r)
    \<longleftrightarrow> (\<exists>r \<in> set (pd_rows db). (pu_subscriberId r = from \<or> pu_subscriberId r = to) \<and> access_of products r = Some y)" .
  then show ?thesis unfolding find_access_mem by blast
qed

lemma distinct_map_through:
  "distinct (map k xs) \<Longrightarrow> (\<And>a b. a \<in> set xs \<Longrightarrow> b \<in> set xs \<Longrightarrow> k (f a) = k (f b) \<Longrightarrow> k a = k b) \<Longrightarrow> distinct (map k (map f xs))"
proof (induction xs)
  case (Cons x xs)
  have "k (f x) \<notin> k ` f ` set xs"
  proof
    assume "k (f x) \<in> k ` f ` set xs"
    then obtain y where "y \<in> set xs" "k (f x) = k (f y)" by auto
    with Cons.prems(2) [of x y] have "k x \<in> k ` set xs" by force
    with Cons.prems(1) show False by simp
  qed
  moreover have "distinct (map k (map f xs))" using Cons.IH Cons.prems(1) Cons.prems(2) by simp
  ultimately show ?case by (simp add: image_image)
qed simp

lemma assignment_reassign_mem:
  "a \<in> set (reassignExperimentAssignments from to db) \<longleftrightarrow>
     (a \<in> set db \<and> as_subscriberId a \<noteq> from)
     \<or> (\<exists>b \<in> set db. as_subscriberId b = from \<and> a = b\<lparr>as_subscriberId := to\<rparr>
          \<and> (\<forall>d \<in> set db. as_subscriberId d = to \<longrightarrow> as_experimentId d \<noteq> as_experimentId b))"
  unfolding reassignExperimentAssignments_def by (auto simp: list_ex_iff split: if_splits)

lemma reassign_assignments_ok:
  assumes "assignments_ok db"
  shows "assignments_ok (reassignExperimentAssignments from to db)"
  unfolding assignments_ok_def reassignExperimentAssignments_def
proof (rule distinct_map_through)
  let ?keep = "filter (\<lambda>a. \<not> (as_subscriberId a = from
      \<and> list_ex (\<lambda>b. as_experimentId b = as_experimentId a \<and> as_subscriberId b = to) db)) db"
  let ?f = "\<lambda>a. if as_subscriberId a = from then a\<lparr>as_subscriberId := to\<rparr> else a"
  show "distinct (map assignment_key ?keep)" using assms by (simp add: assignments_ok_def distinct_map_filter)
  fix a b assume m: "a \<in> set ?keep" "b \<in> set ?keep" and eq: "assignment_key (?f a) = assignment_key (?f b)"
  have no: "as_experimentId x \<noteq> as_experimentId y \<or> as_subscriberId y \<noteq> to" if "x \<in> set ?keep" "as_subscriberId x = from" "y \<in> set db" for x y
    using that by (auto simp: list_ex_iff)
  have e: "as_experimentId a = as_experimentId b" using eq by (simp add: assignment_key_def split: if_splits)
  have ab: "a \<in> set db" "b \<in> set db" using m by simp_all
  show "assignment_key a = assignment_key b"
  proof (cases "as_subscriberId a = from")
    case True
    then show ?thesis using eq e no [OF m(1) True ab(2)] by (cases "as_subscriberId b = from") (auto simp: assignment_key_def)
  next
    case False
    then show ?thesis using eq e no [OF m(2) _ ab(1)] by (cases "as_subscriberId b = from") (auto simp: assignment_key_def)
  qed
qed

lemma reassign_access_ok: "access_db_ok db \<Longrightarrow> access_db_ok (reassignSubscriberAccess from to db)"
  by (auto simp: access_db_ok_def reassignSubscriberAccess_def comp_def if_distrib cong: if_cong)

text \<open>A purchase whose access rows all belong to one subscriber keeps one row per grant.\<close>

definition one_owner :: "access_db \<Rightarrow> bool" where
  "one_owner db = (\<forall>r \<in> set (ad_rows db). \<forall>q \<in> set (ad_rows db). ar_purchaseId r = ar_purchaseId q \<longrightarrow> ar_subscriberId r = ar_subscriberId q)"

lemma reassign_one_row:
  assumes "one_row_per_grant db" and "one_owner db"
  shows "one_row_per_grant (reassignSubscriberAccess from to db)"
proof -
  let ?f = "\<lambda>r. if ar_subscriberId r = from then r\<lparr>ar_subscriberId := to\<rparr> else r"
  let ?k = "\<lambda>r. (ar_subscriberId r, ar_accessId r, ar_purchaseId r)"
  have f: "ar_purchaseId (?f r) = ar_purchaseId r" "ar_accessId (?f r) = ar_accessId r" for r by simp_all
  have "distinct (map ?k (map ?f (ad_rows db)))"
  proof (rule distinct_map_through)
    show "distinct (map ?k (ad_rows db))" using assms(1) by (simp add: one_row_per_grant_def)
    fix r q assume m: "r \<in> set (ad_rows db)" "q \<in> set (ad_rows db)" and eq: "?k (?f r) = ?k (?f q)"
    from eq have e: "ar_purchaseId r = ar_purchaseId q" "ar_accessId r = ar_accessId q" by (simp_all only: prod.inject f)
    then have "ar_subscriberId r = ar_subscriberId q" using assms(2) m unfolding one_owner_def by blast
    with e show "?k r = ?k q" by simp
  qed
  then show ?thesis by (simp add: one_row_per_grant_def reassignSubscriberAccess_def)
qed

lemma sync_leaves_others:
  assumes "access_db_ok db" and "\<And>r. r \<in> set (ad_rows db) \<Longrightarrow> ar_subscriberId r \<noteq> s" and "s \<noteq> sub"
    and "r \<in> set (ad_rows (syncAccess pdb products sub t db))"
  shows "ar_subscriberId r \<noteq> s"
proof -
  have "ar_subscriberId r = sub" if "r \<in> set (created sub n es)" for n es
    using that by (induction sub n es rule: created.induct) auto
  moreover have "ar_subscriberId (settle sub d cur q) = ar_subscriberId q" for d cur q
    by (simp add: settle_def split: option.split)
  moreover have "\<exists>d cur q n es. r = settle sub d cur q \<and> q \<in> set (ad_rows db) \<or> r \<in> set (created sub n es)"
    using assms(4) by (fastforce simp: syncAccess_desired sync_rows_closed [OF assms(1) distinct_desired_for] Let_def)
  ultimately show ?thesis using assms(2,3) by metis
qed

section \<open>Runs\<close>

lemma reassign_Inr:
  assumes "reassignAllAssets env p from to w = Inr (n, w')"
  shows "move_credits env p from to (findAllBalances (mw_ledger w) (fst from)) 0 (mw_ledger w) = Inr (n, mw_ledger w')"
    and "mw_purchases w' = reassignPurchases (fst from) (fst to) (mw_purchases w)"
    and "mw_revenue w' = reassignRevenueEvents (fst from) (fst to) (mw_revenue w)"
    and "mw_access w' = reassignSubscriberAccess (fst from) (fst to) (mw_access w)"
    and "mw_assignments w' = reassignExperimentAssignments (fst from) (fst to) (mw_assignments w)"
    and "mw_subscribers w' = softDeleteSubscriberAsMerged (fst from) (fst to) (me_now env) (mw_subscribers w)"
  using assms by (auto simp: reassignAllAssets_def split: if_splits sum.splits)

lemma merge_audit_Inr:
  assumes "merge_audit env p u i b a w = Inr w'"
  shows "mw_purchases w' = mw_purchases w" "mw_revenue w' = mw_revenue w" "mw_access w' = mw_access w"
    "mw_assignments w' = mw_assignments w" "mw_ledger w' = mw_ledger w" "mw_subscribers w' = mw_subscribers w"
  using assms by (auto simp: merge_audit_def split: if_splits sum.splits)

lemma find_label:
  "findSubscriberByAppUserId db p l = Some s \<Longrightarrow> s \<in> set db \<and> sb_projectId s = p \<and> sb_appUserId s = Some l"
  unfolding findSubscriberByAppUserId_def by (auto dest: find_Some_iff_mem)

lemma transfer_Inr:
  assumes "transferSubscriber env p f t u w = Inr (res, w')"
  obtains src tgt w1 w2 where "findSubscriberByAppUserId (mw_subscribers w) p f = Some src" and "alive src"
    and "findSubscriberByAppUserId (mw_subscribers w) p t = Some tgt" and "alive tgt" and "f \<noteq> t"
    and "reassignAllAssets env p (sb_id src, f) (sb_id tgt, t) w = Inr (tf_creditsTransferred res, w1)"
    and "merge_audit env p u (sb_id src) (JObj [(''appUserId'', JStr f)])
           (JObj [(''mergedInto'', JStr (sb_id tgt)), (''appUserId'', JStr t)]) w1 = Inr w2"
    and "tf_fromSubscriberId res = sb_id src" and "tf_toSubscriberId res = sb_id tgt"
    and "w' = safeSyncAccessAfterMerge env (sb_id tgt) w2"
proof -
  obtain src where 1: "findSubscriberByAppUserId (mw_subscribers w) p f = Some src" "alive src" "f \<noteq> t"
    using assms by (auto simp: transferSubscriber_def alive_def split: if_splits option.splits)
  obtain tgt where 2: "findSubscriberByAppUserId (mw_subscribers w) p t = Some tgt" "alive tgt"
    using assms 1 by (auto simp: transferSubscriber_def alive_def split: if_splits option.splits)
  obtain n w1 where 3: "reassignAllAssets env p (sb_id src, f) (sb_id tgt, t) w = Inr (n, w1)"
    using assms 1 2 by (auto simp: transferSubscriber_def alive_def split: sum.splits)
  obtain w2 where 4: "merge_audit env p u (sb_id src) (JObj [(''appUserId'', JStr f)])
      (JObj [(''mergedInto'', JStr (sb_id tgt)), (''appUserId'', JStr t)]) w1 = Inr w2"
    using assms 1 2 3 by (auto simp: transferSubscriber_def alive_def split: sum.splits)
  from assms 1 2 3 4 show thesis
    by (intro that [of src tgt w1 w2]) (auto simp: transferSubscriber_def alive_def)
qed

section \<open>Properties\<close>

lemma rows_unowned:
  "from \<noteq> to \<Longrightarrow> r \<in> set (pd_rows (reassignPurchases from to pdb)) \<Longrightarrow> pu_subscriberId r \<noteq> from"
  "from \<noteq> to \<Longrightarrow> v \<in> set (rd_rows (reassignRevenueEvents from to rdb)) \<Longrightarrow> rv_subscriberId v \<noteq> from"
  "from \<noteq> to \<Longrightarrow> a \<in> set (reassignExperimentAssignments from to adb) \<Longrightarrow> as_subscriberId a \<noteq> from"
  by (auto simp: reassignPurchases_def reassignRevenueEvents_def reassignExperimentAssignments_def)

text \<open>A purchase of the source or of the target grants an access id at the time of the reconciliation.\<close>

definition either_grants ::
  "(purchase_db \<Rightarrow> (string \<rightharpoonup> string list) \<Rightarrow> string \<Rightarrow> string \<Rightarrow> timestamp \<Rightarrow> bool)
    \<Rightarrow> merge_env \<Rightarrow> merge_world \<Rightarrow> transfer_result \<Rightarrow> string \<Rightarrow> bool" where
  "either_grants G env w res a =
     (G (mw_purchases w) (me_products env) (tf_toSubscriberId res) a (me_syncNow env)
      \<or> G (mw_purchases w) (me_products env) (tf_fromSubscriberId res) a (me_syncNow env))"


text \<open>
  C31. Devices follow a merge. When a live subscriber is merged into another live one, a device that
  resolved to a third subscriber still does; a device that resolved to the merged one resolves to the
  survivor when it reached it in at most four redirects, and to nothing when it needed the fifth, although
  the survivor lives.
\<close>

theorem merged_devices_resolve:
  assumes "mergeable db from to" and "findSubscriberByRovenueId db p r = Some s"
    and "resolveSubscriberByRovenueId db p r = Some x"
  shows "resolveSubscriberByRovenueId (softDeleteSubscriberAsMerged (sb_id from) (sb_id to) t db) p r =
    (if x \<noteq> from then Some x else if follow db 4 s = Some from then Some to else None)"
proof -
  let ?db = "map (upd from to t) db"
  have s: "s \<in> set db" using assms(2) unfolding findSubscriberByRovenueId_def by (auto dest: find_Some_iff_mem)
  have x: "alive x" "follow db 5 s = Some x"
    using assms(2,3) follow_alive [of s db 5]
    by (auto simp: resolveSubscriberByRovenueId_def alive_def split: if_splits option.splits)
  have to: "alive to" using assms(1) by (simp add: mergeable_def)
  have res: "resolveSubscriberByRovenueId ?db p r =
      (case follow ?db 5 (upd from to t s) of None \<Rightarrow> None | Some c \<Rightarrow> if alive c then Some c else None)"
    using assms(2) follow_alive [of "upd from to t s" ?db 5]
    by (auto simp: resolveSubscriberByRovenueId_def find_upd alive_def split: option.splits)
  show ?thesis
  proof (cases "x = from")
    case False
    then show ?thesis using follow_merged [OF assms(1) s x(2,1)] x(1) by (simp add: softDelete_upd res)
  next
    case True
    show ?thesis
    proof (cases "follow db 4 s = Some from")
      case c: True
      then have "follow ?db (Suc 4) (upd from to t s) = Some to"
        using follow_merged [OF assms(1) s c] assms(1) by (simp add: mergeable_def)
      then have "follow ?db 5 (upd from to t s) = Some to" by (simp add: eval_nat_numeral)
      then show ?thesis using True c to by (simp add: softDelete_upd res)
    next
      case False
      have "follow db (Suc 4) s = Some from" using x(2) True by (simp add: eval_nat_numeral)
      from follow_cut [OF assms(1) s this False]
      have "follow ?db 5 (upd from to t s) = Some (merged_row (sb_id to) t from)" by (simp add: eval_nat_numeral)
      then show ?thesis using True False by (simp add: softDelete_upd res alive_def)
    qed
  qed
qed


text \<open>
  A retired row keeps its label. Once a device has taken a label over, a lookup of the label that returns
  the retired row makes every further device fail to sign in with it.
\<close>

lemma setAppUserId_Inr:
  assumes "setAppUserId i l t db = Inr db'"
  shows "db' = map (\<lambda>s. if sb_id s = i then s\<lparr>sb_appUserId := Some l, sb_identifiedAt := Some t\<rparr> else s) db"
  using assms by (auto simp: setAppUserId_def update_row_def split: if_splits)

lemma bind_self_alive: "bind_self db p r = Inr s \<Longrightarrow> alive s"
  by (auto simp: bind_self_def resolveSubscriberByRovenueId_def alive_def split: option.splits if_splits)

lemma follow_mem: "follow db n c = Some x \<Longrightarrow> c \<in> set db \<Longrightarrow> x \<in> set db"
  by (induction n arbitrary: c) (auto simp: follow.simps(2) split: if_splits option.splits dest: find_by_id_mem)

lemma bind_self_mem: "bind_self db p r = Inr s \<Longrightarrow> s \<in> set db"
  by (auto simp: bind_self_def resolveSubscriberByRovenueId_def findSubscriberByRovenueId_def
      split: option.splits if_splits dest: find_Some_iff_mem follow_mem)

lemma take_over_True:
  assumes "take_over env p r l self w = Inr (True, w1)"
  shows "\<exists>(other :: subscriber) n. sb_id other \<noteq> sb_id self \<and> reassignAllAssets env p (sb_id other, l) (sb_id self, r) w = Inr (n, w1)"
proof -
  obtain other where o: "findSubscriberByAppUserId (mw_subscribers w) p l = Some other" "sb_deletedAt other = None" "sb_id other \<noteq> sb_id self"
    using assms by (auto simp: take_over_def split: option.splits if_splits)
  then have "\<exists>n. reassignAllAssets env p (sb_id other, l) (sb_id self, r) w = Inr (n, w1)"
    using assms by (auto simp: take_over_def split: sum.splits)
  with o(3) show ?thesis by blast
qed

lemma bound_device:
  assumes "bindAppUserId env p r l u w = Inr (res, w')" and "br_transferred res" and "distinct (map sb_id (mw_subscribers w))"
    and in_p: "\<forall>s \<in> set (mw_subscribers w). sb_projectId s = p"
  shows "\<exists>h \<in> set (mw_subscribers w'). sb_id h = br_subscriberId res \<and> alive h \<and> sb_projectId h = p \<and> sb_appUserId h = Some l"
proof -
  obtain self where self: "bind_self (mw_subscribers w) p r = Inr self" "sb_appUserId self \<noteq> Some l"
    using assms(1,2) by (auto simp: bindAppUserId_def Let_def split: sum.splits if_splits)
  obtain w1 db w2 where steps: "take_over env p r l self w = Inr (True, w1)"
      "setAppUserId (sb_id self) l (me_now env) (mw_subscribers w1) = Inr db"
      "merge_audit env p u (sb_id self) (JObj [(''rovenueId'', JStr r), (''appUserId'', opt_str (sb_appUserId self))])
         (JObj [(''appUserId'', JStr l), (''transferred'', JBool True)]) (w1\<lparr>mw_subscribers := db\<rparr>) = Inr w2"
      "br_subscriberId res = sb_id self" "w' = safeSyncAccessAfterMerge env (sb_id self) w2"
    using assms(1,2) self by (auto simp: bindAppUserId_def Let_def split: sum.splits)
  have subs: "mw_subscribers w' = db"
    using merge_audit_Inr(6) [OF steps(3)] steps(5) by (simp add: safeSyncAccessAfterMerge_def)
  obtain other :: subscriber and n where o: "sb_id other \<noteq> sb_id self" "reassignAllAssets env p (sb_id other, l) (sb_id self, r) w = Inr (n, w1)"
    using take_over_True [OF steps(1)] by blast
  have "self \<in> set (mw_subscribers w1)"
    using reassign_Inr(6) [OF o(2)] bind_self_mem [OF self(1)] o(1)
    by (auto simp: softDeleteSubscriberAsMerged_def update_row_def image_iff)
  then have "self\<lparr>sb_appUserId := Some l, sb_identifiedAt := Some (me_now env)\<rparr> \<in> set db"
    unfolding setAppUserId_Inr [OF steps(2)] by (force simp: image_iff)
  moreover have "sb_projectId self = p" using in_p bind_self_mem [OF self(1)] by blast
  ultimately show ?thesis unfolding subs using steps(4) bind_self_alive [OF self(1)]
    by (intro bexI [of _ "self\<lparr>sb_appUserId := Some l, sb_identifiedAt := Some (me_now env)\<rparr>"]) (simp_all add: alive_def)
qed

text \<open>
  C38. After a device has signed in with a label that another subscriber held, the retired row still
  carries the label. Whenever the lookup of the label returns that row, the next device that signs in
  with the same label raises a unique violation and stays signed out, instead of taking the label over.
\<close>

theorem next_device_cannot_sign_in:
  assumes "bindAppUserId env p r l u w = Inr (res, w')" and "br_transferred res"
    and "distinct (map sb_id (mw_subscribers w))" and "\<forall>s \<in> set (mw_subscribers w). sb_projectId s = p"
    and "findSubscriberByAppUserId (mw_subscribers w') p l = Some retired" and "\<not> alive retired"
    and "findSubscriberByRovenueId (mw_subscribers w') p r2 = Some device" and "alive device"
    and "sb_id device \<noteq> br_subscriberId res" and "sb_appUserId device \<noteq> Some l"
  shows "bindAppUserId env2 p r2 l u2 w' = Inl Unique_Violation"
proof -
  obtain h where h: "h \<in> set (mw_subscribers w')" "sb_id h = br_subscriberId res" "alive h" "sb_projectId h = p" "sb_appUserId h = Some l"
    using bound_device [OF assms(1-4)] by blast
  have d: "device \<in> set (mw_subscribers w')" "sb_projectId device = p"
    using assms(7) unfolding findSubscriberByRovenueId_def by (auto dest: find_Some_iff_mem)
  have "\<not> label_free (mw_subscribers w') device l"
    using h d(2) assms(8,9) by (auto simp: label_free_def list_ex_iff)
  then have "setAppUserId (sb_id device) l (me_now env2) (mw_subscribers w') = Inl Unique_Violation"
    using d(1) by (auto simp: setAppUserId_def list_all_iff)
  moreover have "take_over env2 p r2 l device w' = Inr (False, w')"
    using assms(5,6) by (auto simp: take_over_def alive_def)
  moreover have "bind_self (mw_subscribers w') p r2 = Inr device" using assms(7,8) by (simp add: bind_self_def alive_def)
  ultimately show ?thesis using assms(10) by (simp add: bindAppUserId_def Let_def)
qed

text \<open>
  Writes of a device: the row returned is the live one the device resolves to, or a new one; for a chain
  without survivor (an erased subscriber) the table is left alone. The device keys stay unique.
\<close>

abbreviation device_key :: "subscriber \<Rightarrow> string \<times> string" where
  "device_key s \<equiv> (sb_projectId s, sb_rovenueId s)"

lemma write_target_live:
  assumes "resolveSubscriberForWrite i t p r attrs mark db = Inr ((s, dead), db')" and "distinct (map device_key db)"
  shows "distinct (map device_key db') \<and> resolveSubscriberByRovenueId db' p r = (if dead then None else Some s)
    \<and> (if dead then db' = db \<and> \<not> alive s else alive s)"
proof (cases "resolveSubscriberByRovenueId db p r")
  case (Some x)
  then have "alive x" by (auto simp: resolveSubscriberByRovenueId_def alive_def split: option.splits if_splits)
  with assms Some show ?thesis by (auto simp: resolveSubscriberForWrite_def)
next
  case None
  show ?thesis
  proof (cases "findSubscriberByRovenueId db p r")
    case (Some x)
    then have "\<not> alive x" using None by (auto simp: resolveSubscriberByRovenueId_def alive_def split: if_splits)
    with assms None Some show ?thesis by (auto simp: resolveSubscriberForWrite_def)
  next
    case n: None
    then have no: "(p, r) \<notin> device_key ` set db"
      by (auto simp: findSubscriberByRovenueId_def find_None_iff_all)
    from n None assms(1) have db': "db' = db @ [s]" "\<not> dead" "sb_projectId s = p" "sb_rovenueId s = r" "alive s"
      by (auto simp: resolveSubscriberForWrite_def upsertSubscriber_def Let_def new_subscriber_def alive_def split: if_splits)
    have "find P (db @ [s]) = (case find P db of None \<Rightarrow> find P [s] | Some y \<Rightarrow> Some y)" for P by (induction db) auto
    then have "findSubscriberByRovenueId db' p r = Some s" using n db' by (simp add: findSubscriberByRovenueId_def)
    then show ?thesis using db' no assms(2) by (auto simp: resolveSubscriberByRovenueId_def alive_def)
  qed
qed

section \<open>Witnesses\<close>

definition subscriber_sample :: "string \<Rightarrow> string \<Rightarrow> string option \<Rightarrow> subscriber" where
  "subscriber_sample i r l = \<lparr>sb_id = i, sb_projectId = ''prj'', sb_rovenueId = r, sb_appUserId = l, sb_attributes = JObj [],
     sb_deletedAt = None, sb_mergedInto = None, sb_identifiedAt = None, sb_sdkInstalledAt = None,
     sb_appleAppAccountToken = None, sb_lastSeenAt = 0, sb_lastAccessReconciledAt = None\<rparr>"

definition merge_world_sample :: merge_world where
  "merge_world_sample = \<lparr>mw_subscribers = [subscriber_sample ''sub'' ''r1'' (Some ''alice''), subscriber_sample ''tgt'' ''r2'' (Some ''bob''),
       subscriber_sample ''new'' ''r3'' None],
     mw_purchases = sample_table ACTIVE 500, mw_revenue = \<lparr>rd_rows = [], rd_claims = [], rd_outbox = []\<rparr>,
     mw_access = sample_access, mw_assignments = [assignment_sample], mw_ledger = sample_ledger, mw_audit = []\<rparr>"

definition merge_env_sample :: merge_env where
  "merge_env_sample = \<lparr>me_now = 200, me_txStart = 200, me_rowId = (\<lambda>c out. if out then ''x'' else ''y''), me_outboxId = (\<lambda>c out. ''ob''),
     me_sha256 = (\<lambda>t. ''h''), me_auditId = ''au'', me_products = sample_products, me_syncNow = 200, me_syncFails = False\<rparr>"

lemma sample_ledger_ok: "ledger_ok sample_ledger"
  by (simp add: ledger_ok_def wallet_rows_def in_order_def sample_ledger_defs)

lemma sample_stamps: "stamps_newest merge_env_sample from to UNIV sample_ledger"
  by (simp add: stamps_newest_def newest_stamp_def wallet_rows_def merge_tx_def merge_env_sample_def ledger_key_def sample_ledger_defs)

lemma right_value: "\<not> isl x \<Longrightarrow> x = Inr (fst (projr x), snd (projr x))"
  by (cases x) simp_all

lemma transfer_sample:
  "case transferSubscriber merge_env_sample ''prj'' ''alice'' ''bob'' None merge_world_sample of
     Inl e \<Rightarrow> False
   | Inr (res, w') \<Rightarrow> tf_fromSubscriberId res = ''sub'' \<and> tf_toSubscriberId res = ''tgt''"
  by code_simp

lemma bind_sample:
  "case bindAppUserId merge_env_sample ''prj'' ''r2'' ''alice'' None merge_world_sample of
     Inl e \<Rightarrow> False
   | Inr (res, w') \<Rightarrow> br_transferred res \<and> br_subscriberId res = ''tgt''
       \<and> mw_subscribers w' = [(subscriber_sample ''sub'' ''r1'' (Some ''alice''))\<lparr>sb_deletedAt := Some 200, sb_mergedInto := Some ''tgt''\<rparr>,
            (subscriber_sample ''tgt'' ''r2'' (Some ''alice''))\<lparr>sb_identifiedAt := Some 200\<rparr>, subscriber_sample ''new'' ''r3'' None]"
  by code_simp


theorem merged_devices_resolve_witness:
  "resolveSubscriberByRovenueId (softDeleteSubscriberAsMerged ''sub'' ''tgt'' 9 (mw_subscribers merge_world_sample)) ''prj'' ''r1''
     = Some (subscriber_sample ''tgt'' ''r2'' (Some ''bob''))"
proof -
  let ?s = "subscriber_sample ''sub'' ''r1'' (Some ''alice'')" and ?t = "subscriber_sample ''tgt'' ''r2'' (Some ''bob'')"
  have f: "mergeable (mw_subscribers merge_world_sample) ?s ?t"
    "findSubscriberByRovenueId (mw_subscribers merge_world_sample) ''prj'' ''r1'' = Some ?s"
    "resolveSubscriberByRovenueId (mw_subscribers merge_world_sample) ''prj'' ''r1'' = Some ?s"
    "follow (mw_subscribers merge_world_sample) 4 ?s = Some ?s" "sb_id ?s = ''sub''" "sb_id ?t = ''tgt''"
    by code_simp+
  show ?thesis using merged_devices_resolve [OF f(1-3), of 9] f(4-6) by simp
qed

definition granted_ledger :: ledger_db where
  "granted_ledger = (case addCredits (sample_tx 150 ''g'') sample_ledger (sample_grant 4 ''r2'') of Inr (_, db) \<Rightarrow> db | Inl _ \<Rightarrow> sample_ledger)"

lemma granted_sample:
  "\<exists>row. addCredits (sample_tx 150 ''g'') sample_ledger (sample_grant 4 ''r2'') = Inr (row, granted_ledger)
     \<and> lg_rows granted_ledger = [sample_wallet_row, row] \<and> ledger_key row = (150, ''g'')"
proof -
  obtain row db where a: "addCredits (sample_tx 150 ''g'') sample_ledger (sample_grant 4 ''r2'') = Inr (row, db)"
    using sample_grant_returns by blast
  then obtain e where "insertCreditLedger (sample_tx 150 ''g'') sample_ledger e = Inr (row, db)"
    by (auto simp: addCredits_def sample_grant_new sample_fields split: if_splits)
  from insertCreditLedger_Inr(2) [OF this] insert_stamp [OF this] a show ?thesis
    by (simp add: granted_ledger_def sample_ledger_def sample_tx_def)
qed

lemma granted_move_sample:
  "\<not> isl (move_credits merge_env_sample ''prj'' (''sub'', ''alice'') (''tgt'', ''bob'') (findAllBalances sample_ledger ''sub'') 0 granted_ledger)"
  by code_simp


theorem next_device_cannot_sign_in_witness:
  "\<exists>res w'. bindAppUserId merge_env_sample ''prj'' ''r2'' ''alice'' None merge_world_sample = Inr (res, w')
     \<and> bindAppUserId merge_env_sample ''prj'' ''r3'' ''alice'' None w' = Inl Unique_Violation"
proof -
  obtain res w' where b: "bindAppUserId merge_env_sample ''prj'' ''r2'' ''alice'' None merge_world_sample = Inr (res, w')"
    "br_transferred res" "br_subscriberId res = ''tgt''"
    "mw_subscribers w' = [(subscriber_sample ''sub'' ''r1'' (Some ''alice''))\<lparr>sb_deletedAt := Some 200, sb_mergedInto := Some ''tgt''\<rparr>,
            (subscriber_sample ''tgt'' ''r2'' (Some ''alice''))\<lparr>sb_identifiedAt := Some 200\<rparr>, subscriber_sample ''new'' ''r3'' None]"
    using bind_sample by (auto split: sum.splits)
  have p: "\<forall>s \<in> set (mw_subscribers merge_world_sample). sb_projectId s = ''prj''"
    "distinct (map sb_id (mw_subscribers merge_world_sample))"
    by (simp_all add: merge_world_sample_def subscriber_sample_def)
  have "bindAppUserId merge_env_sample ''prj'' ''r3'' ''alice'' None w' = Inl Unique_Violation"
    by (rule next_device_cannot_sign_in [OF b(1,2) p(2,1), where device = "subscriber_sample ''new'' ''r3'' None"
        and retired = "(subscriber_sample ''sub'' ''r1'' (Some ''alice''))\<lparr>sb_deletedAt := Some 200, sb_mergedInto := Some ''tgt''\<rparr>"])
      (simp_all add: b(3,4) findSubscriberByAppUserId_def findSubscriberByRovenueId_def alive_def subscriber_sample_def)
  with b(1) show ?thesis by blast
qed

end
