(* ===== verification/Subscriber_Attributes.thy ===== *)
theory Subscriber_Attributes
  imports Json_Text
begin

text \<open>
  The attributes of a subscriber: \<^verbatim>\<open>packages/shared/src/attributes/helpers.ts\<close> and
  \<^verbatim>\<open>packages/shared/src/attributes/catalog.ts\<close>: reading the stored column in its nested and its older flat
  form, applying a set of changes, and validating them.

  An attribute map is a list of key and entry in insertion order. Of a nested entry its three fields are
  kept; the column is JSON and holds no Date. A change of \<open>None\<close> deletes the key. White space is that of the first 256 characters.

  The lemmas show that stored attributes read back as they were written, what reading gives after a
  change, and that accepted changes keep the limits on keys and values.
\<close>

section \<open>Stored attributes\<close>

record attribute_entry =
  at_value :: string
  at_updatedAt :: string
  at_source :: string

type_synonym attributes = "(string, attribute_entry) js_map"

definition isNestedEntry :: "json \<Rightarrow> attribute_entry option" where
  "isNestedEntry x =
     (case (str_prop x ''value'', str_prop x ''updatedAt'', str_prop x ''source'') of
        (Some v, Some u, Some s) \<Rightarrow> Some \<lparr>at_value = v, at_updatedAt = u, at_source = s\<rparr>
      | _ \<Rightarrow> None)"

fun join_comma :: "string list \<Rightarrow> string" where
  "join_comma [] = ''''"
| "join_comma [x] = x"
| "join_comma (x # y # ys) = x @ '','' @ join_comma (y # ys)"

text \<open>\<^verbatim>\<open>String(val)\<close>.\<close>

fun js_String :: "json \<Rightarrow> string" where
  "js_String JNull = ''null''"
| "js_String JUndefined = ''undefined''"
| "js_String (JBool b) = (if b then ''true'' else ''false'')"
| "js_String (JNum n) = int_text n"
| "js_String (JStr s) = s"
| "js_String (JDate t) = toISOString t"
| "js_String (JArr vs) = join_comma (map (\<lambda>v. case v of JNull \<Rightarrow> '''' | JUndefined \<Rightarrow> '''' | _ \<Rightarrow> js_String v) vs)"
| "js_String (JObj ps) = ''[object Object]''"

definition normalize_entry :: "json \<Rightarrow> attribute_entry option" where
  "normalize_entry val =
     (case isNestedEntry val of
        Some e \<Rightarrow> Some e
      | None \<Rightarrow>
          (case val of
             JNull \<Rightarrow> None
           | JUndefined \<Rightarrow> None
           | _ \<Rightarrow> Some \<lparr>at_value = js_String val, at_updatedAt = ''1970-01-01T00:00:00.000Z'', at_source = ''legacy''\<rparr>))"

definition normalizeStored :: "json \<Rightarrow> attributes" where
  "normalizeStored raw =
     (case raw of
        JObj ps \<Rightarrow> List.map_filter (\<lambda>(k, v). map_option (Pair k) (normalize_entry v)) ps
      | _ \<Rightarrow> [])"

definition flattenAttributes :: "json \<Rightarrow> (string, string) js_map" where
  "flattenAttributes raw = map (\<lambda>(k, e). (k, at_value e)) (normalizeStored raw)"

definition applyMutations :: "attributes \<Rightarrow> (string \<times> string option) list \<Rightarrow> string \<Rightarrow> string \<Rightarrow> attributes" where
  "applyMutations current mutations source now =
     fold (\<lambda>(k, v). case v of
             None \<Rightarrow> AList.delete k
           | Some x \<Rightarrow> AList.update k \<lparr>at_value = x, at_updatedAt = now, at_source = source\<rparr>)
       mutations current"

section \<open>Validation\<close>

definition VALUE_MAX :: nat where "VALUE_MAX = 500"
definition CUSTOM_MAX :: nat where "CUSTOM_MAX = 50"
definition KEY_MAX :: nat where "KEY_MAX = 40"

definition key_char :: "char \<Rightarrow> bool" where
  "key_char c = (is_digit c \<or> (CHR ''A'' \<le> c \<and> c \<le> CHR ''Z'') \<or> (CHR ''a'' \<le> c \<and> c \<le> CHR ''z'')
     \<or> c = CHR ''_'' \<or> c = CHR ''.'' \<or> c = CHR ''-'')"

definition CUSTOM_KEY_RE :: "string \<Rightarrow> bool" where
  "CUSTOM_KEY_RE s = (1 \<le> length s \<and> length s \<le> KEY_MAX \<and> list_all key_char s)"

text \<open>
  One or more characters that are neither space nor at sign, an at sign, and a domain of such characters
  with a dot inside.
\<close>

definition EMAIL_RE :: "string \<Rightarrow> bool" where
  "EMAIL_RE s =
     (let user = takeWhile (\<lambda>c. c \<noteq> CHR ''@'') s;
          domain = tl (dropWhile (\<lambda>c. c \<noteq> CHR ''@'') s)
      in user \<noteq> [] \<and> CHR ''@'' \<in> set s \<and> \<not> list_ex js_space s \<and> CHR ''@'' \<notin> set domain
         \<and> CHR ''.'' \<in> set (butlast (tl domain)))"

definition PHONE_RE :: "string \<Rightarrow> bool" where
  "PHONE_RE s =
     (let digits = (case s of c # cs \<Rightarrow> if c = CHR ''+'' then cs else s | [] \<Rightarrow> [])
      in list_all is_digit digits \<and> 7 \<le> length digits \<and> length digits \<le> 15)"

definition ATT_CONSENT :: "string list" where
  "ATT_CONSENT = [''notDetermined'', ''restricted'', ''denied'', ''authorized'']"

definition RESERVED_ATTRIBUTES :: "string list" where
  "RESERVED_ATTRIBUTES =
     [''$email'', ''$displayName'', ''$phoneNumber'', ''$fcmTokens'', ''$apnsTokens'', ''$mediaSource'', ''$campaign'', ''$adGroup'',
      ''$keyword'', ''$creative'', ''$ad'', ''$idfa'', ''$idfv'', ''$gpsAdId'', ''$attConsentStatus'', ''$appsflyerId'', ''$adjustId'',
      ''$firebaseAppInstanceId'', ''$mixpanelDistinctId'', ''$amplitudeDeviceId'', ''$amplitudeUserId'', ''$onesignalId'',
      ''$brazeAliasName'', ''$iterableUserId'', ''$airbridgeDeviceId'', ''$singularDeviceId'']"

datatype attribute_reason =
    Unknown_Reserved | Too_Long | Not_An_Email | Not_A_Phone | Not_A_Consent | Bad_Custom_Key | Too_Many_Custom

definition isReservedKey :: "string \<Rightarrow> bool" where
  "isReservedKey k = (case k of c # _ \<Rightarrow> c = CHR ''$'' | [] \<Rightarrow> False)"

definition validateReservedValue :: "string \<Rightarrow> string \<Rightarrow> attribute_reason option" where
  "validateReservedValue k v =
     (if k \<notin> set RESERVED_ATTRIBUTES then Some Unknown_Reserved
      else if length v > VALUE_MAX then Some Too_Long
      else if k = ''$email'' \<and> \<not> EMAIL_RE v then Some Not_An_Email
      else if k = ''$phoneNumber'' \<and> \<not> PHONE_RE v then Some Not_A_Phone
      else if k = ''$attConsentStatus'' \<and> v \<notin> set ATT_CONSENT then Some Not_A_Consent
      else None)"

text \<open>One key: the errors it adds and the set of custom keys after it.\<close>

definition validate_key ::
  "string \<times> string option \<Rightarrow> (string \<times> attribute_reason) list \<times> string list \<Rightarrow> (string \<times> attribute_reason) list \<times> string list" where
  "validate_key = (\<lambda>(k, v) (errors, customAfter).
     if isReservedKey k then
       (case v of
          None \<Rightarrow> (errors, customAfter)
        | Some x \<Rightarrow> (case validateReservedValue k x of Some r \<Rightarrow> (errors @ [(k, r)], customAfter) | None \<Rightarrow> (errors, customAfter)))
     else if \<not> CUSTOM_KEY_RE k then (errors @ [(k, Bad_Custom_Key)], customAfter)
     else case v of
       None \<Rightarrow> (errors, removeAll k customAfter)
     | Some x \<Rightarrow> if length x > VALUE_MAX then (errors @ [(k, Too_Long)], customAfter)
                 else (errors, List.insert k customAfter))"

definition validateAttributeInput :: "(string \<times> string option) list \<Rightarrow> attributes \<Rightarrow> (string \<times> attribute_reason) list" where
  "validateAttributeInput input current =
     (let (errors, customAfter) = fold validate_key input ([], filter (\<lambda>k. \<not> isReservedKey k) (map fst current))
      in errors @ (if length customAfter > CUSTOM_MAX then [(''*'', Too_Many_Custom)] else []))"

section \<open>Reading back\<close>

text \<open>The column as it is written.\<close>

definition stored_attributes :: "attributes \<Rightarrow> json" where
  "stored_attributes m = JObj (map (\<lambda>(k, e). (k, JObj [(''value'', JStr (at_value e)), (''updatedAt'', JStr (at_updatedAt e)),
     (''source'', JStr (at_source e))])) m)"

lemma normalize_stored: "normalizeStored (stored_attributes m) = m"
proof -
  have "normalize_entry (JObj [(''value'', JStr (at_value e)), (''updatedAt'', JStr (at_updatedAt e)), (''source'', JStr (at_source e))]) = Some e" for e
    by (simp add: normalize_entry_def isNestedEntry_def str_prop_def jprop_def)
  then show ?thesis
    by (induction m) (auto simp: normalizeStored_def stored_attributes_def List.map_filter_simps)
qed

definition apply_change :: "string \<Rightarrow> string \<Rightarrow> string \<times> string option \<Rightarrow> attributes \<Rightarrow> attributes" where
  "apply_change source now = (\<lambda>(k, v). case v of
     None \<Rightarrow> AList.delete k
   | Some x \<Rightarrow> AList.update k \<lparr>at_value = x, at_updatedAt = now, at_source = source\<rparr>)"

lemma applyMutations_fold: "applyMutations current ms source now = fold (apply_change source now) ms current"
  by (simp add: applyMutations_def apply_change_def)

lemma apply_change_map:
  "map_of (apply_change source now (k, v) m) =
     (map_of m)(k := map_option (\<lambda>x. \<lparr>at_value = x, at_updatedAt = now, at_source = source\<rparr>) v)"
  by (cases v) (simp_all add: apply_change_def update_conv' delete_conv')

lemma applyMutations_map:
  "distinct (map fst ms) \<Longrightarrow> map_of (applyMutations m ms source now) k =
     (case map_of ms k of
        Some v \<Rightarrow> map_option (\<lambda>x. \<lparr>at_value = x, at_updatedAt = now, at_source = source\<rparr>) v
      | None \<Rightarrow> map_of m k)"
  unfolding applyMutations_fold
proof (induction ms arbitrary: m)
  case (Cons c ms)
  obtain d v where c: "c = (d, v)" by (cases c)
  have "map_of ms d = None" using Cons.prems c by (simp add: map_of_eq_None_iff)
  then show ?case using Cons.IH [of "apply_change source now (d, v) m"] Cons.prems
    by (auto simp: c apply_change_map split: option.splits)
qed simp

lemma flatten_map: "map_of (flattenAttributes raw) k = map_option at_value (map_of (normalizeStored raw) k)"
  unfolding flattenAttributes_def by (induction "normalizeStored raw") (simp_all add: map_of_map)

section \<open>Limits\<close>

definition custom_keys :: "attributes \<Rightarrow> string set" where
  "custom_keys m = {k \<in> fst ` set m. \<not> isReservedKey k}"

lemma apply_change_keys:
  "fst ` set (apply_change source now (k, v) m) = (if v = None then fst ` set m - {k} else insert k (fst ` set m))"
proof (cases v)
  case None
  have "set (map fst (AList.delete k m)) = set (map fst m) - {k}" by (simp only: delete_keys set_removeAll)
  with None show ?thesis by (simp add: apply_change_def)
qed (simp add: apply_change_def dom_update)

lemma apply_change_distinct: "distinct (map fst m) \<Longrightarrow> distinct (map fst (apply_change source now c m))"
  by (cases c; cases "snd c") (simp_all add: apply_change_def distinct_update distinct_delete)

lemma validate_errors: "fold validate_key input (errs, cs) = (errs', cs') \<Longrightarrow> errs' = [] \<Longrightarrow> errs = []"
proof (induction input arbitrary: errs cs)
  case (Cons c input)
  obtain e1 c1 where one: "validate_key c (errs, cs) = (e1, c1)" by fastforce
  with Cons have "e1 = []" by simp
  with one show ?case by (cases c) (auto simp: validate_key_def split: if_splits option.splits)
qed simp

lemma validate_key_ok:
  assumes "validate_key (k, v) ([], cs) = ([], cs')" and "distinct cs" and "set cs = custom_keys m"
  shows "distinct cs' \<and> set cs' = custom_keys (apply_change source now (k, v) m) \<and> (\<forall>x. v = Some x \<longrightarrow> length x \<le> VALUE_MAX)"
proof (cases "isReservedKey k")
  case True
  have "cs' = cs" "\<forall>x. v = Some x \<longrightarrow> length x \<le> VALUE_MAX"
    using assms(1) True by (auto simp: validate_key_def validateReservedValue_def split: option.splits if_splits)
  moreover have "custom_keys (apply_change source now (k, v) m) = custom_keys m"
    using True by (auto simp: custom_keys_def apply_change_keys)
  ultimately show ?thesis using assms(2,3) by simp
next
  case False
  show ?thesis
  proof (cases v)
    case None
    then have "cs' = removeAll k cs" using assms(1) False by (auto simp: validate_key_def split: if_splits)
    then show ?thesis using assms(2,3) None by (auto simp: custom_keys_def apply_change_keys distinct_removeAll)
  next
    case (Some x)
    then have "cs' = List.insert k cs" "length x \<le> VALUE_MAX" using assms(1) False by (auto simp: validate_key_def split: if_splits)
    then show ?thesis using assms(2,3) Some False by (auto simp: custom_keys_def apply_change_keys distinct_insert)
  qed
qed

lemma validate_ok:
  "fold validate_key input ([], cs) = ([], cs') \<Longrightarrow> distinct cs \<Longrightarrow> set cs = custom_keys m \<Longrightarrow>
   distinct cs' \<and> set cs' = custom_keys (applyMutations m input source now)
   \<and> (\<forall>(k, v) \<in> set input. \<forall>x. v = Some x \<longrightarrow> length x \<le> VALUE_MAX)"
  unfolding applyMutations_fold
proof (induction input arbitrary: cs m)
  case (Cons c input)
  obtain k v where c: "c = (k, v)" by (cases c)
  obtain e1 c1 where one: "validate_key (k, v) ([], cs) = (e1, c1)" by fastforce
  have "e1 = []" using Cons.prems(1) one c validate_errors [of input e1 c1] by auto
  with Cons.prems one c have rest: "fold validate_key input ([], c1) = ([], cs')" "validate_key (k, v) ([], cs) = ([], c1)" by simp_all
  from validate_key_ok [OF rest(2) Cons.prems(2,3), where source = source and now = now] Cons.IH [OF rest(1)] c show ?case by simp
qed simp

section \<open>Properties\<close>

text \<open>
  C34. Changing attributes. Reading the column after a set of changes was applied to what it held, in the
  nested or the older flat form, gives the new value for a key that was set, nothing for a key that was
  deleted, and what reading gave before for every other key.
\<close>

theorem attributes_read_back:
  assumes "distinct (map fst ms)"
  shows "map_of (flattenAttributes (stored_attributes (applyMutations (normalizeStored raw) ms source now))) k =
    (case map_of ms k of Some v \<Rightarrow> v | None \<Rightarrow> map_of (flattenAttributes raw) k)"
  unfolding flatten_map normalize_stored applyMutations_map [OF assms]
  by (auto simp: option.map_comp comp_def map_option.id [unfolded id_def] split: option.split)

theorem attributes_read_back_witness:
  "map_of (flattenAttributes (stored_attributes (applyMutations
     (normalizeStored (JObj [(''plan'', JNum 7), (''old'', JBool True)])) [(''plan'', Some ''gold''), (''old'', None)] ''sdk'' ''now''))) ''plan''
     = Some ''gold''"
  using attributes_read_back [of "[(''plan'', Some ''gold''), (''old'', None)]"] by simp

text \<open>
  C35. Limits. When the validator reports nothing for a set of changes, the attributes after them have at
  most fifty custom keys, and no value that was set is longer than five hundred characters.
\<close>

theorem accepted_attributes_bounded:
  assumes "validateAttributeInput input current = []" and "distinct (map fst current)"
  shows "card (custom_keys (applyMutations current input source now)) \<le> CUSTOM_MAX
    \<and> (\<forall>(k, v) \<in> set input. \<forall>x. v = Some x \<longrightarrow> length x \<le> VALUE_MAX)"
proof -
  let ?c = "filter (\<lambda>k. \<not> isReservedKey k) (map fst current)"
  obtain cs where v: "fold validate_key input ([], ?c) = ([], cs)" and len: "length cs \<le> CUSTOM_MAX"
    using assms(1) by (auto simp: validateAttributeInput_def split: prod.splits if_splits)
  have "set ?c = custom_keys current" by (auto simp: custom_keys_def)
  from validate_ok [OF v distinct_filter [OF assms(2)] this, where source = source and now = now] len
  show ?thesis by (auto simp: distinct_card [symmetric])
qed

theorem accepted_attributes_bounded_witness:
  "card (custom_keys (applyMutations [] [(''$email'', Some ''a@b.co''), (''tier'', Some ''x'')] ''sdk'' ''now'')) \<le> CUSTOM_MAX"
proof -
  have "validateAttributeInput [(''$email'', Some ''a@b.co''), (''tier'', Some ''x'')] [] = []" by code_simp
  from accepted_attributes_bounded [OF this] show ?thesis by simp
qed

end
