(* ===== verification/Placement_Resolution.thy ===== *)
theory Placement_Resolution
  imports Subscriber_Identity Subscriber_Attributes Paywall_Tree
begin

text \<open>
  What a device is shown at a placement: the rows of a placement
  (\<^verbatim>\<open>packages/shared/src/placements/schema.ts\<close>), their walk and the hydration of paywalls and
  experiments (\<^verbatim>\<open>apps/api/src/lib/placement-resolution.ts\<close>), the packages of an offering
  (\<^verbatim>\<open>apps/api/src/lib/offering-hydration.ts\<close>) and the route \<^verbatim>\<open>/v1/placements/:identifier\<close>.

  The tables read are the record \<open>catalog\<close>. The properties that an element experiment patches are plain
  ones: saving such an experiment admits the keys of \<^verbatim>\<open>OVERRIDABLE_PROP_KEYS\<close> only, none of which holds
  nodes. Stored builder configurations are those the schema accepts. Names that every JavaScript object
  inherits are not represented as locales. A raise is the left summand.

  The lemmas show that drafts do not influence what is served, that a served menu is the whole
  experiment, so that the device draws from the declared weights, that a subscriber in the holdout sees
  the control paywall where others see the menu, and that resolving never raises.
\<close>

section \<open>Rows\<close>

datatype placement_target = Target_Paywall string | Target_Experiment string | Target_None

record placement_row =
  pr_audienceId :: "string option"
  pr_target :: placement_target

definition nonempty_prop :: "json \<Rightarrow> string \<Rightarrow> string option" where
  "nonempty_prop v k = (case str_prop v k of Some s \<Rightarrow> if s = [] then None else Some s | None \<Rightarrow> None)"

definition placementTargetSchema :: "json \<Rightarrow> placement_target option" where
  "placementTargetSchema v =
     (case str_prop v ''type'' of
        None \<Rightarrow> None
      | Some t \<Rightarrow>
          if t = ''paywall'' then map_option Target_Paywall (nonempty_prop v ''paywallId'')
          else if t = ''experiment'' then map_option Target_Experiment (nonempty_prop v ''experimentId'')
          else if t = ''none'' then Some Target_None
          else None)"

definition placementRowSchema :: "json \<Rightarrow> placement_row option" where
  "placementRowSchema v =
     (case (jprop v ''audienceId'', map_option placementTargetSchema (jprop v ''target'')) of
        (Some a, Some (Some t)) \<Rightarrow>
          (case a of
             JNull \<Rightarrow> Some \<lparr>pr_audienceId = None, pr_target = t\<rparr>
           | JStr s \<Rightarrow> if s = [] then None else Some \<lparr>pr_audienceId = Some s, pr_target = t\<rparr>
           | _ \<Rightarrow> None)
      | _ \<Rightarrow> None)"

definition all_users_row :: "placement_row \<Rightarrow> bool" where
  "all_users_row r = (pr_audienceId r = None)"

definition placementRowsSchema :: "json \<Rightarrow> placement_row list option" where
  "placementRowsSchema v =
     (case v of
        JArr vs \<Rightarrow>
          (case those (map placementRowSchema vs) of
             None \<Rightarrow> None
           | Some rows \<Rightarrow>
               (let nullCount = length (filter all_users_row rows)
                in if nullCount > 1 then None
                   else if nullCount = 1 \<and> find_index all_users_row rows \<noteq> Some (length rows - 1) then None
                   else Some rows))
      | _ \<Rightarrow> None)"

section \<open>Tables\<close>

record paywall_version =
  pv_id :: string
  pv_offeringId :: string
  pv_remoteConfig :: json
  pv_configFormatVersion :: int
  pv_builderConfig :: "builder_config option"

record paywall_row =
  pwr_id :: string
  pwr_projectId :: string
  pwr_identifier :: string
  pwr_name :: string
  pwr_offeringId :: string
  pwr_remoteConfig :: json
  pwr_configFormatVersion :: int
  pwr_builderConfig :: "builder_config option"
  pwr_isActive :: bool
  pwr_publishedVersionId :: "string option"

record offering_row =
  of_id :: string
  of_projectId :: string
  of_identifier :: string
  of_isDefault :: bool
  of_packages :: json
  of_metadata :: json

record catalog_product =
  cp_id :: string
  cp_projectId :: string
  cp_identifier :: string
  cp_type :: string
  cp_displayName :: string
  cp_accessIds :: "string list"
  cp_isActive :: bool
  cp_storeIds :: json
  cp_androidBasePlanId :: "string option"
  cp_androidOfferId :: "string option"

record audience_row =
  au_id :: string
  au_projectId :: string
  au_rules :: json

record catalog =
  ct_paywalls :: "paywall_row list"
  ct_versions :: "paywall_version list"
  ct_offerings :: "offering_row list"
  ct_products :: "catalog_product list"
  ct_experiments :: "experiment_row list"
  ct_audiences :: "audience_row list"
  ct_holdoutPercentage :: "(string, rat) js_map"

definition findPaywallById :: "catalog \<Rightarrow> string \<Rightarrow> string \<Rightarrow> paywall_row option" where
  "findPaywallById db projectId i = find (\<lambda>p. pwr_projectId p = projectId \<and> pwr_id p = i) (ct_paywalls db)"

definition findPaywallsByIds :: "catalog \<Rightarrow> string \<Rightarrow> string list \<Rightarrow> paywall_row list" where
  "findPaywallsByIds db projectId ids = filter (\<lambda>p. pwr_projectId p = projectId \<and> pwr_id p \<in> set ids) (ct_paywalls db)"

definition findVersionById :: "catalog \<Rightarrow> string \<Rightarrow> paywall_version option" where
  "findVersionById db i = find (\<lambda>v. pv_id v = i) (ct_versions db)"

definition findVersionsByIds :: "catalog \<Rightarrow> string list \<Rightarrow> paywall_version list" where
  "findVersionsByIds db ids = filter (\<lambda>v. pv_id v \<in> set ids) (ct_versions db)"

definition findOfferingById :: "catalog \<Rightarrow> string \<Rightarrow> string \<Rightarrow> offering_row option" where
  "findOfferingById db projectId i = find (\<lambda>r. of_projectId r = projectId \<and> of_id r = i) (ct_offerings db)"

definition findProductsByIds :: "catalog \<Rightarrow> string \<Rightarrow> string list \<Rightarrow> catalog_product list" where
  "findProductsByIds db projectId ids = filter (\<lambda>p. cp_projectId p = projectId \<and> cp_id p \<in> set ids) (ct_products db)"

definition findByIdInProject :: "catalog \<Rightarrow> string \<Rightarrow> string \<Rightarrow> experiment_row option" where
  "findByIdInProject db i projectId = find (\<lambda>x. xp_id x = i \<and> xp_projectId x = projectId) (ct_experiments db)"

definition findAudiencesByIds :: "catalog \<Rightarrow> string \<Rightarrow> string list \<Rightarrow> audience_row list" where
  "findAudiencesByIds db projectId ids = filter (\<lambda>a. au_projectId a = projectId \<and> au_id a \<in> set ids) (ct_audiences db)"

definition findProjectHoldoutPercentage :: "catalog \<Rightarrow> string \<Rightarrow> rat" where
  "findProjectHoldoutPercentage db projectId =
     (case map_of (ct_holdoutPercentage db) projectId of Some p \<Rightarrow> p | None \<Rightarrow> 0)"

text \<open>\<^verbatim>\<open>new Map(rows.map((r) => [r.id, r]))\<close>: a later row wins.\<close>

definition map_by :: "('a \<Rightarrow> string) \<Rightarrow> 'a list \<Rightarrow> string \<Rightarrow> 'a option" where
  "map_by f rows i = find (\<lambda>r. f r = i) (rev rows)"

section \<open>Offerings\<close>

record package_slot =
  ps_identifier :: string
  ps_productId :: string
  ps_order :: int
  ps_isPromoted :: bool
  ps_metadata :: "json option"

definition packageSchema :: "json \<Rightarrow> package_slot option" where
  "packageSchema v =
     (let order = (case jprop v ''order'' of None \<Rightarrow> Some 0 | Some (JNum n) \<Rightarrow> if n < 0 then None else Some n | _ \<Rightarrow> None);
          promoted = (case jprop v ''isPromoted'' of None \<Rightarrow> Some False | Some (JBool b) \<Rightarrow> Some b | _ \<Rightarrow> None);
          metadata = (case jprop v ''metadata'' of None \<Rightarrow> Some None | Some (JObj m) \<Rightarrow> Some (Some (JObj m)) | _ \<Rightarrow> None)
      in case (str_prop v ''identifier'', str_prop v ''productId'', order, promoted, metadata) of
           (Some i, Some p, Some n, Some b, Some m) \<Rightarrow>
             Some \<lparr>ps_identifier = i, ps_productId = p, ps_order = n, ps_isPromoted = b, ps_metadata = m\<rparr>
         | _ \<Rightarrow> None)"

definition packagesSchema :: "json \<Rightarrow> package_slot list option" where
  "packagesSchema v = (case v of JArr vs \<Rightarrow> those (map packageSchema vs) | _ \<Rightarrow> None)"

definition optional_string :: "json \<Rightarrow> string \<Rightarrow> bool" where
  "optional_string v k = (case jprop v k of None \<Rightarrow> True | Some (JStr _) \<Rightarrow> True | _ \<Rightarrow> False)"

definition parseStoreIds :: "json \<Rightarrow> json" where
  "parseStoreIds raw =
     (case raw of
        JObj ps \<Rightarrow> if optional_string raw ''apple'' \<and> optional_string raw ''google'' \<and> optional_string raw ''stripe''
                   then raw else JObj []
      | _ \<Rightarrow> JObj [])"

record offering_product =
  op_packageIdentifier :: string
  op_identifier :: string
  op_type :: string
  op_displayName :: string
  op_order :: int
  op_isPromoted :: bool
  op_accessIds :: "string list"
  op_storeIds :: json
  op_androidBasePlanId :: "string option"
  op_androidOfferId :: "string option"
  op_metadata :: json

definition offering_entry :: "package_slot \<Rightarrow> catalog_product \<Rightarrow> offering_product" where
  "offering_entry s p =
     \<lparr>op_packageIdentifier = ps_identifier s, op_identifier = cp_identifier p, op_type = cp_type p,
      op_displayName = cp_displayName p, op_order = ps_order s, op_isPromoted = ps_isPromoted s,
      op_accessIds = cp_accessIds p, op_storeIds = parseStoreIds (cp_storeIds p),
      op_androidBasePlanId = cp_androidBasePlanId p, op_androidOfferId = cp_androidOfferId p,
      op_metadata = (case ps_metadata s of Some m \<Rightarrow> m | None \<Rightarrow> JObj [])\<rparr>"

definition hydrateProducts :: "package_slot list \<Rightarrow> (string \<Rightarrow> catalog_product option) \<Rightarrow> offering_product list" where
  "hydrateProducts memberships productById =
     concat (map (\<lambda>s. case productById (ps_productId s) of
                        Some p \<Rightarrow> if cp_isActive p then [offering_entry s p] else []
                      | None \<Rightarrow> [])
       (sort_key ps_order memberships))"

record hydrated_offering =
  ho_identifier :: string
  ho_isDefault :: bool
  ho_packages :: "offering_product list"
  ho_metadata :: json

definition hydrateOffering :: "catalog \<Rightarrow> string \<Rightarrow> offering_row \<Rightarrow> hydrated_offering" where
  "hydrateOffering db projectId r =
     \<lparr>ho_identifier = of_identifier r, ho_isDefault = of_isDefault r,
      ho_packages = (case packagesSchema (of_packages r) of
         None \<Rightarrow> []
       | Some packageSlots \<Rightarrow>
           hydrateProducts packageSlots (map_by cp_id (findProductsByIds db projectId (map ps_productId packageSlots)))),
      ho_metadata = of_metadata r\<rparr>"

section \<open>Hydration\<close>

definition record_of_records :: "json \<Rightarrow> (string \<times> json) list option" where
  "record_of_records v =
     (case v of JObj ps \<Rightarrow> if list_all (\<lambda>(k, x). case x of JObj _ \<Rightarrow> True | _ \<Rightarrow> False) ps then Some ps else None | _ \<Rightarrow> None)"

definition remoteConfigSchema :: "json \<Rightarrow> (string option \<times> (string \<times> json) list option) option" where
  "remoteConfigSchema v =
     (case v of
        JObj _ \<Rightarrow>
          (let d = (case jprop v ''defaultLocale'' of None \<Rightarrow> Some None | Some (JStr s) \<Rightarrow> if s = [] then None else Some (Some s) | _ \<Rightarrow> None);
               l = (case jprop v ''locales'' of None \<Rightarrow> Some None | Some x \<Rightarrow> map_option Some (record_of_records x))
           in case (d, l) of (Some d', Some l') \<Rightarrow> Some (d', l') | _ \<Rightarrow> None)
      | _ \<Rightarrow> None)"

definition resolveLocale :: "json \<Rightarrow> string option \<Rightarrow> (string \<times> json) option" where
  "resolveLocale remoteConfig requested =
     (case remoteConfigSchema remoteConfig of
        Some (defaultLocale, Some locales) \<Rightarrow>
          (let fallback = (case defaultLocale of Some d \<Rightarrow> Some d
                           | None \<Rightarrow> (case locales of [] \<Rightarrow> None | (k, v) # _ \<Rightarrow> Some k));
               pick = (if truthy requested \<and> map_of locales (the requested) \<noteq> None then requested else fallback)
           in if truthy pick then map_option (\<lambda>data. (the pick, data)) (map_of locales (the pick)) else None)
      | _ \<Rightarrow> None)"

record hydration_source =
  hs_offeringId :: string
  hs_remoteConfig :: json
  hs_configFormatVersion :: int
  hs_builderConfig :: "builder_config option"

record hydrated_paywall =
  hp_id :: string
  hp_identifier :: string
  hp_name :: string
  hp_configFormatVersion :: int
  hp_remoteConfig :: "(string \<times> json) option"
  hp_builderConfig :: "builder_config option"
  hp_offering :: "hydrated_offering option"

definition hydratePaywallBody ::
  "catalog \<Rightarrow> string \<Rightarrow> paywall_row \<Rightarrow> hydration_source \<Rightarrow> string option \<Rightarrow> hydrated_paywall" where
  "hydratePaywallBody db projectId paywall source requestedLocale =
     \<lparr>hp_id = pwr_id paywall, hp_identifier = pwr_identifier paywall, hp_name = pwr_name paywall,
      hp_configFormatVersion = hs_configFormatVersion source,
      hp_remoteConfig = resolveLocale (hs_remoteConfig source) requestedLocale,
      hp_builderConfig = hs_builderConfig source,
      hp_offering = map_option (hydrateOffering db projectId) (findOfferingById db projectId (hs_offeringId source))\<rparr>"

definition version_source :: "paywall_version \<Rightarrow> hydration_source" where
  "version_source v = \<lparr>hs_offeringId = pv_offeringId v, hs_remoteConfig = pv_remoteConfig v,
     hs_configFormatVersion = pv_configFormatVersion v, hs_builderConfig = pv_builderConfig v\<rparr>"

definition draft_source :: "paywall_row \<Rightarrow> hydration_source" where
  "draft_source p = \<lparr>hs_offeringId = pwr_offeringId p, hs_remoteConfig = pwr_remoteConfig p,
     hs_configFormatVersion = pwr_configFormatVersion p, hs_builderConfig = pwr_builderConfig p\<rparr>"

definition hydratePaywall ::
  "catalog \<Rightarrow> string \<Rightarrow> paywall_row \<Rightarrow> paywall_version \<Rightarrow> string option \<Rightarrow> hydrated_paywall" where
  "hydratePaywall db projectId paywall version requestedLocale =
     hydratePaywallBody db projectId paywall (version_source version) requestedLocale"

definition hydrateDraftPaywall :: "catalog \<Rightarrow> string \<Rightarrow> paywall_row \<Rightarrow> string option \<Rightarrow> hydrated_paywall option" where
  "hydrateDraftPaywall db projectId paywall requestedLocale =
     (if pwr_builderConfig paywall = None then None
      else Some (hydratePaywallBody db projectId paywall (draft_source paywall) requestedLocale))"

section \<open>Variants\<close>

record materialized_variant =
  mv_variantId :: string
  mv_weight :: rat
  mv_paywall :: hydrated_paywall

datatype variant_materialisation =
    Complete "materialized_variant list"
  | Partial hydrated_paywall nat
  | Nothing_Hydrated

definition classifyMaterialisation :: "materialized_variant option list \<Rightarrow> nat \<Rightarrow> variant_materialisation" where
  "classifyMaterialisation hydrated declaredCount =
     (let survivors = List.map_filter (\<lambda>v. v) hydrated
      in case survivors of
           [] \<Rightarrow> Nothing_Hydrated
         | s # _ \<Rightarrow> if length survivors = declaredCount then Complete survivors
                    else Partial (mv_paywall s) (length survivors))"

definition variant_refs :: "variant list \<Rightarrow> (variant \<times> string) list" where
  "variant_refs variants =
     concat (map (\<lambda>v. case nonempty_prop (va_value v) ''paywallId'' of Some p \<Rightarrow> [(v, p)] | None \<Rightarrow> []) variants)"

definition materialize_ref ::
  "catalog \<Rightarrow> string \<Rightarrow> string option \<Rightarrow> (string \<Rightarrow> paywall_row option) \<Rightarrow> (string \<Rightarrow> paywall_version option) \<Rightarrow>
     variant \<times> string \<Rightarrow> materialized_variant option" where
  "materialize_ref db projectId requestedLocale paywallById versionById ref =
     (case paywallById (snd ref) of
        None \<Rightarrow> None
      | Some paywall \<Rightarrow>
          if \<not> pwr_isActive paywall \<or> \<not> truthy (pwr_publishedVersionId paywall) then None
          else map_option
            (\<lambda>version. \<lparr>mv_variantId = va_id (fst ref), mv_weight = va_weight (fst ref),
                        mv_paywall = hydratePaywall db projectId paywall version requestedLocale\<rparr>)
            (versionById (the (pwr_publishedVersionId paywall))))"

definition materializePaywallVariants ::
  "catalog \<Rightarrow> string \<Rightarrow> variant list \<Rightarrow> string option \<Rightarrow> variant_materialisation" where
  "materializePaywallVariants db projectId variants requestedLocale =
     (let variantRefs = variant_refs variants
      in if variantRefs = [] then Nothing_Hydrated
         else
           let variantPaywalls = findPaywallsByIds db projectId (map snd variantRefs);
               paywallById = map_by pwr_id variantPaywalls;
               versionById = map_by pv_id (findVersionsByIds db (List.map_filter pwr_publishedVersionId variantPaywalls));
               hydrated = map (materialize_ref db projectId requestedLocale paywallById versionById) variantRefs
           in classifyMaterialisation hydrated (length variants))"

record element_value =
  ev_paywallId :: string
  ev_nodeId :: string
  ev_props :: "(string \<times> json) list"

definition elementVariantValueSchema :: "json \<Rightarrow> element_value option" where
  "elementVariantValueSchema v =
     (case (nonempty_prop v ''paywallId'', nonempty_prop v ''nodeId'', jprop v ''props'') of
        (Some p, Some n, Some (JObj ps)) \<Rightarrow> Some \<lparr>ev_paywallId = p, ev_nodeId = n, ev_props = ps\<rparr>
      | _ \<Rightarrow> None)"

definition props_patch :: "(string \<times> json) list \<Rightarrow> node_patch" where
  "props_patch ps = \<lparr>np_id = None, np_type = None, np_props = ps, np_children = None, np_cellTemplate = None, np_fallback = None\<rparr>"

definition patch_variant ::
  "hydrated_paywall \<Rightarrow> builder_config \<Rightarrow> variant \<times> element_value \<Rightarrow> tree_op_error + materialized_variant option" where
  "patch_variant base baseConfig = (\<lambda>(v, value).
     case applyTreeOp baseConfig (OpUpdateProps (ev_nodeId value) (props_patch (ev_props value))) of
       Inr patchedConfig \<Rightarrow> Inr (Some \<lparr>mv_variantId = va_id v, mv_weight = va_weight v,
                                       mv_paywall = base\<lparr>hp_builderConfig := Some patchedConfig\<rparr>\<rparr>)
     | Inl TARGET_NOT_FOUND \<Rightarrow> Inr None
     | Inl e \<Rightarrow> Inl e)"

fun map_throwing :: "('a \<Rightarrow> 'e + 'b) \<Rightarrow> 'a list \<Rightarrow> 'e + 'b list" where
  "map_throwing f [] = Inr []"
| "map_throwing f (x # xs) =
     (case f x of
        Inl e \<Rightarrow> Inl e
      | Inr y \<Rightarrow> (case map_throwing f xs of Inl e \<Rightarrow> Inl e | Inr ys \<Rightarrow> Inr (y # ys)))"

text \<open>An active paywall with a published version, of a project.\<close>

definition published_paywall :: "catalog \<Rightarrow> string \<Rightarrow> string \<Rightarrow> (paywall_row \<times> paywall_version) option" where
  "published_paywall db projectId paywallId =
     (case findPaywallById db projectId paywallId of
        None \<Rightarrow> None
      | Some paywall \<Rightarrow>
          if \<not> pwr_isActive paywall \<or> \<not> truthy (pwr_publishedVersionId paywall) then None
          else map_option (Pair paywall) (findVersionById db (the (pwr_publishedVersionId paywall))))"

definition materializeElementVariants ::
  "catalog \<Rightarrow> string \<Rightarrow> variant list \<Rightarrow> string option \<Rightarrow> tree_op_error + variant_materialisation" where
  "materializeElementVariants db projectId variants requestedLocale =
     (case those (map (\<lambda>v. elementVariantValueSchema (va_value v)) variants) of
        None \<Rightarrow> Inr Nothing_Hydrated
      | Some [] \<Rightarrow> Inr Nothing_Hydrated
      | Some (p # ps) \<Rightarrow>
          if list_ex (\<lambda>q. ev_paywallId q \<noteq> ev_paywallId p) (p # ps) then Inr Nothing_Hydrated
          else case published_paywall db projectId (ev_paywallId p) of
            None \<Rightarrow> Inr Nothing_Hydrated
          | Some (paywall, version) \<Rightarrow>
              let base = hydratePaywall db projectId paywall version requestedLocale
              in case hp_builderConfig base of
                   None \<Rightarrow> Inr Nothing_Hydrated
                 | Some baseConfig \<Rightarrow>
                     (case map_throwing (patch_variant base baseConfig) (zip variants (p # ps)) of
                        Inl e \<Rightarrow> Inl e
                      | Inr hydrated \<Rightarrow> Inr (classifyMaterialisation hydrated (length (p # ps)))))"

section \<open>The walk\<close>

record placement_table_row =
  pt_id :: string
  pt_projectId :: string
  pt_identifier :: string
  pt_revision :: nat
  pt_rows :: json
  pt_isActive :: bool

record resolved_experiment =
  re_id :: string
  re_key :: string
  re_variants :: "materialized_variant list"

record resolved_placement =
  rp_placement :: "(string \<times> nat) option"
  rp_paywall :: "hydrated_paywall option"
  rp_experiment :: "resolved_experiment option"

record resolve_call =
  rq_projectId :: string
  rq_attributes :: json
  rq_locale :: "string option"
  rq_subscriberId :: "string option"

definition in_holdout :: "eval_env \<Rightarrow> catalog \<Rightarrow> resolve_call \<Rightarrow> bool" where
  "in_holdout env db q =
     (truthy (rq_subscriberId q)
      \<and> (let holdoutPercentage = findProjectHoldoutPercentage db (rq_projectId q)
         in holdoutPercentage > 0
            \<and> isInRollout (vv_sha env) (the (rq_subscriberId q)) HOLDOUT_BUCKET_SEED (holdoutPercentage / 100)))"

definition materialise :: "catalog \<Rightarrow> string \<Rightarrow> experiment_row \<Rightarrow> string option \<Rightarrow> tree_op_error + variant_materialisation" where
  "materialise db projectId x requestedLocale =
     (if xp_type x = ET_ELEMENT then materializeElementVariants db projectId (xp_variants x) requestedLocale
      else Inr (materializePaywallVariants db projectId (xp_variants x) requestedLocale))"

definition row_matches :: "eval_env \<Rightarrow> (string \<Rightarrow> audience_row option) \<Rightarrow> json \<Rightarrow> placement_row \<Rightarrow> bool" where
  "row_matches env audienceById attributes r =
     (case pr_audienceId r of
        None \<Rightarrow> True
      | Some a \<Rightarrow> (case audienceById a of
                     None \<Rightarrow> False
                   | Some audience \<Rightarrow> matchesAudience (vv_sift env) attributes (au_rules audience)))"

text \<open>What a matching row serves; \<open>None\<close> is the walk to the next row.\<close>

definition resolve_row ::
  "eval_env \<Rightarrow> catalog \<Rightarrow> placement_table_row \<Rightarrow> resolve_call \<Rightarrow> outbox \<Rightarrow> placement_row \<Rightarrow>
     tree_op_error + ((hydrated_paywall option \<times> resolved_experiment option) \<times> outbox) option" where
  "resolve_row env db placement q ob r =
     (case pr_target r of
        Target_None \<Rightarrow> Inr (Some ((None, None), ob))
      | Target_Paywall i \<Rightarrow>
          Inr (map_option (\<lambda>(paywall, version). ((Some (hydratePaywall db (rq_projectId q) paywall version (rq_locale q)), None), ob))
            (published_paywall db (rq_projectId q) i))
      | Target_Experiment i \<Rightarrow>
          (case findByIdInProject db i (rq_projectId q) of
             None \<Rightarrow> Inr None
           | Some x \<Rightarrow>
               if xp_status x \<noteq> XS_RUNNING \<or> (xp_type x \<noteq> ET_PAYWALL \<and> xp_type x \<noteq> ET_ELEMENT) then Inr None
               else case materialise db (rq_projectId q) x (rq_locale q) of
                 Inl e \<Rightarrow> Inl e
               | Inr Nothing_Hydrated \<Rightarrow> Inr None
               | Inr (Partial fallback n) \<Rightarrow> Inr (Some ((Some fallback, None), ob))
               | Inr (Complete hydrated) \<Rightarrow>
                   Inr (Some (if in_holdout env db q
                     then ((Some (mv_paywall (hd hydrated)), None),
                           if vv_exposureFails env (xp_id x) then ob
                           else outbox_insert ob (publishExposure env (xp_id x) HOLDOUT_COHORT_ID (rq_projectId q)
                                  (the (rq_subscriberId q)) (Some (pt_id placement))))
                     else ((None, Some \<lparr>re_id = xp_id x, re_key = xp_key x, re_variants = hydrated\<rparr>), ob)))))"

fun resolve_rows ::
  "eval_env \<Rightarrow> catalog \<Rightarrow> placement_table_row \<Rightarrow> resolve_call \<Rightarrow> (string \<Rightarrow> audience_row option) \<Rightarrow> outbox \<Rightarrow> placement_row list \<Rightarrow>
     tree_op_error + (hydrated_paywall option \<times> resolved_experiment option) \<times> outbox" where
  "resolve_rows env db placement q audienceById ob [] = Inr ((None, None), ob)"
| "resolve_rows env db placement q audienceById ob (r # rs) =
     (if \<not> row_matches env audienceById (rq_attributes q) r then resolve_rows env db placement q audienceById ob rs
      else case resolve_row env db placement q ob r of
        Inl e \<Rightarrow> Inl e
      | Inr (Some answer) \<Rightarrow> Inr answer
      | Inr None \<Rightarrow> resolve_rows env db placement q audienceById ob rs)"

definition resolvePlacement ::
  "eval_env \<Rightarrow> catalog \<Rightarrow> placement_table_row \<Rightarrow> resolve_call \<Rightarrow> outbox \<Rightarrow> tree_op_error + resolved_placement \<times> outbox" where
  "resolvePlacement env db placement q ob =
     (let info = (pt_identifier placement, pt_revision placement)
      in case placementRowsSchema (pt_rows placement) of
           None \<Rightarrow> Inr (\<lparr>rp_placement = Some info, rp_paywall = None, rp_experiment = None\<rparr>, ob)
         | Some rows \<Rightarrow>
             (let audiences = findAudiencesByIds db (rq_projectId q)
                    (filter (\<lambda>a. a \<noteq> []) (List.map_filter pr_audienceId rows))
              in case resolve_rows env db placement q (map_by au_id audiences) ob rows of
                   Inl e \<Rightarrow> Inl e
                 | Inr ((paywall, experiment), ob') \<Rightarrow>
                     Inr (\<lparr>rp_placement = Some info, rp_paywall = paywall, rp_experiment = experiment\<rparr>, ob')))"

text \<open>The route: an unknown or inactive placement is the empty envelope.\<close>

definition placementsRoute ::
  "eval_env \<Rightarrow> catalog \<Rightarrow> placement_table_row list \<Rightarrow> subscriber list \<Rightarrow> string \<Rightarrow> string \<Rightarrow> string option \<Rightarrow>
     string option \<Rightarrow> outbox \<Rightarrow> tree_op_error + resolved_placement \<times> outbox" where
  "placementsRoute env db placements subscribers projectId identifier requestedLocale appUserId ob =
     (case find (\<lambda>p. pt_projectId p = projectId \<and> pt_identifier p = identifier) placements of
        None \<Rightarrow> Inr (\<lparr>rp_placement = None, rp_paywall = None, rp_experiment = None\<rparr>, ob)
      | Some placement \<Rightarrow>
          if \<not> pt_isActive placement then Inr (\<lparr>rp_placement = None, rp_paywall = None, rp_experiment = None\<rparr>, ob)
          else
            let subscriber = (if truthy appUserId
                  then resolveSubscriberByRovenueIdOrLegacy subscribers projectId (the appUserId) else None)
            in resolvePlacement env db placement
                 \<lparr>rq_projectId = projectId,
                  rq_attributes = (case subscriber of
                     Some s \<Rightarrow> JObj (map (\<lambda>(k, v). (k, JStr v)) (flattenAttributes (sb_attributes s)))
                   | None \<Rightarrow> JObj []),
                  rq_locale = requestedLocale, rq_subscriberId = map_option sb_id subscriber\<rparr> ob)"

section \<open>Materialisation\<close>

lemma update_raises: "applyTreeOp c (OpUpdateProps n p) = Inl e \<Longrightarrow> e = TARGET_NOT_FOUND"
  by (auto split: option.splits)

lemma patch_variant_total: "\<exists>m. patch_variant base c vv = Inr m"
proof (cases vv)
  case (Pair v x)
  show ?thesis
    by (cases "applyTreeOp c (OpUpdateProps (ev_nodeId x) (props_patch (ev_props x)))")
      (auto simp: patch_variant_def Pair simp del: applyTreeOp.simps dest: update_raises)
qed

lemma map_throwing_total: "(\<And>x. x \<in> set xs \<Longrightarrow> \<exists>y. f x = Inr y) \<Longrightarrow> \<exists>ys. map_throwing f xs = Inr ys"
proof (induction xs)
  case (Cons x xs)
  then obtain ys where "map_throwing f xs = Inr ys" by auto
  moreover obtain y where "f x = Inr y" using Cons.prems by auto
  ultimately show ?case by simp
qed simp

lemma map_throwing_Inr: "map_throwing f xs = Inr ys \<longleftrightarrow> list_all2 (\<lambda>x y. f x = Inr y) xs ys"
proof (induction xs arbitrary: ys)
  case (Cons x xs)
  show ?case
  proof (cases ys)
    case Nil
    then show ?thesis by (auto split: sum.splits)
  next
    case (Cons y ys')
    then show ?thesis using Cons.IH [of ys'] by (auto split: sum.splits)
  qed
qed auto

lemma materialise_total: "\<exists>m. materialise db p x l = Inr m"
proof (cases "xp_type x = ET_ELEMENT")
  case True
  have "\<exists>ys. map_throwing (patch_variant base c) zs = Inr ys" for base c zs
    using patch_variant_total by (intro map_throwing_total) blast
  then show ?thesis using True
    by (auto simp: materialise_def materializeElementVariants_def Let_def split: option.splits list.splits sum.splits)
      (metis sum.simps(4))+
qed (simp add: materialise_def)

text \<open>A complete set has one entry for each declared variant, in order.\<close>

lemma map_filter_length: "length (List.map_filter f xs) \<le> length xs"
  by (induction xs) (auto simp: List.map_filter_simps split: option.splits)

lemma map_filter_full:
  "length (List.map_filter f xs) = length xs \<Longrightarrow> map f xs = map Some (List.map_filter f xs)"
proof (induction xs)
  case (Cons x xs)
  have "length (List.map_filter f xs) \<le> length xs" by (rule map_filter_length)
  with Cons show ?case by (cases "f x") (auto simp: List.map_filter_simps)
qed simp

lemma classify_Complete:
  assumes "classifyMaterialisation hydrated n = Complete vs" and "length hydrated \<le> n"
  shows "hydrated = map Some vs \<and> length vs = n \<and> vs \<noteq> []"
proof -
  obtain s ss where "List.map_filter (\<lambda>v. v) hydrated = s # ss"
    using assms(1) by (cases "List.map_filter (\<lambda>v. v) hydrated") (simp_all add: classifyMaterialisation_def)
  moreover from this assms(1) have "vs = s # ss" "length (s # ss) = n"
    by (auto simp: classifyMaterialisation_def Let_def split: if_splits)
  ultimately have vs: "List.map_filter (\<lambda>v. v) hydrated = vs" "length vs = n" "vs \<noteq> []" by simp_all
  then have "length (List.map_filter (\<lambda>v. v) hydrated) = length hydrated"
    using assms(2) map_filter_length [of "\<lambda>v. v" hydrated] by simp
  from map_filter_full [OF this] vs show ?thesis by simp
qed

definition menu_of :: "variant list \<Rightarrow> materialized_variant list \<Rightarrow> bool" where
  "menu_of vs ms = (map (\<lambda>m. (mv_variantId m, mv_weight m)) ms = map (\<lambda>v. (va_id v, va_weight v)) vs)"

lemma variant_refs_length: "length (variant_refs vs) \<le> length vs"
proof (induction vs)
  case (Cons v vs)
  then show ?case by (cases "nonempty_prop (va_value v) ''paywallId''") (simp_all add: variant_refs_def)
qed (simp add: variant_refs_def)

lemma variant_refs_full: "length (variant_refs vs) = length vs \<Longrightarrow> map fst (variant_refs vs) = vs"
proof (induction vs)
  case (Cons v vs)
  then show ?case using variant_refs_length [of vs]
    by (cases "nonempty_prop (va_value v) ''paywallId''") (simp_all add: variant_refs_def)
qed (simp add: variant_refs_def)

lemma menu_from_parts:
  assumes "map f xs = map Some ms" and "map fst xs = vs"
    and "\<And>x m. x \<in> set xs \<Longrightarrow> f x = Some m \<Longrightarrow> mv_variantId m = va_id (fst x) \<and> mv_weight m = va_weight (fst x)"
  shows "menu_of vs ms"
  using assms
proof (induction xs arbitrary: ms vs)
  case (Cons x xs)
  then obtain m ms' where "ms = m # ms'" "f x = Some m" "map f xs = map Some ms'" by (cases ms) auto
  moreover from this have "mv_variantId m = va_id (fst x)" "mv_weight m = va_weight (fst x)" using Cons.prems(3) [of x m] by simp_all
  moreover have "menu_of (map fst xs) ms'" using Cons.IH [of ms'] Cons.prems(3) \<open>map f xs = map Some ms'\<close> by simp
  ultimately show ?case using Cons.prems(2) by (auto simp: menu_of_def)
qed (simp add: menu_of_def)

lemma paywall_menu:
  assumes "materializePaywallVariants db p vs l = Complete ms"
  shows "menu_of vs ms \<and> ms \<noteq> []"
proof -
  let ?refs = "variant_refs vs"
  obtain f where f_def: "f = materialize_ref db p l (map_by pwr_id (findPaywallsByIds db p (map snd ?refs)))
      (map_by pv_id (findVersionsByIds db (List.map_filter pwr_publishedVersionId (findPaywallsByIds db p (map snd ?refs)))))"
    by simp
  have c: "classifyMaterialisation (map f ?refs) (length vs) = Complete ms"
    using assms by (auto simp: f_def materializePaywallVariants_def Let_def split: if_splits)
  have f: "mv_variantId m = va_id (fst x) \<and> mv_weight m = va_weight (fst x)" if "f x = Some m" for x m
    using that by (auto simp: f_def materialize_ref_def split: option.splits if_splits)
  have full: "map f ?refs = map Some ms" "length ms = length vs" "ms \<noteq> []"
    using classify_Complete [OF c] variant_refs_length [of vs] by simp_all
  then have "map fst ?refs = vs" using variant_refs_full [of vs] by (metis length_map)
  then show ?thesis using menu_from_parts [OF full(1)] f full(3) by blast
qed

lemma map_results: "list_all2 (\<lambda>x y. g x = Inr y) xs ys \<Longrightarrow> map (\<lambda>x. case g x of Inr m \<Rightarrow> m | Inl _ \<Rightarrow> None) xs = ys"
  by (induction rule: list_all2_induct) simp_all

lemma those_length: "those xs = Some ys \<Longrightarrow> length ys = length xs"
  by (induction xs arbitrary: ys) (auto split: option.splits)

lemma element_menu:
  assumes "materializeElementVariants db p vs l = Inr (Complete ms)"
  shows "menu_of vs ms \<and> ms \<noteq> []"
proof -
  obtain q qs base c hydrated where those: "those (map (\<lambda>v. elementVariantValueSchema (va_value v)) vs) = Some (q # qs)"
    and h: "map_throwing (patch_variant base c) (zip vs (q # qs)) = Inr hydrated"
    and cl: "classifyMaterialisation hydrated (length (q # qs)) = Complete ms"
    using assms by (auto simp: materializeElementVariants_def Let_def classifyMaterialisation_def
        split: option.splits list.splits sum.splits if_splits)
  have len: "length (q # qs) = length vs" using those_length [OF those] by simp
  have all2: "list_all2 (\<lambda>x y. patch_variant base c x = Inr y) (zip vs (q # qs)) hydrated"
    using h unfolding map_throwing_Inr .
  then have "length hydrated = length (q # qs)" using len by (simp add: list_all2_lengthD [OF all2, symmetric])
  then have full: "hydrated = map Some ms" "ms \<noteq> []" using classify_Complete [OF cl] by simp_all
  let ?f = "\<lambda>x. case patch_variant base c x of Inr m \<Rightarrow> m | Inl _ \<Rightarrow> None"
  have "map ?f (zip vs (q # qs)) = map Some ms"
    using map_results [OF all2] unfolding full(1) .
  moreover have "map fst (zip vs (q # qs)) = vs" using len by simp
  moreover have "mv_variantId m = va_id (fst x) \<and> mv_weight m = va_weight (fst x)" if "?f x = Some m" for x m
    using that by (auto simp: patch_variant_def split: prod.splits sum.splits tree_op_error.splits)
  ultimately have "menu_of vs ms" by (rule menu_from_parts)
  with full show ?thesis by simp
qed

lemma materialise_menu: "materialise db p x l = Inr (Complete ms) \<Longrightarrow> menu_of (xp_variants x) ms \<and> ms \<noteq> []"
  using paywall_menu element_menu by (auto simp: materialise_def split: if_splits)

section \<open>The walk\<close>

text \<open>
  One row for an anonymous caller and for a subscriber: the same, except that the menu becomes its
  first paywall for a subscriber in the holdout.
\<close>

abbreviation anonymous :: "resolve_call \<Rightarrow> resolve_call" where
  "anonymous q \<equiv> q\<lparr>rq_subscriberId := None\<rparr>"

definition control_for ::
  "eval_env \<Rightarrow> placement_table_row \<Rightarrow> resolve_call \<Rightarrow> outbox \<Rightarrow> hydrated_paywall option \<times> resolved_experiment option \<Rightarrow>
     (hydrated_paywall option \<times> resolved_experiment option) \<times> outbox" where
  "control_for env placement q ob d =
     (case snd d of
        None \<Rightarrow> (d, ob)
      | Some x \<Rightarrow> ((Some (mv_paywall (hd (re_variants x))), None),
                   if vv_exposureFails env (re_id x) then ob
                   else outbox_insert ob (publishExposure env (re_id x) HOLDOUT_COHORT_ID (rq_projectId q)
                          (the (rq_subscriberId q)) (Some (pt_id placement)))))"

definition served_to ::
  "eval_env \<Rightarrow> catalog \<Rightarrow> placement_table_row \<Rightarrow> resolve_call \<Rightarrow> outbox \<Rightarrow> hydrated_paywall option \<times> resolved_experiment option \<Rightarrow>
     (hydrated_paywall option \<times> resolved_experiment option) \<times> outbox" where
  "served_to env db placement q ob d = (if in_holdout env db q then control_for env placement q ob d else (d, ob))"

lemma anonymous_not_held: "\<not> in_holdout env db (anonymous q)"
  by (simp add: in_holdout_def truthy_def)

lemma resolve_row_held:
  "\<exists>m. resolve_row env db pl (anonymous q) ob r = Inr (map_option (\<lambda>d. (d, ob)) m)
     \<and> resolve_row env db pl q ob r = Inr (map_option (served_to env db pl q ob) m)"
proof (cases "pr_target r")
  case (Target_Paywall i)
  show ?thesis
  proof (cases "published_paywall db (rq_projectId q) i")
    case None
    then show ?thesis using Target_Paywall by (intro exI [of _ None]) (simp add: resolve_row_def)
  next
    case (Some pv)
    then show ?thesis using Target_Paywall
      by (intro exI [of _ "Some (Some (hydratePaywall db (rq_projectId q) (fst pv) (snd pv) (rq_locale q)), None)"])
        (simp add: resolve_row_def served_to_def control_for_def case_prod_beta)
  qed
next
  case (Target_Experiment i)
  show ?thesis
  proof (cases "findByIdInProject db i (rq_projectId q)")
    case None
    then show ?thesis using Target_Experiment by (intro exI [of _ None]) (simp add: resolve_row_def)
  next
    case (Some x)
    obtain m where m: "materialise db (rq_projectId q) x (rq_locale q) = Inr m" using materialise_total by blast
    show ?thesis
    proof (cases "xp_status x \<noteq> XS_RUNNING \<or> (xp_type x \<noteq> ET_PAYWALL \<and> xp_type x \<noteq> ET_ELEMENT)")
      case True
      then show ?thesis using Target_Experiment Some by (intro exI [of _ None]) (simp add: resolve_row_def)
    next
      case False
      show ?thesis
      proof (cases m)
        case (Complete vs)
        then show ?thesis using Target_Experiment Some False m
          by (intro exI [of _ "Some (None, Some \<lparr>re_id = xp_id x, re_key = xp_key x, re_variants = vs\<rparr>)"])
            (simp add: resolve_row_def served_to_def control_for_def anonymous_not_held)
      next
        case (Partial f n)
        then show ?thesis using Target_Experiment Some False m
          by (intro exI [of _ "Some (Some f, None)"]) (simp add: resolve_row_def served_to_def control_for_def)
      next
        case Nothing_Hydrated
        then show ?thesis using Target_Experiment Some False m
          by (intro exI [of _ None]) (simp add: resolve_row_def)
      qed
    qed
  qed
next
  case Target_None
  then show ?thesis
    by (intro exI [of _ "Some (None, None)"]) (simp add: resolve_row_def served_to_def control_for_def)
qed

lemma resolve_rows_held:
  "\<exists>d. resolve_rows env db pl (anonymous q) auds ob rs = Inr (d, ob)
     \<and> resolve_rows env db pl q auds ob rs = Inr (served_to env db pl q ob d)"
proof (induction rs)
  case Nil
  show ?case by (intro exI [of _ "(None, None)"]) (simp add: served_to_def control_for_def)
next
  case (Cons r rs)
  obtain m where "resolve_row env db pl (anonymous q) ob r = Inr (map_option (\<lambda>d. (d, ob)) m)"
    "resolve_row env db pl q ob r = Inr (map_option (served_to env db pl q ob) m)" using resolve_row_held by blast
  with Cons show ?case by (cases m) auto
qed

text \<open>A row that serves a menu serves a whole running experiment.\<close>

definition whole_experiment :: "catalog \<Rightarrow> string \<Rightarrow> resolved_experiment \<Rightarrow> experiment_row \<Rightarrow> bool" where
  "whole_experiment db projectId x e =
     (e \<in> set (ct_experiments db) \<and> xp_id e = re_id x \<and> xp_key e = re_key x \<and> xp_projectId e = projectId
      \<and> xp_status e = XS_RUNNING \<and> menu_of (xp_variants e) (re_variants x) \<and> re_variants x \<noteq> [])"

lemma resolve_row_menu:
  assumes "resolve_row env db pl q ob r = Inr (Some ((p, Some x), ob'))"
  shows "\<exists>e. whole_experiment db (rq_projectId q) x e"
proof -
  obtain i e vs where e: "pr_target r = Target_Experiment i" "findByIdInProject db i (rq_projectId q) = Some e"
    "xp_status e = XS_RUNNING" "materialise db (rq_projectId q) e (rq_locale q) = Inr (Complete vs)"
    "x = \<lparr>re_id = xp_id e, re_key = xp_key e, re_variants = vs\<rparr>"
    using assms by (auto simp: resolve_row_def split: placement_target.splits option.splits if_splits sum.splits variant_materialisation.splits)
  then have "e \<in> set (ct_experiments db)" "xp_projectId e = rq_projectId q"
    using find_Some_iff_mem [of _ "ct_experiments db" e] by (auto simp: findByIdInProject_def)
  with e materialise_menu [OF e(4)] show ?thesis by (auto simp: whole_experiment_def)
qed

lemma resolve_rows_menu:
  "resolve_rows env db pl q auds ob rs = Inr ((p, Some x), ob') \<Longrightarrow> \<exists>e. whole_experiment db (rq_projectId q) x e"
proof (induction rs)
  case (Cons r rs)
  then show ?case by (auto split: if_splits sum.splits option.splits dest: resolve_row_menu)
qed simp

lemma resolvePlacement_parts:
  "resolvePlacement env db pl q ob = Inr (res, ob') \<Longrightarrow>
   rp_placement res = Some (pt_identifier pl, pt_revision pl) \<and>
   ((placementRowsSchema (pt_rows pl) = None \<and> rp_paywall res = None \<and> rp_experiment res = None \<and> ob' = ob)
    \<or> (\<exists>rows auds. resolve_rows env db pl q auds ob rows = Inr ((rp_paywall res, rp_experiment res), ob')))"
  unfolding resolvePlacement_def Let_def by (auto split: option.splits sum.splits; blast)

section \<open>Drafts\<close>

definition redraft :: "(paywall_row \<Rightarrow> hydration_source) \<Rightarrow> paywall_row \<Rightarrow> paywall_row" where
  "redraft D p = p\<lparr>pwr_offeringId := hs_offeringId (D p), pwr_remoteConfig := hs_remoteConfig (D p),
     pwr_configFormatVersion := hs_configFormatVersion (D p), pwr_builderConfig := hs_builderConfig (D p)\<rparr>"

definition redrafted :: "(paywall_row \<Rightarrow> hydration_source) \<Rightarrow> catalog \<Rightarrow> catalog" where
  "redrafted D db = db\<lparr>ct_paywalls := map (redraft D) (ct_paywalls db)\<rparr>"

lemma redraft_keeps [simp]:
  "pwr_id (redraft D p) = pwr_id p" "pwr_projectId (redraft D p) = pwr_projectId p"
  "pwr_identifier (redraft D p) = pwr_identifier p" "pwr_name (redraft D p) = pwr_name p"
  "pwr_isActive (redraft D p) = pwr_isActive p" "pwr_publishedVersionId (redraft D p) = pwr_publishedVersionId p"
  by (simp_all add: redraft_def)

lemma redrafted_keeps [simp]:
  "ct_versions (redrafted D db) = ct_versions db" "ct_offerings (redrafted D db) = ct_offerings db"
  "ct_products (redrafted D db) = ct_products db" "ct_experiments (redrafted D db) = ct_experiments db"
  "ct_audiences (redrafted D db) = ct_audiences db" "ct_holdoutPercentage (redrafted D db) = ct_holdoutPercentage db"
  "ct_paywalls (redrafted D db) = map (redraft D) (ct_paywalls db)"
  by (simp_all add: redrafted_def)

lemma redrafted_products [simp]: "findProductsByIds (redrafted D db) = findProductsByIds db"
  by (simp add: fun_eq_iff findProductsByIds_def)

lemma redrafted_offering [simp]: "hydrateOffering (redrafted D db) p = hydrateOffering db p"
  by (rule ext) (simp only: hydrateOffering_def redrafted_products)

lemma redrafted_reads [simp]:
  "findVersionById (redrafted D db) = findVersionById db" "findVersionsByIds (redrafted D db) = findVersionsByIds db"
  "findOfferingById (redrafted D db) = findOfferingById db" "findByIdInProject (redrafted D db) = findByIdInProject db"
  "findAudiencesByIds (redrafted D db) = findAudiencesByIds db"
  "in_holdout env (redrafted D db) q = in_holdout env db q"
  by (simp_all add: fun_eq_iff findVersionById_def findVersionsByIds_def findOfferingById_def findByIdInProject_def
      findAudiencesByIds_def in_holdout_def findProjectHoldoutPercentage_def)

lemma find_map: "find P (map f xs) = map_option f (find (\<lambda>x. P (f x)) xs)"
  by (induction xs) simp_all

lemma redrafted_find:
  "findPaywallById (redrafted D db) p i = map_option (redraft D) (findPaywallById db p i)"
  "findPaywallsByIds (redrafted D db) p ids = map (redraft D) (findPaywallsByIds db p ids)"
  by (simp_all add: findPaywallById_def findPaywallsByIds_def find_map filter_map comp_def)

lemma redrafted_hydrate: "hydratePaywall (redrafted D db) p (redraft D x) v l = hydratePaywall db p x v l"
  by (simp add: hydratePaywall_def hydratePaywallBody_def)

lemma redrafted_published:
  "published_paywall (redrafted D db) p i = map_option (\<lambda>(x, v). (redraft D x, v)) (published_paywall db p i)"
  by (auto simp: published_paywall_def redrafted_find option.map_comp comp_def split: option.splits)

lemma map_by_redraft: "map_by pwr_id (map (redraft D) xs) i = map_option (redraft D) (map_by pwr_id xs i)"
  by (simp add: map_by_def rev_map find_map)

lemma map_filter_map: "List.map_filter f (map g xs) = List.map_filter (\<lambda>x. f (g x)) xs"
  by (induction xs) (simp_all add: List.map_filter_simps split: option.split)

lemma redrafted_paywalls: "materializePaywallVariants (redrafted D db) p vs l = materializePaywallVariants db p vs l"
proof -
  have "materialize_ref (redrafted D db) p l (\<lambda>i. map_option (redraft D) (f i)) g = materialize_ref db p l f g" for f g
    by (auto simp: fun_eq_iff materialize_ref_def redrafted_hydrate split: option.splits)
  moreover have "map_by pwr_id (map (redraft D) xs) = (\<lambda>i. map_option (redraft D) (map_by pwr_id xs i))" for xs
    by (rule ext) (rule map_by_redraft)
  ultimately show ?thesis
    by (simp add: materializePaywallVariants_def redrafted_find map_filter_map Let_def)
qed

lemma redrafted_elements: "materializeElementVariants (redrafted D db) p vs l = materializeElementVariants db p vs l"
proof (cases "those (map (\<lambda>v. elementVariantValueSchema (va_value v)) vs)")
  case None
  then show ?thesis by (simp add: materializeElementVariants_def)
next
  case (Some qs)
  show ?thesis
  proof (cases qs)
    case Nil
    with Some show ?thesis by (simp add: materializeElementVariants_def)
  next
    case (Cons q qs')
    show ?thesis
      by (cases "published_paywall db p (ev_paywallId q)")
        (use Some Cons in \<open>auto simp: materializeElementVariants_def redrafted_published redrafted_hydrate Let_def split: option.split\<close>)
  qed
qed

lemma redrafted_row: "resolve_row env (redrafted D db) pl q ob r = resolve_row env db pl q ob r"
proof -
  have m: "materialise (redrafted D db) p x l = materialise db p x l" for p x l
    by (simp add: materialise_def redrafted_paywalls redrafted_elements)
  have h: "map_option (\<lambda>(w, v). ((Some (hydratePaywall (redrafted D db) p w v l), None), ob)) (published_paywall (redrafted D db) p i)
      = map_option (\<lambda>(w, v). ((Some (hydratePaywall db p w v l), None), ob)) (published_paywall db p i)" for p l i
    by (auto simp: redrafted_published option.map_comp comp_def case_prod_beta redrafted_hydrate intro!: map_option_cong)
  show ?thesis unfolding resolve_row_def m h redrafted_reads ..
qed

section \<open>Properties\<close>

definition menu_variants :: "materialized_variant list \<Rightarrow> variant list" where
  "menu_variants = map (\<lambda>m. \<lparr>va_id = mv_variantId m, va_name = [], va_value = JNull, va_weight = mv_weight m\<rparr>)"

lemma select_loop_menu:
  "menu_of vs ms \<Longrightarrow> map_option va_id (select_loop b c (menu_variants ms)) = map_option va_id (select_loop b c vs)"
proof (induction vs arbitrary: ms c)
  case (Cons v vs)
  then obtain m ms' where "ms = m # ms'" "mv_variantId m = va_id v" "mv_weight m = va_weight v" "menu_of vs ms'"
    by (cases ms) (auto simp: menu_of_def)
  with Cons.IH show ?case by (simp add: menu_variants_def Let_def)
qed (simp add: menu_of_def menu_variants_def)

lemma select_menu:
  assumes "menu_of vs ms"
  shows "map_option va_id (selectVariant b (menu_variants ms)) = map_option va_id (selectVariant b vs)"
proof -
  have "length ms = length vs" using assms unfolding menu_of_def by (metis length_map)
  moreover have "va_id (last (menu_variants ms)) = va_id (last vs)" if "vs \<noteq> []"
  proof -
    have "map va_id (menu_variants ms) = map va_id vs"
      using arg_cong [OF assms [unfolded menu_of_def], of "map fst"] by (simp add: menu_variants_def comp_def)
    then show ?thesis using that by (metis last_map map_is_Nil_conv)
  qed
  ultimately show ?thesis
    using select_loop_menu [OF assms, of b 0]
    by (auto simp: selectVariant_def menu_variants_def split: option.splits)
qed

text \<open>
  C24. When a placement serves an experiment, it is a running experiment of the project with all of its
  declared variants, so that for every bucket the draw of the device over the menu is the draw over the
  declared weights.
\<close>

theorem menu_is_whole_experiment:
  assumes "resolvePlacement env db placement q ob = Inr (res, ob')" and "rp_experiment res = Some x"
  shows "\<exists>e \<in> set (ct_experiments db).
    xp_id e = re_id x \<and> xp_key e = re_key x \<and> xp_projectId e = rq_projectId q \<and> xp_status e = XS_RUNNING
    \<and> length (re_variants x) = length (xp_variants e) \<and> re_variants x \<noteq> []
    \<and> (\<forall>b. map_option va_id (selectVariant b (menu_variants (re_variants x))) = map_option va_id (selectVariant b (xp_variants e)))"
proof -
  obtain rows auds where "resolve_rows env db placement q auds ob rows = Inr ((rp_paywall res, Some x), ob')"
    using resolvePlacement_parts [OF assms(1)] assms(2) by auto
  then obtain e where e: "whole_experiment db (rq_projectId q) x e" using resolve_rows_menu by blast
  then have "length (re_variants x) = length (xp_variants e)"
    unfolding whole_experiment_def menu_of_def by (metis length_map)
  with e select_menu show ?thesis unfolding whole_experiment_def by blast
qed

text \<open>
  The holdout. Resolving a placement never raises, writes nothing for an anonymous caller, and for a
  subscriber gives what the anonymous caller gets, unless that is the menu of an experiment and the
  subscriber is in the holdout: then it is the paywall of the first declared variant, and the exposure is
  recorded against the holdout cohort unless its write fails. A subscriber in the holdout is thus shown a
  paywall exactly where others are.
\<close>

lemma holdout_sees_control:
  "\<exists>res. resolvePlacement env db placement (q\<lparr>rq_subscriberId := None\<rparr>) ob = Inr (res, ob)
     \<and> resolvePlacement env db placement q ob
       = Inr (case rp_experiment res of
           Some x \<Rightarrow>
             if in_holdout env db q
             then (res\<lparr>rp_paywall := Some (mv_paywall (hd (re_variants x))), rp_experiment := None\<rparr>,
                   if vv_exposureFails env (re_id x) then ob
                   else outbox_insert ob (publishExposure env (re_id x) HOLDOUT_COHORT_ID (rq_projectId q)
                          (the (rq_subscriberId q)) (Some (pt_id placement))))
             else (res, ob)
         | None \<Rightarrow> (res, ob))"
proof (cases "placementRowsSchema (pt_rows placement)")
  case None
  then show ?thesis by (simp add: resolvePlacement_def)
next
  case (Some rows)
  let ?auds = "map_by au_id (findAudiencesByIds db (rq_projectId q) (filter (\<lambda>a. a \<noteq> []) (List.map_filter pr_audienceId rows)))"
  obtain p x where d: "resolve_rows env db placement (anonymous q) ?auds ob rows = Inr ((p, x), ob)"
    "resolve_rows env db placement q ?auds ob rows = Inr (served_to env db placement q ob (p, x))"
    using resolve_rows_held [of env db placement q ?auds ob rows] by auto
  show ?thesis
    by (cases x) (simp_all add: resolvePlacement_def Some d served_to_def control_for_def)
qed

lemma resolve_total: "\<exists>res ob'. resolvePlacement env db placement q ob = Inr (res, ob')"
proof (cases "placementRowsSchema (pt_rows placement)")
  case None
  then show ?thesis by (simp add: resolvePlacement_def)
next
  case (Some rows)
  let ?auds = "map_by au_id (findAudiencesByIds db (rq_projectId q) (filter (\<lambda>a. a \<noteq> []) (List.map_filter pr_audienceId rows)))"
  obtain d where d: "resolve_rows env db placement q ?auds ob rows = Inr (served_to env db placement q ob d)"
    using resolve_rows_held [of env db placement q ?auds ob rows] by auto
  show ?thesis by (cases "served_to env db placement q ob d") (auto simp: resolvePlacement_def Some d)
qed

text \<open>The route answers every request.\<close>

lemma route_total: "\<exists>res ob'. placementsRoute env db placements subs p i l a ob = Inr (res, ob')"
  using resolve_total by (auto simp: placementsRoute_def Let_def split: option.split)

text \<open>
  An anonymous caller matches every row whose audience has no rules, not the rows without audience only.
\<close>

lemma anonymous_matches_empty_rules:
  "pr_audienceId r = Some a \<Longrightarrow> auds a = Some au \<Longrightarrow> au_rules au = JObj [] \<Longrightarrow> row_matches env auds (JObj []) r"
  by (simp add: row_matches_def matchesAudience_def)

text \<open>
  C25. Drafts are not served. Whatever the drafts of the paywalls hold (offering, remote configuration,
  format version and builder tree), a placement resolves to the same answer.
\<close>

theorem drafts_not_served:
  "resolvePlacement env (redrafted D db) placement q ob = resolvePlacement env db placement q ob"
proof -
  have rows: "resolve_rows env (redrafted D db) placement q auds ob rows = resolve_rows env db placement q auds ob rows" for auds rows
    by (induction rows) (simp_all add: redrafted_row split: sum.split option.split)
  show ?thesis unfolding resolvePlacement_def redrafted_reads rows ..
qed

section \<open>Witness\<close>

definition paywall_sample :: "string \<Rightarrow> paywall_row" where
  "paywall_sample i = \<lparr>pwr_id = i, pwr_projectId = ''p'', pwr_identifier = i, pwr_name = i, pwr_offeringId = ''o'',
     pwr_remoteConfig = JObj [], pwr_configFormatVersion = 1, pwr_builderConfig = None, pwr_isActive = True,
     pwr_publishedVersionId = Some (''v'' @ i)\<rparr>"

definition version_sample :: "string \<Rightarrow> paywall_version" where
  "version_sample i = \<lparr>pv_id = i, pv_offeringId = ''o'',
     pv_remoteConfig = JObj [(''locales'', JObj [(''en'', JObj []), (''tr'', JObj [])])], pv_configFormatVersion = 1, pv_builderConfig = None\<rparr>"

definition paywall_arms :: "variant list" where
  "paywall_arms = [\<lparr>va_id = ''a'', va_name = ''A'', va_value = JObj [(''paywallId'', JStr ''1'')], va_weight = 1/4\<rparr>,
     \<lparr>va_id = ''b'', va_name = ''B'', va_value = JObj [(''paywallId'', JStr ''2'')], va_weight = 3/4\<rparr>]"

definition catalog_sample :: catalog where
  "catalog_sample = \<lparr>ct_paywalls = [paywall_sample ''1'', paywall_sample ''2''],
     ct_versions = [version_sample ''v1'', version_sample ''v2''], ct_offerings = [], ct_products = [],
     ct_experiments = [(row_sample ''A'' (1/2))\<lparr>xp_type := ET_PAYWALL, xp_variants := paywall_arms\<rparr>],
     ct_audiences = [], ct_holdoutPercentage = []\<rparr>"

definition placement_sample :: placement_table_row where
  "placement_sample = \<lparr>pt_id = ''pl'', pt_projectId = ''p'', pt_identifier = ''onboarding'', pt_revision = 3,
     pt_rows = JArr [JObj [(''audienceId'', JNull), (''target'', JObj [(''type'', JStr ''experiment''), (''experimentId'', JStr ''A'')])]],
     pt_isActive = True\<rparr>"

definition resolve_sample :: resolve_call where
  "resolve_sample = \<lparr>rq_projectId = ''p'', rq_attributes = JObj [], rq_locale = Some ''tr'', rq_subscriberId = Some ''sub''\<rparr>"

definition menu_sample :: "materialized_variant list" where
  "menu_sample = [\<lparr>mv_variantId = ''a'', mv_weight = 1/4,
       mv_paywall = hydratePaywall catalog_sample ''p'' (paywall_sample ''1'') (version_sample ''v1'') (Some ''tr'')\<rparr>,
     \<lparr>mv_variantId = ''b'', mv_weight = 3/4,
       mv_paywall = hydratePaywall catalog_sample ''p'' (paywall_sample ''2'') (version_sample ''v2'') (Some ''tr'')\<rparr>]"

theorem menu_is_whole_experiment_witness:
  "map_option va_id (selectVariant 2499 (menu_variants menu_sample)) = Some ''a''
   \<and> (\<exists>e \<in> set (ct_experiments catalog_sample). \<forall>b. map_option va_id (selectVariant b (menu_variants menu_sample))
        = map_option va_id (selectVariant b (xp_variants e)))"
proof -
  have r: "resolvePlacement env_sample catalog_sample placement_sample resolve_sample []
    = Inr (\<lparr>rp_placement = Some (''onboarding'', 3), rp_paywall = None,
        rp_experiment = Some \<lparr>re_id = ''A'', re_key = ''A'', re_variants = menu_sample\<rparr>\<rparr>, [])"
    by code_simp
  have "map_option va_id (selectVariant 2499 (menu_variants menu_sample)) = Some ''a''" by code_simp
  moreover have "\<exists>e \<in> set (ct_experiments catalog_sample). \<forall>b. map_option va_id (selectVariant b (menu_variants menu_sample))
        = map_option va_id (selectVariant b (xp_variants e))"
    using menu_is_whole_experiment [OF r] by force
  ultimately show ?thesis by blast
qed

end
