(* ===== verification/Rate_Limits.thy ===== *)
theory Rate_Limits
  imports Rovenue_Prelude
begin

text \<open>
  The request limiters of the API: \<^verbatim>\<open>apps/api/src/middleware/rate-limit.ts\<close>, the in-process
  limiter it falls back to (\<^verbatim>\<open>insurance-rate-limit.ts\<close>) and the per-store limiter of the
  webhook routes (\<^verbatim>\<open>routes/webhooks/index.ts\<close>).

  A Redis key that holds a sorted set is the list of its members with their scores, in the
  order of the scores, together with the instant at which the key expires; a \<^verbatim>\<open>multi\<close> pipeline
  is one atomic step, as Redis documents it. The member \<^verbatim>\<open>`${now}-${Math.random()}`\<close> is the pair
  of the clock reading and the random number. How the pipeline call ends is an argument: it
  answers, it resolves to null, or it throws with or without the commands having been applied.

  The lemmas show that the Redis limiter is the sliding log its comment describes: a request
  passes exactly if at most \<open>max\<close> requests of the same client, itself and the refused ones
  included, lie in the window that ends with it. The insurance limiter admits at most fifty
  requests per fixed window and a hundred in any rolling minute, and its sweep changes no verdict.
\<close>

section \<open>The client of a request\<close>

record client_ctx =
  cx_forwarded :: "string option"
  cx_realIp :: "string option"
  cx_apiKeyId :: "string option"
  cx_userId :: "string option"

text \<open>The hops of an \<^verbatim>\<open>X-Forwarded-For\<close> header; \<^verbatim>\<open>filter(Boolean)\<close> drops the empty ones.\<close>

definition forwarded_hops :: "string \<Rightarrow> string list" where
  "forwarded_hops xff = filter (\<lambda>s. s \<noteq> []) (map js_trim (js_split (CHR '','') xff))"

definition clientIp :: "nat \<Rightarrow> client_ctx \<Rightarrow> string" where
  "clientIp trustedProxyCount c =
     (let fallback = (case cx_realIp c of Some ip \<Rightarrow> ip | None \<Rightarrow> ''unknown'')
      in case cx_forwarded c of
           None \<Rightarrow> fallback
         | Some xff \<Rightarrow>
             (let hops = forwarded_hops xff
              in if xff \<noteq> [] \<and> hops \<noteq> [] then hops ! (length hops - 1 - trustedProxyCount)
                 else fallback))"

section \<open>The sorted sets of the Redis limiter\<close>

type_synonym zmember = "timestamp \<times> nat"
type_synonym zset = "(int \<times> zmember) list"

record zkey =
  zk_set :: zset
  zk_expiresAt :: timestamp

definition zlive :: "timestamp \<Rightarrow> zkey option \<Rightarrow> zset" where
  "zlive now k = (case k of None \<Rightarrow> [] | Some z \<Rightarrow> if now < zk_expiresAt z then zk_set z else [])"

definition zremrangebyscore :: "int \<Rightarrow> int \<Rightarrow> zset \<Rightarrow> zset" where
  "zremrangebyscore lo hi z = filter (\<lambda>(s, m). \<not> (lo \<le> s \<and> s \<le> hi)) z"

definition zadd :: "int \<Rightarrow> zmember \<Rightarrow> zset \<Rightarrow> zset" where
  "zadd s m z = insort_key fst (s, m) (filter (\<lambda>e. snd e \<noteq> m) z)"

section \<open>The insurance limiter\<close>

definition INSURANCE_WINDOW_MS :: int where "INSURANCE_WINDOW_MS = 60000"
definition INSURANCE_MAX :: int where "INSURANCE_MAX = 50"
definition SWEEP_THRESHOLD :: nat where "SWEEP_THRESHOLD = 10000"

record bucket =
  bk_windowStart :: timestamp
  bk_count :: int

type_synonym buckets = "(string, bucket) js_map"

definition maybeSweepStale :: "timestamp \<Rightarrow> buckets \<Rightarrow> buckets" where
  "maybeSweepStale now bs =
     (if length bs < SWEEP_THRESHOLD then bs
      else filter (\<lambda>(k, b). \<not> now - bk_windowStart b \<ge> INSURANCE_WINDOW_MS) bs)"

definition insuranceConsume :: "timestamp \<Rightarrow> string \<Rightarrow> buckets \<Rightarrow> bool \<times> buckets" where
  "insuranceConsume now key bs0 =
     (let bs = maybeSweepStale now bs0;
          fresh = (True, AList.update key \<lparr>bk_windowStart = now, bk_count = 1\<rparr> bs)
      in case map_of bs key of
           None \<Rightarrow> fresh
         | Some existing \<Rightarrow>
             if now - bk_windowStart existing \<ge> INSURANCE_WINDOW_MS then fresh
             else (let n = bk_count existing + 1
                   in (n \<le> INSURANCE_MAX, AList.update key (existing\<lparr>bk_count := n\<rparr>) bs)))"

section \<open>The limiter\<close>

record rate_options =
  ro_windowMs :: int
  ro_max :: int
  ro_keyPrefix :: "string option"

datatype pipeline_reply = Answered | Null_reply | Threw (threw_applied: bool)

text \<open>
  What one request meets: the clock reading, the random number, how the pipeline ends, and the
  clock reading of the insurance limiter when it is asked.
\<close>

record rate_env =
  re_now :: timestamp
  re_random :: nat
  re_reply :: pipeline_reply
  re_later :: timestamp

record rate_state =
  rs_sets :: "string \<Rightarrow> zkey option"
  rs_buckets :: buckets

record rate_headers =
  rh_limit :: int
  rh_remaining :: int
  rh_reset :: int

datatype rate_verdict =
  Passed "rate_headers option"
| Limited (retryAfter: int) (limitHeaders: "rate_headers option")

fun passed :: "rate_verdict \<Rightarrow> bool" where
  "passed (Passed _) = True"
| "passed (Limited _ _) = False"

text \<open>\<^verbatim>\<open>Math.ceil(ms / 1000)\<close>.\<close>

definition ceil_seconds :: "int \<Rightarrow> int" where
  "ceil_seconds ms = - ((- ms) div 1000)"

definition DEFAULT_PREFIX :: string where "DEFAULT_PREFIX = ''rl''"

definition rate_key :: "rate_options \<Rightarrow> string \<Rightarrow> string" where
  "rate_key opts ident =
     (case ro_keyPrefix opts of None \<Rightarrow> DEFAULT_PREFIX | Some p \<Rightarrow> p) @ '':'' @ ident"

text \<open>The set after the eviction and the insertion, and the key with its new expiry.\<close>

definition limiter_set :: "rate_options \<Rightarrow> rate_env \<Rightarrow> zkey option \<Rightarrow> zset" where
  "limiter_set opts e k =
     zadd (re_now e) (re_now e, re_random e)
       (zremrangebyscore 0 (re_now e - ro_windowMs opts) (zlive (re_now e) k))"

definition pipeline :: "rate_options \<Rightarrow> rate_env \<Rightarrow> zkey option \<Rightarrow> zkey option" where
  "pipeline opts e k =
     Some \<lparr>zk_set = limiter_set opts e k, zk_expiresAt = re_now e + ro_windowMs opts\<rparr>"

definition limiter_verdict :: "rate_options \<Rightarrow> timestamp \<Rightarrow> int \<Rightarrow> int \<Rightarrow> rate_verdict" where
  "limiter_verdict opts now cardinality oldestScore =
     (let remaining = max 0 (ro_max opts - cardinality);
          resetMs = oldestScore + ro_windowMs opts;
          resetSeconds = ceil_seconds resetMs
      in if cardinality > ro_max opts
         then Limited (max 1 (ceil_seconds (resetMs - now)))
                (Some \<lparr>rh_limit = ro_max opts, rh_remaining = 0, rh_reset = resetSeconds\<rparr>)
         else Passed (Some \<lparr>rh_limit = ro_max opts, rh_remaining = remaining, rh_reset = resetSeconds\<rparr>))"

definition rateLimit ::
  "rate_options \<Rightarrow> string \<Rightarrow> rate_env \<Rightarrow> rate_state \<Rightarrow> rate_verdict \<times> rate_state" where
  "rateLimit opts ident e st =
     (let key = rate_key opts ident;
          k = rs_sets st key;
          applied = st\<lparr>rs_sets := (rs_sets st)(key := pipeline opts e k)\<rparr>
      in case re_reply e of
           Answered \<Rightarrow>
             (let z = limiter_set opts e k
              in (limiter_verdict opts (re_now e) (int (length z))
                    (case z of [] \<Rightarrow> re_now e | (s, m) # _ \<Rightarrow> s), applied))
         | Null_reply \<Rightarrow> (limiter_verdict opts (re_now e) 0 (re_now e), st)
         | Threw a \<Rightarrow>
             (let st1 = (if a then applied else st);
                  (admit, bs) = insuranceConsume (re_later e) key (rs_buckets st1)
              in (if admit then Passed None else Limited 60 None, st1\<lparr>rs_buckets := bs\<rparr>)))"

section \<open>The presets\<close>

definition MINUTE_MS :: int where "MINUTE_MS = 60000"

type_synonym limiter = "nat \<Rightarrow> client_ctx \<Rightarrow> rate_env \<Rightarrow> rate_state \<Rightarrow> rate_verdict \<times> rate_state"

definition globalIpRateLimit :: limiter where
  "globalIpRateLimit tpc c =
     rateLimit \<lparr>ro_windowMs = MINUTE_MS, ro_max = 1000, ro_keyPrefix = Some ''rl:global:ip''\<rparr> (clientIp tpc c)"

definition apiKeyRateLimit :: limiter where
  "apiKeyRateLimit tpc c =
     rateLimit \<lparr>ro_windowMs = MINUTE_MS, ro_max = 500, ro_keyPrefix = Some ''rl:key''\<rparr>
       (case cx_apiKeyId c of Some k \<Rightarrow> k | None \<Rightarrow> clientIp tpc c)"

definition dashboardUserRateLimit :: limiter where
  "dashboardUserRateLimit tpc c =
     rateLimit \<lparr>ro_windowMs = MINUTE_MS, ro_max = 300, ro_keyPrefix = Some ''rl:dashboard:user''\<rparr>
       (case cx_userId c of Some u \<Rightarrow> u | None \<Rightarrow> clientIp tpc c)"

record endpoint_options =
  eo_max :: int
  eo_windowMs :: "int option"
  eo_name :: string
  eo_identify :: "(client_ctx \<Rightarrow> string) option"

definition endpointRateLimit :: "endpoint_options \<Rightarrow> limiter" where
  "endpointRateLimit opts tpc c =
     rateLimit
       \<lparr>ro_windowMs = (case eo_windowMs opts of Some w \<Rightarrow> w | None \<Rightarrow> MINUTE_MS), ro_max = eo_max opts,
        ro_keyPrefix = Some (''rl:endpoint:'' @ eo_name opts)\<rparr>
       (case eo_identify opts of
          Some f \<Rightarrow> f c
        | None \<Rightarrow> (case cx_apiKeyId c of Some k \<Rightarrow> k | None \<Rightarrow> clientIp tpc c))"

text \<open>
  The limiter each store's webhook route mounts. It names the client by the first hop of the
  header: an absent header gives \<^verbatim>\<open>unknown\<close>, an empty one the empty string.
\<close>

definition storeIdentify :: "string \<Rightarrow> client_ctx \<Rightarrow> string" where
  "storeIdentify storeName c =
     storeName @ '':'' @ (case cx_forwarded c of None \<Rightarrow> ''unknown''
                          | Some xff \<Rightarrow> js_trim (hd (js_split (CHR '','') xff)))"

definition storeLimit :: "string \<Rightarrow> limiter" where
  "storeLimit storeName =
     endpointRateLimit \<lparr>eo_max = 200, eo_windowMs = None, eo_name = ''webhook:'' @ storeName,
                        eo_identify = Some (storeIdentify storeName)\<rparr>"

section \<open>Whose bucket a request is counted in\<close>

lemma forwarded_hops_append:
  "forwarded_hops (s @ CHR '','' # t) = forwarded_hops s @ forwarded_hops t"
  by (simp add: forwarded_hops_def js_split_append)

lemma clientIp_hops:
  assumes "cx_forwarded c = Some xff" and "forwarded_hops xff \<noteq> []"
  shows "clientIp n c = forwarded_hops xff ! (length (forwarded_hops xff) - 1 - n)"
proof -
  have "xff \<noteq> []" using assms(2) by (auto simp: forwarded_hops_def js_trim_def)
  with assms show ?thesis by (simp add: clientIp_def Let_def)
qed

text \<open>Anything the client prepends is ignored if the infrastructure adds one hop more than it trusts.\<close>

lemma clientIp_ignores_prefix:
  assumes "length (forwarded_hops t) > n"
  shows "clientIp n (c\<lparr>cx_forwarded := Some (s @ '','' @ t)\<rparr>) = clientIp n (c\<lparr>cx_forwarded := Some t\<rparr>)"
proof -
  have t: "forwarded_hops t \<noteq> []" using assms by auto
  show ?thesis
    using assms t by (auto simp: clientIp_hops forwarded_hops_append nth_append)
qed

text \<open>
  If each of the \<open>n\<close> trusted proxies appends the address of its peer, and nothing more, the
  header has \<open>n\<close> hops of their making, and the limiter reads the hop before them.
\<close>

lemma clientIp_takes_client_hop:
  assumes "length (forwarded_hops t) = n" and "forwarded_hops s \<noteq> []"
  shows "clientIp n (c\<lparr>cx_forwarded := Some (s @ '','' @ t)\<rparr>) = last (forwarded_hops s)"
  using assms by (simp add: clientIp_hops forwarded_hops_append nth_append last_conv_nth)

section \<open>The sliding log\<close>

definition rate_entry :: "rate_env \<Rightarrow> int \<times> zmember" where
  "rate_entry e = (re_now e, (re_now e, re_random e))"

text \<open>The requests of one client, and the number of them in the window that ends at \<open>t\<close>.\<close>

definition of_client :: "string \<Rightarrow> (string \<times> rate_env) list \<Rightarrow> rate_env list" where
  "of_client ident rs = map snd (filter (\<lambda>r. fst r = ident) rs)"

definition window_count :: "int \<Rightarrow> timestamp \<Rightarrow> rate_env list \<Rightarrow> int" where
  "window_count w t es = int (length (filter (\<lambda>e. t - w < re_now e) es))"

fun limiter_run :: "rate_options \<Rightarrow> rate_state \<Rightarrow> (string \<times> rate_env) list \<Rightarrow> rate_verdict list" where
  "limiter_run opts st [] = []"
| "limiter_run opts st ((ident, e) # rs) =
     (case rateLimit opts ident e st of (v, st') \<Rightarrow> v # limiter_run opts st' rs)"

text \<open>The reference: a log of all requests, scanned anew for each of them.\<close>

fun sliding_log :: "rate_options \<Rightarrow> (string \<times> rate_env) list \<Rightarrow> (string \<times> rate_env) list \<Rightarrow> bool list" where
  "sliding_log opts h [] = []"
| "sliding_log opts h (r # rs) =
     (window_count (ro_windowMs opts) (re_now (snd r)) (of_client (fst r) (h @ [r])) \<le> ro_max opts)
     # sliding_log opts (h @ [r]) rs"

text \<open>
  Requests whose pipeline is answered, with readings of one clock in order and a member of its
  own for every request of a client.
\<close>

definition clocked :: "(string \<times> rate_env) list \<Rightarrow> bool" where
  "clocked rs = (sorted (map (re_now \<circ> snd) rs)
     \<and> list_all (\<lambda>r. 0 \<le> re_now (snd r) \<and> re_reply (snd r) = Answered) rs
     \<and> distinct (map (\<lambda>r. (fst r, re_now (snd r), re_random (snd r))) rs))"

text \<open>What Redis holds for a client after the requests \<open>h\<close>.\<close>

definition logged :: "int \<Rightarrow> rate_env list \<Rightarrow> zkey option \<Rightarrow> bool" where
  "logged w h k = (case k of
       None \<Rightarrow> h = []
     | Some z \<Rightarrow> h \<noteq> [] \<and> zk_expiresAt z = re_now (last h) + w
         \<and> mset (zk_set z) = mset (map rate_entry (filter (\<lambda>e. re_now (last h) - w < re_now e) h)))"

lemma rate_key_inj: "(rate_key opts a = rate_key opts b) = (a = b)"
  by (simp add: rate_key_def)

lemma mset_zadd:
  "m \<notin> snd ` set z \<Longrightarrow> mset (zadd s m z) = add_mset (s, m) (mset z)"
proof -
  assume "m \<notin> snd ` set z"
  then have "filter (\<lambda>e. snd e \<noteq> m) z = z" by (intro filter_True) auto
  then show ?thesis by (simp add: zadd_def)
qed

lemma evict_logged:
  assumes "logged w h k" and "\<forall>e \<in> set h. 0 \<le> re_now e \<and> re_now e \<le> re_now (last h)"
    and "h \<noteq> [] \<Longrightarrow> re_now (last h) \<le> t"
  shows "mset (zremrangebyscore 0 (t - w) (zlive t k))
         = mset (map rate_entry (filter (\<lambda>e. t - w < re_now e) h))"
proof (cases k)
  case None
  then show ?thesis using assms(1) by (simp add: logged_def zlive_def zremrangebyscore_def)
next
  case (Some z)
  let ?l = "re_now (last h)"
  from Some assms(1) have ne: "h \<noteq> []" and ex: "zk_expiresAt z = ?l + w"
    and m: "mset (zk_set z) = mset (map rate_entry (filter (\<lambda>e. ?l - w < re_now e) h))"
    by (simp_all add: logged_def)
  have lt: "?l \<le> t" using assms(3) ne .
  show ?thesis
  proof (cases "t < ?l + w")
    case True
    have "mset (zremrangebyscore 0 (t - w) (zlive t k))
        = filter_mset (\<lambda>(s, m). \<not> (0 \<le> s \<and> s \<le> t - w)) (mset (zk_set z))"
      using True Some ex by (simp add: zlive_def zremrangebyscore_def)
    also have "\<dots> = mset (filter (\<lambda>(s, m). \<not> (0 \<le> s \<and> s \<le> t - w))
        (map rate_entry (filter (\<lambda>e. ?l - w < re_now e) h)))"
      by (simp only: m mset_filter)
    also have "filter (\<lambda>(s, m). \<not> (0 \<le> s \<and> s \<le> t - w)) (map rate_entry (filter (\<lambda>e. ?l - w < re_now e) h))
        = map rate_entry (filter (\<lambda>e. t - w < re_now e) h)"
    proof -
      have "filter (\<lambda>e. re_now e > ?l - w \<and> \<not> (0 \<le> re_now e \<and> re_now e \<le> t - w)) h
          = filter (\<lambda>e. t - w < re_now e) h"
        using assms(2) lt by (intro filter_cong) auto
      then show ?thesis by (simp add: filter_map comp_def rate_entry_def)
    qed
    finally show ?thesis .
  next
    case False
    have "filter (\<lambda>e. t - w < re_now e) h = []"
      using assms(2) False by (intro filter_False) auto
    then show ?thesis using False Some ex by (simp add: zlive_def zremrangebyscore_def)
  qed
qed

lemma of_client_snoc:
  "of_client i (h @ [(j, e)]) = (if i = j then of_client i h @ [e] else of_client i h)"
  by (simp add: of_client_def)

lemma clocked_of_client:
  assumes "clocked (h @ [(ident, e)])" and "x \<in> set (of_client ident h)"
  shows "0 \<le> re_now x \<and> re_now x \<le> re_now e \<and> rate_entry x \<noteq> rate_entry e"
proof -
  from assms(2) have x: "(ident, x) \<in> set h" by (auto simp: of_client_def)
  have "re_now x \<le> re_now e" using assms(1) x by (auto simp: clocked_def sorted_append)
  moreover have "0 \<le> re_now x" using assms(1) x by (auto simp: clocked_def list_all_iff)
  moreover have "(ident, re_now e, re_random e) \<noteq> (ident, re_now x, re_random x)"
    using assms(1) x by (force simp: clocked_def simp del: prod.inject)
  ultimately show ?thesis by (auto simp: rate_entry_def)
qed

lemma of_client_le_last:
  assumes "sorted (map (re_now \<circ> snd) h)" and "x \<in> set (of_client i h)"
  shows "re_now x \<le> re_now (last (of_client i h))"
proof -
  have "sorted (map re_now (of_client i h))"
    using sorted_filter [OF assms(1)] by (simp add: of_client_def comp_def)
  from sorted_map_le_last [OF this assms(2)] show ?thesis .
qed

lemma limiter_set_logged:
  assumes "logged (ro_windowMs opts) (of_client ident h) k" and "clocked (h @ [(ident, e)])"
  shows "mset (limiter_set opts e k) = mset (map rate_entry
     (filter (\<lambda>x. re_now e - ro_windowMs opts < re_now x) (of_client ident h) @ [e]))"
proof -
  let ?w = "ro_windowMs opts" and ?c = "of_client ident h"
  have srt: "sorted (map (re_now \<circ> snd) h)" using assms(2) by (simp add: clocked_def sorted_append)
  have evict: "mset (zremrangebyscore 0 (re_now e - ?w) (zlive (re_now e) k))
      = mset (map rate_entry (filter (\<lambda>x. re_now e - ?w < re_now x) ?c))" (is "mset ?z = mset ?r")
    using clocked_of_client [OF assms(2)] of_client_le_last [OF srt]
    by (intro evict_logged [OF assms(1)]) auto
  have "(re_now e, re_random e) \<notin> snd ` set ?z"
  proof
    assume "(re_now e, re_random e) \<in> snd ` set ?z"
    then have "(re_now e, re_random e) \<in> snd ` set ?r" using mset_eq_setD [OF evict] by simp
    then obtain x where "x \<in> set ?c" and "snd (rate_entry x) = (re_now e, re_random e)" by auto
    then show False using clocked_of_client [OF assms(2)] by (auto simp: rate_entry_def)
  qed
  from mset_zadd [OF this, of "re_now e"] show ?thesis
    by (simp add: limiter_set_def evict rate_entry_def)
qed

definition oldest :: "zset \<Rightarrow> timestamp \<Rightarrow> int" where
  "oldest z now = (case z of [] \<Rightarrow> now | (s, m) # _ \<Rightarrow> s)"

lemma limiter_set_length:
  assumes "logged (ro_windowMs opts) (of_client ident h) k" and "clocked (h @ [(ident, e)])"
    and "0 < ro_windowMs opts"
  shows "int (length (limiter_set opts e k))
         = window_count (ro_windowMs opts) (re_now e) (of_client ident (h @ [(ident, e)]))"
proof -
  from mset_eq_length [OF limiter_set_logged [OF assms(1, 2)]] show ?thesis
    using assms(3) by (simp add: window_count_def of_client_snoc)
qed

lemma pipeline_logged:
  assumes "logged (ro_windowMs opts) (of_client ident h) k" and "clocked (h @ [(ident, e)])"
    and "0 < ro_windowMs opts"
  shows "logged (ro_windowMs opts) (of_client ident (h @ [(ident, e)])) (pipeline opts e k)"
  using limiter_set_logged [OF assms(1, 2)] assms(3)
  by (simp add: logged_def pipeline_def of_client_snoc)

lemma rateLimit_answered:
  assumes "re_reply e = Answered"
  shows "rateLimit opts ident e st =
    (limiter_verdict opts (re_now e) (int (length (limiter_set opts e (rs_sets st (rate_key opts ident)))))
       (oldest (limiter_set opts e (rs_sets st (rate_key opts ident))) (re_now e)),
     st\<lparr>rs_sets := (rs_sets st)(rate_key opts ident := pipeline opts e (rs_sets st (rate_key opts ident)))\<rparr>)"
  using assms by (simp add: rateLimit_def Let_def oldest_def)

text \<open>One request: the verdict is the reference's, and the log is kept for every client.\<close>

lemma rateLimit_step:
  assumes "\<forall>i. logged (ro_windowMs opts) (of_client i h) (rs_sets st (rate_key opts i))"
    and "clocked (h @ [(ident, e)])" and "0 < ro_windowMs opts"
    and "rateLimit opts ident e st = (v, st')"
  shows "v = limiter_verdict opts (re_now e)
               (window_count (ro_windowMs opts) (re_now e) (of_client ident (h @ [(ident, e)])))
               (oldest (limiter_set opts e (rs_sets st (rate_key opts ident))) (re_now e))"
    and "\<forall>i. logged (ro_windowMs opts) (of_client i (h @ [(ident, e)])) (rs_sets st' (rate_key opts i))"
proof -
  let ?k = "rs_sets st (rate_key opts ident)"
  have a: "re_reply e = Answered" using assms(2) by (simp add: clocked_def)
  have l: "logged (ro_windowMs opts) (of_client ident h) ?k" using assms(1) by blast
  have v: "v = limiter_verdict opts (re_now e) (int (length (limiter_set opts e ?k)))
        (oldest (limiter_set opts e ?k) (re_now e))"
    and st': "st' = st\<lparr>rs_sets := (rs_sets st)(rate_key opts ident := pipeline opts e ?k)\<rparr>"
    using assms(4) by (simp_all add: rateLimit_answered [OF a])
  show "v = limiter_verdict opts (re_now e)
               (window_count (ro_windowMs opts) (re_now e) (of_client ident (h @ [(ident, e)])))
               (oldest (limiter_set opts e ?k) (re_now e))"
    unfolding v limiter_set_length [OF l assms(2, 3)] ..
  show "\<forall>i. logged (ro_windowMs opts) (of_client i (h @ [(ident, e)])) (rs_sets st' (rate_key opts i))"
  proof
    fix i
    show "logged (ro_windowMs opts) (of_client i (h @ [(ident, e)])) (rs_sets st' (rate_key opts i))"
      using assms(1) pipeline_logged [OF l assms(2, 3)]
      by (cases "i = ident") (simp_all add: st' rate_key_inj of_client_snoc)
  qed
qed

lemma passed_limiter_verdict: "passed (limiter_verdict opts now n old) = (n \<le> ro_max opts)"
  by (simp add: limiter_verdict_def Let_def)

lemma limiter_run_from:
  assumes "\<forall>i. logged (ro_windowMs opts) (of_client i h) (rs_sets st (rate_key opts i))"
    and "clocked (h @ rs)" and "0 < ro_windowMs opts"
  shows "map passed (limiter_run opts st rs) = sliding_log opts h rs"
  using assms
proof (induction rs arbitrary: h st)
  case (Cons r rs)
  obtain ident e where r: "r = (ident, e)" by (cases r)
  obtain v st' where step: "rateLimit opts ident e st = (v, st')" by fastforce
  have c: "clocked (h @ [(ident, e)])" using Cons.prems(2) r by (auto simp: clocked_def sorted_append)
  note s = rateLimit_step [OF Cons.prems(1) c Cons.prems(3) step]
  have "map passed (limiter_run opts st' rs) = sliding_log opts (h @ [r]) rs"
    using s(2) Cons.prems(2, 3) r by (intro Cons.IH) simp_all
  then show ?case using r step s(1) by (simp add: passed_limiter_verdict)
qed simp

definition empty_limits :: rate_state where
  "empty_limits = \<lparr>rs_sets = (\<lambda>k. None), rs_buckets = []\<rparr>"

lemma limiter_run_sliding_log:
  assumes "clocked rs" and "0 < ro_windowMs opts"
  shows "map passed (limiter_run opts empty_limits rs) = sliding_log opts [] rs"
  using assms by (intro limiter_run_from) (simp_all add: empty_limits_def logged_def of_client_def)

lemma limiter_run_length [simp]: "length (limiter_run opts st rs) = length rs"
  by (induction opts st rs rule: limiter_run.induct) (auto split: prod.split)

lemma sliding_log_nth:
  "j < length rs \<Longrightarrow> sliding_log opts h rs ! j =
     (window_count (ro_windowMs opts) (re_now (snd (rs ! j))) (of_client (fst (rs ! j)) (h @ take (Suc j) rs))
      \<le> ro_max opts)"
proof (induction rs arbitrary: h j)
  case (Cons r rs)
  then show ?case by (cases j) simp_all
qed simp

lemma window_count_conv_card:
  "window_count w t (of_client i rs)
   = int (card {j. j < length rs \<and> fst (rs ! j) = i \<and> t - w < re_now (snd (rs ! j))})"
proof -
  have "length (filter (\<lambda>e. t - w < re_now e) (of_client i rs))
      = length (filter (\<lambda>r. fst r = i \<and> t - w < re_now (snd r)) rs)"
    by (simp add: of_client_def filter_map comp_def conj_commute)
  then show ?thesis by (simp add: window_count_def length_filter_conv_card)
qed

definition admitted_in :: "string \<Rightarrow> timestamp \<Rightarrow> timestamp \<Rightarrow> (string \<times> rate_env) list \<Rightarrow> rate_verdict list \<Rightarrow> int" where
  "admitted_in i lo hi rs vs = int (length (filter
     (\<lambda>(r, v). fst r = i \<and> passed v \<and> lo < re_now (snd r) \<and> re_now (snd r) \<le> hi) (zip rs vs)))"

lemma admitted_in_conv_card:
  "length vs = length rs \<Longrightarrow> admitted_in i lo hi rs vs = int (card {j. j < length rs \<and> fst (rs ! j) = i
     \<and> passed (vs ! j) \<and> lo < re_now (snd (rs ! j)) \<and> re_now (snd (rs ! j)) \<le> hi})"
  by (simp add: admitted_in_def length_filter_conv_card cong: conj_cong)

lemma sliding_window_bound:
  assumes "clocked rs" and "0 < ro_windowMs opts"
  shows "admitted_in i (t - ro_windowMs opts) t rs (limiter_run opts empty_limits rs) \<le> max 0 (ro_max opts)"
proof -
  let ?w = "ro_windowMs opts" and ?vs = "limiter_run opts empty_limits rs"
  define A where "A = {j. j < length rs \<and> fst (rs ! j) = i \<and> passed (?vs ! j)
     \<and> t - ?w < re_now (snd (rs ! j)) \<and> re_now (snd (rs ! j)) \<le> t}"
  have fin: "finite A" by (simp add: A_def)
  have card: "admitted_in i (t - ?w) t rs ?vs = int (card A)"
    by (simp add: admitted_in_conv_card A_def)
  show ?thesis
  proof (cases "A = {}")
    case True
    then show ?thesis using card by simp
  next
    case False
    define m where "m = Max A"
    from False fin have "m \<in> A" unfolding m_def by (rule Max_in [rotated])
    then have m: "m < length rs" "fst (rs ! m) = i" "passed (?vs ! m)" "re_now (snd (rs ! m)) \<le> t"
      by (simp_all add: A_def)
    have "sliding_log opts [] rs ! m" using m(1, 3)
      by (simp add: limiter_run_sliding_log [OF assms, symmetric])
    then have le: "window_count ?w (re_now (snd (rs ! m))) (of_client i (take (Suc m) rs)) \<le> ro_max opts"
      using m(1, 2) by (simp add: sliding_log_nth)
    have "A \<subseteq> {j. j < length (take (Suc m) rs) \<and> fst (take (Suc m) rs ! j) = i
        \<and> re_now (snd (rs ! m)) - ?w < re_now (snd (take (Suc m) rs ! j))}"
    proof
      fix j assume j: "j \<in> A"
      then have "j \<le> m" using fin by (simp add: m_def)
      then show "j \<in> {j. j < length (take (Suc m) rs) \<and> fst (take (Suc m) rs ! j) = i
        \<and> re_now (snd (rs ! m)) - ?w < re_now (snd (take (Suc m) rs ! j))}"
        using j m(1, 4) by (simp add: A_def)
    qed
    then have "int (card A) \<le> window_count ?w (re_now (snd (rs ! m))) (of_client i (take (Suc m) rs))"
      unfolding window_count_conv_card by (simp add: card_mono)
    with le card show ?thesis by simp
  qed
qed

text \<open>
  C28. The Redis limiter is the sliding log its header comment describes. For every limiter with a
  positive window and every sequence of requests from any number of clients, with one clock read
  in order, distinct members and a Redis that answers, a request passes exactly if the requests
  of its client in the window that ends with it, itself and those that were refused included,
  number at most \<^verbatim>\<open>max\<close>; and in any rolling window whatever, not only those that end with a
  request, at most \<^verbatim>\<open>max\<close> requests of a client pass.
\<close>

theorem rateLimit_is_sliding_log:
  assumes "clocked rs" and "0 < ro_windowMs opts"
  shows "map passed (limiter_run opts empty_limits rs) = sliding_log opts [] rs
    \<and> admitted_in i (t - ro_windowMs opts) t rs (limiter_run opts empty_limits rs) \<le> max 0 (ro_max opts)"
  using limiter_run_sliding_log [OF assms] sliding_window_bound [OF assms] by blast

definition sample_requests :: "(string \<times> rate_env) list" where
  "sample_requests = map (\<lambda>(i, t, n). (i, \<lparr>re_now = t, re_random = n, re_reply = Answered, re_later = t\<rparr>))
     [(''a'', 1000, 0), (''a'', 1000, 1), (''b'', 1500, 0), (''a'', 2000, 0), (''a'', 61000, 0)]"

definition sample_options :: rate_options where
  "sample_options = \<lparr>ro_windowMs = 60000, ro_max = 2, ro_keyPrefix = None\<rparr>"

theorem rateLimit_is_sliding_log_witness:
  "map passed (limiter_run sample_options empty_limits sample_requests) = [True, True, True, False, True]
   \<and> admitted_in ''a'' 1000 61000 sample_requests (limiter_run sample_options empty_limits sample_requests) \<le> 2"
proof -
  have "clocked sample_requests" by code_simp
  moreover have "0 < ro_windowMs sample_options" by code_simp
  ultimately have "map passed (limiter_run sample_options empty_limits sample_requests)
      = sliding_log sample_options [] sample_requests
    \<and> admitted_in ''a'' (61000 - ro_windowMs sample_options) 61000 sample_requests
        (limiter_run sample_options empty_limits sample_requests) \<le> max 0 (ro_max sample_options)"
    by (rule rateLimit_is_sliding_log)
  moreover have "sliding_log sample_options [] sample_requests = [True, True, True, False, True]" by code_simp
  ultimately show ?thesis by (simp add: sample_options_def)
qed

section \<open>A client that keeps to Retry-After\<close>

definition paced_env :: "timestamp \<Rightarrow> int \<Rightarrow> nat \<Rightarrow> rate_env" where
  "paced_env t0 r k = \<lparr>re_now = t0 + 1000 * r * int k, re_random = k, re_reply = Answered, re_later = t0\<rparr>"

definition paced_key :: "timestamp \<Rightarrow> int \<Rightarrow> nat \<Rightarrow> nat \<Rightarrow> zkey option" where
  "paced_key t0 r n k = (if k = 0 then None else
     Some \<lparr>zk_set = map (rate_entry \<circ> paced_env t0 r) [k - Suc n ..< k],
           zk_expiresAt = re_now (paced_env t0 r (k - 1)) + 1000 * r * int (Suc n)\<rparr>)"

lemma insort_key_last: "\<forall>y \<in> set xs. f y < f x \<Longrightarrow> insort_key f x xs = xs @ [x]"
  by (induction xs) auto

lemma upt_filter_ge: "filter (\<lambda>j. b \<le> j) [a ..< c] = [max a b ..< c]"
  by (induction c) (auto simp: max_def)

lemma paced_le:
  assumes "0 < r"
  shows "(t0 + 1000 * r * int j \<le> t0 + 1000 * r * int k - 1000 * r * int (Suc n)) = (\<not> k - n \<le> j)"
proof -
  have "(t0 + 1000 * r * int j \<le> t0 + 1000 * r * int k - 1000 * r * int (Suc n))
      = ((1000 * r) * (int j + int (Suc n)) \<le> (1000 * r) * int k)"
    unfolding distrib_left by linarith
  also have "\<dots> = (int j + int (Suc n) \<le> int k)" using assms by (subst mult_le_cancel_left_pos) simp_all
  finally show ?thesis by linarith
qed

lemma paced_evict:
  assumes "0 < r" and "0 \<le> t0" and "0 < n"
  shows "zremrangebyscore 0 (re_now (paced_env t0 r k) - 1000 * r * int (Suc n))
           (zlive (re_now (paced_env t0 r k)) (paced_key t0 r n k))
         = map (rate_entry \<circ> paced_env t0 r) [k - n ..< k]"
proof (cases k)
  case (Suc l)
  have "r * int k < r * (int l + int (Suc n))" using Suc assms by (intro mult_strict_left_mono) simp_all
  then have live: "zlive (re_now (paced_env t0 r k)) (paced_key t0 r n k)
      = map (rate_entry \<circ> paced_env t0 r) [k - Suc n ..< k]"
    using Suc by (simp add: zlive_def paced_key_def paced_env_def algebra_simps)
  have nn: "0 \<le> t0 + 1000 * r * int j" for j using assms by simp
  have "zremrangebyscore 0 (re_now (paced_env t0 r k) - 1000 * r * int (Suc n))
      (map (rate_entry \<circ> paced_env t0 r) js) = map (rate_entry \<circ> paced_env t0 r) (filter (\<lambda>j. k - n \<le> j) js)" for js
    unfolding zremrangebyscore_def
    by (induction js) (simp_all add: rate_entry_def paced_env_def paced_le [OF assms(1)] nn del: of_nat_Suc)
  then show ?thesis by (simp add: live upt_filter_ge max_def)
qed (simp add: paced_key_def zlive_def zremrangebyscore_def)

lemma paced_limiter_set:
  assumes "0 < r" and "0 \<le> t0" and "0 < n" and "ro_windowMs opts = 1000 * r * int (Suc n)"
  shows "limiter_set opts (paced_env t0 r k) (paced_key t0 r n k)
         = map (rate_entry \<circ> paced_env t0 r) [k - n ..< Suc k]"
proof -
  let ?z = "map (rate_entry \<circ> paced_env t0 r) [k - n ..< k]"
  have lt: "\<forall>y \<in> set ?z. fst y < re_now (paced_env t0 r k)"
    using assms(1) by (auto simp: rate_entry_def paced_env_def)
  have "filter (\<lambda>e. snd e \<noteq> (re_now (paced_env t0 r k), re_random (paced_env t0 r k))) ?z = ?z"
    by (intro filter_True) (auto simp: rate_entry_def paced_env_def)
  moreover have "insort_key fst (rate_entry (paced_env t0 r k)) ?z = ?z @ [rate_entry (paced_env t0 r k)]"
    using lt by (intro insort_key_last) (simp add: rate_entry_def)
  ultimately show ?thesis
    by (simp add: limiter_set_def assms(4) paced_evict [OF assms(1-3)] zadd_def rate_entry_def del: of_nat_Suc)
qed

lemma paced_verdict:
  assumes "0 < r" and "0 \<le> t0" and "0 < n" and "ro_windowMs opts = 1000 * r * int (Suc n)"
    and "ro_max opts = int n" and "rs_sets st (rate_key opts ident) = paced_key t0 r n k"
    and "rateLimit opts ident (paced_env t0 r k) st = (v, st')"
  shows "(if k < n then passed v else \<not> passed v \<and> retryAfter v = r)
    \<and> rs_sets st' (rate_key opts ident) = paced_key t0 r n (Suc k)"
proof -
  let ?z = "map (rate_entry \<circ> paced_env t0 r) [k - n ..< Suc k]"
  note z = paced_limiter_set [OF assms(1-4), of k]
  have answered: "re_reply (paced_env t0 r k) = Answered" by (simp add: paced_env_def)
  have "?z = rate_entry (paced_env t0 r (k - n)) # map (rate_entry \<circ> paced_env t0 r) [Suc (k - n) ..< Suc k]"
    by (subst upt_conv_Cons) simp_all
  then have old: "oldest ?z t = re_now (paced_env t0 r (k - n))" for t
    by (simp only: oldest_def rate_entry_def list.case prod.case)
  have v: "v = limiter_verdict opts (re_now (paced_env t0 r k)) (int (length ?z))
      (re_now (paced_env t0 r (k - n)))"
    and st': "st' = st\<lparr>rs_sets := (rs_sets st)(rate_key opts ident := pipeline opts (paced_env t0 r k) (paced_key t0 r n k))\<rparr>"
    using assms(7) old by (simp_all add: rateLimit_answered [OF answered] assms(6) z del: upt_Suc)
  have "passed v = (k < n)" using assms(5) by (simp add: v passed_limiter_verdict) linarith
  moreover have "retryAfter v = r" if "\<not> k < n"
  proof -
    have e: "re_now (paced_env t0 r (k - n)) + ro_windowMs opts - re_now (paced_env t0 r k) = 1000 * r"
      using that by (simp add: paced_env_def assms(4) of_nat_diff algebra_simps)
    have "retryAfter v = max 1 (ceil_seconds (1000 * r))"
      using that by (simp add: v limiter_verdict_def assms(5) e)
    then show ?thesis using assms(1) by (simp add: ceil_seconds_def)
  qed
  moreover have "rs_sets st' (rate_key opts ident) = paced_key t0 r n (Suc k)"
    unfolding st' pipeline_def z by (simp add: paced_key_def assms(4))
  ultimately show ?thesis by simp
qed

lemma paced_run:
  assumes "0 < r" and "0 \<le> t0" and "0 < n" and "ro_windowMs opts = 1000 * r * int (Suc n)"
    and "ro_max opts = int n" and "rs_sets st (rate_key opts ident) = paced_key t0 r n k" and "j < m"
  shows "(let v = limiter_run opts st (map (\<lambda>k. (ident, paced_env t0 r k)) [k ..< k + m]) ! j
          in if k + j < n then passed v else \<not> passed v \<and> retryAfter v = r)"
  using assms(6, 7)
proof (induction m arbitrary: st k j)
  case (Suc m)
  obtain v st' where step: "rateLimit opts ident (paced_env t0 r k) st = (v, st')" by fastforce
  note s = paced_verdict [OF assms(1-5) Suc.prems(1) step]
  have run: "limiter_run opts st (map (\<lambda>k. (ident, paced_env t0 r k)) [k ..< k + Suc m])
      = v # limiter_run opts st' (map (\<lambda>k. (ident, paced_env t0 r k)) [Suc k ..< Suc k + m])"
    using step by (subst upt_conv_Cons) simp_all
  show ?case
  proof (cases j)
    case 0
    then show ?thesis using s unfolding run by simp
  next
    case (Suc i)
    then have "i < m" using Suc.prems(2) by simp
    from Suc.IH [OF _ this, of st' "Suc k"] s show ?thesis unfolding run Suc by simp
  qed
qed simp

text \<open>
  A client that obeys Retry-After can be refused for ever. A limiter that allows \<open>n\<close> requests
  in a window of \<open>n + 1\<close> intervals of \<open>r\<close> seconds meets a client that sends a request every \<open>r\<close>
  seconds: the first \<open>n\<close> pass, and every later one is refused with \<^verbatim>\<open>Retry-After: r\<close>, which is
  exactly how long the client waits before the next. The refused request is itself counted, so
  when the oldest entry leaves the window the set is as full as before.
\<close>

lemma retry_after_never_enough:
  assumes "0 < r" and "0 \<le> t0" and "0 < n" and "ro_windowMs opts = 1000 * r * int (Suc n)"
    and "ro_max opts = int n" and "j < m"
  shows "(let v = limiter_run opts empty_limits (map (\<lambda>k. (ident, paced_env t0 r k)) [0 ..< m]) ! j
          in if j < n then passed v else \<not> passed v \<and> retryAfter v = r)
    \<and> re_now (paced_env t0 r (Suc j)) = re_now (paced_env t0 r j) + 1000 * r"
  using paced_run [OF assms(1-5) _ assms(6), of empty_limits ident 0]
  by (simp add: empty_limits_def paced_key_def paced_env_def algebra_simps)

section \<open>The insurance limiter\<close>

fun insurance_run :: "buckets \<Rightarrow> (string \<times> timestamp) list \<Rightarrow> bool list" where
  "insurance_run bs [] = []"
| "insurance_run bs ((key, now) # rs) =
     (case insuranceConsume now key bs of (ok, bs') \<Rightarrow> ok # insurance_run bs' rs)"

text \<open>The same counter without the sweep, one window per key.\<close>

definition fixed_window :: "timestamp \<Rightarrow> bucket option \<Rightarrow> bool \<times> bucket" where
  "fixed_window now b =
     (case b of
        Some existing \<Rightarrow>
          if now - bk_windowStart existing < INSURANCE_WINDOW_MS
          then (bk_count existing + 1 \<le> INSURANCE_MAX, existing\<lparr>bk_count := bk_count existing + 1\<rparr>)
          else (True, \<lparr>bk_windowStart = now, bk_count = 1\<rparr>)
      | None \<Rightarrow> (True, \<lparr>bk_windowStart = now, bk_count = 1\<rparr>))"

fun fixed_windows :: "(string \<Rightarrow> bucket option) \<Rightarrow> (string \<times> timestamp) list \<Rightarrow> bool list" where
  "fixed_windows w [] = []"
| "fixed_windows w ((key, now) # rs) =
     (case fixed_window now (w key) of (ok, b) \<Rightarrow> ok # fixed_windows (w(key := Some b)) rs)"

text \<open>The map of the process holds, for each key, its window or nothing where the window is over.\<close>

definition swept :: "timestamp \<Rightarrow> buckets \<Rightarrow> (string \<Rightarrow> bucket option) \<Rightarrow> bool" where
  "swept now bs w = (distinct (map fst bs) \<and> (\<forall>k. map_of bs k = w k
      \<or> (map_of bs k = None \<and> (\<exists>b. w k = Some b \<and> now - bk_windowStart b \<ge> INSURANCE_WINDOW_MS))))"

lemma swept_later: "swept now bs w \<Longrightarrow> now \<le> later \<Longrightarrow> swept later bs w"
  unfolding swept_def by force

lemma lookup_kept:
  assumes "distinct (map fst bs)"
  shows "map_of (filter keep bs) key = Option.bind (map_of bs key) (\<lambda>b. if keep (key, b) then Some b else None)"
  using assms
proof (induction bs)
  case (Cons e bs)
  obtain j b where e: "e = (j, b)" by fastforce
  show ?case
  proof (cases "j = key")
    case True
    then have "map_of bs key = None" using Cons.prems e by (simp add: map_of_eq_None_iff)
    then show ?thesis using Cons True e by simp
  qed (use Cons e in simp)
qed simp

lemma swept_maybeSweepStale:
  assumes "swept now bs w"
  shows "swept now (maybeSweepStale now bs) w"
proof (cases "length bs < SWEEP_THRESHOLD")
  case False
  let ?P = "\<lambda>(k, b). \<not> now - bk_windowStart b \<ge> INSURANCE_WINDOW_MS"
  from assms have d: "distinct (map fst bs)" by (simp add: swept_def)
  have "map_of (filter ?P bs) k = w k
      \<or> (map_of (filter ?P bs) k = None \<and> (\<exists>b. w k = Some b \<and> now - bk_windowStart b \<ge> INSURANCE_WINDOW_MS))" for k
    using assms by (cases "map_of bs k") (auto simp: swept_def lookup_kept [OF d] elim!: allE [of _ k])
  then show ?thesis
    using False d by (simp add: maybeSweepStale_def swept_def distinct_map_filter)
qed (use assms in \<open>simp add: maybeSweepStale_def\<close>)

lemma swept_lookup:
  "swept now bs w \<Longrightarrow> map_of bs k = Some b \<Longrightarrow> w k = Some b"
  "swept now bs w \<Longrightarrow> map_of bs k = None
     \<Longrightarrow> fixed_window now (w k) = (True, \<lparr>bk_windowStart = now, bk_count = 1\<rparr>)"
proof -
  assume sw: "swept now bs w"
  then have k: "map_of bs k = w k
      \<or> (map_of bs k = None \<and> (\<exists>b. w k = Some b \<and> now - bk_windowStart b \<ge> INSURANCE_WINDOW_MS))"
    by (simp add: swept_def)
  { assume "map_of bs k = Some b"
    with k show "w k = Some b" by simp }
  { assume "map_of bs k = None"
    with k show "fixed_window now (w k) = (True, \<lparr>bk_windowStart = now, bk_count = 1\<rparr>)"
      by (auto simp: fixed_window_def) }
qed

lemma swept_update: "swept now bs w \<Longrightarrow> swept now (AList.update key b bs) (w(key := Some b))"
  by (simp add: swept_def update_conv' distinct_update)

lemma insuranceConsume_fixed_window:
  assumes "swept now bs w" and "insuranceConsume now key bs = (ok, bs')"
  shows "\<exists>b. fixed_window now (w key) = (ok, b) \<and> swept now bs' (w(key := Some b))"
proof -
  define ms where "ms = maybeSweepStale now bs"
  have sw: "swept now ms w" unfolding ms_def by (rule swept_maybeSweepStale [OF assms(1)])
  have "ok = fst (fixed_window now (w key)) \<and> bs' = AList.update key (snd (fixed_window now (w key))) ms"
  proof (cases "map_of ms key")
    case None
    then show ?thesis
      using assms(2) swept_lookup(2) [OF sw None] by (simp add: insuranceConsume_def Let_def ms_def)
  next
    case (Some b)
    then show ?thesis
      using assms(2) swept_lookup(1) [OF sw Some]
      by (simp add: insuranceConsume_def fixed_window_def Let_def ms_def split: if_splits)
  qed
  then show ?thesis using swept_update [OF sw] by (intro exI [of _ "snd (fixed_window now (w key))"]) simp
qed

lemma insurance_run_fixed_windows:
  assumes "swept t bs w" and "sorted (map snd rs)" and "\<forall>r \<in> set rs. t \<le> snd r"
  shows "insurance_run bs rs = fixed_windows w rs"
  using assms
proof (induction bs rs arbitrary: t w rule: insurance_run.induct)
  case (2 bs key now rs)
  obtain ok bs' where step: "insuranceConsume now key bs = (ok, bs')" by fastforce
  have "swept now bs w" using 2(2, 4) by (auto intro: swept_later)
  from insuranceConsume_fixed_window [OF this step]
  obtain b where b: "fixed_window now (w key) = (ok, b)" "swept now bs' (w(key := Some b))" by blast
  have "insurance_run bs' rs = fixed_windows (w(key := Some b)) rs"
    using 2(3) by (intro 2(1) [OF step [symmetric] b(2)]) simp_all
  then show ?case using step b(1) by simp
qed simp

definition between :: "timestamp \<Rightarrow> timestamp \<Rightarrow> timestamp list \<Rightarrow> nat" where
  "between lo hi ts = length (filter (\<lambda>t. lo < t \<and> t \<le> hi) ts)"

lemma between_snoc: "between lo hi (ts @ [t]) = between lo hi ts + (if lo < t \<and> t \<le> hi then 1 else 0)"
  by (simp add: between_def)

lemma between_split: "between lo hi ts \<le> between lo m ts + between m hi ts"
  by (induction ts) (auto simp: between_def)

lemma between_mono: "lo' \<le> lo \<Longrightarrow> hi \<le> hi' \<Longrightarrow> between lo hi ts \<le> between lo' hi' ts"
  by (induction ts) (auto simp: between_def)

lemma between_past: "\<forall>x \<in> set ts. x < t \<Longrightarrow> between (t - 1) hi ts = 0"
  by (induction ts) (auto simp: between_def)

text \<open>
  The admissions \<open>ts\<close> of one key up to \<open>now\<close>, against its window: those of the window are at most
  its count and fifty, those of the minute before it at most fifty.
\<close>

definition window_inv :: "timestamp \<Rightarrow> timestamp list \<Rightarrow> bucket option \<Rightarrow> bool" where
  "window_inv now ts b = ((\<forall>x \<in> set ts. x \<le> now) \<and> (\<forall>t. between (t - 60000) t ts \<le> 100) \<and>
     (case b of None \<Rightarrow> ts = []
      | Some b \<Rightarrow> (\<forall>x \<in> set ts. x < bk_windowStart b + 60000) \<and> bk_windowStart b \<le> now
          \<and> int (between (bk_windowStart b - 1) now ts) \<le> min (bk_count b) 50
          \<and> between (bk_windowStart b - 60000) (bk_windowStart b - 1) ts \<le> 50))"

lemma rolling_step:
  assumes "\<forall>t. between (t - 60000) t ts \<le> 100" and "\<forall>x \<in> set ts. x \<le> now" and "s \<le> now"
    and "between (s - 1) now (ts @ [now]) \<le> 50" and "between (s - 60000) (s - 1) ts \<le> 50"
  shows "between (t - 60000) t (ts @ [now]) \<le> 100"
proof (cases "now \<le> t")
  case True
  have "between (t - 60000) t (ts @ [now]) \<le> between (t - 60000) (s - 1) (ts @ [now]) + between (s - 1) t (ts @ [now])"
    by (rule between_split)
  moreover have "between (s - 1) t (ts @ [now]) = between (s - 1) now (ts @ [now])"
    using True assms(2) by (auto simp: between_def intro!: arg_cong [where f = length] filter_cong)
  moreover have "between (t - 60000) (s - 1) (ts @ [now]) \<le> between (s - 60000) (s - 1) ts"
    using True assms(3) by (simp add: between_snoc between_mono)
  ultimately show ?thesis using assms(4, 5) by linarith
next
  case False
  then show ?thesis using assms(1) by (simp add: between_snoc)
qed

lemma window_inv_later: "window_inv now ts b \<Longrightarrow> now \<le> later \<Longrightarrow> window_inv later ts b"
proof -
  assume i: "window_inv now ts b" and le: "now \<le> later"
  have "between lo later ts = between lo now ts" for lo
    using i le by (auto simp: window_inv_def between_def intro!: arg_cong [where f = length] filter_cong)
  then show "window_inv later ts b" using i le by (auto simp: window_inv_def split: option.splits)
qed

lemma window_inv_fresh:
  assumes "window_inv now ts b" and "\<And>e. b = Some e \<Longrightarrow> bk_windowStart e + 60000 \<le> now"
  shows "window_inv now (ts @ [now]) (Some \<lparr>bk_windowStart = now, bk_count = 1\<rparr>)"
proof -
  have le: "\<forall>x \<in> set ts. x \<le> now" and roll: "\<forall>t. between (t - 60000) t ts \<le> 100"
    using assms(1) by (simp_all add: window_inv_def)
  have past: "\<forall>x \<in> set ts. x < now" and old: "between (now - 60000) (now - 1) ts \<le> 50"
  proof -
    show "\<forall>x \<in> set ts. x < now" using assms by (cases b) (auto simp: window_inv_def)
    show "between (now - 60000) (now - 1) ts \<le> 50"
    proof (cases b)
      case (Some e)
      have "between (now - 60000) (now - 1) ts \<le> between (bk_windowStart e - 1) now ts"
        using assms(2) [OF Some] by (intro between_mono) simp_all
      then show ?thesis using assms(1) Some by (simp add: window_inv_def)
    qed (use assms(1) in \<open>simp add: window_inv_def between_def\<close>)
  qed
  have one: "between (now - 1) now (ts @ [now]) = 1"
    using between_past [OF past] by (simp add: between_snoc)
  have "between (t - 60000) t (ts @ [now]) \<le> 100" for t
    using one old by (intro rolling_step [OF roll le, of now]) simp_all
  moreover have "\<forall>x \<in> set ts. x < now + 60000" using le by force
  ultimately show ?thesis using one old le by (simp add: window_inv_def between_snoc)
qed

lemma window_inv_count:
  assumes "window_inv now ts (Some e)" and "now < bk_windowStart e + 60000" and "bk_count e + 1 \<le> 50"
  shows "window_inv now (ts @ [now]) (Some (e\<lparr>bk_count := bk_count e + 1\<rparr>))"
proof -
  have i: "\<forall>x \<in> set ts. x \<le> now" "\<forall>t. between (t - 60000) t ts \<le> 100" "bk_windowStart e \<le> now"
    "int (between (bk_windowStart e - 1) now ts) \<le> min (bk_count e) 50"
    "between (bk_windowStart e - 60000) (bk_windowStart e - 1) ts \<le> 50"
    "\<forall>x \<in> set ts. x < bk_windowStart e + 60000"
    using assms(1) by (simp_all add: window_inv_def)
  have "between (t - 60000) t (ts @ [now]) \<le> 100" for t
    using i assms(3) by (intro rolling_step [OF i(2, 1), of "bk_windowStart e"]) (simp_all add: between_snoc)
  then show ?thesis using i assms(2, 3) by (simp add: window_inv_def between_snoc)
qed

lemma window_inv_step:
  assumes "window_inv now ts b" and "fixed_window now b = (ok, b')"
  shows "window_inv now (if ok then ts @ [now] else ts) (Some b')"
proof (cases "\<exists>e. b = Some e \<and> now - bk_windowStart e < INSURANCE_WINDOW_MS")
  case True
  then obtain e where e: "b = Some e" "now < bk_windowStart e + 60000" by (auto simp: INSURANCE_WINDOW_MS_def)
  then have "ok = (bk_count e + 1 \<le> 50)" "b' = e\<lparr>bk_count := bk_count e + 1\<rparr>"
    using assms(2) by (auto simp: fixed_window_def INSURANCE_WINDOW_MS_def INSURANCE_MAX_def)
  moreover have "window_inv now ts (Some (e\<lparr>bk_count := bk_count e + 1\<rparr>))"
    using assms(1) e(1) by (auto simp: window_inv_def)
  ultimately show ?thesis using window_inv_count assms(1) e by simp
next
  case False
  then have "ok" "b' = \<lparr>bk_windowStart = now, bk_count = 1\<rparr>"
    using assms(2) by (auto simp: fixed_window_def split: option.splits)
  moreover have "bk_windowStart e + 60000 \<le> now" if "b = Some e" for e
    using False that by (auto simp: INSURANCE_WINDOW_MS_def)
  ultimately show ?thesis using window_inv_fresh [OF assms(1)] by simp
qed

definition insured :: "string \<Rightarrow> (string \<times> timestamp) list \<Rightarrow> bool list \<Rightarrow> timestamp list" where
  "insured key rs oks = map (snd \<circ> fst) (filter (\<lambda>(r, ok). fst r = key \<and> ok) (zip rs oks))"

lemma insured_Cons:
  "insured key ((k, now) # rs) (ok # oks) = (if k = key \<and> ok then [now] else []) @ insured key rs oks"
  by (simp add: insured_def)

lemma fixed_windows_rolling:
  assumes "window_inv t0 ts (w key)" and "sorted (map snd rs)" and "\<forall>r \<in> set rs. t0 \<le> snd r"
  shows "between (t - 60000) t (ts @ insured key rs (fixed_windows w rs)) \<le> 100"
  using assms
proof (induction w rs arbitrary: t0 ts rule: fixed_windows.induct)
  case (1 w)
  then show ?case by (simp add: insured_def window_inv_def)
next
  case (2 w k now rs)
  obtain ok b where step: "fixed_window now (w k) = (ok, b)" by fastforce
  have inv: "window_inv now ts (w key)" using 2(2, 4) by (auto intro: window_inv_later)
  let ?ts = "if k = key \<and> ok then ts @ [now] else ts"
  have "window_inv now ?ts ((w(k := Some b)) key)"
    using inv window_inv_step [OF inv] step by (cases "k = key") (auto split: if_splits)
  then have "between (t - 60000) t (?ts @ insured key rs (fixed_windows (w(k := Some b)) rs)) \<le> 100"
    by (rule 2(1) [OF step [symmetric]]) (use 2(3) in auto)
  then show ?case using step by (auto simp: insured_Cons split: if_splits)
qed

text \<open>
  While Redis is away a key gets at most a hundred requests through in any rolling minute, and the
  sweep of stale buckets has no effect on the verdicts.
\<close>

lemma insurance_bound:
  assumes "sorted (map snd rs)"
  shows "insurance_run [] rs = fixed_windows (\<lambda>k. None) rs"
    and "between (t - INSURANCE_WINDOW_MS) t (insured key rs (insurance_run [] rs)) \<le> 2 * nat INSURANCE_MAX"
proof -
  have lo: "\<forall>r \<in> set rs. (if rs = [] then 0 else snd (hd rs)) \<le> snd r"
    using assms by (cases rs) auto
  show eq: "insurance_run [] rs = fixed_windows (\<lambda>k. None) rs"
    using lo by (intro insurance_run_fixed_windows [OF _ assms]) (simp_all add: swept_def)
  show "between (t - INSURANCE_WINDOW_MS) t (insured key rs (insurance_run [] rs)) \<le> 2 * nat INSURANCE_MAX"
    using fixed_windows_rolling [OF _ assms lo, of "[]" "\<lambda>k. None" key t] unfolding eq
    by (simp add: window_inv_def between_def INSURANCE_WINDOW_MS_def INSURANCE_MAX_def)
qed

end
