(* ===== verification/Request_Guards.thy ===== *)
theory Request_Guards
  imports Rovenue_Prelude
begin

text \<open>
  The guards in front of the handlers that keep their state in Redis: the Idempotency-Key
  middleware (\<^verbatim>\<open>apps/api/src/middleware/idempotency.ts\<close>), the webhook replay guard
  (\<^verbatim>\<open>webhook-replay-guard.ts\<close>) and the single-holder lock (\<^verbatim>\<open>apps/api/src/lib/redis-lock.ts\<close>).

  Redis is a map from keys to values with an expiry instant in milliseconds; each command is one
  atomic step, and whether a call is answered is an argument. SHA-256 is an argument. A handler is
  a function of its own state, so that \<open>the handler does not run\<close> is a statement about that state.

  The lemmas show that a stored response is replayed for a day without running the handler, that
  the replay guard lets a store's event through at most once, and that of two calls that hold a
  lock at most one can confirm that it does; and what those guards do not do.
\<close>

section \<open>Redis keys with an expiry\<close>

type_synonym 'v redis = "string \<Rightarrow> ('v \<times> timestamp) option"

definition redis_get :: "timestamp \<Rightarrow> string \<Rightarrow> 'v redis \<Rightarrow> 'v option" where
  "redis_get now key st =
     (case st key of None \<Rightarrow> None | Some (v, expiresAt) \<Rightarrow> if now < expiresAt then Some v else None)"

definition redis_set :: "timestamp \<Rightarrow> int \<Rightarrow> string \<Rightarrow> 'v \<Rightarrow> 'v redis \<Rightarrow> 'v redis" where
  "redis_set now ttlMs key v st = st(key := Some (v, now + ttlMs))"

text \<open>\<^verbatim>\<open>SET key v PX ttl NX\<close>: the result is whether Redis answered \<^verbatim>\<open>OK\<close>.\<close>

definition redis_set_nx :: "timestamp \<Rightarrow> int \<Rightarrow> string \<Rightarrow> 'v \<Rightarrow> 'v redis \<Rightarrow> bool \<times> 'v redis" where
  "redis_set_nx now ttlMs key v st =
     (if redis_get now key st = None then (True, redis_set now ttlMs key v st) else (False, st))"

lemma redis_get_set:
  "redis_get t k (redis_set now ttl key v st)
   = (if k = key then if t < now + ttl then Some v else None else redis_get t k st)"
  by (simp add: redis_get_def redis_set_def)

section \<open>The Idempotency-Key middleware\<close>

definition TTL_SECONDS :: int where "TTL_SECONDS = 60 * 60 * 24"
definition KEY_MAX_LENGTH :: nat where "KEY_MAX_LENGTH = 255"

record stored_response =
  sr_status :: int
  sr_body :: string
  sr_requestHash :: string
  sr_contentType :: "string option"

text \<open>What \<^verbatim>\<open>JSON.parse\<close> and the version check make of the cached text.\<close>

datatype cached_text = Version_1 stored_response | Corrupt

record api_request =
  ar_idempotencyKey :: "string option"
  ar_projectId :: "string option"
  ar_path :: string
  ar_body :: string
  ar_bodyReadable :: bool

record api_response =
  ap_status :: int
  ap_body :: string
  ap_contentType :: "string option"
  ap_replay :: bool

datatype idem_result = Answer api_response | Failed (failed_status: int)

text \<open>
  The environment of one request: the instants of the lookup and of the store, whether the two
  Redis calls are answered (a call that is not may still have been applied), and whether the
  body of the response can be read.
\<close>

record idem_env =
  ie_getAt :: timestamp
  ie_getAnswers :: bool
  ie_resReadable :: bool
  ie_setAt :: timestamp
  ie_setApplied :: bool

definition readRawRequestBody :: "api_request \<Rightarrow> string" where
  "readRawRequestBody req = (if ar_bodyReadable req then ar_body req else [])"

definition idem_key :: "api_request \<Rightarrow> string \<Rightarrow> string" where
  "idem_key req k =
     ''idempotency:'' @ (case ar_projectId req of Some p \<Rightarrow> p | None \<Rightarrow> ''anon'') @ '':'' @ k"

text \<open>
  Up to \<^verbatim>\<open>await next()\<close>: the answer if there is one, or what the rest needs, which is nothing for
  a request without the header and the Redis key with the request hash otherwise.
\<close>

datatype idem_begin = Stop idem_result | Proceed "(string \<times> string) option"

definition idempotency_begin ::
  "(string \<Rightarrow> string) \<Rightarrow> idem_env \<Rightarrow> api_request \<Rightarrow> cached_text redis \<Rightarrow> idem_begin" where
  "idempotency_begin sha256 e req st =
     (case ar_idempotencyKey req of
        None \<Rightarrow> Proceed None
      | Some k \<Rightarrow>
          if k = [] then Proceed None
          else if length k > KEY_MAX_LENGTH then Stop (Failed 400)
          else
            (let redisKey = idem_key req k;
                 requestHash = sha256 (readRawRequestBody req);
                 cached = (if ie_getAnswers e then redis_get (ie_getAt e) redisKey st else None)
             in case cached of
                  Some (Version_1 stored) \<Rightarrow>
                    if sr_requestHash stored \<noteq> requestHash then Stop (Failed 422)
                    else Stop (Answer \<lparr>ap_status = sr_status stored, ap_body = sr_body stored,
                           ap_contentType = (if truthy (sr_contentType stored) then sr_contentType stored else None),
                           ap_replay = True\<rparr>)
                | _ \<Rightarrow> Proceed (Some (redisKey, requestHash))))"

text \<open>After \<^verbatim>\<open>await next()\<close>: a 2xx response is stored.\<close>

definition idempotency_finish ::
  "idem_env \<Rightarrow> (string \<times> string) option \<Rightarrow> api_response \<Rightarrow> cached_text redis \<Rightarrow> cached_text redis" where
  "idempotency_finish e pending res st =
     (case pending of
        None \<Rightarrow> st
      | Some (redisKey, requestHash) \<Rightarrow>
          if ap_status res < 200 \<or> ap_status res \<ge> 300 \<or> \<not> ie_resReadable e \<or> \<not> ie_setApplied e then st
          else redis_set (ie_setAt e) (TTL_SECONDS * 1000) redisKey
                 (Version_1 \<lparr>sr_status = ap_status res, sr_body = ap_body res, sr_requestHash = requestHash,
                             sr_contentType = ap_contentType res\<rparr>) st)"

type_synonym 's handler = "api_request \<Rightarrow> 's \<Rightarrow> api_response \<times> 's"

definition idempotency ::
  "(string \<Rightarrow> string) \<Rightarrow> 's handler \<Rightarrow> idem_env \<Rightarrow> api_request \<Rightarrow> cached_text redis \<times> 's
   \<Rightarrow> idem_result \<times> cached_text redis \<times> 's" where
  "idempotency sha256 handler e req w =
     (case idempotency_begin sha256 e req (fst w) of
        Stop r \<Rightarrow> (r, w)
      | Proceed pending \<Rightarrow>
          (let (res, s) = handler req (snd w)
           in (Answer res, idempotency_finish e pending res (fst w), s)))"

section \<open>The webhook replay guard\<close>

datatype hook_source = Apple_hook | Google_hook | Stripe_hook

fun source_text :: "hook_source \<Rightarrow> string" where
  "source_text Apple_hook = ''apple''"
| "source_text Google_hook = ''google''"
| "source_text Stripe_hook = ''stripe''"

text \<open>
  The verifier's timestamp in seconds: a number, not a number (an unparsable date), or not set.
\<close>

datatype event_ts = Seconds int | NaN_seconds | Unset

record delivery =
  dl_source :: hook_source
  dl_eventId :: "string option"
  dl_eventTs :: event_ts
  dl_nowMs :: timestamp
  dl_setAnswers :: bool
  dl_setApplied :: bool

datatype 'r guarded = Rejected int | Duplicate | Handled 'r

definition seen_key :: "hook_source \<Rightarrow> string \<Rightarrow> string" where
  "seen_key src eventId = ''webhook:seen:'' @ source_text src @ '':'' @ eventId"

text \<open>
  \<^verbatim>\<open>skew > tolerance\<close>, false for a timestamp that is not a number. Redis refuses an expiry that is
  not positive, so that \<^verbatim>\<open>SET\<close> throws.
\<close>

definition outside_tolerance :: "int \<Rightarrow> event_ts \<Rightarrow> timestamp \<Rightarrow> bool" where
  "outside_tolerance tolerance ts nowMs =
     (case ts of Seconds eventTs \<Rightarrow> \<bar>nowMs div 1000 - eventTs\<bar> > tolerance | _ \<Rightarrow> False)"

definition webhookReplayGuard ::
  "int \<Rightarrow> (delivery \<Rightarrow> 's \<Rightarrow> 'r \<times> 's) \<Rightarrow> delivery \<Rightarrow> unit redis \<times> 's \<Rightarrow> 'r guarded \<times> unit redis \<times> 's" where
  "webhookReplayGuard tolerance next d w =
     (if \<not> truthy (dl_eventId d) \<or> dl_eventTs d = Unset then (Rejected 500, w)
      else if outside_tolerance tolerance (dl_eventTs d) (dl_nowMs d) then (Rejected 400, w)
      else
        (let key = seen_key (dl_source d) (the (dl_eventId d));
             (added, st) = redis_set_nx (dl_nowMs d) (tolerance * 2 * 1000) key () (fst w)
         in if \<not> dl_setAnswers d \<or> tolerance * 2 \<le> 0
            then (case next d (snd w) of
                    (r, s) \<Rightarrow> (Handled r, if dl_setApplied d \<and> tolerance * 2 > 0 then st else fst w, s))
            else if \<not> added then (Duplicate, w)
            else (case next d (snd w) of (r, s) \<Rightarrow> (Handled r, st, s))))"

section \<open>The lock\<close>

type_synonym token = nat

text \<open>The Lua script: it deletes the key if it still holds the token, and answers what it deleted.\<close>

definition RELEASE_SCRIPT :: "timestamp \<Rightarrow> string \<Rightarrow> token \<Rightarrow> token redis \<Rightarrow> int \<times> token redis" where
  "RELEASE_SCRIPT now key tok st =
     (if redis_get now key st = Some tok then (1, st(key := None)) else (0, st))"

definition stillHeld :: "bool \<Rightarrow> timestamp \<Rightarrow> string \<Rightarrow> token \<Rightarrow> token redis \<Rightarrow> bool" where
  "stillHeld answers now key tok st = (answers \<and> redis_get now key st = Some tok)"

datatype ('e, 'r) lock_result = Lock_unavailable | Not_acquired | Returned 'r | Raised 'e

text \<open>
  One call from beginning to end. The environment gives the instants of the \<^verbatim>\<open>SET\<close> and of the
  release, whether each is answered, and the token; \<open>fn\<close> is what runs under the lock and may
  change the store, since other calls run meanwhile.
\<close>

record lock_env =
  le_setAt :: timestamp
  le_setAnswers :: bool
  le_setApplied :: bool
  le_releaseAt :: timestamp
  le_releaseAnswers :: bool
  le_token :: token

definition withLock ::
  "lock_env \<Rightarrow> string \<Rightarrow> int \<Rightarrow> (token redis \<times> 's \<Rightarrow> ('e + 'r) \<times> token redis \<times> 's)
   \<Rightarrow> token redis \<times> 's \<Rightarrow> ('e, 'r) lock_result \<times> token redis \<times> 's" where
  "withLock e key ttlMs fn w =
     (let (acquired, st) = redis_set_nx (le_setAt e) ttlMs key (le_token e) (fst w)
      in if \<not> le_setAnswers e then (Lock_unavailable, if le_setApplied e then st else fst w, snd w)
         else if \<not> acquired then (Not_acquired, w)
         else
           (let (res, st1, s) = fn (st, snd w);
                st2 = (if le_releaseAnswers e then snd (RELEASE_SCRIPT (le_releaseAt e) key (le_token e) st1) else st1)
            in (case res of Inl x \<Rightarrow> Raised x | Inr r \<Rightarrow> Returned r, st2, s)))"

section \<open>Replayed responses\<close>

fun idem_run ::
  "(string \<Rightarrow> string) \<Rightarrow> 's handler \<Rightarrow> cached_text redis \<times> 's \<Rightarrow> (idem_env \<times> api_request) list
   \<Rightarrow> cached_text redis \<times> 's" where
  "idem_run sha256 handler w [] = w"
| "idem_run sha256 handler w ((e, req) # rs) = idem_run sha256 handler (snd (idempotency sha256 handler e req w)) rs"

text \<open>A live entry under the key of a request decides it, and the handler does not run.\<close>

lemma idempotency_hit:
  assumes "ar_idempotencyKey req = Some k" and "k \<noteq> []" and "length k \<le> KEY_MAX_LENGTH" and "ie_getAnswers e"
    and "redis_get (ie_getAt e) (idem_key req k) (fst w) = Some (Version_1 stored)"
  shows "idempotency sha256 handler e req w =
    (if sr_requestHash stored \<noteq> sha256 (readRawRequestBody req) then Failed 422
     else Answer \<lparr>ap_status = sr_status stored, ap_body = sr_body stored,
            ap_contentType = (if truthy (sr_contentType stored) then sr_contentType stored else None),
            ap_replay = True\<rparr>, w)"
  using assms by (simp add: idempotency_def idempotency_begin_def Let_def)

text \<open>
  Requests that read the entry, or that belong to other keys, leave it as it is.
\<close>

lemma idempotency_keeps_entry:
  assumes "fst w key = Some (Version_1 stored, expiresAt)" and "ie_getAnswers e" and "ie_getAt e < expiresAt"
  shows "fst (snd (idempotency sha256 handler e req w)) key = Some (Version_1 stored, expiresAt)"
proof (cases "idempotency_begin sha256 e req (fst w)")
  case (Stop r)
  then show ?thesis using assms(1) by (simp add: idempotency_def)
next
  case (Proceed pending)
  obtain res s where h: "handler req (snd w) = (res, s)" by fastforce
  have "pending = Some (rk, rh) \<Longrightarrow> rk \<noteq> key" for rk rh
    using Proceed assms
    by (auto simp: idempotency_begin_def Let_def redis_get_def split: option.splits if_splits cached_text.splits)
  then have "idempotency_finish e pending res (fst w) key = fst w key"
    by (cases pending) (auto simp: idempotency_finish_def redis_set_def)
  then show ?thesis using Proceed h assms(1) by (simp add: idempotency_def)
qed

lemma idem_run_keeps_entry:
  assumes "fst w key = Some (Version_1 stored, expiresAt)"
    and "\<forall>r \<in> set rs. ie_getAnswers (fst r) \<and> ie_getAt (fst r) < expiresAt"
  shows "fst (idem_run sha256 handler w rs) key = Some (Version_1 stored, expiresAt)"
  using assms
proof (induction sha256 handler w rs rule: idem_run.induct)
  case (2 sha256 handler w e req rs)
  then have "fst (snd (idempotency sha256 handler e req w)) key = Some (Version_1 stored, expiresAt)"
    by (intro idempotency_keeps_entry) simp_all
  with 2 show ?case by simp
qed simp

lemma idempotency_stores:
  assumes "ar_idempotencyKey req = Some k" and "k \<noteq> []"
    and "idempotency sha256 handler e req w = (Answer res, w')" and "\<not> ap_replay res"
    and "200 \<le> ap_status res" and "ap_status res < 300" and "ie_resReadable e" and "ie_setApplied e"
  shows "fst w' (idem_key req k) = Some (Version_1 \<lparr>sr_status = ap_status res, sr_body = ap_body res,
       sr_requestHash = sha256 (readRawRequestBody req), sr_contentType = ap_contentType res\<rparr>,
     ie_setAt e + TTL_SECONDS * 1000)"
proof (cases "idempotency_begin sha256 e req (fst w)")
  case (Stop r)
  then show ?thesis using assms(1-4)
    by (auto simp: idempotency_def idempotency_begin_def Let_def split: option.splits if_splits cached_text.splits)
next
  case (Proceed pending)
  obtain res' s where h: "handler req (snd w) = (res', s)" by fastforce
  have "pending = Some (idem_key req k, sha256 (readRawRequestBody req))"
    using Proceed assms(1, 2)
    by (auto simp: idempotency_begin_def Let_def split: option.splits if_splits cached_text.splits)
  then show ?thesis using assms(3, 5-8) Proceed h
    by (auto simp: idempotency_def idempotency_finish_def redis_set_def)
qed

lemma idempotency_key_length:
  assumes "ar_idempotencyKey req = Some k" and "idempotency sha256 handler e req w = (Answer res, w')"
  shows "length k \<le> KEY_MAX_LENGTH"
  using assms by (cases "k = []") (auto simp: idempotency_def idempotency_begin_def Let_def split: if_splits)

lemma idem_key_cong: "ar_projectId a = ar_projectId b \<Longrightarrow> idem_key a k = idem_key b k"
  by (simp add: idem_key_def)

text \<open>Keys of different projects never meet, since a project id has no colon.\<close>

lemma idem_key_projects:
  assumes "ar_projectId a = Some p" and "ar_projectId b = Some q" and "CHR '':'' \<notin> set p" and "CHR '':'' \<notin> set q"
    and "idem_key a k = idem_key b l"
  shows "p = q \<and> k = l"
proof -
  have eq: "p @ CHR '':'' # k = q @ CHR '':'' # l" using assms(1, 2, 5) by (simp add: idem_key_def)
  then have "takeWhile (\<lambda>c. c \<noteq> CHR '':'') (p @ CHR '':'' # k) = takeWhile (\<lambda>c. c \<noteq> CHR '':'') (q @ CHR '':'' # l)"
    by (rule arg_cong)
  moreover have "takeWhile (\<lambda>c. c \<noteq> CHR '':'') (r @ CHR '':'' # m) = r" if "CHR '':'' \<notin> set r" for r m :: string
    using that by (induction r) auto
  ultimately have "p = q" using assms(3, 4) by simp
  with eq show ?thesis by simp
qed


definition spend_request :: "string \<Rightarrow> api_request" where
  "spend_request path = \<lparr>ar_idempotencyKey = Some ''k1'', ar_projectId = Some ''prj'', ar_path = path,
     ar_body = ''amount=5'', ar_bodyReadable = True\<rparr>"

definition idem_at :: "timestamp \<Rightarrow> idem_env" where
  "idem_at t = \<lparr>ie_getAt = t, ie_getAnswers = True, ie_resReadable = True, ie_setAt = t, ie_setApplied = True\<rparr>"

definition counting :: "string list handler" where
  "counting req s = (\<lparr>ap_status = 200, ap_body = ''spent'', ap_contentType = None, ap_replay = False\<rparr>, s @ [ar_path req])"


text \<open>
  The entry is written after the handler, and nothing marks the key while it runs: of two requests
  with one key that overlap, both run.
\<close>

lemma overlapping_requests_both_run:
  assumes "ar_idempotencyKey req = Some k" and "k \<noteq> []" and "length k \<le> KEY_MAX_LENGTH"
    and "redis_get (ie_getAt e) (idem_key req k) st = None" and "redis_get (ie_getAt e2) (idem_key req k) st = None"
  shows "idempotency_begin sha256 e req st = idempotency_begin sha256 e2 req st
    \<and> idempotency_begin sha256 e req st = Proceed (Some (idem_key req k, sha256 (readRawRequestBody req)))"
  using assms by (simp add: idempotency_begin_def Let_def)

section \<open>Events pass the replay guard once\<close>

fun is_handled :: "'r guarded \<Rightarrow> bool" where
  "is_handled (Handled _) = True"
| "is_handled _ = False"

fun guard_run ::
  "int \<Rightarrow> (delivery \<Rightarrow> 's \<Rightarrow> 'r \<times> 's) \<Rightarrow> unit redis \<times> 's \<Rightarrow> delivery list \<Rightarrow> 'r guarded list" where
  "guard_run tolerance next w [] = []"
| "guard_run tolerance next w (d # ds) =
     (case webhookReplayGuard tolerance next d w of (r, w') \<Rightarrow> r # guard_run tolerance next w' ds)"

lemma guard_run_length [simp]: "length (guard_run tolerance next w ds) = length ds"
  by (induction tolerance "next" w ds rule: guard_run.induct) (auto split: prod.split)

lemma seen_key_inj: "(seen_key s a = seen_key s' b) = (s = s' \<and> a = b)"
  by (cases s; cases s') (simp_all add: seen_key_def)

text \<open>
  The deliveries of one event: they carry the event's own timestamp, Redis answers, and none
  arrives in the very first second of the accepted interval.
\<close>

definition event_delivery :: "int \<Rightarrow> hook_source \<Rightarrow> string \<Rightarrow> int \<Rightarrow> delivery \<Rightarrow> bool" where
  "event_delivery tolerance src ev ts d =
     (dl_source d = src \<and> dl_eventId d = Some ev \<longrightarrow>
        dl_eventTs d = Seconds ts \<and> dl_setAnswers d \<and> dl_nowMs d div 1000 \<noteq> ts - tolerance)"

definition marked :: "int \<Rightarrow> hook_source \<Rightarrow> string \<Rightarrow> int \<Rightarrow> unit redis \<Rightarrow> bool" where
  "marked tolerance src ev ts st =
     (\<exists>expiresAt. st (seen_key src ev) = Some ((), expiresAt) \<and> (ts + tolerance + 1) * 1000 \<le> expiresAt)"

text \<open>An accepted delivery arrives before the entry of an earlier one runs out.\<close>

lemma within_tolerance_bounds:
  assumes "\<not> outside_tolerance tolerance (Seconds ts) now" and "now div 1000 \<noteq> ts - tolerance"
  shows "now < (ts + tolerance + 1) * 1000" and "(ts + tolerance + 1) * 1000 \<le> now + tolerance * 2 * 1000"
  using assms by (simp_all add: outside_tolerance_def)

lemma guard_marked:
  assumes "marked tolerance src ev ts (fst w)" and "event_delivery tolerance src ev ts d" and "0 < tolerance"
    and "webhookReplayGuard tolerance next d w = (r, w')"
  shows "marked tolerance src ev ts (fst w') \<and> (dl_source d = src \<and> dl_eventId d = Some ev \<longrightarrow> \<not> is_handled r)"
proof (cases "dl_source d = src \<and> dl_eventId d = Some ev")
  case True
  then have d: "dl_eventTs d = Seconds ts" "dl_setAnswers d" "dl_nowMs d div 1000 \<noteq> ts - tolerance"
    using assms(2) by (simp_all add: event_delivery_def)
  obtain expiresAt where x: "fst w (seen_key src ev) = Some ((), expiresAt)" "(ts + tolerance + 1) * 1000 \<le> expiresAt"
    using assms(1) by (auto simp: marked_def)
  have "redis_get (dl_nowMs d) (seen_key src ev) (fst w) = Some ()" if "\<not> outside_tolerance tolerance (dl_eventTs d) (dl_nowMs d)"
    using within_tolerance_bounds(1) [OF _ d(3)] that x d(1) by (simp add: redis_get_def)
  then have "w' = w \<and> \<not> is_handled r"
    using assms(3, 4) True d by (auto simp: webhookReplayGuard_def redis_set_nx_def Let_def split: if_splits)
  then show ?thesis using assms(1) by simp
next
  case False
  have "fst w' (seen_key src ev) = fst w (seen_key src ev)"
  proof (cases "dl_eventId d")
    case None
    then show ?thesis using assms(4) by (simp add: webhookReplayGuard_def truthy_def)
  next
    case (Some i)
    then have "seen_key (dl_source d) i \<noteq> seen_key src ev" using False by (auto simp: seen_key_inj)
    then show ?thesis using assms(4) Some
      by (auto simp: webhookReplayGuard_def redis_set_nx_def redis_set_def Let_def split: if_splits prod.splits)
  qed
  then show ?thesis using assms(1) False by (auto simp: marked_def)
qed

lemma guard_run_marked:
  assumes "marked tolerance src ev ts (fst w)" and "\<forall>d \<in> set ds. event_delivery tolerance src ev ts d"
    and "0 < tolerance" and "j < length ds" and "dl_source (ds ! j) = src" and "dl_eventId (ds ! j) = Some ev"
  shows "\<not> is_handled (guard_run tolerance next w ds ! j)"
  using assms
proof (induction tolerance "next" w ds arbitrary: j rule: guard_run.induct)
  case (2 tolerance "next" w d ds)
  obtain r w' where step: "webhookReplayGuard tolerance next d w = (r, w')" by (rule prod.exhaust)
  have m: "marked tolerance src ev ts (fst w') \<and> (dl_source d = src \<and> dl_eventId d = Some ev \<longrightarrow> \<not> is_handled r)"
    by (rule guard_marked [OF 2(2) _ 2(4) step]) (use 2(3) in simp)
  show ?case
  proof (cases j)
    case 0
    then show ?thesis using m step 2(6, 7) by simp
  next
    case (Suc i)
    have "\<not> is_handled (guard_run tolerance next w' ds ! i)"
      using m 2(3-7) Suc by (intro 2(1) [OF step [symmetric]]) simp_all
    then show ?thesis using step Suc by simp
  qed
qed simp

lemma handled_marks:
  assumes "webhookReplayGuard tolerance next d w = (r, w')" and "is_handled r" and "0 < tolerance"
    and "event_delivery tolerance src ev ts d" and "dl_source d = src" and "dl_eventId d = Some ev"
  shows "marked tolerance src ev ts (fst w')"
proof -
  have d: "dl_eventTs d = Seconds ts" "dl_setAnswers d" "dl_nowMs d div 1000 \<noteq> ts - tolerance"
    using assms(4-6) by (simp_all add: event_delivery_def)
  have "\<not> outside_tolerance tolerance (Seconds ts) (dl_nowMs d)"
    and "fst w' (seen_key src ev) = Some ((), dl_nowMs d + tolerance * 2 * 1000)"
    using assms(1-3, 5, 6) d
    by (auto simp: webhookReplayGuard_def redis_set_nx_def redis_set_def Let_def split: if_splits prod.splits)
  with within_tolerance_bounds(2) [OF _ d(3)] show ?thesis by (simp add: marked_def)
qed

lemma guard_run_once:
  assumes "0 < tolerance" and "\<forall>d \<in> set ds. event_delivery tolerance src ev ts d" and "i < j" and "j < length ds"
    and "dl_source (ds ! i) = src" and "dl_eventId (ds ! i) = Some ev"
    and "dl_source (ds ! j) = src" and "dl_eventId (ds ! j) = Some ev"
    and "is_handled (guard_run tolerance next w ds ! i)"
  shows "\<not> is_handled (guard_run tolerance next w ds ! j)"
  using assms
proof (induction tolerance "next" w ds arbitrary: i j rule: guard_run.induct)
  case (2 tolerance "next" w d ds)
  obtain r w' where step: "webhookReplayGuard tolerance next d w = (r, w')" by (rule prod.exhaust)
  obtain l where j: "j = Suc l" using 2(4) by (cases j) simp_all
  show ?case
  proof (cases i)
    case 0
    have "marked tolerance src ev ts (fst w')"
      using 2(2, 3, 6, 7, 10) 0 step by (intro handled_marks [OF step]) simp_all
    then have "\<not> is_handled (guard_run tolerance next w' ds ! l)"
      using 2(2, 3, 5, 8, 9) j by (intro guard_run_marked) auto
    then show ?thesis using step j by simp
  next
    case (Suc m)
    have "\<not> is_handled (guard_run tolerance next w' ds ! l)"
      using 2(2-10) Suc j step by (intro 2(1) [OF step [symmetric], of m]) simp_all
    then show ?thesis using step j by simp
  qed
qed simp

text \<open>
  A store's event passes the replay guard at most once. Take any sequence of deliveries of any
  events, with a positive tolerance, in which the deliveries of one event carry its own timestamp,
  find Redis answering and do not fall into the very first second of the accepted interval: once
  one of them has reached the handler, none of the later ones does, however much later they come,
  because the mark outlives the interval in which the timestamp is accepted. What the handler
  answered plays no part: an event whose handler failed is not let through again either.
\<close>

lemma replay_guard_once:
  assumes "0 < tolerance" and "\<forall>d \<in> set ds. event_delivery tolerance src ev ts d" and "i < j" and "j < length ds"
    and "dl_source (ds ! i) = src" and "dl_eventId (ds ! i) = Some ev"
    and "dl_source (ds ! j) = src" and "dl_eventId (ds ! j) = Some ev"
    and "guard_run tolerance next w ds ! i = Handled r"
  shows "guard_run tolerance next w ds ! j = Duplicate \<or> (\<exists>status. guard_run tolerance next w ds ! j = Rejected status)"
proof -
  have "\<not> is_handled (guard_run tolerance next w ds ! j)" by (rule guard_run_once [OF assms(1-8)]) (simp add: assms(9))
  then show ?thesis by (cases "guard_run tolerance next w ds ! j") simp_all
qed

definition stripe_delivery :: "timestamp \<Rightarrow> delivery" where
  "stripe_delivery t = \<lparr>dl_source = Stripe_hook, dl_eventId = Some ''evt_1'', dl_eventTs = Seconds 1000,
     dl_nowMs = t, dl_setAnswers = True, dl_setApplied = True\<rparr>"

definition failing_once :: "delivery \<Rightarrow> nat \<Rightarrow> (string + string) \<times> nat" where
  "failing_once d n = (if n = 0 then Inl ''queue unavailable'' else Inr ''enqueued'', Suc n)"

lemma stripe_deliveries_run:
  "guard_run 300 failing_once (\<lambda>k. None, 0) (map stripe_delivery [1001000, 1060000, 4600000])
   = [Handled (Inl ''queue unavailable''), Duplicate, Rejected 400]"
  by (simp add: webhookReplayGuard_def stripe_delivery_def truthy_def outside_tolerance_def redis_set_nx_def
      redis_get_def redis_set_def failing_once_def seen_key_def Let_def)

text \<open>
  A timestamp that is not a number is never outside the tolerance, so once its mark has run out,
  after twice the tolerance, the event passes again.
\<close>

lemma nan_timestamp_passes:
  assumes "dl_eventTs d = NaN_seconds" and "dl_eventId d = Some ev" and "ev \<noteq> []" and "0 < tolerance"
    and "dl_setAnswers d" and "fst w (seen_key (dl_source d) ev) = Some ((), expiresAt)" and "expiresAt \<le> dl_nowMs d"
  shows "is_handled (fst (webhookReplayGuard tolerance next d w))"
  using assms by (simp add: webhookReplayGuard_def truthy_def outside_tolerance_def redis_set_nx_def redis_get_def
      Let_def split: prod.split)

text \<open>
  In the first second of the accepted interval the mark is set to run out while the timestamp is
  still accepted for up to a second.
\<close>

lemma first_second_passes_twice:
  "guard_run 300 failing_once (\<lambda>k. None, 0) (map stripe_delivery [700000, 1300000])
   = [Handled (Inl ''queue unavailable''), Handled (Inr ''enqueued'')]"
  by (simp add: webhookReplayGuard_def stripe_delivery_def truthy_def outside_tolerance_def redis_set_nx_def
      redis_get_def redis_set_def failing_once_def seen_key_def Let_def)

section \<open>At most one holder\<close>

text \<open>
  Many calls of \<^verbatim>\<open>withLock\<close> at once: the clock, the store, the calls whose \<^verbatim>\<open>fn\<close> is running, and the
  tokens drawn so far. \<^verbatim>\<open>randomUUID\<close> draws a token that has not been drawn.
\<close>

record lock_call =
  lc_key :: string
  lc_token :: token
  lc_since :: timestamp
  lc_ttl :: int

record lock_system =
  ls_now :: timestamp
  ls_store :: "token redis"
  ls_calls :: "lock_call set"
  ls_tokens :: "token set"

inductive lock_step :: "lock_system \<Rightarrow> lock_system \<Rightarrow> bool" where
  tick: "ls_now s \<le> t \<Longrightarrow> lock_step s (s\<lparr>ls_now := t\<rparr>)"
| acquired: "tok \<notin> ls_tokens s \<Longrightarrow> 0 < ttl
    \<Longrightarrow> redis_set_nx (ls_now s) ttl key tok (ls_store s) = (True, st)
    \<Longrightarrow> lock_step s (s\<lparr>ls_store := st, ls_tokens := insert tok (ls_tokens s),
          ls_calls := insert \<lparr>lc_key = key, lc_token = tok, lc_since = ls_now s, lc_ttl = ttl\<rparr> (ls_calls s)\<rparr>)"
| refused: "tok \<notin> ls_tokens s
    \<Longrightarrow> redis_set_nx (ls_now s) ttl key tok (ls_store s) = (False, st)
    \<Longrightarrow> lock_step s (s\<lparr>ls_store := st, ls_tokens := insert tok (ls_tokens s)\<rparr>)"
| set_threw: "tok \<notin> ls_tokens s \<Longrightarrow> 0 < ttl
    \<Longrightarrow> st = (if applied then snd (redis_set_nx (ls_now s) ttl key tok (ls_store s)) else ls_store s)
    \<Longrightarrow> lock_step s (s\<lparr>ls_store := st, ls_tokens := insert tok (ls_tokens s)\<rparr>)"
| released: "c \<in> ls_calls s
    \<Longrightarrow> RELEASE_SCRIPT (ls_now s) (lc_key c) (lc_token c) (ls_store s) = (n, st)
    \<Longrightarrow> lock_step s (s\<lparr>ls_store := st, ls_calls := ls_calls s - {c}\<rparr>)"
| release_threw: "c \<in> ls_calls s \<Longrightarrow> lock_step s (s\<lparr>ls_calls := ls_calls s - {c}\<rparr>)"

inductive_cases lock_stepE [elim]: "lock_step s s'"

definition idle_locks :: lock_system where
  "idle_locks = \<lparr>ls_now = 0, ls_store = (\<lambda>k. None), ls_calls = {}, ls_tokens = {}\<rparr>"

inductive lock_reachable :: "lock_system \<Rightarrow> bool" where
  start: "lock_reachable idle_locks"
| step: "lock_reachable s \<Longrightarrow> lock_step s s' \<Longrightarrow> lock_reachable s'"

text \<open>
  The invariant: tokens name the calls; what the store holds under a call's token is that call's
  own entry; and a call within its TTL has its entry in the store.
\<close>

definition lock_inv :: "lock_system \<Rightarrow> bool" where
  "lock_inv s = ((\<forall>c \<in> ls_calls s. lc_token c \<in> ls_tokens s)
     \<and> inj_on lc_token (ls_calls s)
     \<and> (\<forall>k tok x. ls_store s k = Some (tok, x) \<longrightarrow> tok \<in> ls_tokens s)
     \<and> (\<forall>c \<in> ls_calls s. lc_since c \<le> ls_now s \<and>
          (ls_now s < lc_since c + lc_ttl c \<longrightarrow>
             ls_store s (lc_key c) = Some (lc_token c, lc_since c + lc_ttl c))))"

lemma lock_invD:
  assumes "lock_inv s"
  shows "c \<in> ls_calls s \<Longrightarrow> lc_token c \<in> ls_tokens s"
    and "inj_on lc_token (ls_calls s)"
    and "ls_store s k = Some (tok, x) \<Longrightarrow> tok \<in> ls_tokens s"
    and "c \<in> ls_calls s \<Longrightarrow> lc_since c \<le> ls_now s"
    and "c \<in> ls_calls s \<Longrightarrow> ls_now s < lc_since c + lc_ttl c
         \<Longrightarrow> ls_store s (lc_key c) = Some (lc_token c, lc_since c + lc_ttl c)"
  using assms unfolding lock_inv_def by blast+

text \<open>\<^verbatim>\<open>SET NX\<close> does not touch the entry of a call within its TTL.\<close>

lemma set_nx_keeps:
  assumes "lock_inv s" and "c \<in> ls_calls s" and "ls_now s < lc_since c + lc_ttl c"
    and "redis_set_nx (ls_now s) ttl key tok (ls_store s) = (ok, st)"
  shows "st (lc_key c) = Some (lc_token c, lc_since c + lc_ttl c)"
  using lock_invD(5) [OF assms(1-3)] assms(3, 4)
  by (auto simp: redis_set_nx_def redis_set_def redis_get_def split: if_splits)

lemma set_nx_tokens:
  assumes "lock_inv s" and "redis_set_nx (ls_now s) ttl key tok (ls_store s) = (ok, st)" and "st k = Some (tk, x)"
  shows "tk \<in> insert tok (ls_tokens s)"
  using lock_invD(3) [OF assms(1)] assms(2, 3)
  by (auto simp: redis_set_nx_def redis_set_def split: if_splits)

lemma lock_inv_set:
  assumes "lock_inv s" and "redis_set_nx (ls_now s) ttl key tok (ls_store s) = (ok, st)"
  shows "lock_inv (s\<lparr>ls_store := st, ls_tokens := insert tok (ls_tokens s)\<rparr>)"
  using lock_invD [OF assms(1)] set_nx_keeps [OF assms(1) _ _ assms(2)] set_nx_tokens [OF assms]
  unfolding lock_inv_def by auto

lemma lock_inv_acquired:
  assumes "lock_inv s" and "tok \<notin> ls_tokens s" and "redis_set_nx (ls_now s) ttl key tok (ls_store s) = (True, st)"
  shows "lock_inv (s\<lparr>ls_store := st, ls_tokens := insert tok (ls_tokens s),
     ls_calls := insert \<lparr>lc_key = key, lc_token = tok, lc_since = ls_now s, lc_ttl = ttl\<rparr> (ls_calls s)\<rparr>)"
proof -
  have inv: "lock_inv (s\<lparr>ls_store := st, ls_tokens := insert tok (ls_tokens s)\<rparr>)"
    by (rule lock_inv_set [OF assms(1, 3)])
  have "st key = Some (tok, ls_now s + ttl)"
    using assms(3) by (auto simp: redis_set_nx_def redis_set_def split: if_splits)
  moreover have "tok \<notin> lc_token ` ls_calls s" using lock_invD(1) [OF assms(1)] assms(2) by auto
  ultimately show ?thesis using inv by (auto simp: lock_inv_def)
qed

lemma lock_inv_released:
  assumes "lock_inv s" and "c \<in> ls_calls s"
    and "RELEASE_SCRIPT (ls_now s) (lc_key c) (lc_token c) (ls_store s) = (n, st)"
  shows "lock_inv (s\<lparr>ls_store := st, ls_calls := ls_calls s - {c}\<rparr>)"
proof -
  have sub: "st k = Some v \<Longrightarrow> ls_store s k = Some v" for k v
    using assms(3) by (auto simp: RELEASE_SCRIPT_def split: if_splits)
  have keep: "st (lc_key d) = Some (lc_token d, lc_since d + lc_ttl d)"
    if d: "d \<in> ls_calls s" "d \<noteq> c" "ls_now s < lc_since d + lc_ttl d" for d
  proof -
    have "lc_token d \<noteq> lc_token c" using lock_invD(2) [OF assms(1)] assms(2) d by (auto dest: inj_onD)
    then show ?thesis using lock_invD(5) [OF assms(1) d(1, 3)] assms(3)
      by (auto simp: RELEASE_SCRIPT_def redis_get_def split: if_splits)
  qed
  show ?thesis
    using lock_invD(1, 2, 4) [OF assms(1)] lock_invD(3) [OF assms(1) sub] keep by (auto simp: lock_inv_def intro: inj_on_diff)
qed

lemma lock_inv_step: "lock_step s s' \<Longrightarrow> lock_inv s \<Longrightarrow> lock_inv s'"
proof (induction rule: lock_step.induct)
  case (tick s t)
  then show ?case by (fastforce simp: lock_inv_def)
next
  case (set_threw tok s ttl st applied key)
  show ?case
  proof (cases applied)
    case True
    then show ?thesis using set_threw lock_inv_set [of s ttl key tok] by (metis surjective_pairing)
  next
    case False
    then show ?thesis using set_threw by (auto simp: lock_inv_def)
  qed
next
  case (release_threw c s)
  then show ?case by (auto simp: lock_inv_def intro: inj_on_diff)
qed (use lock_inv_acquired lock_inv_set lock_inv_released in auto)

lemma lock_inv_reachable: "lock_reachable s \<Longrightarrow> lock_inv s"
proof (induction rule: lock_reachable.induct)
  case start
  show ?case by (simp add: lock_inv_def idle_locks_def)
qed (rule lock_inv_step)

text \<open>
  C30. The lock has one holder. In every state that any interleaving of calls, clock ticks and lost
  Redis answers can reach, let two running calls work under the same key: if both can confirm
  \<^verbatim>\<open>stillHeld\<close> they are the same call; a call within its TTL does confirm it, so two calls within
  their TTL are the same; and the release of one call leaves the store as it is when the other
  holds the key, so a call that outran its TTL never frees a later holder's lock.
\<close>

theorem lock_exclusive:
  assumes "lock_reachable s" and "c \<in> ls_calls s" and "d \<in> ls_calls s" and "lc_key c = lc_key d"
  shows "(stillHeld True (ls_now s) (lc_key c) (lc_token c) (ls_store s)
            \<and> stillHeld True (ls_now s) (lc_key d) (lc_token d) (ls_store s) \<longrightarrow> c = d)
    \<and> (ls_now s < lc_since c + lc_ttl c \<longrightarrow> stillHeld True (ls_now s) (lc_key c) (lc_token c) (ls_store s))
    \<and> (c \<noteq> d \<and> stillHeld True (ls_now s) (lc_key d) (lc_token d) (ls_store s)
         \<longrightarrow> RELEASE_SCRIPT (ls_now s) (lc_key c) (lc_token c) (ls_store s) = (0, ls_store s))"
proof -
  note inv = lock_inv_reachable [OF assms(1)]
  have tok: "c \<noteq> d \<Longrightarrow> lc_token c \<noteq> lc_token d" using lock_invD(2) [OF inv] assms(2, 3) by (auto dest: inj_onD)
  have "ls_now s < lc_since c + lc_ttl c \<Longrightarrow> stillHeld True (ls_now s) (lc_key c) (lc_token c) (ls_store s)"
    using lock_invD(5) [OF inv assms(2)] by (simp add: stillHeld_def redis_get_def)
  then show ?thesis using tok assms(4) by (cases "c = d") (auto simp: stillHeld_def RELEASE_SCRIPT_def)
qed

definition two_callers :: lock_system where
  "two_callers = \<lparr>ls_now = 150, ls_store = (\<lambda>k. None)(''k'' := Some (1, 300)),
     ls_calls = {\<lparr>lc_key = ''k'', lc_token = 0, lc_since = 0, lc_ttl = 150\<rparr>,
                 \<lparr>lc_key = ''k'', lc_token = 1, lc_since = 150, lc_ttl = 150\<rparr>}, ls_tokens = {0, 1}\<rparr>"

lemma two_callers_reachable: "lock_reachable two_callers"
proof -
  define s1 where "s1 = idle_locks\<lparr>ls_store := redis_set 0 150 ''k'' 0 (\<lambda>k. None), ls_tokens := {0},
      ls_calls := {\<lparr>lc_key = ''k'', lc_token = 0, lc_since = 0, lc_ttl = 150\<rparr>}\<rparr>"
  have "lock_step idle_locks s1"
    using acquired [of 0 idle_locks 150 "''k''" "redis_set 0 150 ''k'' 0 (\<lambda>k. None)"]
    by (simp add: s1_def idle_locks_def redis_set_nx_def redis_get_def)
  with start have "lock_reachable s1" by (rule step)
  moreover have "lock_step s1 (s1\<lparr>ls_now := 150\<rparr>)" by (rule tick) (simp add: s1_def idle_locks_def)
  ultimately have "lock_reachable (s1\<lparr>ls_now := 150\<rparr>)" by (rule step)
  moreover have "lock_step (s1\<lparr>ls_now := 150\<rparr>) two_callers"
    using acquired [of 1 "s1\<lparr>ls_now := 150\<rparr>" 150 "''k''" "(\<lambda>k. None)(''k'' := Some (1, 300))"]
    by (simp add: s1_def idle_locks_def redis_set_nx_def redis_get_def redis_set_def two_callers_def insert_commute)
  ultimately show ?thesis by (rule step)
qed

theorem lock_exclusive_witness:
  "\<not> stillHeld True 150 ''k'' 0 (ls_store two_callers)
   \<and> RELEASE_SCRIPT 150 ''k'' 0 (ls_store two_callers) = (0, ls_store two_callers)"
proof -
  let ?c = "\<lparr>lc_key = ''k'', lc_token = 0, lc_since = 0, lc_ttl = 150\<rparr>"
  let ?d = "\<lparr>lc_key = ''k'', lc_token = 1, lc_since = 150, lc_ttl = 150\<rparr>"
  have "stillHeld True 150 ''k'' 1 (ls_store two_callers)"
    by (simp add: two_callers_def stillHeld_def redis_get_def)
  then show ?thesis
    using lock_exclusive [OF two_callers_reachable, of ?c ?d] by (simp add: two_callers_def)
qed

text \<open>A call whose \<^verbatim>\<open>fn\<close> returned or raised within its TTL leaves the key free.\<close>

lemma withLock_releases:
  assumes "withLock e key ttlMs fn w = (res, st, s)" and "le_setAnswers e" and "le_releaseAnswers e"
    and "res \<noteq> Not_acquired" and "\<And>st0 s0. fst (snd (fn (st0, s0))) key = st0 key"
    and "le_releaseAt e < le_setAt e + ttlMs"
  shows "st key = None"
proof -
  obtain st0 where a: "redis_set_nx (le_setAt e) ttlMs key (le_token e) (fst w) = (True, st0)"
    using assms(1, 2, 4) by (auto simp: withLock_def redis_set_nx_def Let_def split: if_splits)
  have k: "st0 key = Some (le_token e, le_setAt e + ttlMs)"
    using a by (auto simp: redis_set_nx_def redis_set_def split: if_splits)
  obtain r st1 s1 where f: "fn (st0, snd w) = (r, st1, s1)" by (metis prod_cases3)
  have "st1 key = st0 key" using assms(5) [of st0 "snd w"] f by simp
  then have "redis_get (le_releaseAt e) key st1 = Some (le_token e)"
    using k assms(6) by (simp add: redis_get_def)
  then show ?thesis using assms(1-3) a f by (auto simp: withLock_def RELEASE_SCRIPT_def)
qed

end
