(* ===== verification/Google_Ingestion.thy ===== *)
theory Google_Ingestion
  imports Transition_Guard Access_Sync Subscriber_Identity Webhook_Events
begin

text \<open>
  Notifications of Google Play: the mappers (\<^verbatim>\<open>google-mappers.ts\<close>), the retirement of a replaced
  purchase token (\<^verbatim>\<open>google-supersede.ts\<close>), the plan-change helpers
  (\<^verbatim>\<open>subscription-plan-change.ts\<close>) and the handlers (\<^verbatim>\<open>google-webhook.ts\<close>), all under
  \<^verbatim>\<open>apps/api/src/services\<close>.

  What comes from outside is the record \<open>google_env\<close> of one attempt: what the Play API answers for
  the token, how the project's products are mapped, the price and its conversion, clock readings and
  fresh ids. An attempt can fail wherever it touches the database: \<open>ge_stop\<close> is the number of steps
  it completes, each step being one committed write, and an attempt that stops returns an error with
  the tables as they are then. The refund notification to the dashboard is best effort and left out.

  The lemmas show what an attempt writes, that purchases of a token that were refunded or revoked
  stay so, that a refund is booked at most once however notifications are repeated and ordered, and
  that a plan change is announced by the first attempt that gets through and by no later one.
\<close>

section \<open>Google's vocabulary\<close>

datatype google_state =
  G_UNSPECIFIED | G_PENDING | G_ACTIVE | G_PAUSED | G_IN_GRACE_PERIOD | G_ON_HOLD | G_CANCELED
| G_EXPIRED | G_PENDING_PURCHASE_CANCELED | G_OTHER string

record google_line_item =
  li_productId :: string
  li_expiryTime :: "timestamp option"
  li_latestSuccessfulOrderId :: "string option"
  li_autoRenewEnabled :: "bool option"
  li_basePlanId :: "string option"
  li_deferredProductId :: "string option"

record google_subscription =
  gs_lineItem :: "google_line_item option"
  gs_startTime :: "timestamp option"
  gs_state :: google_state
  gs_latestOrderId :: "string option"
  gs_linkedPurchaseToken :: "string option"
  gs_cancelTime :: "timestamp option"
  gs_ackPending :: bool

text \<open>A decoded notification. The notification types are Google's numbers.\<close>

record subscription_notification =
  sn_notificationType :: nat
  sn_purchaseToken :: string
  sn_subscriptionId :: string

record rtdn_payload =
  rp_subscription :: "subscription_notification option"
  rp_oneTimeType :: "nat option"
  rp_voidedToken :: "string option"
  rp_test :: bool

abbreviation (input) SUBSCRIPTION_RECOVERED :: nat where "SUBSCRIPTION_RECOVERED \<equiv> 1"
abbreviation (input) SUBSCRIPTION_RENEWED :: nat where "SUBSCRIPTION_RENEWED \<equiv> 2"
abbreviation (input) SUBSCRIPTION_CANCELED :: nat where "SUBSCRIPTION_CANCELED \<equiv> 3"
abbreviation (input) SUBSCRIPTION_PURCHASED :: nat where "SUBSCRIPTION_PURCHASED \<equiv> 4"
abbreviation (input) SUBSCRIPTION_RESTARTED :: nat where "SUBSCRIPTION_RESTARTED \<equiv> 7"
abbreviation (input) SUBSCRIPTION_REVOKED :: nat where "SUBSCRIPTION_REVOKED \<equiv> 12"
abbreviation (input) SUBSCRIPTION_EXPIRED :: nat where "SUBSCRIPTION_EXPIRED \<equiv> 13"

section \<open>The mappers\<close>

definition GOOGLE_SUBSCRIPTION_NOTIFICATION_NAME :: "(nat \<times> string) list" where
  "GOOGLE_SUBSCRIPTION_NOTIFICATION_NAME =
     [(1, ''SUBSCRIPTION_RECOVERED''), (2, ''SUBSCRIPTION_RENEWED''), (3, ''SUBSCRIPTION_CANCELED''),
      (4, ''SUBSCRIPTION_PURCHASED''), (5, ''SUBSCRIPTION_ON_HOLD''), (6, ''SUBSCRIPTION_IN_GRACE_PERIOD''),
      (7, ''SUBSCRIPTION_RESTARTED''), (8, ''SUBSCRIPTION_PRICE_CHANGE_CONFIRMED''), (9, ''SUBSCRIPTION_DEFERRED''),
      (10, ''SUBSCRIPTION_PAUSED''), (11, ''SUBSCRIPTION_PAUSE_SCHEDULE_CHANGED''), (12, ''SUBSCRIPTION_REVOKED''),
      (13, ''SUBSCRIPTION_EXPIRED''), (20, ''SUBSCRIPTION_PENDING_PURCHASE_CANCELED'')]"

definition classifyNotification :: "rtdn_payload \<Rightarrow> string" where
  "classifyNotification p =
     (case rp_subscription p of
        Some n \<Rightarrow>
          (case map_of GOOGLE_SUBSCRIPTION_NOTIFICATION_NAME (sn_notificationType n) of
             Some name \<Rightarrow> name
           | None \<Rightarrow> ''SUBSCRIPTION_'' @ nat_text (sn_notificationType n))
      | None \<Rightarrow>
          (case rp_oneTimeType p of
             Some t \<Rightarrow> ''ONE_TIME_'' @ nat_text t
           | None \<Rightarrow> if rp_voidedToken p \<noteq> None then ''VOIDED_PURCHASE'' else ''UNKNOWN''))"

fun mapSubscriptionStateToStatus :: "google_state \<Rightarrow> subscription_status" where
  "mapSubscriptionStateToStatus G_ACTIVE = ACTIVE"
| "mapSubscriptionStateToStatus G_CANCELED = ACTIVE"
| "mapSubscriptionStateToStatus G_IN_GRACE_PERIOD = GRACE_PERIOD"
| "mapSubscriptionStateToStatus G_ON_HOLD = BILLING_ISSUE"
| "mapSubscriptionStateToStatus G_PAUSED = PAUSED"
| "mapSubscriptionStateToStatus G_EXPIRED = EXPIRED"
| "mapSubscriptionStateToStatus G_PENDING = EXPIRED"
| "mapSubscriptionStateToStatus G_PENDING_PURCHASE_CANCELED = EXPIRED"
| "mapSubscriptionStateToStatus G_UNSPECIFIED = EXPIRED"
| "mapSubscriptionStateToStatus (G_OTHER _) = EXPIRED"

definition mapStatus :: "google_state \<Rightarrow> nat \<Rightarrow> subscription_status" where
  "mapStatus state ty =
     (if ty = SUBSCRIPTION_REVOKED then REVOKED else mapSubscriptionStateToStatus state)"

definition mapRevenueEventType :: "nat \<Rightarrow> revenue_event_type option" where
  "mapRevenueEventType ty =
     (if ty = SUBSCRIPTION_PURCHASED then Some INITIAL
      else if ty = SUBSCRIPTION_RENEWED then Some RENEWAL
      else if ty = SUBSCRIPTION_RECOVERED \<or> ty = SUBSCRIPTION_RESTARTED then Some REACTIVATION
      else if ty = SUBSCRIPTION_CANCELED \<or> ty = SUBSCRIPTION_EXPIRED then Some CANCELLATION
      else if ty = SUBSCRIPTION_REVOKED then Some REFUND
      else None)"

definition isAccessGranting :: "subscription_status \<Rightarrow> bool" where
  "isAccessGranting st = (st \<in> set ACCESS_GRANTING_STATUSES)"

definition effectiveGoogleOrderId :: "google_subscription \<Rightarrow> google_line_item option \<Rightarrow> string option" where
  "effectiveGoogleOrderId purchase lineItem =
     (case Option.bind lineItem li_latestSuccessfulOrderId of
        Some o_id \<Rightarrow> Some o_id | None \<Rightarrow> gs_latestOrderId purchase)"

text \<open>The suffix \<^verbatim>\<open>..N\<close> of a renewal order.\<close>

definition isGoogleRenewalOrderId :: "string \<Rightarrow> bool" where
  "isGoogleRenewalOrderId orderId =
     (let digits = takeWhile is_digit (rev orderId)
      in digits \<noteq> [] \<and> take 2 (drop (length digits) (rev orderId)) = ''..'')"

section \<open>Plan changes\<close>

text \<open>Apple alone states a direction, in the subtype of its notification.\<close>

definition applePlanChangeType :: "string option \<Rightarrow> plan_change_type option" where
  "applePlanChangeType subtype =
     (if subtype = Some ''UPGRADE'' then Some UPGRADE
      else if subtype = Some ''DOWNGRADE'' then Some DOWNGRADE
      else None)"

definition pendingPlanChangeFields ::
  "string \<Rightarrow> string option \<Rightarrow> plan_change_type option \<Rightarrow> timestamp option
   \<Rightarrow> string option \<times> plan_change_type option \<times> timestamp option" where
  "pendingPlanChangeFields writtenProductId announcedProductId changeType effectiveAt =
     (if announcedProductId = None \<or> announcedProductId = Some writtenProductId then (None, None, None)
      else (announcedProductId, changeType, effectiveAt))"

fun change_type_json :: "plan_change_type option \<Rightarrow> json" where
  "change_type_json None = JNull"
| "change_type_json (Some UPGRADE) = JStr ''UPGRADE''"
| "change_type_json (Some DOWNGRADE) = JStr ''DOWNGRADE''"

definition PRODUCT_CHANGED_EVENT_KEY :: string where
  "PRODUCT_CHANGED_EVENT_KEY = ''subscription.product_changed''"

definition emitProductChanged ::
  "string \<Rightarrow> timestamp \<Rightarrow> string \<Rightarrow> string \<Rightarrow> row_id \<Rightarrow> string \<Rightarrow> string \<Rightarrow> plan_change_type option \<Rightarrow> timestamp
   \<Rightarrow> outbox \<Rightarrow> outbox" where
  "emitProductChanged freshId txTime projectId subscriberId purchaseId previousProductId productId changeType now ob =
     (if previousProductId = productId then ob
      else outbox_insert ob
        \<lparr>ob_id = freshId, ob_aggregateType = SUBSCRIPTION, ob_aggregateId = subscriberId,
         ob_eventType = PRODUCT_CHANGED_EVENT_KEY,
         ob_payload = JObj [(''projectId'', JStr projectId), (''subscriberId'', JStr subscriberId),
           (''purchaseId'', JStr (nat_text purchaseId)), (''previousProductId'', JStr previousProductId),
           (''productId'', JStr productId), (''changeType'', change_type_json changeType),
           (''phase'', JStr ''effective''), (''timestamp'', iso_json now)],
         ob_createdAt = txTime, ob_publishedAt = None\<rparr>)"

definition SUBSCRIPTION_RECOVERED_EVENT_KEY :: string where
  "SUBSCRIPTION_RECOVERED_EVENT_KEY = ''subscription.recovered''"

definition emitSubscriptionRecovered ::
  "string \<Rightarrow> timestamp \<Rightarrow> string \<Rightarrow> string \<Rightarrow> row_id \<Rightarrow> bool \<Rightarrow> subscription_status option \<Rightarrow> subscription_status
   \<Rightarrow> timestamp \<Rightarrow> outbox \<Rightarrow> outbox" where
  "emitSubscriptionRecovered freshId txTime projectId subscriberId purchaseId applies previousStatus status now ob =
     (if \<not> applies \<or> previousStatus \<noteq> Some BILLING_ISSUE \<or> \<not> grantsAccess (SUBSCRIPTION_STATUS_SEMANTICS status) then ob
      else outbox_insert ob
        \<lparr>ob_id = freshId, ob_aggregateType = SUBSCRIPTION, ob_aggregateId = subscriberId,
         ob_eventType = SUBSCRIPTION_RECOVERED_EVENT_KEY,
         ob_payload = JObj [(''projectId'', JStr projectId), (''subscriberId'', JStr subscriberId),
           (''purchaseId'', JStr (nat_text purchaseId)), (''previousStatus'', JStr (status_name BILLING_ISSUE)),
           (''status'', JStr (status_name status)), (''timestamp'', iso_json now)],
         ob_createdAt = txTime, ob_publishedAt = None\<rparr>)"

section \<open>State and environment\<close>

record google_world =
  gw_subscribers :: "subscriber list"
  gw_purchases :: purchase_db
  gw_access :: access_db
  gw_revenue :: revenue_db
  gw_audits :: "guard_audit list"

record google_env =
  ge_projectId :: string
  ge_subscription :: "google_subscription option"
  ge_product :: "string \<Rightarrow> (string \<times> string list) option"
  ge_pricing :: "(string \<times> string) option"
  ge_toUsd :: "string \<Rightarrow> string \<Rightarrow> string"
  ge_country :: "string option"
  ge_startNow :: timestamp
  ge_eventTime :: timestamp
  ge_supersedeNow :: timestamp
  ge_eventDate :: timestamp
  ge_freshSubscriber :: string
  ge_outboxIds :: "string \<times> string"
  ge_revenueTx :: revenue_tx
  ge_stop :: nat

datatype google_error =
  Store_unreachable | No_product string | Database_error | Revenue_failed revenue_error
| Identity_failed identity_error

record dispatch_outcome =
  do_subscriberId :: "string option"
  do_purchaseId :: "row_id option"

section \<open>The handlers\<close>

definition google_guard :: "google_env \<Rightarrow> string \<Rightarrow> subscription_status \<Rightarrow> timestamp \<Rightarrow> guard_args" where
  "google_guard env token to t =
     \<lparr>ga_projectId = ge_projectId env, ga_store = PLAY_STORE, ga_storeTransactionId = token, ga_to = to,
      ga_allowFrom = None, ga_eventTime = Some t\<rparr>"

definition resolveSubscriber ::
  "google_env \<Rightarrow> string \<Rightarrow> google_world \<Rightarrow> identity_error + subscriber \<times> google_world" where
  "resolveSubscriber env token w =
     (case Option.bind (findProjectPurchaseByStoreTransaction (gw_purchases w) (ge_projectId env) PLAY_STORE token)
             (\<lambda>p. findSubscriberById (gw_subscribers w) (pu_subscriberId p)) of
        Some s \<Rightarrow> Inr (s, w)
      | None \<Rightarrow>
          (let syntheticId = ''google:'' @ take 24 token
           in case upsertSubscriber (ge_freshSubscriber env) (ge_startNow env)
                     \<lparr>ui_projectId = ge_projectId env, ui_rovenueId = syntheticId, ui_appUserId = Some syntheticId,
                      ui_createAttributes = None, ui_updateAttributes = None, ui_appleAppAccountToken = None,
                      ui_sdkInstalledAt = None\<rparr> (gw_subscribers w) of
                Inl e \<Rightarrow> Inl e
              | Inr (s, db) \<Rightarrow> Inr (s, w\<lparr>gw_subscribers := db\<rparr>)))"

definition resolveDeferredProduct :: "google_env \<Rightarrow> string option \<Rightarrow> string \<Rightarrow> string option" where
  "resolveDeferredProduct env deferred current =
     (if \<not> truthy deferred \<or> deferred = Some current then None
      else map_option fst (ge_product env (the deferred)))"

text \<open>The row a first notification creates, and the patch a later one applies.\<close>

definition created_row ::
  "google_env \<Rightarrow> subscription_notification \<Rightarrow> google_subscription \<Rightarrow> string \<Rightarrow> string \<Rightarrow> purchase" where
  "created_row env n purchase subscriberId productId =
     (let lineItem = gs_lineItem purchase;
          status = mapStatus (gs_state purchase) (sn_notificationType n);
          expiresDate = Option.bind lineItem li_expiryTime;
          start = (case gs_startTime purchase of Some t \<Rightarrow> t | None \<Rightarrow> ge_startNow env);
          pending = pendingPlanChangeFields productId
            (resolveDeferredProduct env (Option.bind lineItem li_deferredProductId)
               (case lineItem of Some l \<Rightarrow> li_productId l | None \<Rightarrow> sn_subscriptionId n)) None expiresDate
      in \<lparr>pu_id = 0, pu_projectId = ge_projectId env, pu_subscriberId = subscriberId, pu_productId = productId,
          pu_store = PLAY_STORE, pu_storeTransactionId = sn_purchaseToken n,
          pu_originalTransactionId = (case gs_linkedPurchaseToken purchase of Some t \<Rightarrow> t | None \<Rightarrow> sn_purchaseToken n),
          pu_status = status, pu_expiresDate = expiresDate, pu_gracePeriodExpires = None,
          pu_autoRenewStatus = Option.bind lineItem li_autoRenewEnabled, pu_cancellationDate = gs_cancelTime purchase,
          pu_refundDate = None, pu_lastStoreEventAt = Some (ge_eventTime env),
          pu_billingIssueDetectedAt =
            (case billingIssueStamp None status (ge_eventTime env) of Some t \<Rightarrow> t | None \<Rightarrow> None),
          pu_googlePurchaseToken = None, pu_priceCurrency = map_option snd (ge_pricing env), pu_ownershipType = None,
          pu_priceAmount = map_option fst (ge_pricing env), pu_pendingProductId = fst pending,
          pu_pendingChangeType = fst (snd pending), pu_pendingChangeEffectiveAt = snd (snd pending),
          pu_purchaseDate = start, pu_createdAt = ge_eventTime env\<rparr>)"

definition update_patch ::
  "google_env \<Rightarrow> guard_result \<Rightarrow> purchase \<Rightarrow> purchase_patch" where
  "update_patch env decided new =
     empty_patch\<lparr>
       pp_status := (if gr_apply decided then Some (pu_status new) else None),
       pp_lastStoreEventAt := (if gr_apply decided then Some (Some (ge_eventTime env)) else None),
       pp_billingIssueDetectedAt :=
         (if gr_apply decided then billingIssueStamp (gr_from decided) (pu_status new) (ge_eventTime env) else None),
       pp_productId := (if gr_apply decided then Some (pu_productId new) else None),
       pp_pendingProductId := (if gr_apply decided then Some (pu_pendingProductId new) else None),
       pp_pendingChangeType := (if gr_apply decided then Some (pu_pendingChangeType new) else None),
       pp_pendingChangeEffectiveAt := (if gr_apply decided then Some (pu_pendingChangeEffectiveAt new) else None),
       pp_expiresDate := Some (pu_expiresDate new),
       pp_autoRenewStatus := Some (pu_autoRenewStatus new),
       pp_cancellationDate := Some (pu_cancellationDate new),
       pp_priceAmount := map_option (Some \<circ> fst) (ge_pricing env),
       pp_priceCurrency := map_option (Some \<circ> snd) (ge_pricing env)\<rparr>"

text \<open>The first transaction: guard, upsert, and the announcement of a product that moved.\<close>

definition subscription_write ::
  "google_env \<Rightarrow> purchase \<Rightarrow> google_world \<Rightarrow> purchase \<times> guard_result \<times> google_world" where
  "subscription_write env new w =
     (let (decided, audits) = guardStatusWrite (gw_purchases w)
            (google_guard env (pu_storeTransactionId new) (pu_status new) (ge_eventTime env));
          (row, pdb) = upsertPurchase (gw_purchases w) new (update_patch env decided new) True;
          rdb = gw_revenue w;
          ob = (case gr_previous decided of
                  Some prev \<Rightarrow>
                    if gr_apply decided
                    then emitProductChanged (fst (ge_outboxIds env)) (ge_eventTime env) (ge_projectId env)
                           (pu_subscriberId new) (pu_id row) (gp_productId prev) (pu_productId new) None
                           (ge_eventTime env) (rd_outbox rdb)
                    else rd_outbox rdb
                | None \<Rightarrow> rd_outbox rdb)
      in (row, decided, w\<lparr>gw_purchases := pdb, gw_revenue := rdb\<lparr>rd_outbox := ob\<rparr>, gw_audits := gw_audits w @ audits\<rparr>))"

text \<open>
  The transaction of \<^verbatim>\<open>expireSupersededGooglePurchase\<close> and the revocation after it: the first
  component is the id whose access is to be revoked. \<open>onSuperseded\<close> is the caller's write.
\<close>

definition superseded_write ::
  "google_env \<Rightarrow> string \<Rightarrow> (purchase \<Rightarrow> outbox \<Rightarrow> outbox) \<Rightarrow> purchase \<Rightarrow> google_world \<Rightarrow> google_world" where
  "superseded_write env supersededToken onSuperseded old w =
     (let now = ge_supersedeNow env;
          (guard, audits) = guardStatusWrite (gw_purchases w) (google_guard env supersededToken EXPIRED now);
          w1 = w\<lparr>gw_audits := gw_audits w @ audits\<rparr>
      in if \<not> gr_apply guard then w1
         else
           (let alreadyExpired = (map_option gp_status (gr_previous guard) = Some EXPIRED);
                pdb = snd (updatePurchase (gw_purchases w) (pu_id old)
                  (empty_patch\<lparr>pp_status := Some EXPIRED, pp_expiresDate := Some (Some now),
                     pp_autoRenewStatus := Some (Some False), pp_lastStoreEventAt := Some (Some now)\<rparr>) True);
                rdb = gw_revenue w
            in w1\<lparr>gw_purchases := pdb,
                  gw_revenue := (if alreadyExpired then rdb else rdb\<lparr>rd_outbox := onSuperseded old (rd_outbox rdb)\<rparr>)\<rparr>))"

definition expireSupersededGooglePurchase ::
  "google_env \<Rightarrow> string \<Rightarrow> string \<Rightarrow> (purchase \<Rightarrow> outbox \<Rightarrow> outbox) \<Rightarrow> google_world \<Rightarrow> bool \<times> google_world" where
  "expireSupersededGooglePurchase env supersededToken currentToken onSuperseded w =
     (if supersededToken = currentToken then (True, w)
      else case findProjectPurchaseByStoreTransaction (gw_purchases w) (ge_projectId env) PLAY_STORE supersededToken of
             None \<Rightarrow> (True, w)
           | Some old \<Rightarrow>
               if ge_stop env < 2 then (False, w)
               else (let w1 = superseded_write env supersededToken onSuperseded old w
                     in if ge_stop env < 3 then (False, w1)
                        else (True, w1\<lparr>gw_access := revokeAccessByPurchaseId (pu_id old) (gw_access w1)\<rparr>)))"

definition findAccessByPurchaseAndAccessId :: "access_db \<Rightarrow> string \<Rightarrow> row_id \<Rightarrow> string \<Rightarrow> access_row option" where
  "findAccessByPurchaseAndAccessId db sub purchaseId accessId =
     find (\<lambda>r. ar_subscriberId r = sub \<and> ar_purchaseId r = purchaseId \<and> ar_accessId r = accessId) (ad_rows db)"

fun grantAccess ::
  "string \<Rightarrow> row_id \<Rightarrow> timestamp option \<Rightarrow> string list \<Rightarrow> access_db \<Rightarrow> access_db" where
  "grantAccess sub purchaseId expires [] db = db"
| "grantAccess sub purchaseId expires (accessId # rest) db =
     grantAccess sub purchaseId expires rest
       (case findAccessByPurchaseAndAccessId db sub purchaseId accessId of
          Some existing \<Rightarrow> setAccessActiveAndExpiry (ar_id existing) True expires db
        | None \<Rightarrow> createAccess sub purchaseId accessId True expires PLAY_STORE db)"

definition google_revenue_key :: "google_subscription \<Rightarrow> string \<Rightarrow> revenue_event_type \<Rightarrow> string" where
  "google_revenue_key purchase token ty =
     ''google:'' @ (case effectiveGoogleOrderId purchase (gs_lineItem purchase) of Some o_id \<Rightarrow> o_id | None \<Rightarrow> token)
       @ '':'' @ revenueDedupeKind ty"

definition subscription_revenue ::
  "google_env \<Rightarrow> nat \<Rightarrow> google_subscription \<Rightarrow> purchase \<Rightarrow> string \<Rightarrow> string \<Rightarrow> google_world \<Rightarrow> google_error option \<times> google_world" where
  "subscription_revenue env ty purchase row subscriberId productId w =
     (case (mapRevenueEventType ty, ge_pricing env) of
        (Some revenueEventType, Some (amount, currency)) \<Rightarrow>
          if ge_stop env < 5 then (Some Database_error, w)
          else (case createRevenueEvent (ge_revenueTx env) (gw_purchases w) (gw_revenue w)
                       \<lparr>ri_projectId = ge_projectId env, ri_subscriberId = subscriberId, ri_purchaseId = pu_id row,
                        ri_productId = productId, ri_type = revenueEventType, ri_amount = amount, ri_currency = currency,
                        ri_amountUsd = ge_toUsd env amount currency, ri_store = PLAY_STORE, ri_eventDate = ge_eventDate env,
                        ri_dedupeKey = Some (google_revenue_key purchase (pu_storeTransactionId row) revenueEventType),
                        ri_metadata = None, ri_country = ge_country env\<rparr> of
                  Inl e \<Rightarrow> (Some (Revenue_failed e), w)
                | Inr (_, rdb) \<Rightarrow> (None, w\<lparr>gw_revenue := rdb\<rparr>))
      | _ \<Rightarrow> (None, w))"

text \<open>
  Access follows the applied status; a withheld write revokes. The acknowledgement sent to Google
  afterwards changes no table and its failure is swallowed.
\<close>

definition subscription_access ::
  "guard_result \<Rightarrow> subscription_status \<Rightarrow> string \<Rightarrow> string list \<Rightarrow> purchase \<Rightarrow> timestamp option \<Rightarrow> access_db \<Rightarrow> access_db" where
  "subscription_access decided status subscriberId accessIds row expiresDate db =
     (if gr_apply decided \<and> isAccessGranting status
      then grantAccess subscriberId (pu_id row)
             (entitlementExpiry status expiresDate (pu_gracePeriodExpires row)) accessIds db
      else revokeAccessByPurchaseId (pu_id row) db)"

text \<open>Everything after the first transaction.\<close>

definition subscription_rest ::
  "google_env \<Rightarrow> subscription_notification \<Rightarrow> google_subscription \<Rightarrow> string list \<Rightarrow> purchase \<Rightarrow> purchase \<Rightarrow> guard_result
   \<Rightarrow> google_world \<Rightarrow> google_error option \<times> google_world" where
  "subscription_rest env n purchase accessIds new row decided w =
     (let announce = (\<lambda>old ob.
            emitProductChanged (snd (ge_outboxIds env)) (ge_supersedeNow env) (ge_projectId env) (pu_subscriberId new)
              (pu_id row) (pu_productId old) (pu_productId new) None (ge_eventTime env) ob);
          (ok, w1) = (if truthy (gs_linkedPurchaseToken purchase)
                      then expireSupersededGooglePurchase env (the (gs_linkedPurchaseToken purchase)) (sn_purchaseToken n)
                             announce w
                      else (True, w))
      in if \<not> ok \<or> ge_stop env < 4 then (Some Database_error, w1)
         else
           (let w2 = w1\<lparr>gw_access := subscription_access decided (pu_status new) (pu_subscriberId new) accessIds row
                          (pu_expiresDate new) (gw_access w1)\<rparr>
            in if gr_apply decided
               then subscription_revenue env (sn_notificationType n) purchase row (pu_subscriberId new) (pu_productId new) w2
               else (None, w2)))"

definition processSubscriptionNotification ::
  "google_env \<Rightarrow> subscription_notification \<Rightarrow> google_world \<Rightarrow> (google_error + dispatch_outcome) \<times> google_world" where
  "processSubscriptionNotification env n w =
     (case ge_subscription env of
        None \<Rightarrow> (Inl Store_unreachable, w)
      | Some purchase \<Rightarrow>
          (case resolveSubscriber env (sn_purchaseToken n) w of
             Inl e \<Rightarrow> (Inl (Identity_failed e), w)
           | Inr (s, w1) \<Rightarrow>
               (let productId = (case gs_lineItem purchase of Some l \<Rightarrow> li_productId l | None \<Rightarrow> sn_subscriptionId n)
                in case ge_product env productId of
                     None \<Rightarrow> (Inl (No_product productId), w1)
                   | Some (product, accessIds) \<Rightarrow>
                       if ge_stop env < 1 then (Inl Database_error, w1)
                       else
                         (let new = created_row env n purchase (sb_id s) product;
                              (row, decided, w2) = subscription_write env new w1;
                              (err, w3) = subscription_rest env n purchase accessIds new row decided w2
                          in (case err of
                                Some e \<Rightarrow> Inl e
                              | None \<Rightarrow> Inr \<lparr>do_subscriberId = Some (sb_id s), do_purchaseId = Some (pu_id row)\<rparr>, w3)))))"

definition voided_revenue :: "google_env \<Rightarrow> string \<Rightarrow> purchase \<Rightarrow> google_world \<Rightarrow> google_error option \<times> google_world" where
  "voided_revenue env token p w =
     (case (pu_priceAmount p, pu_priceCurrency p) of
        (Some amount, Some currency) \<Rightarrow>
          if ge_stop env < 3 then (Some Database_error, w)
          else (case createRevenueEvent (ge_revenueTx env) (gw_purchases w) (gw_revenue w)
                       \<lparr>ri_projectId = ge_projectId env, ri_subscriberId = pu_subscriberId p, ri_purchaseId = pu_id p,
                        ri_productId = pu_productId p, ri_type = REFUND, ri_amount = amount, ri_currency = currency,
                        ri_amountUsd = ge_toUsd env amount currency, ri_store = PLAY_STORE, ri_eventDate = ge_eventDate env,
                        ri_dedupeKey = Some (''google:'' @ token @ '':refund''), ri_metadata = None, ri_country = None\<rparr> of
                  Inl e \<Rightarrow> (Some (Revenue_failed e), w)
                | Inr (_, rdb) \<Rightarrow> (None, w\<lparr>gw_revenue := rdb\<rparr>))
      | _ \<Rightarrow> (None, w))"

definition voided_write :: "google_env \<Rightarrow> string \<Rightarrow> purchase \<Rightarrow> google_world \<Rightarrow> guard_result \<times> google_world" where
  "voided_write env token p w =
     (let (decided, audits) = guardStatusWrite (gw_purchases w) (google_guard env token REFUNDED (ge_eventTime env))
      in (decided,
          w\<lparr>gw_purchases := snd (updatePurchase (gw_purchases w) (pu_id p)
               (if gr_apply decided
                then empty_patch\<lparr>pp_status := Some REFUNDED, pp_refundDate := Some (Some (ge_eventTime env)),
                       pp_lastStoreEventAt := Some (Some (ge_eventTime env))\<rparr>
                else empty_patch) True),
            gw_audits := gw_audits w @ audits\<rparr>))"

definition processVoidedPurchase ::
  "google_env \<Rightarrow> string \<Rightarrow> google_world \<Rightarrow> (google_error + dispatch_outcome) \<times> google_world" where
  "processVoidedPurchase env token w =
     (case findProjectPurchaseByStoreTransaction (gw_purchases w) (ge_projectId env) PLAY_STORE token of
        None \<Rightarrow> (Inr \<lparr>do_subscriberId = None, do_purchaseId = None\<rparr>, w)
      | Some p \<Rightarrow>
          if ge_stop env < 1 then (Inl Database_error, w)
          else
            (let (decided, w1) = voided_write env token p w
             in if ge_stop env < 2 then (Inl Database_error, w1)
                else
                  (let w2 = w1\<lparr>gw_access := revokeAccessByPurchaseId (pu_id p) (gw_access w1)\<rparr>;
                       (err, w3) = (if gr_apply decided then voided_revenue env token p w2 else (None, w2))
                   in (case err of Some e \<Rightarrow> Inl e
                       | None \<Rightarrow> Inr \<lparr>do_subscriberId = Some (pu_subscriberId p), do_purchaseId = Some (pu_id p)\<rparr>, w3))))"

section \<open>The frame around the handlers\<close>

record google_inbox =
  gi_world :: google_world
  gi_events :: event_db

datatype google_status = Processed string dispatch_outcome | Duplicate_notification | Test_notification | Persisted_no_verify string

datatype google_failure = Unreadable_body | Claim_in_progress | Dispatch_failed google_error | Side_effect_failed

text \<open>
  One run of the job: \<open>parsed\<close> is the decoded body or \<open>None\<close> where decoding throws; \<open>verifies\<close> says whether
  the project has credentials; \<open>post\<close> are the side effects, which may fail.
\<close>

record google_job =
  gj_parsed :: "rtdn_payload option"
  gj_messageId :: string
  gj_verifies :: bool
  gj_env :: google_env
  gj_freshEvent :: string
  gj_created :: timestamp
  gj_claimAt :: timestamp
  gj_doneAt :: timestamp
  gj_payload :: json
  gj_errorText :: string
  gj_post :: "(string \<times> string \<times> dispatch_outcome) \<Rightarrow> google_world \<Rightarrow> bool \<times> google_world"

definition google_dispatch ::
  "google_env \<Rightarrow> rtdn_payload \<Rightarrow> google_world \<Rightarrow> (google_error + dispatch_outcome) \<times> google_world" where
  "google_dispatch env payload w =
     (case rp_subscription payload of
        Some n \<Rightarrow> processSubscriptionNotification env n w
      | None \<Rightarrow>
          (case rp_voidedToken payload of
             Some token \<Rightarrow> processVoidedPurchase env token w
           | None \<Rightarrow> (Inr \<lparr>do_subscriberId = None, do_purchaseId = None\<rparr>, w)))"

definition handleGoogleNotification ::
  "google_job \<Rightarrow> google_inbox \<Rightarrow> (google_failure + google_status) \<times> google_inbox" where
  "handleGoogleNotification job g =
     (case gj_parsed job of
        None \<Rightarrow> (Inl Unreadable_body, g)
      | Some payload \<Rightarrow>
          if rp_test payload then (Inr Test_notification, g)
          else
            (let kind = classifyNotification payload;
                 (claim, events) = claimWebhookEvent (gj_freshEvent job) (gj_created job) (gi_events g)
                   \<lparr>ci_projectId = ge_projectId (gj_env job), ci_source = SRC_GOOGLE, ci_eventType = kind,
                    ci_storeEventId = gj_messageId job, ci_payload = gj_payload job\<rparr> (gj_claimAt job);
                 g1 = g\<lparr>gi_events := events\<rparr>
             in case claim of
                  Webhook_Events.Duplicate \<Rightarrow> (Inr Duplicate_notification, g1)
                | In_Progress \<Rightarrow> (Inl Claim_in_progress, g1)
                | Claimed row \<Rightarrow>
                    if \<not> gj_verifies job
                    then (Inr (Persisted_no_verify (we_id row)),
                          g1\<lparr>gi_events := updateWebhookEvent events (we_id row) (processed_patch (gj_doneAt job) None None)\<rparr>)
                    else
                      (let (result, w1) = google_dispatch (gj_env job) payload (gi_world g);
                           fail = (\<lambda>w. g1\<lparr>gi_world := w,
                             gi_events := updateWebhookEvent events (we_id row) (failed_patch (gj_errorText job))\<rparr>)
                       in case result of
                            Inl e \<Rightarrow> (Inl (Dispatch_failed e), fail w1)
                          | Inr outcome \<Rightarrow>
                              (case gj_post job (we_id row, kind, outcome) w1 of
                                 (False, w2) \<Rightarrow> (Inl Side_effect_failed, fail w2)
                               | (True, w2) \<Rightarrow>
                                   (Inr (Processed (we_id row) outcome),
                                    g1\<lparr>gi_world := w2,
                                       gi_events := updateWebhookEvent events (we_id row)
                                         (processed_patch (gj_doneAt job) (do_subscriberId outcome)
                                            (map_option nat_text (do_purchaseId outcome)))\<rparr>)))))"

section \<open>What the guard lets through\<close>

abbreviation token_row :: "purchase_db \<Rightarrow> string \<Rightarrow> purchase option" where
  "token_row db token \<equiv> find (natural_key PLAY_STORE token) (pd_rows db)"

definition may_write :: "purchase option \<Rightarrow> subscription_status \<Rightarrow> timestamp \<Rightarrow> bool" where
  "may_write r to t =
     (case r of None \<Rightarrow> True
      | Some r \<Rightarrow> (case pu_lastStoreEventAt r of None \<Rightarrow> True | Some l \<Rightarrow> l \<le> t) \<and> validateTransition (pu_status r) to)"

lemma google_guard_result:
  assumes "guardStatusWrite db (google_guard env token to t) = (g, audits)"
  shows "gr_apply g = may_write (token_row db token) to t"
    and "gr_previous g = map_option before_image (token_row db token)"
    and "gr_from g = map_option pu_status (token_row db token)"
    and "gr_apply g \<Longrightarrow> audits = []"
proof -
  let ?args = "google_guard env token to t"
  have look: "lockPurchaseStatusByStoreTransaction db (ga_store ?args) (ga_storeTransactionId ?args) = token_row db token"
    by (simp add: lockPurchaseStatusByStoreTransaction_def google_guard_def)
  show "gr_previous g = map_option before_image (token_row db token)"
    using assms by (auto simp: guardStatusWrite_def Let_def lockPurchaseStatusByStoreTransaction_def google_guard_def
        split: option.splits if_splits)
  show "gr_apply g = may_write (token_row db token) to t"
    and "gr_from g = map_option pu_status (token_row db token)" and "gr_apply g \<Longrightarrow> audits = []"
  proof -
    have "gr_apply g = may_write (token_row db token) to t \<and> gr_from g = map_option pu_status (token_row db token)
      \<and> (gr_apply g \<longrightarrow> audits = [])"
    proof (cases "token_row db token")
      case None
      have "gr_from g = None" using assms None
        by (auto simp: guardStatusWrite_def Let_def lockPurchaseStatusByStoreTransaction_def google_guard_def decideTransition_def)
      then show ?thesis
        using guardStatusWrite_new_row [of db ?args] look None assms by (simp add: may_write_def)
    next
      case (Some cur)
      note g = guardStatusWrite_existing [OF look [unfolded Some]]
      have "stale_event ?args (Some cur) = None \<longleftrightarrow> (case pu_lastStoreEventAt cur of None \<Rightarrow> True | Some l \<Rightarrow> l \<le> t)"
        by (auto simp: stale_event_def google_guard_def split: option.split)
      then show ?thesis
        using g assms Some by (auto simp: may_write_def google_guard_def)
    qed
    then show "gr_apply g = may_write (token_row db token) to t"
      and "gr_from g = map_option pu_status (token_row db token)" and "gr_apply g \<Longrightarrow> audits = []" by blast+
  qed
qed

text \<open>A refunded or revoked row admits its own status and no other.\<close>

lemma may_write_terminal:
  assumes "pu_status r \<in> {REFUNDED, REVOKED}" and "may_write (Some r) to t"
  shows "to = pu_status r"
  using assms by (auto simp: may_write_def validateTransition_def)

lemma mapSubscriptionState_open: "mapSubscriptionStateToStatus s \<notin> {REFUNDED, REVOKED}"
  by (cases s) simp_all

lemma mapStatus_terminal: "mapStatus s ty \<in> {REFUNDED, REVOKED} \<longleftrightarrow> ty = SUBSCRIPTION_REVOKED"
  using mapSubscriptionState_open [of s] by (auto simp: mapStatus_def)

lemma mapRevenueEventType_refund: "mapRevenueEventType ty = Some REFUND \<longleftrightarrow> ty = SUBSCRIPTION_REVOKED"
  by (auto simp: mapRevenueEventType_def split: if_splits)

section \<open>The rows after a write\<close>

lemma upsert_rows:
  assumes "upsertPurchase db new patch True = (row, db')" and "pu_store new = PLAY_STORE"
  shows "token_row db (pu_storeTransactionId new) = Some old
      \<Longrightarrow> row = set_clause True patch old \<and> pd_next db' = pd_next db
        \<and> pd_rows db' = map (\<lambda>r. if natural_key PLAY_STORE (pu_storeTransactionId new) r then set_clause True patch r else r) (pd_rows db)"
    and "token_row db (pu_storeTransactionId new) = None
      \<Longrightarrow> row = new\<lparr>pu_id := pd_next db\<rparr> \<and> pd_next db' = Suc (pd_next db) \<and> pd_rows db' = pd_rows db @ [row]"
  using assms by (auto simp: upsertPurchase_def Let_def update_where_def)

lemma find_append_some: "find P xs = Some x \<Longrightarrow> find P (xs @ ys) = Some x"
  by (induction xs) auto

lemma find_append_none: "find P xs = None \<Longrightarrow> find P (xs @ ys) = find P ys"
  by (induction xs) (auto split: if_splits)

lemma natural_key_set_clause: "natural_key st t (set_clause g p r) = natural_key st t r"
  by (simp add: natural_key_def)

lemma upsert_token_row:
  assumes "upsertPurchase db new patch True = (row, db')" and "pu_store new = PLAY_STORE"
  shows "token_row db' (pu_storeTransactionId new) = Some row"
proof (cases "token_row db (pu_storeTransactionId new)")
  case None
  note u = upsert_rows(2) [OF assms None]
  then show ?thesis using None assms(2) by (auto simp: find_append_none natural_key_def)
next
  case (Some old)
  note u = upsert_rows(1) [OF assms Some]
  have "token_row db' (pu_storeTransactionId new)
      = map_option (\<lambda>r. if natural_key PLAY_STORE (pu_storeTransactionId new) r then set_clause True patch r else r) (Some old)"
    using u Some by (simp add: find_map_same natural_key_set_clause)
  then show ?thesis using u find_Some_iff_mem [OF Some] by simp
qed

lemma upsert_find_other:
  assumes "upsertPurchase db new patch True = (row, db')" and "pu_store new = PLAY_STORE"
    and "\<And>r. P r \<Longrightarrow> pu_storeTransactionId r \<noteq> pu_storeTransactionId new" and "\<And>r. P (set_clause True patch r) = P r"
  shows "find P (pd_rows db') = find P (pd_rows db)"
proof (cases "token_row db (pu_storeTransactionId new)")
  case None
  note u = upsert_rows(2) [OF assms(1, 2) None]
  have "\<not> P row" using u assms(3) [of row] by auto
  then show ?thesis using u by (cases "find P (pd_rows db)") (auto simp: find_append_none find_append_some)
next
  case (Some old)
  note u = upsert_rows(1) [OF assms(1, 2) Some]
  have "find P (pd_rows db') = map_option (\<lambda>r. if natural_key PLAY_STORE (pu_storeTransactionId new) r then set_clause True patch r else r)
      (find P (pd_rows db))"
    using u assms(4) by (simp add: find_map_same)
  then show ?thesis using assms(3)
    by (cases "find P (pd_rows db)") (auto dest!: find_Some_iff_mem simp: natural_key_def)
qed

section \<open>A refund is booked once\<close>

text \<open>
  From one table to the next no row loses its identity, and a refunded or revoked one keeps its
  status.
\<close>

definition rows_keep :: "purchase_db \<Rightarrow> purchase_db \<Rightarrow> bool" where
  "rows_keep db db' = (\<forall>r \<in> set (pd_rows db). \<exists>r' \<in> set (pd_rows db'). pu_id r' = pu_id r \<and> pu_store r' = pu_store r
     \<and> pu_storeTransactionId r' = pu_storeTransactionId r
     \<and> (pu_status r \<in> {REFUNDED, REVOKED} \<longrightarrow> pu_status r' = pu_status r))"

lemma rows_keep_refl: "rows_keep db db"
  by (auto simp: rows_keep_def)

lemma rows_keep_trans: "rows_keep a b \<Longrightarrow> rows_keep b c \<Longrightarrow> rows_keep a c"
  unfolding rows_keep_def by (metis (no_types, lifting))

lemma rows_keep_update_where: "rows_keep db (update_where P (set_clause True p) db)"
  unfolding rows_keep_def
proof
  fix r assume "r \<in> set (pd_rows db)"
  then have "(if P r then set_clause True p r else r) \<in> set (pd_rows (update_where P (set_clause True p) db))"
    by (simp add: update_where_def)
  then show "\<exists>r' \<in> set (pd_rows (update_where P (set_clause True p) db)). pu_id r' = pu_id r \<and> pu_store r' = pu_store r
     \<and> pu_storeTransactionId r' = pu_storeTransactionId r
     \<and> (pu_status r \<in> {REFUNDED, REVOKED} \<longrightarrow> pu_status r' = pu_status r)"
    by (rule bexI [rotated]) (simp add: set_clause_terminal)
qed

lemma rows_keep_upsert: "rows_keep db (snd (upsertPurchase db new patch True))"
proof (cases "find (natural_key (pu_store new) (pu_storeTransactionId new)) (pd_rows db)")
  case None
  then show ?thesis by (auto simp: upsertPurchase_def Let_def rows_keep_def)
next
  case (Some old)
  then show ?thesis by (simp add: upsertPurchase_def Let_def rows_keep_update_where)
qed

lemma rows_keep_updatePurchase: "rows_keep db (snd (updatePurchase db i p True))"
  by (simp add: updatePurchase_def rows_keep_update_where rows_keep_refl)

definition google_refund :: "revenue_event \<Rightarrow> bool" where
  "google_refund v = (rv_type v = REFUND \<and> rv_store v = PLAY_STORE)"

definition void_key :: "string \<Rightarrow> string" where
  "void_key token = ''google:'' @ token @ '':refund''"

text \<open>
  Every refund row of the store belongs to a purchase that was revoked, under the key of the revocation, or
  voided, under the key of the token.
\<close>

definition refund_of :: "(string \<Rightarrow> string) \<Rightarrow> string \<Rightarrow> purchase \<Rightarrow> revenue_event \<Rightarrow> bool" where
  "refund_of rk prj r v = (pu_id r = rv_purchaseId v \<and> pu_store r = PLAY_STORE \<and> rv_projectId v = prj \<and> rv_dedupeKey v \<noteq> Some []
     \<and> (pu_status r = REVOKED \<and> rv_dedupeKey v = Some (rk (pu_storeTransactionId r))
        \<or> pu_status r = REFUNDED \<and> rv_dedupeKey v = Some (void_key (pu_storeTransactionId r))))"

definition refunds_explained :: "(string \<Rightarrow> string) \<Rightarrow> string \<Rightarrow> purchase_db \<Rightarrow> revenue_db \<Rightarrow> bool" where
  "refunds_explained rk prj pdb rdb =
     (\<forall>v \<in> set (rd_rows rdb). google_refund v \<longrightarrow> (\<exists>r \<in> set (pd_rows pdb). refund_of rk prj r v))"

lemma refunds_explained_keep:
  assumes "refunds_explained rk prj pdb rdb" and "rows_keep pdb pdb'" and "rd_rows rdb' = rd_rows rdb"
  shows "refunds_explained rk prj pdb' rdb'"
  unfolding refunds_explained_def assms(3)
proof (intro ballI impI)
  fix v assume "v \<in> set (rd_rows rdb)" and "google_refund v"
  then obtain r where r: "r \<in> set (pd_rows pdb)" "refund_of rk prj r v"
    using assms(1) by (auto simp: refunds_explained_def)
  obtain r' where r': "r' \<in> set (pd_rows pdb')" "pu_id r' = pu_id r" "pu_store r' = pu_store r"
    "pu_storeTransactionId r' = pu_storeTransactionId r" "pu_status r \<in> {REFUNDED, REVOKED} \<longrightarrow> pu_status r' = pu_status r"
    using assms(2) r(1) unfolding rows_keep_def by blast
  then have "refund_of rk prj r' v" using r(2) by (auto simp: refund_of_def)
  with r'(1) show "\<exists>r \<in> set (pd_rows pdb'). refund_of rk prj r v" by blast
qed

definition books_ok :: "(string \<Rightarrow> string) \<Rightarrow> string \<Rightarrow> google_world \<Rightarrow> bool" where
  "books_ok rk prj w = (purchase_db_ok (gw_purchases w) \<and> revenue_db_ok (gw_revenue w)
     \<and> refunds_explained rk prj (gw_purchases w) (gw_revenue w))"

lemma revenue_db_ok_outbox:
  assumes "revenue_db_ok db" and "revenue_outbox (db\<lparr>rd_outbox := ob\<rparr>) = revenue_outbox db"
  shows "revenue_db_ok (db\<lparr>rd_outbox := ob\<rparr>)"
  using assms by (simp add: revenue_db_ok_def findRevenueEventById_def)

lemma emitProductChanged_revenue:
  "revenue_outbox (db\<lparr>rd_outbox := emitProductChanged i c p s q a b ct now (rd_outbox db)\<rparr>) = revenue_outbox db"
  by (simp add: revenue_outbox_def emitProductChanged_def outbox_insert_def)

lemma books_ok_access [simp]:
  "books_ok rk prj (w\<lparr>gw_access := a\<rparr>) = books_ok rk prj w"
  "books_ok rk prj (w\<lparr>gw_subscribers := s\<rparr>) = books_ok rk prj w"
  "books_ok rk prj (w\<lparr>gw_audits := u\<rparr>) = books_ok rk prj w"
  by (simp_all add: books_ok_def)

lemma books_ok_write:
  assumes "books_ok rk prj w" and "rows_keep (gw_purchases w) pdb" and "purchase_db_ok pdb"
    and "revenue_outbox ((gw_revenue w)\<lparr>rd_outbox := ob\<rparr>) = revenue_outbox (gw_revenue w)"
  shows "books_ok rk prj (w\<lparr>gw_purchases := pdb, gw_revenue := (gw_revenue w)\<lparr>rd_outbox := ob\<rparr>\<rparr>)"
  using assms refunds_explained_keep [of rk prj "gw_purchases w" "gw_revenue w" pdb "(gw_revenue w)\<lparr>rd_outbox := ob\<rparr>"]
  by (simp add: books_ok_def revenue_db_ok_outbox)

lemma google_keys_nonempty [simp]: "google_revenue_key purchase token ty \<noteq> []" "void_key token \<noteq> []"
  by (simp_all add: google_revenue_key_def void_key_def)

text \<open>A revenue row of the handlers keeps the books if it is no refund, or the refund of a row of the table.\<close>

lemma books_ok_revenue:
  assumes "books_ok rk prj w" and "createRevenueEvent tx (gw_purchases w) (gw_revenue w) i = Inr (res, rdb)"
    and "fresh_id tx (gw_revenue w)"
    and "ri_type i = REFUND \<Longrightarrow> \<exists>r \<in> set (pd_rows (gw_purchases w)). refund_of rk prj r (revenue_row tx i)"
  shows "books_ok rk prj (w\<lparr>gw_revenue := rdb\<rparr>)"
proof -
  have ok: "revenue_db_ok (gw_revenue w)" using assms(1) by (simp add: books_ok_def)
  have "set (rd_rows rdb) \<subseteq> insert (revenue_row tx i) (set (rd_rows (gw_revenue w)))"
    using assms(2) ok by (cases rule: createRevenueEvent_cases) auto
  moreover have "google_refund (revenue_row tx i) \<Longrightarrow> ri_type i = REFUND"
    by (simp add: google_refund_def revenue_row_def)
  ultimately have "refunds_explained rk prj (gw_purchases w) rdb"
    using assms(1, 4) by (auto simp: books_ok_def refunds_explained_def)
  then show ?thesis using assms(1) createRevenueEvent_ok [OF assms(2) ok assms(3)] by (simp add: books_ok_def)
qed

lemma created_row_simps [simp]:
  "pu_store (created_row env n purchase sub pid) = PLAY_STORE"
  "pu_storeTransactionId (created_row env n purchase sub pid) = sn_purchaseToken n"
  "pu_status (created_row env n purchase sub pid) = mapStatus (gs_state purchase) (sn_notificationType n)"
  "pu_subscriberId (created_row env n purchase sub pid) = sub"
  "pu_productId (created_row env n purchase sub pid) = pid"
  "pu_expiresDate (created_row env n purchase sub pid) = Option.bind (gs_lineItem purchase) li_expiryTime"
  by (simp_all add: created_row_def Let_def)

lemma subscription_write_state:
  assumes "subscription_write env new w = (row, g, w')" and "pu_store new = PLAY_STORE"
  shows "gr_apply g = may_write (token_row (gw_purchases w) (pu_storeTransactionId new)) (pu_status new) (ge_eventTime env)"
    and "(row, gw_purchases w') = upsertPurchase (gw_purchases w) new (update_patch env g new) True"
    and "gw_access w' = gw_access w" and "gw_subscribers w' = gw_subscribers w"
    and "rd_rows (gw_revenue w') = rd_rows (gw_revenue w)"
  using assms google_guard_result(1) [of "gw_purchases w" env "pu_storeTransactionId new" "pu_status new" "ge_eventTime env"]
  by (auto simp: subscription_write_def Let_def split: prod.splits)

lemma update_patch_simps [simp]:
  "pp_status (update_patch env g new) = (if gr_apply g then Some (pu_status new) else None)"
  "pp_productId (update_patch env g new) = (if gr_apply g then Some (pu_productId new) else None)"
  by (simp_all add: update_patch_def)

lemma set_clause_fields:
  assumes "\<And>s. pp_status p = Some s \<Longrightarrow> pu_status r \<in> {REFUNDED, REVOKED} \<Longrightarrow> s = pu_status r"
  shows "pu_status (set_clause True p r) = patched (pp_status p) (pu_status r)"
    and "pu_productId (set_clause True p r) = patched (pp_productId p) (pu_productId r)"
    and "pu_subscriberId (set_clause True p r) = pu_subscriberId r"
proof -
  show "pu_productId (set_clause True p r) = patched (pp_productId p) (pu_productId r)"
    and "pu_subscriberId (set_clause True p r) = pu_subscriberId r"
    by (simp_all add: set_clause_def apply_patch_def)
  show "pu_status (set_clause True p r) = patched (pp_status p) (pu_status r)"
  proof (cases "pp_status p \<noteq> None \<and> pu_status r \<in> set REPO_TERMINAL_STATUSES")
    case True
    then obtain s where "pp_status p = Some s" by blast
    moreover from this have "s = pu_status r" using True assms by (auto simp: REPO_TERMINAL_STATUSES_def)
    ultimately show ?thesis using True set_clause_terminal [of r p]
      by (auto simp: REPO_TERMINAL_STATUSES_def patched_def)
  qed (auto simp: set_clause_def)
qed

lemma subscription_write_row:
  assumes "subscription_write env new w = (row, g, w')" and "pu_store new = PLAY_STORE"
  shows "token_row (gw_purchases w') (pu_storeTransactionId new) = Some row"
    and "pu_status row = (if gr_apply g then pu_status new
           else pu_status (the (token_row (gw_purchases w) (pu_storeTransactionId new))))"
    and "pu_productId row = (if gr_apply g then pu_productId new
           else pu_productId (the (token_row (gw_purchases w) (pu_storeTransactionId new))))"
proof -
  let ?t = "pu_storeTransactionId new"
  note st = subscription_write_state [OF assms]
  note up = st(2) [symmetric]
  show "token_row (gw_purchases w') ?t = Some row" by (rule upsert_token_row [OF up assms(2)])
  have "pu_status row = (if gr_apply g then pu_status new else pu_status (the (token_row (gw_purchases w) ?t)))
    \<and> pu_productId row = (if gr_apply g then pu_productId new else pu_productId (the (token_row (gw_purchases w) ?t)))"
  proof (cases "token_row (gw_purchases w) ?t")
    case None
    then show ?thesis using upsert_rows(2) [OF up assms(2) None] st(1) by (simp add: may_write_def)
  next
    case (Some old)
    have row: "row = set_clause True (update_patch env g new) old" using upsert_rows(1) [OF up assms(2) Some] by blast
    have "pp_status (update_patch env g new) = Some s \<Longrightarrow> pu_status old \<in> {REFUNDED, REVOKED} \<Longrightarrow> s = pu_status old" for s
      using st(1) Some may_write_terminal [of old] by (auto split: if_splits)
    note f = set_clause_fields [of "update_patch env g new" old, OF this]
    show ?thesis using f(1, 2) Some by (simp add: row patched_def)
  qed
  then show "pu_status row = (if gr_apply g then pu_status new else pu_status (the (token_row (gw_purchases w) ?t)))"
    and "pu_productId row = (if gr_apply g then pu_productId new else pu_productId (the (token_row (gw_purchases w) ?t)))"
    by blast+
qed

lemma subscription_write_books:
  assumes "subscription_write env new w = (row, g, w')" and "books_ok rk prj w"
  shows "books_ok rk prj w'"
proof -
  obtain audits where gd: "guardStatusWrite (gw_purchases w)
      (google_guard env (pu_storeTransactionId new) (pu_status new) (ge_eventTime env)) = (g, audits)"
    using assms(1) by (auto simp: subscription_write_def Let_def split: prod.splits)
  define ob where "ob = rd_outbox (gw_revenue w')"
  have w': "w' = (w\<lparr>gw_purchases := snd (upsertPurchase (gw_purchases w) new (update_patch env g new) True),
      gw_revenue := (gw_revenue w)\<lparr>rd_outbox := ob\<rparr>\<rparr>)\<lparr>gw_audits := gw_audits w @ audits\<rparr>"
    using assms(1) gd unfolding ob_def by (auto simp: subscription_write_def Let_def split: prod.splits)
  have "revenue_outbox ((gw_revenue w)\<lparr>rd_outbox := ob\<rparr>) = revenue_outbox (gw_revenue w)"
    using assms(1) gd unfolding ob_def
    by (auto simp: subscription_write_def Let_def emitProductChanged_revenue split: prod.splits option.splits)
  then have "books_ok rk prj (w\<lparr>gw_purchases := snd (upsertPurchase (gw_purchases w) new (update_patch env g new) True),
      gw_revenue := (gw_revenue w)\<lparr>rd_outbox := ob\<rparr>\<rparr>)"
    using assms(2) by (intro books_ok_write rows_keep_upsert) (simp_all add: books_ok_def upsertPurchase_ok)
  then show ?thesis unfolding w' by simp
qed

text \<open>An update that does not touch the rows of the revenue table, as the supersession makes it.\<close>

definition quiet :: "google_world \<Rightarrow> google_world \<Rightarrow> bool" where
  "quiet w w' = (rows_keep (gw_purchases w) (gw_purchases w') \<and> rd_rows (gw_revenue w') = rd_rows (gw_revenue w))"

lemma superseded_write_books:
  assumes "\<And>old ob. revenue_outbox (d\<lparr>rd_outbox := on old ob\<rparr>) = revenue_outbox (d\<lparr>rd_outbox := ob\<rparr>)"
    and "books_ok rk prj w" and "d = gw_revenue w"
  shows "books_ok rk prj (superseded_write env token on old w) \<and> quiet w (superseded_write env token on old w)"
proof -
  obtain g audits where gd: "guardStatusWrite (gw_purchases w) (google_guard env token EXPIRED (ge_supersedeNow env)) = (g, audits)"
    by fastforce
  let ?pdb = "snd (updatePurchase (gw_purchases w) (pu_id old)
    (empty_patch\<lparr>pp_status := Some EXPIRED, pp_expiresDate := Some (Some (ge_supersedeNow env)),
       pp_autoRenewStatus := Some (Some False), pp_lastStoreEventAt := Some (Some (ge_supersedeNow env))\<rparr>) True)"
  define ob where "ob = (if map_option gp_status (gr_previous g) = Some EXPIRED then rd_outbox d else on old (rd_outbox d))"
  have ob: "revenue_outbox (d\<lparr>rd_outbox := ob\<rparr>) = revenue_outbox d"
    using assms(1) [of old "rd_outbox d"] by (simp add: ob_def)
  have sw: "superseded_write env token on old w = (if gr_apply g
      then (w\<lparr>gw_purchases := ?pdb, gw_revenue := d\<lparr>rd_outbox := ob\<rparr>\<rparr>)\<lparr>gw_audits := gw_audits w @ audits\<rparr>
      else w\<lparr>gw_audits := gw_audits w @ audits\<rparr>)"
    using gd assms(3) by (auto simp: superseded_write_def Let_def ob_def)
  have "books_ok rk prj (w\<lparr>gw_purchases := ?pdb, gw_revenue := d\<lparr>rd_outbox := ob\<rparr>\<rparr>)"
    using assms(2) ob unfolding assms(3)
    by (intro books_ok_write rows_keep_updatePurchase) (simp_all add: books_ok_def updatePurchase_ok)
  then show ?thesis using assms(2, 3) by (simp add: sw quiet_def rows_keep_refl rows_keep_updatePurchase)
qed

lemma quiet_refl: "quiet w w"
  by (simp add: quiet_def rows_keep_refl)

lemma expireSuperseded_books:
  assumes "\<And>old ob. revenue_outbox ((gw_revenue w)\<lparr>rd_outbox := on old ob\<rparr>) = revenue_outbox ((gw_revenue w)\<lparr>rd_outbox := ob\<rparr>)"
    and "books_ok rk prj w" and "expireSupersededGooglePurchase env a b on w = (ok, w')"
  shows "books_ok rk prj w' \<and> quiet w w'"
proof -
  have "books_ok rk prj (superseded_write env a on old w) \<and> quiet w (superseded_write env a on old w)" for old
    by (rule superseded_write_books [OF assms(1, 2) refl])
  then show ?thesis using assms(2, 3)
    by (auto simp: expireSupersededGooglePurchase_def Let_def quiet_def rows_keep_refl split: if_splits option.splits)
qed

lemma subscription_revenue_books:
  assumes "subscription_revenue env ty purchase row sub prod_id w = (err, w')" and "books_ok rk prj w"
    and "fresh_id (ge_revenueTx env) (gw_revenue w)" and "ge_projectId env = prj"
    and "ty = SUBSCRIPTION_REVOKED \<Longrightarrow> \<exists>r \<in> set (pd_rows (gw_purchases w)). pu_id r = pu_id row \<and> pu_store r = PLAY_STORE
      \<and> pu_status r = REVOKED \<and> rk (pu_storeTransactionId r) = google_revenue_key purchase (pu_storeTransactionId row) REFUND"
  shows "books_ok rk prj w'"
proof (cases "\<exists>rt amount currency. mapRevenueEventType ty = Some rt \<and> ge_pricing env = Some (amount, currency) \<and> \<not> ge_stop env < 5")
  case True
  then obtain rt amount currency where t: "mapRevenueEventType ty = Some rt" "ge_pricing env = Some (amount, currency)"
    "\<not> ge_stop env < 5" by blast
  let ?i = "\<lparr>ri_projectId = ge_projectId env, ri_subscriberId = sub, ri_purchaseId = pu_id row,
      ri_productId = prod_id, ri_type = rt, ri_amount = amount, ri_currency = currency,
      ri_amountUsd = ge_toUsd env amount currency, ri_store = PLAY_STORE, ri_eventDate = ge_eventDate env,
      ri_dedupeKey = Some (google_revenue_key purchase (pu_storeTransactionId row) rt), ri_metadata = None,
      ri_country = ge_country env\<rparr>"
  obtain res rdb where c: "createRevenueEvent (ge_revenueTx env) (gw_purchases w) (gw_revenue w) ?i = Inr (res, rdb)"
    using createRevenueEvent_returns assms(2) unfolding books_ok_def by (metis surj_pair)
  have w': "w' = w\<lparr>gw_revenue := rdb\<rparr>" using assms(1) t c by (simp add: subscription_revenue_def)
  have "\<exists>r \<in> set (pd_rows (gw_purchases w)). refund_of rk prj r (revenue_row (ge_revenueTx env) ?i)" if "ri_type ?i = REFUND"
  proof -
    have "ty = SUBSCRIPTION_REVOKED" using that t(1) mapRevenueEventType_refund by simp
    from assms(5) [OF this] show ?thesis using that assms(4) by (auto simp: refund_of_def revenue_row_def)
  qed
  then show ?thesis unfolding w' by (rule books_ok_revenue [OF assms(2) c assms(3)])
next
  case False
  then have "w' = w" using assms(1) by (auto simp: subscription_revenue_def split: option.splits if_splits prod.splits)
  then show ?thesis using assms(2) by simp
qed

lemma subscription_rest_books:
  assumes "subscription_rest env n purchase accessIds new row g w = (err, w')" and "books_ok rk prj w"
    and "fresh_id (ge_revenueTx env) (gw_revenue w)" and "ge_projectId env = prj"
    and "row \<in> set (pd_rows (gw_purchases w))" and "pu_store row = PLAY_STORE"
    and "gr_apply g \<Longrightarrow> sn_notificationType n = SUBSCRIPTION_REVOKED \<Longrightarrow> pu_status row = REVOKED
      \<and> rk (pu_storeTransactionId row) = google_revenue_key purchase (pu_storeTransactionId row) REFUND"
  shows "books_ok rk prj w'"
proof -
  let ?announce = "\<lambda>old ob. emitProductChanged (snd (ge_outboxIds env)) (ge_supersedeNow env) (ge_projectId env)
      (pu_subscriberId new) (pu_id row) (pu_productId old) (pu_productId new) None (ge_eventTime env) ob"
  define r1 where "r1 = (if truthy (gs_linkedPurchaseToken purchase)
      then expireSupersededGooglePurchase env (the (gs_linkedPurchaseToken purchase)) (sn_purchaseToken n) ?announce w
      else (True, w))"
  obtain ok w1 where r1: "r1 = (ok, w1)" by (rule prod.exhaust)
  have ann: "revenue_outbox ((gw_revenue w)\<lparr>rd_outbox := ?announce old ob\<rparr>) = revenue_outbox ((gw_revenue w)\<lparr>rd_outbox := ob\<rparr>)"
    for old ob by (simp add: revenue_outbox_def emitProductChanged_def outbox_insert_def)
  have q: "books_ok rk prj w1 \<and> quiet w w1"
  proof (cases "truthy (gs_linkedPurchaseToken purchase)")
    case True
    then show ?thesis using r1 unfolding r1_def by (intro expireSuperseded_books [OF ann assms(2)]) simp
  next
    case False
    then show ?thesis using r1 assms(2) unfolding r1_def by (simp add: quiet_refl)
  qed
  let ?w2 = "w1\<lparr>gw_access := subscription_access g (pu_status new) (pu_subscriberId new) accessIds row
      (pu_expiresDate new) (gw_access w1)\<rparr>"
  have rest: "(err, w') = (if \<not> ok \<or> ge_stop env < 4 then (Some Database_error, w1)
      else if gr_apply g then subscription_revenue env (sn_notificationType n) purchase row (pu_subscriberId new) (pu_productId new) ?w2
      else (None, ?w2))"
    using assms(1) r1 unfolding r1_def subscription_rest_def Let_def by (simp only: prod.case eq_commute)
  show ?thesis
  proof (cases "(\<not> ok \<or> ge_stop env < 4) \<or> \<not> gr_apply g")
    case True
    then show ?thesis using rest q by (auto split: if_splits)
  next
    case False
    then have rv: "subscription_revenue env (sn_notificationType n) purchase row (pu_subscriberId new) (pu_productId new) ?w2 = (err, w')"
      using rest by simp
    show ?thesis
    proof (rule subscription_revenue_books [OF rv])
      show "books_ok rk prj ?w2" using q by simp
      show "fresh_id (ge_revenueTx env) (gw_revenue ?w2)" using assms(3) q by (simp add: fresh_id_def quiet_def)
      show "ge_projectId env = prj" by (rule assms(4))
      assume ty: "sn_notificationType n = SUBSCRIPTION_REVOKED"
      obtain r where "r \<in> set (pd_rows (gw_purchases w1))" "pu_id r = pu_id row" "pu_store r = pu_store row"
        "pu_storeTransactionId r = pu_storeTransactionId row" "pu_status row \<in> {REFUNDED, REVOKED} \<longrightarrow> pu_status r = pu_status row"
        using q assms(5) unfolding quiet_def rows_keep_def by blast
      then show "\<exists>r \<in> set (pd_rows (gw_purchases ?w2)). pu_id r = pu_id row \<and> pu_store r = PLAY_STORE
        \<and> pu_status r = REVOKED \<and> rk (pu_storeTransactionId r) = google_revenue_key purchase (pu_storeTransactionId row) REFUND"
        using assms(6, 7) ty False by auto
    qed
  qed
qed

text \<open>The key under which a token's revocation is booked must not change between its notifications.\<close>

definition revokes_under :: "(string \<Rightarrow> string) \<Rightarrow> google_env \<Rightarrow> subscription_notification \<Rightarrow> bool" where
  "revokes_under rk env n = (\<forall>purchase. ge_subscription env = Some purchase \<and> sn_notificationType n = SUBSCRIPTION_REVOKED
     \<longrightarrow> google_revenue_key purchase (sn_purchaseToken n) REFUND = rk (sn_purchaseToken n))"

lemma resolveSubscriber_books:
  assumes "resolveSubscriber env token w = Inr (s, w')"
  shows "books_ok rk prj w' = books_ok rk prj w" and "gw_revenue w' = gw_revenue w" and "gw_purchases w' = gw_purchases w"
    and "gw_access w' = gw_access w"
  using assms by (auto simp: resolveSubscriber_def Let_def split: option.splits sum.splits prod.splits)

definition notified_product :: "subscription_notification \<Rightarrow> google_subscription \<Rightarrow> string" where
  "notified_product n purchase = (case gs_lineItem purchase of Some l \<Rightarrow> li_productId l | None \<Rightarrow> sn_subscriptionId n)"

text \<open>An attempt ends before its first transaction, with the tables but the subscribers as they were, or passes it.\<close>

lemma processSubscription_cases:
  obtains (early) e where "fst (processSubscriptionNotification env n w) = Inl e"
      "gw_purchases (snd (processSubscriptionNotification env n w)) = gw_purchases w"
      "gw_revenue (snd (processSubscriptionNotification env n w)) = gw_revenue w"
  | (written) purchase s w1 product accessIds row g w2 err w3 where
      "ge_subscription env = Some purchase" "resolveSubscriber env (sn_purchaseToken n) w = Inr (s, w1)"
      "ge_product env (notified_product n purchase) = Some (product, accessIds)" "\<not> ge_stop env < 1"
      "subscription_write env (created_row env n purchase (sb_id s) product) w1 = (row, g, w2)"
      "subscription_rest env n purchase accessIds (created_row env n purchase (sb_id s) product) row g w2 = (err, w3)"
      "processSubscriptionNotification env n w = (case err of Some e \<Rightarrow> Inl e
         | None \<Rightarrow> Inr \<lparr>do_subscriberId = Some (sb_id s), do_purchaseId = Some (pu_id row)\<rparr>, w3)"
proof (cases "\<exists>purchase s w1 x. ge_subscription env = Some purchase \<and> resolveSubscriber env (sn_purchaseToken n) w = Inr (s, w1)
      \<and> ge_product env (notified_product n purchase) = Some x \<and> \<not> ge_stop env < 1")
  case True
  then obtain purchase s w1 product accessIds where t: "ge_subscription env = Some purchase"
    "resolveSubscriber env (sn_purchaseToken n) w = Inr (s, w1)"
    "ge_product env (notified_product n purchase) = Some (product, accessIds)" "\<not> ge_stop env < 1"
    by auto
  let ?new = "created_row env n purchase (sb_id s) product"
  obtain row g w2 where wr: "subscription_write env ?new w1 = (row, g, w2)" by (metis prod_cases3)
  obtain err w3 where re: "subscription_rest env n purchase accessIds ?new row g w2 = (err, w3)" by (rule prod.exhaust)
  show thesis
    by (rule written [OF t wr re])
      (use t wr re in \<open>simp add: processSubscriptionNotification_def notified_product_def Let_def\<close>)
next
  case False
  then have "(\<exists>e. fst (processSubscriptionNotification env n w) = Inl e)
      \<and> gw_purchases (snd (processSubscriptionNotification env n w)) = gw_purchases w
      \<and> gw_revenue (snd (processSubscriptionNotification env n w)) = gw_revenue w"
    by (auto simp: processSubscriptionNotification_def notified_product_def Let_def resolveSubscriber_books
        split: option.splits sum.splits prod.splits if_splits)
  then show thesis using early by blast
qed

lemma processSubscription_books:
  assumes "books_ok rk prj w" and "fresh_id (ge_revenueTx env) (gw_revenue w)" and "ge_projectId env = prj"
    and "revokes_under rk env n"
  shows "books_ok rk prj (snd (processSubscriptionNotification env n w))"
proof (cases rule: processSubscription_cases [of env n w])
  case (early e)
  then show ?thesis using assms(1) by (simp add: books_ok_def)
next
  case (written purchase s w1 product accessIds row g w2 err w3)
  note rs = resolveSubscriber_books [OF written(2)]
  note row = subscription_write_row [OF written(5) created_row_simps(1)]
  have mem: "row \<in> set (pd_rows (gw_purchases w2))" "pu_store row = PLAY_STORE" "pu_storeTransactionId row = sn_purchaseToken n"
    using find_Some_iff_mem [OF row(1)] by (simp_all add: natural_key_def)
  have "books_ok rk prj w3"
  proof (rule subscription_rest_books [OF written(6) _ _ assms(3) mem(1, 2)])
    show "books_ok rk prj w2" using subscription_write_books [OF written(5)] rs(1) assms(1) by simp
    show "fresh_id (ge_revenueTx env) (gw_revenue w2)"
      using assms(2) subscription_write_state(5) [OF written(5) created_row_simps(1)] rs(2) by (simp add: fresh_id_def)
    assume "gr_apply g" and "sn_notificationType n = SUBSCRIPTION_REVOKED"
    then show "pu_status row = REVOKED
      \<and> rk (pu_storeTransactionId row) = google_revenue_key purchase (pu_storeTransactionId row) REFUND"
      using row(2) assms(4) written(1) mem(3) by (simp add: mapStatus_def revokes_under_def)
  qed
  then show ?thesis using written(7) by simp
qed

lemma project_row_is_token_row:
  assumes "findProjectPurchaseByStoreTransaction db prj PLAY_STORE token = Some p" and "purchase_db_ok db"
  shows "token_row db token = Some p"
proof -
  have p: "p \<in> set (pd_rows db)" "natural_key PLAY_STORE token p"
    using find_Some_iff_mem [OF assms(1) [unfolded findProjectPurchaseByStoreTransaction_def]] by simp_all
  show ?thesis
  proof (rule find_unique [of p "pd_rows db" "natural_key PLAY_STORE token", OF p])
    fix y assume "y \<in> set (pd_rows db)" and "natural_key PLAY_STORE token y"
    then show "y = p" using assms(2) p
      by (intro distinct_map_eqD [of "\<lambda>r. (pu_store r, pu_storeTransactionId r)" "pd_rows db"])
        (auto simp: purchase_db_ok_def natural_key_def)
  qed
qed

text \<open>The row a void has written, where the guard let it.\<close>

lemma voided_write_row:
  assumes "voided_write env token p w = (g, w')" and "gr_apply g" and "purchase_db_ok (gw_purchases w)"
    and "token_row (gw_purchases w) token = Some p"
  shows "\<exists>r \<in> set (pd_rows (gw_purchases w')). pu_id r = pu_id p \<and> pu_store r = PLAY_STORE
    \<and> pu_storeTransactionId r = token \<and> pu_status r = REFUNDED"
proof -
  let ?patch = "empty_patch\<lparr>pp_status := Some REFUNDED, pp_refundDate := Some (Some (ge_eventTime env)),
      pp_lastStoreEventAt := Some (Some (ge_eventTime env))\<rparr>"
  have p: "p \<in> set (pd_rows (gw_purchases w))" "natural_key PLAY_STORE token p"
    using find_Some_iff_mem [OF assms(4)] by simp_all
  have ne: "?patch \<noteq> empty_patch"
  proof
    assume "?patch = empty_patch"
    then have "pp_status ?patch = pp_status empty_patch" by (rule arg_cong)
    then show False by (simp add: empty_patch_def)
  qed
  obtain audits where gd: "guardStatusWrite (gw_purchases w) (google_guard env token REFUNDED (ge_eventTime env)) = (g, audits)"
    using assms(1) by (auto simp: voided_write_def Let_def split: prod.splits)
  have may: "may_write (Some p) REFUNDED (ge_eventTime env)"
    using google_guard_result(1) [OF gd] assms(2, 4) by simp
  have "set_clause True ?patch p \<in> set (pd_rows (gw_purchases w'))"
    using assms(1, 2) gd ne p(1) by (auto simp: voided_write_def Let_def updatePurchase_def update_where_def)
  moreover have "pu_status (set_clause True ?patch p) = REFUNDED"
    using set_clause_fields(1) [of ?patch p] may_write_terminal [OF _ may] by (auto simp: patched_def)
  ultimately show ?thesis using p(2)
    by (intro bexI [of _ "set_clause True ?patch p"]) (auto simp: natural_key_def)
qed

lemma voided_write_books:
  assumes "voided_write env token p w = (g, w')" and "books_ok rk prj w"
  shows "books_ok rk prj w'" and "gw_revenue w' = gw_revenue w"
proof -
  obtain audits where gd: "guardStatusWrite (gw_purchases w) (google_guard env token REFUNDED (ge_eventTime env)) = (g, audits)"
    using assms(1) by (auto simp: voided_write_def Let_def split: prod.splits)
  obtain patch where w': "w' = (w\<lparr>gw_purchases := snd (updatePurchase (gw_purchases w) (pu_id p) patch True)\<rparr>)
      \<lparr>gw_audits := gw_audits w @ audits\<rparr>"
    using assms(1) gd by (auto simp: voided_write_def Let_def)
  have "books_ok rk prj (w\<lparr>gw_purchases := snd (updatePurchase (gw_purchases w) (pu_id p) patch True)\<rparr>)"
    using assms(2) refunds_explained_keep [OF _ rows_keep_updatePurchase refl, of rk prj "gw_purchases w" "gw_revenue w"]
    by (simp add: books_ok_def updatePurchase_ok)
  then show "books_ok rk prj w'" unfolding w' by simp
  show "gw_revenue w' = gw_revenue w" by (simp add: w')
qed

lemma voided_revenue_books:
  assumes "voided_revenue env token p w = (err, w')" and "books_ok rk prj w" and "fresh_id (ge_revenueTx env) (gw_revenue w)"
    and "ge_projectId env = prj"
    and "\<exists>r \<in> set (pd_rows (gw_purchases w)). pu_id r = pu_id p \<and> pu_store r = PLAY_STORE
      \<and> pu_storeTransactionId r = token \<and> pu_status r = REFUNDED"
  shows "books_ok rk prj w'"
proof (cases "\<exists>amount currency. pu_priceAmount p = Some amount \<and> pu_priceCurrency p = Some currency \<and> \<not> ge_stop env < 3")
  case True
  then obtain amount currency where t: "pu_priceAmount p = Some amount" "pu_priceCurrency p = Some currency" "\<not> ge_stop env < 3"
    by blast
  let ?i = "\<lparr>ri_projectId = ge_projectId env, ri_subscriberId = pu_subscriberId p, ri_purchaseId = pu_id p,
      ri_productId = pu_productId p, ri_type = REFUND, ri_amount = amount, ri_currency = currency,
      ri_amountUsd = ge_toUsd env amount currency, ri_store = PLAY_STORE, ri_eventDate = ge_eventDate env,
      ri_dedupeKey = Some (''google:'' @ token @ '':refund''), ri_metadata = None, ri_country = None\<rparr>"
  obtain res rdb where c: "createRevenueEvent (ge_revenueTx env) (gw_purchases w) (gw_revenue w) ?i = Inr (res, rdb)"
    using createRevenueEvent_returns assms(2) unfolding books_ok_def by (metis surj_pair)
  have w': "w' = w\<lparr>gw_revenue := rdb\<rparr>" using assms(1) t c by (simp add: voided_revenue_def)
  show ?thesis unfolding w'
    by (rule books_ok_revenue [OF assms(2) c assms(3)])
      (use assms(4, 5) in \<open>auto simp: refund_of_def revenue_row_def void_key_def\<close>)
next
  case False
  then have "w' = w" using assms(1) by (auto simp: voided_revenue_def split: option.splits if_splits)
  then show ?thesis using assms(2) by simp
qed

lemma processVoided_books:
  assumes "books_ok rk prj w" and "fresh_id (ge_revenueTx env) (gw_revenue w)" and "ge_projectId env = prj"
  shows "books_ok rk prj (snd (processVoidedPurchase env token w))"
proof (cases "findProjectPurchaseByStoreTransaction (gw_purchases w) (ge_projectId env) PLAY_STORE token")
  case None
  then show ?thesis using assms(1) by (simp add: processVoidedPurchase_def)
next
  case (Some p)
  have ok: "purchase_db_ok (gw_purchases w)" using assms(1) by (simp add: books_ok_def)
  obtain g w1 where wr: "voided_write env token p w = (g, w1)" by (rule prod.exhaust)
  note b = voided_write_books [OF wr assms(1)]
  let ?w2 = "w1\<lparr>gw_access := revokeAccessByPurchaseId (pu_id p) (gw_access w1)\<rparr>"
  have "books_ok rk prj w3" if "gr_apply g" "voided_revenue env token p ?w2 = (err, w3)" for err w3
    using voided_write_row [OF wr that(1) ok project_row_is_token_row [OF Some ok]] b assms(2, 3)
    by (intro voided_revenue_books [OF that(2)]) simp_all
  then show ?thesis using Some wr assms(1) b(1)
    by (auto simp: processVoidedPurchase_def Let_def split: prod.splits if_splits)
qed

datatype google_attempt =
  Subscription_attempt google_env subscription_notification
| Voided_attempt google_env string

fun attempt_env :: "google_attempt \<Rightarrow> google_env" where
  "attempt_env (Subscription_attempt env _) = env"
| "attempt_env (Voided_attempt env _) = env"

fun google_attempt_step :: "google_attempt \<Rightarrow> google_world \<Rightarrow> google_world" where
  "google_attempt_step (Subscription_attempt env n) w = snd (processSubscriptionNotification env n w)"
| "google_attempt_step (Voided_attempt env token) w = snd (processVoidedPurchase env token w)"

text \<open>
  A run of attempts of one project, with fresh revenue ids and one key per token for its revocation.
\<close>

fun google_run_ok :: "(string \<Rightarrow> string) \<Rightarrow> string \<Rightarrow> google_world \<Rightarrow> google_attempt list \<Rightarrow> bool" where
  "google_run_ok rk prj w [] = True"
| "google_run_ok rk prj w (a # as) =
     (ge_projectId (attempt_env a) = prj \<and> fresh_id (ge_revenueTx (attempt_env a)) (gw_revenue w)
      \<and> (case a of Subscription_attempt env n \<Rightarrow>
            sn_notificationType n = SUBSCRIPTION_REVOKED \<longrightarrow>
              (case ge_subscription env of None \<Rightarrow> True
               | Some purchase \<Rightarrow> google_revenue_key purchase (sn_purchaseToken n) REFUND = rk (sn_purchaseToken n))
         | Voided_attempt _ _ \<Rightarrow> True)
      \<and> google_run_ok rk prj (google_attempt_step a w) as)"

lemma google_run_books:
  assumes "books_ok rk prj w" and "google_run_ok rk prj w as"
  shows "books_ok rk prj (fold google_attempt_step as w)"
  using assms
proof (induction as arbitrary: w)
  case (Cons a as)
  have "books_ok rk prj (google_attempt_step a w)"
  proof (cases a)
    case (Subscription_attempt env n)
    then show ?thesis using Cons.prems
      by (auto simp: revokes_under_def intro!: processSubscription_books)
  next
    case (Voided_attempt env token)
    then show ?thesis using Cons.prems by (auto intro!: processVoided_books)
  qed
  then show ?case using Cons by simp
qed simp

definition refunds_booked :: "row_id \<Rightarrow> revenue_db \<Rightarrow> nat" where
  "refunds_booked pid rdb = length (filter (\<lambda>v. google_refund v \<and> rv_purchaseId v = pid) (rd_rows rdb))"

lemma refunds_booked_le_1:
  assumes "books_ok rk prj w"
  shows "refunds_booked pid (gw_revenue w) \<le> 1"
proof (cases "\<exists>v \<in> set (rd_rows (gw_revenue w)). google_refund v \<and> rv_purchaseId v = pid")
  case False
  then have "filter (\<lambda>v. google_refund v \<and> rv_purchaseId v = pid) (rd_rows (gw_revenue w)) = []"
    by (intro filter_False) auto
  then show ?thesis by (simp add: refunds_booked_def)
next
  case True
  then obtain v0 r0 where v0: "v0 \<in> set (rd_rows (gw_revenue w))" "rv_purchaseId v0 = pid"
    and r0: "r0 \<in> set (pd_rows (gw_purchases w))" "refund_of rk prj r0 v0"
    using assms by (auto simp: books_ok_def refunds_explained_def)
  obtain key where key: "rv_dedupeKey v0 = Some key" "key \<noteq> []" using r0(2) by (auto simp: refund_of_def)
  have all: "has_key prj key v" if v: "v \<in> set (rd_rows (gw_revenue w))" "google_refund v" "rv_purchaseId v = pid" for v
  proof -
    obtain r where r: "r \<in> set (pd_rows (gw_purchases w))" "refund_of rk prj r v"
      using assms v unfolding books_ok_def refunds_explained_def by blast
    have "r = r0" using r r0 v(3) v0(2) assms
      by (intro distinct_map_eqD [of pu_id "pd_rows (gw_purchases w)"]) (auto simp: books_ok_def purchase_db_ok_def refund_of_def)
    then show ?thesis using r(2) r0(2) key(1) by (auto simp: refund_of_def has_key_def)
  qed
  have "refunds_booked pid (gw_revenue w)
      \<le> length (filter (has_key prj key) (rd_rows (gw_revenue w)))"
  proof -
    have "filter (\<lambda>v. google_refund v \<and> rv_purchaseId v = pid) (rd_rows (gw_revenue w))
        = filter (\<lambda>v. google_refund v \<and> rv_purchaseId v = pid) (filter (has_key prj key) (rd_rows (gw_revenue w)))"
      using all by (auto simp: filter_filter intro!: filter_cong)
    then show ?thesis unfolding refunds_booked_def by (metis length_filter_le)
  qed
  moreover have "length (filter (has_key prj key) (rd_rows (gw_revenue w))) \<le> 1"
    using assms key(2) by (metis (no_types, lifting) books_ok_def length_map revenue_db_ok_def)
  ultimately show ?thesis by linarith
qed


definition play_row :: "subscription_status \<Rightarrow> purchase" where
  "play_row st = (sample_purchase st 500)\<lparr>pu_store := PLAY_STORE, pu_storeTransactionId := ''tok1'',
     pu_originalTransactionId := ''tok1''\<rparr>"

definition play_world :: "subscription_status \<Rightarrow> google_world" where
  "play_world st = \<lparr>gw_subscribers = [subscriber_sample ''sub'' ''rov'' None],
     gw_purchases = \<lparr>pd_rows = [play_row st], pd_next = 1\<rparr>, gw_access = \<lparr>ad_rows = [], ad_next = 0\<rparr>,
     gw_revenue = \<lparr>rd_rows = [], rd_claims = [], rd_outbox = []\<rparr>, gw_audits = []\<rparr>"

definition play_env :: "string \<Rightarrow> nat \<Rightarrow> google_env" where
  "play_env i stop = \<lparr>ge_projectId = ''prj'',
     ge_subscription = Some \<lparr>gs_lineItem = Some \<lparr>li_productId = ''monthly'', li_expiryTime = Some 500,
         li_latestSuccessfulOrderId = Some ''GPA.1..0'', li_autoRenewEnabled = Some False, li_basePlanId = Some ''base'',
         li_deferredProductId = None\<rparr>, gs_startTime = Some 50, gs_state = G_EXPIRED, gs_latestOrderId = None,
       gs_linkedPurchaseToken = None, gs_cancelTime = None, gs_ackPending = False\<rparr>,
     ge_product = (\<lambda>p. if p = ''monthly'' then Some (''prod'', [''pro'']) else None),
     ge_pricing = Some (''9.99'', ''USD''), ge_toUsd = (\<lambda>a c. a), ge_country = None, ge_startNow = 600, ge_eventTime = 600,
     ge_supersedeNow = 600, ge_eventDate = 600, ge_freshSubscriber = ''s'' @ i, ge_outboxIds = (''o1'' @ i, ''o2'' @ i),
     ge_revenueTx = \<lparr>rt_start = 600, rt_revenueId = ''v'' @ i, rt_outboxId = ''x'' @ i\<rparr>, ge_stop = stop\<rparr>"

definition play_notification :: "nat \<Rightarrow> subscription_notification" where
  "play_notification ty = \<lparr>sn_notificationType = ty, sn_purchaseToken = ''tok1'', sn_subscriptionId = ''monthly''\<rparr>"

definition revoke_then_void :: "google_attempt list" where
  "revoke_then_void = [Subscription_attempt (play_env ''1'' 4) (play_notification 12),
     Subscription_attempt (play_env ''2'' 9) (play_notification 12), Voided_attempt (play_env ''3'' 9) ''tok1'']"

lemma play_world_books: "books_ok rk ''prj'' (play_world st)"
  by (simp add: books_ok_def play_world_def purchase_db_ok_def revenue_db_ok_def revenue_outbox_def refunds_explained_def
      play_row_def sample_purchase_def)

lemma revoke_then_void_ok:
  "google_run_ok (\<lambda>t. ''google:GPA.1..0:refund'') ''prj'' (play_world ACTIVE) revoke_then_void"
  by code_simp

lemma revoke_then_void_books:
  "map rv_dedupeKey (rd_rows (gw_revenue (fold google_attempt_step revoke_then_void (play_world ACTIVE))))
   = [Some ''google:GPA.1..0:refund'']"
  by code_simp


section \<open>Refunds of lapsed subscriptions\<close>

lemma superseded_write_rows: "rd_rows (gw_revenue (superseded_write env t on old w)) = rd_rows (gw_revenue w)"
  by (simp add: superseded_write_def Let_def split: prod.split)

lemma expireSuperseded_rows:
  "expireSupersededGooglePurchase env a b on w = (ok, w') \<Longrightarrow> rd_rows (gw_revenue w') = rd_rows (gw_revenue w)"
  by (auto simp: expireSupersededGooglePurchase_def Let_def superseded_write_rows split: if_splits option.splits)

lemma subscription_rest_withheld:
  assumes "subscription_rest env n purchase accessIds new row g w = (err, w')" and "\<not> gr_apply g"
  shows "rd_rows (gw_revenue w') = rd_rows (gw_revenue w)"
  using assms
  by (auto simp: subscription_rest_def Let_def dest: expireSuperseded_rows split: prod.splits if_splits)

lemma processSubscription_withheld:
  assumes "token_row (gw_purchases w) (sn_purchaseToken n) = Some r" and "sn_notificationType n = SUBSCRIPTION_REVOKED"
    and "\<not> may_write (Some r) REVOKED (ge_eventTime env)"
  shows "rd_rows (gw_revenue (snd (processSubscriptionNotification env n w))) = rd_rows (gw_revenue w)"
proof (cases rule: processSubscription_cases [of env n w])
  case (written purchase s w1 product accessIds row g w2 err w3)
  note rs = resolveSubscriber_books [OF written(2)]
  note st = subscription_write_state [OF written(5) created_row_simps(1)]
  have "\<not> gr_apply g" using st(1) assms rs(3) by (simp add: mapStatus_def)
  from subscription_rest_withheld [OF written(6) this] show ?thesis using written(7) st(5) rs(2) by simp
qed simp

text \<open>
  The refund of a lapsed subscription is not booked. When the purchase has expired (as the
  sweep or Google's own expiry notification leaves it), a void of its token changes neither the
  purchases nor the revenue, and a revocation adds no revenue row: the transition graph has no
  edge from EXPIRED to REFUNDED or REVOKED, and the handlers book a refund only with the edge.
\<close>

lemma refund_after_expiry_not_booked:
  assumes "token_row (gw_purchases w) token = Some r" and "pu_status r = EXPIRED"
  shows "gw_revenue (snd (processVoidedPurchase env token w)) = gw_revenue w
    \<and> gw_purchases (snd (processVoidedPurchase env token w)) = gw_purchases w
    \<and> (sn_notificationType n = SUBSCRIPTION_REVOKED \<and> sn_purchaseToken n = token \<longrightarrow>
         rd_rows (gw_revenue (snd (processSubscriptionNotification env n w))) = rd_rows (gw_revenue w))"
proof -
  have no: "\<not> may_write (Some r) st t" if "st \<in> {REFUNDED, REVOKED}" for st t
    using assms(2) that by (auto simp: may_write_def validateTransition_def)
  have "gw_revenue (snd (processVoidedPurchase env token w)) = gw_revenue w
    \<and> gw_purchases (snd (processVoidedPurchase env token w)) = gw_purchases w"
  proof (cases "findProjectPurchaseByStoreTransaction (gw_purchases w) (ge_projectId env) PLAY_STORE token")
    case (Some p)
    obtain g audits where gd: "guardStatusWrite (gw_purchases w) (google_guard env token REFUNDED (ge_eventTime env)) = (g, audits)"
      by fastforce
    have "\<not> gr_apply g" using google_guard_result(1) [OF gd] assms(1) no by simp
    then show ?thesis using Some gd
      by (simp add: processVoidedPurchase_def voided_write_def updatePurchase_def Let_def)
  qed (simp add: processVoidedPurchase_def)
  moreover have "rd_rows (gw_revenue (snd (processSubscriptionNotification env n w))) = rd_rows (gw_revenue w)"
    if "sn_notificationType n = SUBSCRIPTION_REVOKED" "sn_purchaseToken n = token"
    using processSubscription_withheld [of n w r env] that assms(1) no by simp
  ultimately show ?thesis by blast
qed

section \<open>A plan change is announced once\<close>

definition announced :: "google_world \<Rightarrow> nat" where
  "announced w = length (filter (\<lambda>e. ob_eventType e = PRODUCT_CHANGED_EVENT_KEY) (rd_outbox (gw_revenue w)))"

text \<open>Whether the first transaction announces a move of the token's own row, and the second one of the retired row.\<close>

definition moves :: "purchase option \<Rightarrow> subscription_status \<Rightarrow> timestamp \<Rightarrow> string \<Rightarrow> nat" where
  "moves r st t product = (case r of None \<Rightarrow> 0 | Some r \<Rightarrow> if may_write (Some r) st t \<and> pu_productId r \<noteq> product then 1 else 0)"

definition retires :: "purchase option \<Rightarrow> timestamp \<Rightarrow> string \<Rightarrow> nat" where
  "retires old t product = (case old of None \<Rightarrow> 0
     | Some old \<Rightarrow> if may_write (Some old) EXPIRED t \<and> pu_status old \<noteq> EXPIRED \<and> pu_productId old \<noteq> product then 1 else 0)"

definition linked_row :: "string \<Rightarrow> google_subscription \<Rightarrow> subscription_notification \<Rightarrow> purchase_db \<Rightarrow> purchase option" where
  "linked_row prj purchase n db =
     (if truthy (gs_linkedPurchaseToken purchase) \<and> the (gs_linkedPurchaseToken purchase) \<noteq> sn_purchaseToken n
      then findProjectPurchaseByStoreTransaction db prj PLAY_STORE (the (gs_linkedPurchaseToken purchase)) else None)"

lemma announced_emit:
  "length (filter (\<lambda>e. ob_eventType e = PRODUCT_CHANGED_EVENT_KEY) (emitProductChanged i c p s q a b ct now ob))
   = length (filter (\<lambda>e. ob_eventType e = PRODUCT_CHANGED_EVENT_KEY) ob) + (if a = b then 0 else 1)"
  by (simp add: emitProductChanged_def outbox_insert_def)

lemma announced_write:
  assumes "subscription_write env new w = (row, g, w')"
  shows "announced w' = announced w
    + moves (token_row (gw_purchases w) (pu_storeTransactionId new)) (pu_status new) (ge_eventTime env) (pu_productId new)"
proof -
  let ?old = "token_row (gw_purchases w) (pu_storeTransactionId new)"
  obtain audits where gd: "guardStatusWrite (gw_purchases w)
      (google_guard env (pu_storeTransactionId new) (pu_status new) (ge_eventTime env)) = (g, audits)"
    using assms by (auto simp: subscription_write_def Let_def split: prod.splits)
  have ob: "rd_outbox (gw_revenue w') = (case gr_previous g of
      Some prev \<Rightarrow> if gr_apply g then emitProductChanged (fst (ge_outboxIds env)) (ge_eventTime env) (ge_projectId env)
           (pu_subscriberId new) (pu_id row) (gp_productId prev) (pu_productId new) None (ge_eventTime env) (rd_outbox (gw_revenue w))
         else rd_outbox (gw_revenue w)
    | None \<Rightarrow> rd_outbox (gw_revenue w))"
    using assms gd by (auto simp: subscription_write_def Let_def split: prod.splits)
  show ?thesis
    using google_guard_result(1, 2) [OF gd]
    by (cases ?old) (simp_all add: announced_def ob moves_def announced_emit before_image_def)
qed

lemma announced_superseded:
  assumes "token_row (gw_purchases w) token = Some old"
    and on: "\<And>o' ob. length (filter (\<lambda>e. ob_eventType e = PRODUCT_CHANGED_EVENT_KEY) (on o' ob))
      = length (filter (\<lambda>e. ob_eventType e = PRODUCT_CHANGED_EVENT_KEY) ob) + (if pu_productId o' = product then 0 else 1)"
  shows "announced (superseded_write env token on old w) = announced w + retires (Some old) (ge_supersedeNow env) product"
proof -
  obtain g audits where gd: "guardStatusWrite (gw_purchases w) (google_guard env token EXPIRED (ge_supersedeNow env)) = (g, audits)"
    by fastforce
  have g: "gr_apply g = may_write (Some old) EXPIRED (ge_supersedeNow env)" "gr_previous g = Some (before_image old)"
    using google_guard_result(1, 2) [OF gd] assms(1) by simp_all
  show ?thesis
    using g gd on by (auto simp: superseded_write_def Let_def announced_def retires_def before_image_def)
qed

lemma announced_revenue:
  assumes "subscription_revenue env ty purchase row sub pid w = (err, w')"
  shows "announced w' = announced w" and "gw_purchases w' = gw_purchases w"
  using assms by (auto simp: subscription_revenue_def createRevenueEvent_def insertRevenueRow_def announced_def
      PRODUCT_CHANGED_EVENT_KEY_def outbox_insert_def Let_def split: option.splits if_splits sum.splits)

text \<open>
  The rest of an attempt: either the retirement has not been reached (or there is nothing to retire),
  or it has been written, and then the announcement with it.
\<close>

lemma announced_rest:
  assumes "subscription_rest env n purchase accessIds new row g w = (err, w')" and "purchase_db_ok (gw_purchases w)"
  obtains (skipped) "gw_purchases w' = gw_purchases w" "announced w' = announced w"
      "err = None \<Longrightarrow> linked_row (ge_projectId env) purchase n (gw_purchases w) = None"
  | (retired) old on where "linked_row (ge_projectId env) purchase n (gw_purchases w) = Some old"
      "gw_purchases w' = gw_purchases (superseded_write env (the (gs_linkedPurchaseToken purchase)) on old w)"
      "announced w' = announced w + retires (Some old) (ge_supersedeNow env) (pu_productId new)"
proof -
  let ?announce = "\<lambda>old ob. emitProductChanged (snd (ge_outboxIds env)) (ge_supersedeNow env) (ge_projectId env)
      (pu_subscriberId new) (pu_id row) (pu_productId old) (pu_productId new) None (ge_eventTime env) ob"
  let ?t = "the (gs_linkedPurchaseToken purchase)"
  define r1 where "r1 = (if truthy (gs_linkedPurchaseToken purchase)
      then expireSupersededGooglePurchase env ?t (sn_purchaseToken n) ?announce w else (True, w))"
  obtain ok w1 where r1: "r1 = (ok, w1)" by (rule prod.exhaust)
  let ?w2 = "w1\<lparr>gw_access := subscription_access g (pu_status new) (pu_subscriberId new) accessIds row
      (pu_expiresDate new) (gw_access w1)\<rparr>"
  have rest: "(err, w') = (if \<not> ok \<or> ge_stop env < 4 then (Some Database_error, w1)
      else if gr_apply g then subscription_revenue env (sn_notificationType n) purchase row (pu_subscriberId new) (pu_productId new) ?w2
      else (None, ?w2))"
    using assms(1) r1 unfolding r1_def subscription_rest_def Let_def by (simp only: prod.case eq_commute)
  have two: "announced ?w2 = announced w1" "gw_purchases ?w2 = gw_purchases w1" by (simp_all add: announced_def)
  have w': "announced w' = announced w1" "gw_purchases w' = gw_purchases w1"
    using rest two announced_revenue [of env "sn_notificationType n" purchase row "pu_subscriberId new" "pu_productId new" ?w2 err w']
    by (auto split: if_splits)
  have ok: "err = None \<Longrightarrow> ok" using rest by (auto split: if_splits)
  show thesis
  proof (cases "linked_row (ge_projectId env) purchase n (gw_purchases w)")
    case None
    then have "w1 = w" using r1 unfolding r1_def
      by (auto simp: linked_row_def expireSupersededGooglePurchase_def split: if_splits)
    then show thesis using w' None by (intro skipped) simp_all
  next
    case (Some old)
    then have lk: "truthy (gs_linkedPurchaseToken purchase)" "?t \<noteq> sn_purchaseToken n"
      "findProjectPurchaseByStoreTransaction (gw_purchases w) (ge_projectId env) PLAY_STORE ?t = Some old"
      by (auto simp: linked_row_def split: if_splits)
    show thesis
    proof (cases "ge_stop env < 2")
      case True
      then have "w1 = w" "\<not> ok" using r1 lk unfolding r1_def by (auto simp: expireSupersededGooglePurchase_def)
      then show thesis using w' ok by (intro skipped) auto
    next
      case False
      let ?sw = "superseded_write env ?t ?announce old w"
      have "gw_purchases w1 = gw_purchases ?sw" "announced w1 = announced ?sw"
        using r1 lk False unfolding r1_def
        by (auto simp: expireSupersededGooglePurchase_def Let_def announced_def split: if_splits)
      moreover have "announced ?sw = announced w + retires (Some old) (ge_supersedeNow env) (pu_productId new)"
        by (rule announced_superseded [OF project_row_is_token_row [OF lk(3) assms(2)]]) (simp add: announced_emit)
      ultimately show thesis using w' Some by (intro retired [of old ?announce]) simp_all
    qed
  qed
qed

lemma moves_zero_after:
  assumes "subscription_write env new w = (row, g, w')" and "pu_store new = PLAY_STORE"
    and "\<And>old l. token_row (gw_purchases w) (pu_storeTransactionId new) = Some old \<Longrightarrow> pu_lastStoreEventAt old = Some l
      \<Longrightarrow> l \<le> ge_eventTime env"
  shows "moves (token_row (gw_purchases w') (pu_storeTransactionId new)) (pu_status new) t (pu_productId new) = 0"
proof -
  note row = subscription_write_row [OF assms(1, 2)]
  show ?thesis
  proof (cases "gr_apply g")
    case True
    then show ?thesis using row by (simp add: moves_def)
  next
    case False
    then have m: "\<not> may_write (token_row (gw_purchases w) (pu_storeTransactionId new)) (pu_status new) (ge_eventTime env)"
      using subscription_write_state(1) [OF assms(1, 2)] by simp
    then obtain old where old: "token_row (gw_purchases w) (pu_storeTransactionId new) = Some old"
      by (cases "token_row (gw_purchases w) (pu_storeTransactionId new)") (simp_all add: may_write_def)
    have "\<not> validateTransition (pu_status old) (pu_status new)"
      using m assms(3) [OF old] unfolding old by (auto simp: may_write_def split: option.splits)
    then show ?thesis using row(1, 2) False old by (simp add: moves_def may_write_def)
  qed
qed

lemma superseded_write_purchases:
  assumes "token_row (gw_purchases w) a = Some old"
  shows "gw_purchases (superseded_write env a on old w) =
    (if may_write (Some old) EXPIRED (ge_supersedeNow env)
     then snd (updatePurchase (gw_purchases w) (pu_id old)
       (empty_patch\<lparr>pp_status := Some EXPIRED, pp_expiresDate := Some (Some (ge_supersedeNow env)),
          pp_autoRenewStatus := Some (Some False), pp_lastStoreEventAt := Some (Some (ge_supersedeNow env))\<rparr>) True)
     else gw_purchases w)"
proof -
  obtain g audits where gd: "guardStatusWrite (gw_purchases w) (google_guard env a EXPIRED (ge_supersedeNow env)) = (g, audits)"
    by fastforce
  show ?thesis using google_guard_result(1) [OF gd] gd assms by (simp add: superseded_write_def Let_def)
qed

lemma updatePurchase_find:
  assumes "patch \<noteq> empty_patch" and "\<And>r. P (set_clause True patch r) = P r"
  shows "find P (pd_rows (snd (updatePurchase db i patch True)))
    = map_option (\<lambda>r. if pu_id r = i then set_clause True patch r else r) (find P (pd_rows db))"
  using assms by (simp add: updatePurchase_def update_where_def find_map_same)

lemma expiry_patch_nonempty:
  "empty_patch\<lparr>pp_status := Some st, pp_expiresDate := x, pp_autoRenewStatus := y, pp_lastStoreEventAt := z\<rparr> \<noteq> empty_patch"
proof
  assume "empty_patch\<lparr>pp_status := Some st, pp_expiresDate := x, pp_autoRenewStatus := y, pp_lastStoreEventAt := z\<rparr> = empty_patch"
  from arg_cong [OF this, of pp_status] show False by (simp add: empty_patch_def)
qed

lemma superseded_other_row:
  assumes "purchase_db_ok (gw_purchases w)" and "token_row (gw_purchases w) a = Some old" and "t \<noteq> a"
  shows "token_row (gw_purchases (superseded_write env a on old w)) t = token_row (gw_purchases w) t"
proof -
  have old: "old \<in> set (pd_rows (gw_purchases w))" "pu_storeTransactionId old = a"
    using find_Some_iff_mem [OF assms(2)] by (simp_all add: natural_key_def)
  have other: "pu_id r \<noteq> pu_id old" if "token_row (gw_purchases w) t = Some r" for r
  proof
    assume "pu_id r = pu_id old"
    with find_Some_iff_mem [OF that] old assms(1) have "r = old"
      by (intro distinct_map_eqD [of pu_id "pd_rows (gw_purchases w)"]) (auto simp: purchase_db_ok_def)
    then show False using find_Some_iff_mem [OF that] old(2) assms(3) by (simp add: natural_key_def)
  qed
  show ?thesis
    using other by (cases "token_row (gw_purchases w) t")
      (simp_all add: superseded_write_purchases [OF assms(2)] updatePurchase_find [OF expiry_patch_nonempty] natural_key_set_clause)
qed

lemma retires_zero_after:
  assumes "purchase_db_ok (gw_purchases w)"
    and "findProjectPurchaseByStoreTransaction (gw_purchases w) prj PLAY_STORE a = Some old"
    and "\<And>l. pu_lastStoreEventAt old = Some l \<Longrightarrow> l \<le> ge_supersedeNow env"
  shows "retires (findProjectPurchaseByStoreTransaction (gw_purchases (superseded_write env a on old w)) prj PLAY_STORE a) t product = 0"
proof -
  note tr = project_row_is_token_row [OF assms(2, 1)]
  let ?patch = "empty_patch\<lparr>pp_status := Some EXPIRED, pp_expiresDate := Some (Some (ge_supersedeNow env)),
          pp_autoRenewStatus := Some (Some False), pp_lastStoreEventAt := Some (Some (ge_supersedeNow env))\<rparr>"
  show ?thesis
  proof (cases "may_write (Some old) EXPIRED (ge_supersedeNow env)")
    case True
    have "findProjectPurchaseByStoreTransaction (gw_purchases (superseded_write env a on old w)) prj PLAY_STORE a
        = Some (set_clause True ?patch old)"
      using assms(2) True unfolding findProjectPurchaseByStoreTransaction_def
      by (simp add: superseded_write_purchases [OF tr] updatePurchase_find [OF expiry_patch_nonempty] natural_key_set_clause)
    moreover have "pu_status (set_clause True ?patch old) = EXPIRED"
      using set_clause_fields(1) [of ?patch old] may_write_terminal [OF _ True] by (auto simp: patched_def)
    ultimately show ?thesis by (simp add: retires_def)
  next
    case False
    then have "\<not> validateTransition (pu_status old) EXPIRED"
      using assms(3) by (auto simp: may_write_def split: option.splits)
    then show ?thesis using False assms(2) by (simp add: superseded_write_purchases [OF tr] retires_def may_write_def)
  qed
qed

lemma subscription_write_ok:
  assumes "subscription_write env new w = (row, g, w')" and "pu_store new = PLAY_STORE" and "purchase_db_ok (gw_purchases w)"
  shows "purchase_db_ok (gw_purchases w')"
  using subscription_write_state(2) [OF assms(1, 2)] upsertPurchase_ok [OF assms(3)] by (metis snd_conv)

lemma linked_row_write:
  assumes "subscription_write env new w = (row, g, w')" and "pu_store new = PLAY_STORE"
    and "pu_storeTransactionId new = sn_purchaseToken n"
  shows "linked_row prj purchase n (gw_purchases w') = linked_row prj purchase n (gw_purchases w)"
proof (cases "truthy (gs_linkedPurchaseToken purchase) \<and> the (gs_linkedPurchaseToken purchase) \<noteq> sn_purchaseToken n")
  case True
  have "find (\<lambda>r. pu_projectId r = prj \<and> natural_key PLAY_STORE (the (gs_linkedPurchaseToken purchase)) r) (pd_rows (gw_purchases w'))
      = find (\<lambda>r. pu_projectId r = prj \<and> natural_key PLAY_STORE (the (gs_linkedPurchaseToken purchase)) r) (pd_rows (gw_purchases w))"
    by (rule upsert_find_other [OF subscription_write_state(2) [OF assms(1, 2), symmetric] assms(2)])
      (use True assms(3) in \<open>auto simp: natural_key_def\<close>)
  then show ?thesis by (simp add: linked_row_def findProjectPurchaseByStoreTransaction_def)
qed (auto simp: linked_row_def)

lemma linked_row_token:
  assumes "linked_row prj purchase n db = Some old" and "purchase_db_ok db"
  shows "findProjectPurchaseByStoreTransaction db prj PLAY_STORE (the (gs_linkedPurchaseToken purchase)) = Some old"
    and "sn_purchaseToken n \<noteq> the (gs_linkedPurchaseToken purchase)"
    and "token_row db (the (gs_linkedPurchaseToken purchase)) = Some old"
proof -
  show f: "findProjectPurchaseByStoreTransaction db prj PLAY_STORE (the (gs_linkedPurchaseToken purchase)) = Some old"
    and "sn_purchaseToken n \<noteq> the (gs_linkedPurchaseToken purchase)"
    using assms(1) by (auto simp: linked_row_def split: if_splits)
  show "token_row db (the (gs_linkedPurchaseToken purchase)) = Some old"
    by (rule project_row_is_token_row [OF f assms(2)])
qed

text \<open>What an attempt that succeeds announces, read off the rows it finds.\<close>

lemma announced_success:
  assumes "processSubscriptionNotification env n w = (Inr out, w')" and "purchase_db_ok (gw_purchases w)"
    and "ge_subscription env = Some purchase" and "ge_product env (notified_product n purchase) = Some (product, accessIds)"
  shows "announced w' = announced w
    + moves (token_row (gw_purchases w) (sn_purchaseToken n)) (mapStatus (gs_state purchase) (sn_notificationType n)) (ge_eventTime env) product
    + retires (linked_row (ge_projectId env) purchase n (gw_purchases w)) (ge_supersedeNow env) product"
proof (cases rule: processSubscription_cases [of env n w])
  case (early e)
  then show ?thesis using assms(1) by simp
next
  case (written purchase' s w1 product' accessIds' row g w2 err w3)
  have same: "purchase' = purchase" "product' = product" using written(1, 3) assms(3, 4) by simp_all
  note rs = resolveSubscriber_books [OF written(2)]
  have fin: "err = None" "w3 = w'" using written(7) assms(1) by (auto split: option.splits)
  have an1: "announced w1 = announced w" using rs(2) by (simp add: announced_def)
  note an2 = announced_write [OF written(5)]
  have ok: "purchase_db_ok (gw_purchases w2)"
    using subscription_write_ok [OF written(5) created_row_simps(1)] assms(2) rs(3) by simp
  have lr: "linked_row (ge_projectId env) purchase n (gw_purchases w2) = linked_row (ge_projectId env) purchase n (gw_purchases w)"
    using linked_row_write [OF written(5) created_row_simps(1)] rs(3) by simp
  show ?thesis
    using written(6) ok
  proof (cases rule: announced_rest)
    case skipped
    then show ?thesis using fin lr an1 an2 rs(3) same by (simp add: retires_def)
  next
    case (retired old on)
    then show ?thesis using fin lr an1 an2 rs(3) same by simp
  qed
qed

definition settled :: "purchase_db \<Rightarrow> timestamp \<Rightarrow> bool" where
  "settled db t = list_all (\<lambda>r. case pu_lastStoreEventAt r of None \<Rightarrow> True | Some l \<Rightarrow> l \<le> t) (pd_rows db)"

lemma settledD: "settled db t \<Longrightarrow> r \<in> set (pd_rows db) \<Longrightarrow> pu_lastStoreEventAt r = Some l \<Longrightarrow> l \<le> t"
  by (auto simp: settled_def list_all_iff)

lemma may_write_settled:
  "settled db t \<Longrightarrow> r \<in> set (pd_rows db) \<Longrightarrow> t \<le> t' \<Longrightarrow> may_write (Some r) st t' = validateTransition (pu_status r) st"
  using settledD [of db t r] by (fastforce simp: may_write_def split: option.split)

lemma moves_settled:
  assumes "settled db t" and "t \<le> t1" and "t \<le> t2"
  shows "moves (token_row db tok) st t1 product = moves (token_row db tok) st t2 product"
  using may_write_settled [OF assms(1)] assms(2, 3)
  by (cases "token_row db tok") (auto simp: moves_def dest: find_Some_iff_mem)

lemma linked_row_mem: "linked_row prj purchase n db = Some old \<Longrightarrow> old \<in> set (pd_rows db)"
  by (auto simp: linked_row_def findProjectPurchaseByStoreTransaction_def dest: find_Some_iff_mem split: if_splits)

lemma retires_settled:
  assumes "settled db t" and "t \<le> t1" and "t \<le> t2"
  shows "retires (linked_row prj purchase n db) t1 product = retires (linked_row prj purchase n db) t2 product"
  using may_write_settled [OF assms(1) linked_row_mem] assms(2, 3)
  by (cases "linked_row prj purchase n db") (auto simp: retires_def)

text \<open>The state an interrupted attempt leaves, as far as announcements go.\<close>

lemma announced_interrupted:
  assumes "purchase_db_ok (gw_purchases w)" and "settled (gw_purchases w) t" and "t \<le> ge_eventTime env" and "t \<le> ge_supersedeNow env"
    and "ge_subscription env = Some purchase" and "ge_product env (notified_product n purchase) = Some (product, accessIds)"
    and "t \<le> t1" and "t \<le> t2"
  defines "w' \<equiv> snd (processSubscriptionNotification env n w)"
    and "st \<equiv> mapStatus (gs_state purchase) (sn_notificationType n)"
  shows "announced w' + moves (token_row (gw_purchases w') (sn_purchaseToken n)) st t1 product
      + retires (linked_row (ge_projectId env) purchase n (gw_purchases w')) t2 product
    = announced w + moves (token_row (gw_purchases w) (sn_purchaseToken n)) st t1 product
      + retires (linked_row (ge_projectId env) purchase n (gw_purchases w)) t2 product
    \<and> purchase_db_ok (gw_purchases w')"
proof (cases rule: processSubscription_cases [of env n w])
  case (early e)
  then show ?thesis using assms(1) by (simp add: w'_def announced_def)
next
  case (written purchase' s w1 product' accessIds' row g w2 err w3)
  have same: "purchase' = purchase" "product' = product" using written(1, 3) assms(5, 6) by simp_all
  note rs = resolveSubscriber_books [OF written(2)]
  have w3: "w' = w3" using written(7) by (simp add: w'_def)
  have an1: "announced w1 = announced w" using rs(2) by (simp add: announced_def)
  have an2: "announced w2 = announced w + moves (token_row (gw_purchases w) (sn_purchaseToken n)) st t1 product"
    using announced_write [OF written(5)] an1 rs(3) same moves_settled [OF assms(2, 3, 7)] by (simp add: st_def)
  have ok: "purchase_db_ok (gw_purchases w2)"
    using subscription_write_ok [OF written(5) created_row_simps(1)] assms(1) rs(3) by simp
  have mz: "moves (token_row (gw_purchases w2) (sn_purchaseToken n)) st t1 product = 0"
  proof -
    have "l \<le> ge_eventTime env" if "token_row (gw_purchases w1) (sn_purchaseToken n) = Some old" "pu_lastStoreEventAt old = Some l" for old l
      using settledD [OF assms(2) _ that(2)] find_Some_iff_mem [OF that(1)] rs(3) assms(3) by force
    then show ?thesis using moves_zero_after [OF written(5) created_row_simps(1), of t1] same by (simp add: st_def)
  qed
  have lr: "linked_row (ge_projectId env) purchase n (gw_purchases w2) = linked_row (ge_projectId env) purchase n (gw_purchases w)"
    using linked_row_write [OF written(5) created_row_simps(1)] rs(3) by simp
  show ?thesis
    using written(6) ok
  proof (cases rule: announced_rest)
    case skipped
    then show ?thesis using w3 an2 mz lr ok by simp
  next
    case (retired old on)
    then have old: "linked_row (ge_projectId env) purchase n (gw_purchases w2) = Some old" using same by simp
    note lt = linked_row_token [OF old ok]
    have mem: "old \<in> set (pd_rows (gw_purchases w))" using linked_row_mem old lr by metis
    have "token_row (gw_purchases w3) (sn_purchaseToken n) = token_row (gw_purchases w2) (sn_purchaseToken n)"
      using superseded_other_row [OF ok lt(3, 2)] retired(2) same by simp
    moreover have "retires (linked_row (ge_projectId env) purchase n (gw_purchases w3)) t2 product = 0"
      using retires_zero_after [OF ok lt(1), of env on t2 product] settledD [OF assms(2) mem] assms(4) retired(2) same old
      by (force simp: linked_row_def split: if_splits)
    moreover have "retires (Some old) (ge_supersedeNow env) product = retires (linked_row (ge_projectId env) purchase n (gw_purchases w)) t2 product"
      using retires_settled [OF assms(2) assms(4) assms(8), of "ge_projectId env" purchase n product] lr old by simp
    moreover have "purchase_db_ok (gw_purchases w3)"
      using retired(2) ok by (simp add: superseded_write_purchases [OF lt(3)] same updatePurchase_ok)
    ultimately show ?thesis using w3 an2 mz lr retired(3) same by simp
  qed
qed

text \<open>The stamps of the rows stay behind the clock of the attempts.\<close>

lemma settled_update:
  assumes "settled db t" and "t \<le> t'" and "\<And>x. pp_lastStoreEventAt patch = Some (Some x) \<Longrightarrow> x \<le> t'"
  shows "settled (update_where P (set_clause True patch) db) t'"
proof -
  have "case pu_lastStoreEventAt (set_clause True patch r) of None \<Rightarrow> True | Some l \<Rightarrow> l \<le> t'" if "r \<in> set (pd_rows db)" for r
  proof -
    have "pu_lastStoreEventAt (set_clause True patch r) = patched (pp_lastStoreEventAt patch) (pu_lastStoreEventAt r)"
      by (simp add: set_clause_def apply_patch_def)
    then show ?thesis using assms(3) settledD [OF assms(1) that] assms(2)
      by (fastforce simp: patched_def split: option.splits)
  qed
  moreover have "case pu_lastStoreEventAt r of None \<Rightarrow> True | Some l \<Rightarrow> l \<le> t'" if "r \<in> set (pd_rows db)" for r
    using settledD [OF assms(1) that] assms(2) by (fastforce split: option.split)
  ultimately show ?thesis by (auto simp: settled_def update_where_def list_all_iff)
qed

lemma settled_later: "settled db t \<Longrightarrow> t \<le> t' \<Longrightarrow> settled db t'"
  by (fastforce simp: settled_def list_all_iff split: option.splits)

lemma settled_upsert:
  assumes "settled db t" and "t \<le> t'" and "\<And>x. pp_lastStoreEventAt patch = Some (Some x) \<Longrightarrow> x \<le> t'"
    and "\<And>x. pu_lastStoreEventAt new = Some x \<Longrightarrow> x \<le> t'"
  shows "settled (snd (upsertPurchase db new patch True)) t'"
proof (cases "find (natural_key (pu_store new) (pu_storeTransactionId new)) (pd_rows db)")
  case None
  then show ?thesis using settled_later [OF assms(1, 2)] assms(4)
    by (auto simp: upsertPurchase_def Let_def settled_def split: option.split)
next
  case (Some old)
  then show ?thesis using settled_update [OF assms(1-3)] by (simp add: upsertPurchase_def Let_def)
qed

lemma settled_attempt:
  assumes "settled (gw_purchases w) t" and "purchase_db_ok (gw_purchases w)" and "t \<le> t'"
    and "ge_eventTime env \<le> t'" and "ge_supersedeNow env \<le> t'"
  shows "settled (gw_purchases (snd (processSubscriptionNotification env n w))) t'"
proof (cases rule: processSubscription_cases [of env n w])
  case (early e)
  then show ?thesis using settled_later [OF assms(1, 3)] by simp
next
  case (written purchase s w1 product accessIds row g w2 err w3)
  let ?new = "created_row env n purchase (sb_id s) product"
  note rs = resolveSubscriber_books [OF written(2)]
  have ok: "purchase_db_ok (gw_purchases w2)"
    using subscription_write_ok [OF written(5) created_row_simps(1)] assms(2) rs(3) by simp
  have "settled (snd (upsertPurchase (gw_purchases w) ?new (update_patch env g ?new) True)) t'"
    using assms(4) by (intro settled_upsert [OF assms(1, 3)])
      (auto simp: update_patch_def empty_patch_def created_row_def Let_def split: if_splits)
  then have w2: "settled (gw_purchases w2) t'"
    using subscription_write_state(2) [OF written(5) created_row_simps(1)] rs(3) by (metis snd_conv)
  have "settled (gw_purchases w3) t'"
    using written(6) ok
  proof (cases rule: announced_rest)
    case (retired old on)
    note lt = linked_row_token [OF retired(1) ok]
    show ?thesis using w2 assms(5)
      by (auto simp: retired(2) superseded_write_purchases [OF lt(3)] updatePurchase_def
          intro!: settled_update [OF w2 order_refl])
  qed (use w2 in simp)
  then show ?thesis using written(7) by simp
qed

fun in_time :: "timestamp \<Rightarrow> google_env list \<Rightarrow> bool" where
  "in_time t [] = True"
| "in_time t (e # es) = (t \<le> ge_eventTime e \<and> t \<le> ge_supersedeNow e \<and> in_time (max (ge_eventTime e) (ge_supersedeNow e)) es)"

lemma in_time_last: "in_time t (es @ [e]) \<Longrightarrow> t \<le> ge_eventTime e \<and> t \<le> ge_supersedeNow e"
proof (induction es arbitrary: t)
  case (Cons a es)
  have "in_time (max (ge_eventTime a) (ge_supersedeNow a)) (es @ [e])" using Cons.prems by simp
  from Cons.IH [OF this] Cons.prems show ?case by auto
qed simp

definition attempt_again :: "subscription_notification \<Rightarrow> google_env \<Rightarrow> google_world \<Rightarrow> google_world" where
  "attempt_again n env w = snd (processSubscriptionNotification env n w)"

lemma announced_attempts:
  assumes "purchase_db_ok (gw_purchases w)" and "settled (gw_purchases w) t" and "in_time t (es @ [last_env])"
    and "\<forall>e \<in> set es. ge_subscription e = Some purchase \<and> ge_product e = ge_product last_env \<and> ge_projectId e = ge_projectId last_env"
    and "ge_product last_env (notified_product n purchase) = Some (product, accessIds)"
  defines "st \<equiv> mapStatus (gs_state purchase) (sn_notificationType n)"
  shows "announced (fold (attempt_again n) es w)
      + moves (token_row (gw_purchases (fold (attempt_again n) es w)) (sn_purchaseToken n)) st (ge_eventTime last_env) product
      + retires (linked_row (ge_projectId last_env) purchase n (gw_purchases (fold (attempt_again n) es w))) (ge_supersedeNow last_env) product
    = announced w + moves (token_row (gw_purchases w) (sn_purchaseToken n)) st (ge_eventTime last_env) product
      + retires (linked_row (ge_projectId last_env) purchase n (gw_purchases w)) (ge_supersedeNow last_env) product
    \<and> purchase_db_ok (gw_purchases (fold (attempt_again n) es w))"
  using assms(1-4)
proof (induction es arbitrary: w t)
  case (Cons e es)
  let ?w = "attempt_again n e w" and ?t = "max (ge_eventTime e) (ge_supersedeNow e)"
  have e: "ge_subscription e = Some purchase" "ge_product e (notified_product n purchase) = Some (product, accessIds)"
    "ge_projectId e = ge_projectId last_env"
    using Cons.prems(4) assms(5) by auto
  have te: "t \<le> ge_eventTime e" "t \<le> ge_supersedeNow e" "in_time ?t (es @ [last_env])" using Cons.prems(3) by simp_all
  have tl: "t \<le> ge_eventTime last_env" "t \<le> ge_supersedeNow last_env" using in_time_last [OF te(3)] te(1) by linarith+
  note i = announced_interrupted [OF Cons.prems(1, 2) te(1, 2) e(1, 2) tl, folded attempt_again_def st_def, unfolded e(3)]
  have "settled (gw_purchases ?w) ?t"
    unfolding attempt_again_def using te by (intro settled_attempt [OF Cons.prems(2, 1)]) simp_all
  moreover have "\<forall>e \<in> set es. ge_subscription e = Some purchase \<and> ge_product e = ge_product last_env \<and> ge_projectId e = ge_projectId last_env"
    using Cons.prems(4) by simp
  ultimately show ?case using Cons.IH [OF conjunct2 [OF i] _ te(3)] conjunct1 [OF i] by (simp only: fold_simps)
qed simp

text \<open>
  A plan change is announced exactly as often as by one undisturbed attempt. However many
  attempts at a notification are interrupted, each wherever it is, the attempt that at last
  succeeds leaves as many \<^verbatim>\<open>subscription.product_changed\<close> rows on the outbox as it would have left
  alone: an announcement is in the transaction of the change it announces, for the row of the
  token and for the row its replacement retires alike. (The attempts read the same answer from
  Google, and their clocks do not run backwards.)
\<close>

lemma plan_change_announced_once:
  assumes "purchase_db_ok (gw_purchases w)" and "settled (gw_purchases w) t" and "in_time t (es @ [env])"
    and "\<forall>e \<in> set es. ge_subscription e = ge_subscription env \<and> ge_product e = ge_product env \<and> ge_projectId e = ge_projectId env"
    and "processSubscriptionNotification env n w = (Inr out, alone)"
    and "processSubscriptionNotification env n (fold (attempt_again n) es w) = (Inr out', after)"
  shows "announced after = announced alone"
proof -
  obtain purchase product accessIds where p: "ge_subscription env = Some purchase"
    "ge_product env (notified_product n purchase) = Some (product, accessIds)"
    using assms(5) by (cases rule: processSubscription_cases [of env n w]) auto
  have es: "\<forall>e \<in> set es. ge_subscription e = Some purchase \<and> ge_product e = ge_product env \<and> ge_projectId e = ge_projectId env"
    using assms(4) p(1) by simp
  note a = announced_attempts [OF assms(1-3) es p(2)]
  show ?thesis
    using announced_success [OF assms(5, 1) p] announced_success [OF assms(6) _ p] a by simp
qed

definition upgrade_env :: "string \<Rightarrow> nat \<Rightarrow> google_env" where
  "upgrade_env i stop = (play_env i stop)\<lparr>
     ge_subscription := Some \<lparr>gs_lineItem = Some \<lparr>li_productId = ''annual'', li_expiryTime = Some 9000,
         li_latestSuccessfulOrderId = Some ''GPA.2'', li_autoRenewEnabled = Some True, li_basePlanId = Some ''base'',
         li_deferredProductId = None\<rparr>, gs_startTime = Some 600, gs_state = G_ACTIVE, gs_latestOrderId = None,
       gs_linkedPurchaseToken = Some ''tok1'', gs_cancelTime = None, gs_ackPending = True\<rparr>,
     ge_product := map_of [(''monthly'', (''prod'', [''pro''])), (''annual'', (''prod2'', [''pro'']))]\<rparr>"

definition upgrade_notification :: subscription_notification where
  "upgrade_notification = \<lparr>sn_notificationType = 4, sn_purchaseToken = ''tok2'', sn_subscriptionId = ''annual''\<rparr>"

definition interrupted_upgrade :: google_world where
  "interrupted_upgrade = fold (attempt_again upgrade_notification) [upgrade_env ''1'' 1, upgrade_env ''2'' 2] (play_world ACTIVE)"

lemma upgrade_alone:
  "case processSubscriptionNotification (upgrade_env ''3'' 9) upgrade_notification (play_world ACTIVE) of
     (r, w) \<Rightarrow> (case r of Inl _ \<Rightarrow> False | Inr _ \<Rightarrow> announced w = 1)"
  by code_simp

lemma upgrade_interrupted:
  "case fst (processSubscriptionNotification (upgrade_env ''3'' 9) upgrade_notification interrupted_upgrade) of
     Inl _ \<Rightarrow> False | Inr _ \<Rightarrow> True"
  by code_simp

end
