(* ===== verification/Iso_Dates.thy ===== *)
theory Iso_Dates
  imports Json_Text
begin

text \<open>
  The text of a date determines the date: within the years 0 to 9999 two times with the same
  \<^verbatim>\<open>toISOString()\<close> are equal. The day is recovered from the civil date because the computed year of the
  400-year era is the one whose first day is the last not after the day (\<open>year_of_era\<close>).
\<close>

section \<open>The civil date determines the day\<close>

definition era_years :: "int \<Rightarrow> int" where
  "era_years doe = doe - doe div 1460 + doe div 36524 - doe div 146096"

definition year_start :: "int \<Rightarrow> int" where
  "year_start y = 365 * y + y div 4 - y div 100"

lemma div_grows_slowly: "0 < k \<Longrightarrow> x \<le> y \<Longrightarrow> y div k - x div k \<le> y - x" for x y k :: int
proof -
  assume k: "0 < k" and "x \<le> y"
  then have "(y - x) * 1 \<le> (y - x) * k" by (intro mult_left_mono) simp_all
  then have "y \<le> x + (y - x) * k" by simp
  then have "y div k \<le> (x + (y - x) * k) div k" by (rule zdiv_mono1) (rule k)
  then show ?thesis using k by simp
qed

lemma era_years_mono: "x \<le> y \<Longrightarrow> era_years x \<le> era_years y"
proof -
  assume le: "x \<le> y"
  have quarter: "v div 146096 = v div 36524 div 4" for v :: int
    using zdiv_zmult2_eq [of 4 v 36524] by simp
  have "y div 1460 - x div 1460 \<le> y - x" by (rule div_grows_slowly) (use le in simp_all)
  moreover have "y div 36524 div 4 - x div 36524 div 4 \<le> y div 36524 - x div 36524"
    by (rule div_grows_slowly) (use le in \<open>simp_all add: zdiv_mono1\<close>)
  ultimately show ?thesis by (simp add: era_years_def quarter)
qed

lemma year_bounds:
  "list_all (\<lambda>y. 365 * y \<le> era_years (year_start y) \<and> era_years (year_start y - 1) < 365 * y
     \<and> year_start y - year_start (y - 1) \<le> 366) [1..399]"
  by code_simp

lemma year_of_era:
  assumes "0 \<le> doe" and "doe < 146097"
  defines "y \<equiv> era_years doe div 365"
  shows "0 \<le> y" and "y < 400" and "0 \<le> doe - year_start y" and "doe - year_start y < 366"
proof -
  have lo: "0 \<le> era_years doe" and hi: "era_years doe < 146000"
    using era_years_mono [OF assms(1)] era_years_mono [of doe 146096] assms(2) by (simp_all add: era_years_def)
  show y: "0 \<le> y" "y < 400" using lo hi by (simp_all add: y_def)
  have at: "365 * v \<le> era_years (year_start v)" "era_years (year_start v - 1) < 365 * v"
    "year_start v - year_start (v - 1) \<le> 366" if "1 \<le> v" "v \<le> 399" for v
    using year_bounds that by (auto simp: list_all_iff)
  have in_year: "365 * y \<le> era_years doe" "era_years doe < 365 * (y + 1)"
    unfolding y_def by presburger+
  show "0 \<le> doe - year_start y"
  proof (cases "1 \<le> y")
    case True
    show ?thesis
    proof (rule ccontr)
      assume "\<not> ?thesis"
      then have "era_years doe \<le> era_years (year_start y - 1)" by (intro era_years_mono) simp
      then show False using at(2) [of y] True y in_year(1) by simp
    qed
  next
    case False
    then have "y = 0" using y by simp
    then show ?thesis using assms(1) by (simp add: year_start_def)
  qed
  show "doe - year_start y < 366"
  proof (cases "y = 399")
    case True
    then show ?thesis using assms(2) by (simp add: year_start_def)
  next
    case False
    then have "doe < year_start (y + 1)"
      using at(1) [of "y + 1"] y in_year(2) era_years_mono [of "year_start (y + 1)" doe] by fastforce
    then show ?thesis using at(3) [of "y + 1"] False y by simp
  qed
qed

lemma before_next_year:
  assumes "0 \<le> doe" and "doe < 146097" and "era_years doe div 365 < 399"
  shows "doe < year_start (era_years doe div 365 + 1)"
proof (rule ccontr)
  let ?y = "era_years doe div 365"
  assume "\<not> doe < year_start (?y + 1)"
  then have "era_years (year_start (?y + 1)) \<le> era_years doe" by (intro era_years_mono) simp
  have at: "365 * v \<le> era_years (year_start v)" if "1 \<le> v" "v \<le> 399" for v
    using year_bounds that by (auto simp: list_all_iff)
  have "365 * (?y + 1) \<le> era_years (year_start (?y + 1))"
    using year_of_era(1) [OF assms(1,2)] assms(3) by (intro at) simp_all
  moreover note \<open>era_years (year_start (?y + 1)) \<le> era_years doe\<close>
  moreover have "era_years doe < 365 * (?y + 1)" by presburger
  ultimately show False by simp
qed

text \<open>The parts of a date, with the month counted from March.\<close>

definition era_of :: "int \<Rightarrow> int" where "era_of days = (days + 719468) div 146097"
definition yoe_of :: "int \<Rightarrow> int" where "yoe_of days = era_years ((days + 719468) mod 146097) div 365"
definition doy_of :: "int \<Rightarrow> int" where
  "doy_of days = (days + 719468) mod 146097 - year_start (yoe_of days)"
definition mp_of :: "int \<Rightarrow> int" where "mp_of days = (5 * doy_of days + 2) div 153"

lemma civil_parts:
  "civil days =
     (let m = (if mp_of days < 10 then mp_of days + 3 else mp_of days - 9)
      in (yoe_of days + era_of days * 400 + (if m \<le> 2 then 1 else 0), m,
          doy_of days - (153 * mp_of days + 2) div 5 + 1))"
  unfolding civil_def Let_def era_of_def mp_of_def doy_of_def yoe_of_def era_years_def year_start_def by (rule refl)

lemma parts_bounds:
  "0 \<le> yoe_of days" "yoe_of days < 400" "0 \<le> doy_of days" "doy_of days < 366"
  "0 \<le> mp_of days" "mp_of days < 12"
proof -
  note year = year_of_era [of "(days + 719468) mod 146097"]
  show "0 \<le> yoe_of days" "yoe_of days < 400" "0 \<le> doy_of days" "doy_of days < 366"
    using year by (simp_all add: yoe_of_def doy_of_def)
  then show "0 \<le> mp_of days" "mp_of days < 12" by (simp_all add: mp_of_def)
qed

lemma days_of_parts: "days = 146097 * era_of days + year_start (yoe_of days) + doy_of days - 719468"
  unfolding era_of_def doy_of_def using mult_div_mod_eq [of 146097 "days + 719468"] by linarith

lemma civil_inject:
  assumes "civil a = civil b"
  shows "a = b"
proof -
  note eq = assms [unfolded civil_parts Let_def prod.inject]
  have mp: "mp_of a = mp_of b"
    using eq parts_bounds(5,6) [of a] parts_bounds(5,6) [of b] by (auto split: if_splits)
  then have doy: "doy_of a = doy_of b" using eq by simp
  have y: "yoe_of a + era_of a * 400 = yoe_of b + era_of b * 400"
    using conjunct1 [OF eq] unfolding mp by (simp only: add_right_cancel)
  then have "(yoe_of a + era_of a * 400) mod 400 = (yoe_of b + era_of b * 400) mod 400" by simp
  then have "yoe_of a = yoe_of b" using parts_bounds(1,2) [of a] parts_bounds(1,2) [of b] by simp
  moreover from this y have "era_of a = era_of b" by simp
  ultimately show ?thesis using doy days_of_parts [of a] days_of_parts [of b] by simp
qed

section \<open>The text determines the time\<close>

lemma text_nat_pad: "text_nat (pad w n) = n"
proof -
  have "text_nat (replicate k (CHR ''0'') @ s) = text_nat s" for k s
    by (induction k) (simp_all add: text_nat_def digit_value_def)
  then show ?thesis by (simp add: pad_def text_nat_nat_text)
qed

lemma length_nat_text: "n < 10 ^ Suc w \<Longrightarrow> length (nat_text n) \<le> Suc w"
proof (induction w arbitrary: n)
  case 0
  then show ?case by (subst nat_text.simps) simp
next
  case (Suc w)
  then have "length (nat_text (n div 10)) \<le> Suc w" by (intro Suc.IH) (simp add: less_mult_imp_div_less mult.commute)
  then show ?case by (subst nat_text.simps) simp
qed

lemma length_pad: "n < 10 ^ w \<Longrightarrow> 0 < w \<Longrightarrow> length (pad w n) = w"
  using length_nat_text [of n "w - 1"] by (simp add: pad_def)

lemma pad_append_inject:
  "m < 10 ^ w \<Longrightarrow> n < 10 ^ w \<Longrightarrow> 0 < w \<Longrightarrow> pad w m @ xs = pad w n @ ys \<longleftrightarrow> m = n \<and> xs = ys"
  using append_eq_append_conv [of "pad w m" "pad w n" xs ys] length_pad text_nat_pad by metis

definition iso_range :: "timestamp \<Rightarrow> bool" where
  "iso_range t = (case civil (t div 86400000) of (y, m, d) \<Rightarrow> 0 \<le> y \<and> y < 10000)"

lemma civil_bounds: "civil days = (y, m, d) \<Longrightarrow> 0 < m \<and> m \<le> 12 \<and> 0 < d \<and> d < 100"
proof -
  assume c: "civil days = (y, m, d)"
  have "153 * mp_of days \<le> 5 * doy_of days + 2" "5 * doy_of days + 2 < 153 * mp_of days + 153"
    unfolding mp_of_def by presburger+
  moreover have "5 * ((153 * mp_of days + 2) div 5) \<le> 153 * mp_of days + 2"
    "153 * mp_of days + 2 < 5 * ((153 * mp_of days + 2) div 5) + 5"
    by presburger+
  ultimately have "(153 * mp_of days + 2) div 5 \<le> doy_of days" "doy_of days < (153 * mp_of days + 2) div 5 + 99"
    by linarith+
  then show ?thesis using c parts_bounds [of days] by (auto simp: civil_parts Let_def split: if_splits)
qed

lemma iso_day_append_inject:
  assumes "iso_range s" and "iso_range t" and "iso_day s @ xs = iso_day t @ ys"
  shows "s div 86400000 = t div 86400000 \<and> xs = ys"
proof -
  obtain y m d where s: "civil (s div 86400000) = (y, m, d)" by (cases "civil (s div 86400000)") auto
  obtain y' m' d' where t: "civil (t div 86400000) = (y', m', d')" by (cases "civil (t div 86400000)") auto
  have "y = y' \<and> m = m' \<and> d = d' \<and> xs = ys"
    using assms(3) civil_bounds [OF s] civil_bounds [OF t] assms(1,2)
    by (auto simp: iso_range_def iso_day_def s t pad_append_inject nat_less_iff)
  then show ?thesis using civil_inject [of "s div 86400000" "t div 86400000"] s t by simp
qed

lemma div_mod_inject: "x div k = y div k \<Longrightarrow> x mod k = y mod k \<Longrightarrow> x = y" for x y k :: int
  by (metis div_mult_mod_eq)

lemma clock_inject:
  fixes a b :: int
  assumes "a div 3600000 = b div 3600000" and "a div 60000 mod 60 = b div 60000 mod 60"
    and "a div 1000 mod 60 = b div 1000 mod 60" and "a mod 1000 = b mod 1000"
  shows "a = b"
proof -
  have minute: "v div 3600000 = v div 60000 div 60" for v :: int
    by (rule zdiv_zmult2_eq [of 60 v 60000, simplified mult_num_simps(1) arith_simps]) simp
  have second: "v div 60000 = v div 1000 div 60" for v :: int
    by (rule zdiv_zmult2_eq [of 60 v 1000, simplified mult_num_simps(1) arith_simps]) simp
  have "a div 60000 = b div 60000" by (rule div_mod_inject [OF assms(1) [unfolded minute] assms(2)])
  then have "a div 1000 = b div 1000" unfolding second by (rule div_mod_inject) (rule assms(3))
  then show ?thesis by (rule div_mod_inject) (rule assms(4))
qed

lemma clock_text_inject:
  assumes "0 \<le> h" "h < 100" "0 \<le> m" "m < 100" "0 \<le> s" "s < 100" "0 \<le> u" "u < 1000"
    and "0 \<le> h'" "h' < 100" "0 \<le> m'" "m' < 100" "0 \<le> s'" "s' < 100" "0 \<le> u'" "u' < 1000"
    and "''T'' @ pad 2 (nat h) @ '':'' @ pad 2 (nat m) @ '':'' @ pad 2 (nat s) @ ''.'' @ pad 3 (nat u) @ ''Z''
       = ''T'' @ pad 2 (nat h') @ '':'' @ pad 2 (nat m') @ '':'' @ pad 2 (nat s') @ ''.'' @ pad 3 (nat u') @ ''Z''"
  shows "h = h' \<and> m = m' \<and> s = s' \<and> u = u'"
proof -
  have "pad 3 (nat u) @ [] = pad 3 (nat u') @ [] \<longleftrightarrow> nat u = nat u' \<and> [] = ([] :: string)"
    using assms by (intro pad_append_inject) (simp_all add: nat_less_iff)
  then have "nat h = nat h' \<and> nat m = nat m' \<and> nat s = nat s' \<and> nat u = nat u'"
    using assms by (simp add: pad_append_inject nat_less_iff)
  then show ?thesis using assms(1,3,5,7,9,11,13,15) by (simp only: nat_eq_iff2) auto
qed

lemma clock_bounds:
  fixes v :: int
  assumes "0 \<le> v" and "v < 86400000"
  shows "0 \<le> v div 3600000" "v div 3600000 < 100" "0 \<le> v div 60000 mod 60" "v div 60000 mod 60 < 100"
    "0 \<le> v div 1000 mod 60" "v div 1000 mod 60 < 100" "0 \<le> v mod 1000" "v mod 1000 < 1000"
proof -
  have sixty: "w mod 60 < 100" for w :: int
    by (rule order.strict_trans [OF pos_mod_bound]) simp_all
  show "v div 60000 mod 60 < 100" "v div 1000 mod 60 < 100" by (rule sixty)+
  have "v div 3600000 \<le> 86400000 div 3600000" by (rule zdiv_mono1) (use assms in simp_all)
  also have "\<dots> < 100" by simp
  finally show "v div 3600000 < 100" .
qed (use assms in \<open>simp_all only: pos_imp_zdiv_nonneg_iff pos_mod_sign pos_mod_bound zero_less_numeral\<close>)

text \<open>Two times of the years 0 to 9999 have the same text only if they are equal.\<close>

lemma toISOString_inject:
  assumes "iso_range s" and "iso_range t" and "toISOString s = toISOString t"
  shows "s = t"
proof -
  define a where "a = s mod 86400000"
  define b where "b = t mod 86400000"
  have a: "0 \<le> a" "a < 86400000"
    unfolding a_def by (rule pos_mod_sign, simp, rule pos_mod_bound, simp)
  have b: "0 \<le> b" "b < 86400000"
    unfolding b_def by (rule pos_mod_sign, simp, rule pos_mod_bound, simp)
  have parts: "toISOString v = iso_day v @ ''T'' @ pad 2 (nat (v mod 86400000 div 3600000)) @ '':''
      @ pad 2 (nat (v mod 86400000 div 60000 mod 60)) @ '':'' @ pad 2 (nat (v mod 86400000 div 1000 mod 60)) @ ''.''
      @ pad 3 (nat (v mod 86400000 mod 1000)) @ ''Z''" for v
    unfolding toISOString_def Let_def by (rule refl)
  note days = iso_day_append_inject [OF assms(1,2) assms(3) [unfolded parts, folded a_def b_def]]
  note clock = clock_text_inject [OF clock_bounds [OF a] clock_bounds [OF b] conjunct2 [OF days]]
  have "a = b" using clock by (elim conjE) (rule clock_inject)
  then have "s mod 86400000 = t mod 86400000" unfolding a_def b_def .
  then show ?thesis by (rule div_mod_inject [OF conjunct1 [OF days]])
qed

end
