(* ===== verification/Access_Reconciliation.thy ===== *)
theory Access_Reconciliation
  imports Subscriber_Identity Iso_Dates
begin

text \<open>
  The sweep that looks for access rows that no longer follow from the purchases and repairs them:
  \<^verbatim>\<open>apps/api/src/workers/access-reconciliation.ts\<close> with its work list in
  \<^verbatim>\<open>packages/db/src/drizzle/repositories/access.ts\<close>. Detection and repair of one subscriber are those of
  \<open>Access_Engine\<close>.

  A sweep is not one transaction. The record \<open>sweep_env\<close> says which calls throw: the detection for a
  subscriber, or its repair at one of three places. A repair reads its own clock (\<^verbatim>\<open>syncAccess\<close> calls
  \<^verbatim>\<open>new Date()\<close>). Rows that compare equal in an \<^verbatim>\<open>ORDER BY\<close> come in the order of the table. The collation
  \<^verbatim>\<open>localeCompare\<close> depends on the host and is a parameter. Batches have at most 200 candidates, so the
  floating-point ratio compares with the threshold as the rational one does.

  The lemmas show what a sweep repairs and what it leaves alone, how many subscribers it can touch,
  which repairs the audit log names, and that successive sweeps reach every subscriber.
\<close>

section \<open>The work list\<close>

record reconciliation_candidate =
  rc_id :: string
  rc_projectId :: string

definition reconcile_due :: "timestamp \<Rightarrow> subscriber \<Rightarrow> bool" where
  "reconcile_due staleBefore s =
     (sb_deletedAt s = None
      \<and> (case sb_lastAccessReconciledAt s of None \<Rightarrow> True | Some t \<Rightarrow> t < staleBefore))"

definition nulls_first :: "timestamp option \<Rightarrow> int \<times> timestamp" where
  "nulls_first d = (case d of None \<Rightarrow> (0, 0) | Some t \<Rightarrow> (1, t))"

definition selectAccessReconciliationCandidates ::
  "subscriber list \<Rightarrow> timestamp \<Rightarrow> nat \<Rightarrow> reconciliation_candidate list" where
  "selectAccessReconciliationCandidates db staleBefore limit =
     take limit (map (\<lambda>s. \<lparr>rc_id = sb_id s, rc_projectId = sb_projectId s\<rparr>)
       (sort_key (\<lambda>s. nulls_first (sb_lastAccessReconciledAt s)) (filter (reconcile_due staleBefore) db)))"

definition stampAccessReconciled :: "string list \<Rightarrow> timestamp \<Rightarrow> subscriber list \<Rightarrow> subscriber list" where
  "stampAccessReconciled subscriberIds stampedAt db =
     (if subscriberIds = [] then db
      else map (\<lambda>s. if sb_id s \<in> set subscriberIds then s\<lparr>sb_lastAccessReconciledAt := Some stampedAt\<rparr> else s) db)"

section \<open>Summaries of access rows\<close>

record access_summary =
  asum_accessId :: string
  asum_purchaseId :: string
  asum_isActive :: bool
  asum_expiresDate :: "string option"

definition summary_of :: "access_row \<Rightarrow> access_summary" where
  "summary_of r = \<lparr>asum_accessId = ar_accessId r, asum_purchaseId = nat_text (ar_purchaseId r),
     asum_isActive = ar_isActive r, asum_expiresDate = map_option toISOString (ar_expiresDate r)\<rparr>"

text \<open>\<^verbatim>\<open>Array.prototype.sort\<close> with a comparator: a stable insertion.\<close>

fun insert_by :: "('a \<Rightarrow> 'a \<Rightarrow> int) \<Rightarrow> 'a \<Rightarrow> 'a list \<Rightarrow> 'a list" where
  "insert_by cmp x [] = [x]"
| "insert_by cmp x (y # ys) = (if cmp x y \<le> 0 then x # y # ys else y # insert_by cmp x ys)"

definition sort_by :: "('a \<Rightarrow> 'a \<Rightarrow> int) \<Rightarrow> 'a list \<Rightarrow> 'a list" where
  "sort_by cmp xs = foldr (insert_by cmp) xs []"

definition summary_order :: "(string \<Rightarrow> string \<Rightarrow> int) \<Rightarrow> access_summary \<Rightarrow> access_summary \<Rightarrow> int" where
  "summary_order localeCompare a b =
     (let c = localeCompare (asum_accessId a) (asum_accessId b)
      in if c \<noteq> 0 then c else localeCompare (asum_purchaseId a) (asum_purchaseId b))"

definition summarize :: "(string \<Rightarrow> string \<Rightarrow> int) \<Rightarrow> access_row list \<Rightarrow> access_summary list" where
  "summarize localeCompare rows = sort_by (summary_order localeCompare) (map summary_of rows)"

definition sameAccess :: "access_summary list \<Rightarrow> access_summary list \<Rightarrow> bool" where
  "sameAccess a b =
     (length a = length b
      \<and> list_all (\<lambda>(row, other). asum_accessId row = asum_accessId other \<and> asum_purchaseId row = asum_purchaseId other
            \<and> asum_isActive row = asum_isActive other \<and> asum_expiresDate row = asum_expiresDate other) (zip a b))"

definition summary_json :: "access_summary \<Rightarrow> json" where
  "summary_json s = JObj [(''accessId'', JStr (asum_accessId s)), (''purchaseId'', JStr (asum_purchaseId s)),
     (''isActive'', JBool (asum_isActive s)), (''expiresDate'', opt_str (asum_expiresDate s))]"

section \<open>The sweep\<close>

definition MAX_SUBSCRIBERS_PER_SWEEP :: nat where "MAX_SUBSCRIBERS_PER_SWEEP = 200"

definition ACCESS_RECONCILE_STALE_AFTER_MS :: timestamp where
  "ACCESS_RECONCILE_STALE_AFTER_MS = 7 * 24 * 60 * 60 * 1000"

definition MAX_DRIFT_HEAL_RATIO :: rat where "MAX_DRIFT_HEAL_RATIO = 1 / 20"

definition MIN_BATCH_FOR_CIRCUIT_BREAKER :: nat where "MIN_BATCH_FOR_CIRCUIT_BREAKER = 20"

definition SWEEP_SOURCE :: string where "SWEEP_SOURCE = ''access:reconciliation-sweep''"

fun drift_name :: "drift_class \<Rightarrow> string" where
  "drift_name missing_grant = ''missing_grant''"
| "drift_name stale_grant = ''stale_grant''"
| "drift_name wrong_expiry = ''wrong_expiry''"
| "drift_name orphan_row = ''orphan_row''"

record sweep_opts =
  so_dryRun :: "bool option"
  so_backfill :: "bool option"
  so_staleAfterMs :: "timestamp option"

datatype heal_failure = Before_Sync | After_Sync | In_Audit

record sweep_env =
  se_products :: "string \<rightharpoonup> string list"
  se_localeCompare :: "string \<Rightarrow> string \<Rightarrow> int"
  se_sha256 :: "string \<Rightarrow> string"
  se_detectFails :: "string \<Rightarrow> bool"
  se_healFails :: "string \<Rightarrow> heal_failure option"
  se_syncNow :: "string \<Rightarrow> timestamp"
  se_auditNow :: "string \<Rightarrow> timestamp"
  se_auditId :: "string \<Rightarrow> string"

record sweep_world =
  sw_subscribers :: "subscriber list"
  sw_purchases :: purchase_db
  sw_access :: access_db
  sw_audit :: "audit_row list"

record subscriber_drift =
  sd_subscriberId :: string
  sd_projectId :: string
  sd_classes :: "drift_class list"

text \<open>The counters and the sets of the two passes.\<close>

record sweep_state =
  ss_drift :: "(drift_class \<times> nat) list"
  ss_drifted :: "subscriber_drift list"
  ss_unverified :: "string list"
  ss_errors :: nat
  ss_noops :: nat
  ss_healed :: nat

definition sweep_start :: sweep_state where
  "sweep_start = \<lparr>ss_drift = map (\<lambda>c. (c, 0)) DRIFT_CLASSES, ss_drifted = [], ss_unverified = [],
     ss_errors = 0, ss_noops = 0, ss_healed = 0\<rparr>"

definition sweep_error :: "string \<Rightarrow> sweep_state \<Rightarrow> sweep_state" where
  "sweep_error subscriberId st =
     st\<lparr>ss_errors := ss_errors st + 1, ss_unverified := ss_unverified st @ [subscriberId]\<rparr>"

definition detect_step ::
  "sweep_env \<Rightarrow> timestamp \<Rightarrow> sweep_world \<Rightarrow> reconciliation_candidate \<Rightarrow> sweep_state \<Rightarrow> sweep_state" where
  "detect_step env now w candidate st =
     (if se_detectFails env (rc_id candidate) then sweep_error (rc_id candidate) st
      else
        (let classes = detectDrift (sw_purchases w) (se_products env) (sw_access w) (rc_id candidate) now
         in if classes = [] then st
            else st\<lparr>ss_drift := map (\<lambda>(c, n). (c, if c \<in> set classes then n + 1 else n)) (ss_drift st),
                   ss_drifted := ss_drifted st @
                     [\<lparr>sd_subscriberId = rc_id candidate, sd_projectId = rc_projectId candidate, sd_classes = classes\<rparr>]\<rparr>))"

definition circuit_broken :: "nat \<Rightarrow> nat \<Rightarrow> bool" where
  "circuit_broken candidates drifted =
     (let ratio = (if candidates = 0 then 0 else of_nat drifted / of_nat candidates)
      in MIN_BATCH_FOR_CIRCUIT_BREAKER \<le> candidates \<and> MAX_DRIFT_HEAL_RATIO < (ratio :: rat))"

definition repair_entry ::
  "bool \<Rightarrow> subscriber_drift \<Rightarrow> access_summary list \<Rightarrow> access_summary list \<Rightarrow> audit_entry" where
  "repair_entry backfill entry beforeSummary afterSummary =
     \<lparr>en_projectId = sd_projectId entry, en_userId = Some ''system'', en_action = ''access.drift_repaired'',
      en_resource = ''subscriber'', en_resourceId = sd_subscriberId entry,
      en_before = Some (JObj [(''access'', JArr (map summary_json beforeSummary))]),
      en_after = Some (JObj [(''access'', JArr (map summary_json afterSummary)),
        (''classes'', JArr (map (JStr \<circ> drift_name) (sd_classes entry))), (''source'', JStr SWEEP_SOURCE),
        (''backfill'', JBool backfill)]),
      en_ipAddress = None, en_userAgent = None\<rparr>"

definition heal_step ::
  "sweep_env \<Rightarrow> bool \<Rightarrow> subscriber_drift \<Rightarrow> sweep_state \<times> sweep_world \<Rightarrow> sweep_state \<times> sweep_world" where
  "heal_step env backfill entry = (\<lambda>(st, w).
     (let sub = sd_subscriberId entry;
          before = findAllAccessBySubscriber (sw_access w) sub;
          w1 = w\<lparr>sw_access := syncAccess (sw_purchases w) (se_products env) sub (se_syncNow env sub) (sw_access w)\<rparr>;
          after = findAllAccessBySubscriber (sw_access w1) sub;
          beforeSummary = summarize (se_localeCompare env) before;
          afterSummary = summarize (se_localeCompare env) after;
          st1 = st\<lparr>ss_healed := ss_healed st + 1\<rparr>
      in if se_healFails env sub = Some Before_Sync then (sweep_error sub st, w)
         else if se_healFails env sub = Some After_Sync then (sweep_error sub st, w1)
         else if sameAccess beforeSummary afterSummary then (st\<lparr>ss_noops := ss_noops st + 1\<rparr>, w1)
         else if se_healFails env sub = Some In_Audit then (sweep_error sub st1, w1)
         else case audit (se_sha256 env) (se_auditNow env sub) (se_auditId env sub)
                     (repair_entry backfill entry beforeSummary afterSummary) (sw_audit w1) of
                Inl _ \<Rightarrow> (sweep_error sub st1, w1)
              | Inr rows \<Rightarrow> (st1, w1\<lparr>sw_audit := rows\<rparr>)))"

record reconciliation_result =
  rr_candidates :: nat
  rr_drifted :: nat
  rr_healed :: nat
  rr_circuitBroken :: bool
  rr_drift :: "(drift_class \<times> nat) list"
  rr_errors :: nat
  rr_noops :: nat

definition sweep_candidates :: "timestamp \<Rightarrow> sweep_opts \<Rightarrow> sweep_world \<Rightarrow> reconciliation_candidate list" where
  "sweep_candidates now opts w =
     (let staleAfterMs = (case so_staleAfterMs opts of Some ms \<Rightarrow> ms | None \<Rightarrow> ACCESS_RECONCILE_STALE_AFTER_MS)
      in selectAccessReconciliationCandidates (sw_subscribers w) (now - staleAfterMs) MAX_SUBSCRIBERS_PER_SWEEP)"

definition runAccessReconciliationSweep ::
  "sweep_env \<Rightarrow> timestamp \<Rightarrow> sweep_opts \<Rightarrow> sweep_world \<Rightarrow> reconciliation_result \<times> sweep_world" where
  "runAccessReconciliationSweep env now opts w =
     (let dryRun = (so_dryRun opts = Some True);
          backfill = (so_backfill opts = Some True);
          candidates = sweep_candidates now opts w;
          st1 = fold (detect_step env now w) candidates sweep_start;
          circuitBroken = circuit_broken (length candidates) (length (ss_drifted st1));
          (st2, w2) = (if \<not> circuitBroken \<and> \<not> dryRun
                       then fold (heal_step env backfill) (ss_drifted st1) (st1, w) else (st1, w));
          w3 = (if dryRun then w2
                else w2\<lparr>sw_subscribers := stampAccessReconciled
                       (map rc_id (filter (\<lambda>c. rc_id c \<notin> set (ss_unverified st2)) candidates)) now
                       (sw_subscribers w2)\<rparr>)
      in (\<lparr>rr_candidates = length candidates, rr_drifted = length (ss_drifted st1), rr_healed = ss_healed st2,
           rr_circuitBroken = circuitBroken, rr_drift = ss_drift st2, rr_errors = ss_errors st2,
           rr_noops = ss_noops st2\<rparr>, w3))"

section \<open>A repair and its summaries\<close>

abbreviation rows_of :: "access_db \<Rightarrow> string \<Rightarrow> access_row list" where
  "rows_of \<equiv> findAllAccessBySubscriber"

lemma sync_other_rows:
  assumes "access_db_ok db" and "s \<noteq> sub"
  shows "rows_of (syncAccess pdb products sub t db) s = rows_of db s"
proof -
  have "filter (\<lambda>r. ar_subscriberId r = s) (map (settle sub d cur) rs) = filter (\<lambda>r. ar_subscriberId r = s) rs" for d cur rs
  proof (induction rs)
    case (Cons r rs)
    have "ar_subscriberId r = s \<Longrightarrow> settle sub d cur r = r" using assms(2) by (simp add: settle_def)
    then show ?case using Cons.IH by simp
  qed simp
  moreover have "filter (\<lambda>r. ar_subscriberId r = s) (created sub n es) = []" for n es
    using assms(2) by (induction sub n es rule: created.induct) auto
  ultimately show ?thesis
    by (simp add: syncAccess_def sync_rows_closed [OF assms(1) distinct_desired] Let_def findAllAccessBySubscriber_def)
qed

lemma drift_of_rows:
  "rows_of db s = rows_of db' s \<Longrightarrow> detectDrift pdb products db s t = detectDrift pdb products db' s t"
  by (simp add: detectDrift_def)

lemma has_access_of_rows: "rows_of db s = rows_of db' s \<Longrightarrow> hasAccess db s a t = hasAccess db' s a t"
proof -
  have "findActiveAccess d s t =
      filter (\<lambda>r. ar_isActive r \<and> (case ar_expiresDate r of None \<Rightarrow> True | Some e \<Rightarrow> e > t)) (rows_of d s)" for d
    unfolding findActiveAccess_def findAllAccessBySubscriber_def filter_filter by (rule filter_cong) auto
  then show "rows_of db s = rows_of db' s \<Longrightarrow> ?thesis" by (simp add: hasAccess_def)
qed

text \<open>The order of the summaries depends on the keys of the rows only, and a repair keeps the keys.\<close>

definition row_order :: "(string \<Rightarrow> string \<Rightarrow> int) \<Rightarrow> access_row \<Rightarrow> access_row \<Rightarrow> int" where
  "row_order localeCompare a b = summary_order localeCompare (summary_of a) (summary_of b)"

lemma insert_by_map:
  "(\<And>a b. cmp (f a) (f b) = cmp' a b) \<Longrightarrow> insert_by cmp (f x) (map f ys) = map f (insert_by cmp' x ys)"
  by (induction ys) simp_all

lemma sort_by_map:
  assumes "\<And>a b. cmp (f a) (f b) = cmp' a b"
  shows "sort_by cmp (map f xs) = map f (sort_by cmp' xs)"
proof -
  have "insert_by cmp (f x) (map f ys) = map f (insert_by cmp' x ys)" for x ys
    by (rule insert_by_map) (rule assms)
  then show ?thesis by (induction xs) (simp_all add: sort_by_def)
qed

lemma set_sort_by [simp]: "set (sort_by cmp xs) = set xs"
proof -
  have "set (insert_by cmp x ys) = insert x (set ys)" for x and ys :: "'a list" by (induction ys) auto
  then show ?thesis by (induction xs) (simp_all add: sort_by_def)
qed

lemma length_sort_by [simp]: "length (sort_by cmp xs) = length xs"
proof -
  have "length (insert_by cmp x ys) = Suc (length ys)" for x and ys :: "'a list" by (induction ys) auto
  then show ?thesis by (induction xs) (simp_all add: sort_by_def)
qed

lemma summarize_rows: "summarize lc rows = map summary_of (sort_by (row_order lc) rows)"
  unfolding summarize_def by (rule sort_by_map) (simp add: row_order_def)

lemma summarize_updated:
  assumes "\<And>r. ar_accessId (g r) = ar_accessId r" and "\<And>r. ar_purchaseId (g r) = ar_purchaseId r"
  shows "summarize lc (map g rows) = summarize lc rows \<longleftrightarrow> (\<forall>r \<in> set rows. summary_of (g r) = summary_of r)"
proof -
  have "sort_by (row_order lc) (map g rows) = map g (sort_by (row_order lc) rows)"
    by (rule sort_by_map) (simp add: row_order_def summary_order_def summary_of_def assms Let_def)
  then show ?thesis by (simp add: summarize_rows)
qed

lemma sameAccess_eq [simp]: "sameAccess a b \<longleftrightarrow> a = b"
proof -
  have "(case p of (row, other) \<Rightarrow> asum_accessId row = asum_accessId other \<and> asum_purchaseId row = asum_purchaseId other
     \<and> asum_isActive row = asum_isActive other \<and> asum_expiresDate row = asum_expiresDate other) \<longleftrightarrow> fst p = snd p"
    for p :: "access_summary \<times> access_summary" by (cases p) (auto intro: access_summary.equality)
  then show ?thesis unfolding sameAccess_def list_eq_iff_zip_eq list_all_iff by (auto simp: case_prod_beta)
qed

definition dates_in_range :: "access_db \<Rightarrow> bool" where
  "dates_in_range db = (\<forall>r \<in> set (ad_rows db). \<forall>e \<in> set_option (ar_expiresDate r). iso_range e)"

definition purchase_dates_in_range :: "purchase_db \<Rightarrow> bool" where
  "purchase_dates_in_range pdb =
     (\<forall>r \<in> set (pd_rows pdb). \<forall>e \<in> set_option (pu_expiresDate r) \<union> set_option (pu_gracePeriodExpires r). iso_range e)"

lemma desired_in_range:
  assumes "purchase_dates_in_range pdb"
    and "map_of (computeDesiredAccess (findPurchasesWithAccessIds pdb products sub) t) a = Some d"
    and "da_expiresDate d = Some e"
  shows "iso_range e"
proof -
  obtain p where p: "p \<in> set (findPurchasesWithAccessIds pdb products sub)" "pa_expiry p = Some e"
    using desired_Some(1) [OF assms(2)] assms(3) by (auto simp: desired_of_def)
  from p(1) obtain r where r: "r \<in> set (pd_rows pdb)" "pa_expiresDate p = pu_expiresDate r"
    "pa_gracePeriodExpires p = pu_gracePeriodExpires r"
    by (auto simp: findPurchasesWithAccessIds_def List.map_filter_def split: if_splits)
  have "Some e \<in> {pa_expiresDate p, pa_gracePeriodExpires p}"
    using p(2) by (auto simp: pa_expiry_def entitlementExpiry_def split: if_splits option.splits)
  then show ?thesis using assms(1) r by (auto simp: purchase_dates_in_range_def)
qed

lemma iso_option_inject:
  assumes "map_option toISOString x = map_option toISOString y"
    and "\<And>e. x = Some e \<Longrightarrow> iso_range e" and "\<And>e. y = Some e \<Longrightarrow> iso_range e"
  shows "x = y"
proof (cases x)
  case (Some u)
  with assms(1) obtain v where "y = Some v" "toISOString u = toISOString v" by (cases y) simp_all
  then show ?thesis using Some assms(2,3) toISOString_inject [of u v] by simp
qed (use assms(1) in simp)

lemma settle_same_summary:
  assumes "summary_of (settle sub desired cur r) = summary_of r"
    and "\<And>e. ar_expiresDate r = Some e \<Longrightarrow> iso_range e"
    and "\<And>a d e. map_of desired a = Some d \<Longrightarrow> da_expiresDate d = Some e \<Longrightarrow> iso_range e"
  shows "settle sub desired cur r = r"
proof (cases "ar_subscriberId r = sub")
  case True
  note same = assms(1) [unfolded settle_def summary_of_def]
  show ?thesis
  proof (cases "target_for desired r")
    case None
    then show ?thesis using same True by (simp add: settle_def)
  next
    case (Some d)
    then have d: "map_of desired (ar_accessId r) = Some d"
      by (auto simp: target_for_def split: option.splits if_splits)
    show ?thesis
    proof (cases "find (grants_target (ar_accessId r) d) cur = Some r")
      case first: True
      have "map_option toISOString (da_expiresDate d) = map_option toISOString (ar_expiresDate r)"
        and "ar_isActive r" using same True Some first by simp_all
      then have "da_expiresDate d = ar_expiresDate r"
        using assms(2) assms(3) [OF d] by (intro iso_option_inject)
      then show ?thesis using True Some \<open>ar_isActive r\<close> by (simp add: settle_def)
    qed (use True Some in \<open>simp add: settle_def\<close>)
  qed
qed (simp add: settle_def)

text \<open>The comparison of the summaries finds a difference exactly when the repair wrote something.\<close>

lemma summary_detects_repair:
  assumes ok: "access_db_ok db" and "dates_in_range db" and "purchase_dates_in_range pdb"
  shows "summarize lc (rows_of db sub) = summarize lc (rows_of (syncAccess pdb products sub t db) sub)
    \<longleftrightarrow> syncAccess pdb products sub t db = db"
proof
  let ?desired = "computeDesiredAccess (findPurchasesWithAccessIds pdb products sub) t"
  let ?fresh = "filter (unmatched (rows_of db sub)) ?desired"
  note closed = sync_rows_closed [OF ok distinct_desired, of sub "findPurchasesWithAccessIds pdb products sub" t,
    folded syncAccess_def, unfolded Let_def]
  assume same: "summarize lc (rows_of db sub) = summarize lc (rows_of (syncAccess pdb products sub t db) sub)"
  have mine: "filter (\<lambda>r. ar_subscriberId r = sub) (created sub n es) = created sub n es" for n es
    by (induction sub n es rule: created.induct) auto
  have "filter (\<lambda>r. ar_subscriberId r = sub) (map (settle sub d cur) rs)
      = map (settle sub d cur) (filter (\<lambda>r. ar_subscriberId r = sub) rs)" for d cur rs
    by (induction rs) simp_all
  then have rows: "rows_of (syncAccess pdb products sub t db) sub
      = map (settle sub ?desired (rows_of db sub)) (rows_of db sub) @ created sub (ad_next db) ?fresh"
    by (simp add: closed findAllAccessBySubscriber_def mine)
  have "length (created sub (ad_next db) ?fresh) = length ?fresh"
    using created_ids [of sub "ad_next db" ?fresh] by (metis length_map length_upt add_diff_cancel_left')
  then have none: "?fresh = []"
    using arg_cong [OF same, of length] by (simp add: rows summarize_rows)
  then have "summarize lc (map (settle sub ?desired (rows_of db sub)) (rows_of db sub)) = summarize lc (rows_of db sub)"
    using same by (simp add: rows)
  then have kept: "summary_of (settle sub ?desired (rows_of db sub) r) = summary_of r" if "r \<in> set (rows_of db sub)" for r
    using that summarize_updated [of "settle sub ?desired (rows_of db sub)" lc "rows_of db sub"] by simp
  have "settle sub ?desired (rows_of db sub) r = r" if r: "r \<in> set (ad_rows db)" for r
  proof (cases "ar_subscriberId r = sub")
    case True
    show ?thesis
    proof (rule settle_same_summary)
      show "summary_of (settle sub ?desired (rows_of db sub) r) = summary_of r"
        using kept r True by (simp add: findAllAccessBySubscriber_def)
    qed (use assms(2) r desired_in_range [OF assms(3)] in \<open>auto simp: dates_in_range_def\<close>)
  qed (simp add: settle_def)
  then show "syncAccess pdb products sub t db = db" using none by (simp add: closed map_idI)
qed simp

lemma sync_dates:
  assumes ok: "access_db_ok db" and "dates_in_range db" and "purchase_dates_in_range pdb"
  shows "dates_in_range (syncAccess pdb products sub t db)"
proof -
  let ?desired = "computeDesiredAccess (findPurchasesWithAccessIds pdb products sub) t"
  note range = desired_in_range [OF assms(3), of products sub t]
  have "iso_range e" if r: "r \<in> set (ad_rows db)" "ar_expiresDate (settle sub ?desired (rows_of db sub) r) = Some e" for r e
  proof (cases "target_for ?desired r")
    case None
    then show ?thesis using r assms(2) by (auto simp: settle_def dates_in_range_def split: if_splits)
  next
    case (Some d)
    then have "map_of ?desired (ar_accessId r) = Some d" by (auto simp: target_for_def split: option.splits if_splits)
    then show ?thesis using range Some r assms(2) by (auto simp: settle_def dates_in_range_def split: if_splits)
  qed
  moreover have "iso_range e"
    if new: "r \<in> set (created sub n (filter P ?desired))" "ar_expiresDate r = Some e" for r n P e
  proof -
    obtain a d where "(a, d) \<in> set ?desired" "da_expiresDate d = Some e"
      using created_mem [OF new(1)] new(2) by auto
    then show ?thesis using range distinct_desired by (metis map_of_eq_Some_iff)
  qed
  ultimately show ?thesis
    by (auto simp: dates_in_range_def syncAccess_def sync_rows_closed [OF ok distinct_desired] Let_def)
qed

section \<open>The two passes\<close>

definition drifts :: "sweep_env \<Rightarrow> timestamp \<Rightarrow> sweep_world \<Rightarrow> reconciliation_candidate \<Rightarrow> bool" where
  "drifts env now w c =
     (\<not> se_detectFails env (rc_id c)
      \<and> detectDrift (sw_purchases w) (se_products env) (sw_access w) (rc_id c) now \<noteq> [])"

definition sweep_targets :: "sweep_env \<Rightarrow> timestamp \<Rightarrow> sweep_opts \<Rightarrow> sweep_world \<Rightarrow> string list" where
  "sweep_targets env now opts w = map rc_id (filter (drifts env now w) (sweep_candidates now opts w))"

lemma detect_fold:
  "map sd_subscriberId (ss_drifted (fold (detect_step env now w) cs st))
     = map sd_subscriberId (ss_drifted st) @ map rc_id (filter (drifts env now w) cs)
   \<and> ss_unverified (fold (detect_step env now w) cs st)
     = ss_unverified st @ map rc_id (filter (\<lambda>c. se_detectFails env (rc_id c)) cs)
   \<and> ss_healed (fold (detect_step env now w) cs st) = ss_healed st
   \<and> ss_noops (fold (detect_step env now w) cs st) = ss_noops st"
proof (induction cs arbitrary: st)
  case (Cons c cs)
  show ?case using Cons.IH by (simp add: detect_step_def drifts_def sweep_error_def Let_def)
qed simp

text \<open>The repair of a subscriber would write something.\<close>

definition still_drifts :: "sweep_env \<Rightarrow> sweep_world \<Rightarrow> string \<Rightarrow> bool" where
  "still_drifts env w s =
     (syncAccess (sw_purchases w) (se_products env) s (se_syncNow env s) (sw_access w) \<noteq> sw_access w)"

abbreviation in_order :: "sweep_env \<Rightarrow> purchase_db \<Rightarrow> access_db \<Rightarrow> string \<Rightarrow> bool" where
  "in_order env pdb db s \<equiv> rows_settled (desired_for pdb (se_products env) s (se_syncNow env s)) (rows_of db s)"

lemma still_drifts_rows:
  "access_db_ok (sw_access w) \<Longrightarrow> still_drifts env w s \<longleftrightarrow> \<not> in_order env (sw_purchases w) (sw_access w) s"
  by (simp add: still_drifts_def syncAccess_desired sync_rows_noop_iff [OF _ distinct_desired_for])

lemma heal_step_tables:
  assumes "heal_step env b e (st, w) = (st', w')"
  shows "sw_subscribers w' = sw_subscribers w" and "sw_purchases w' = sw_purchases w"
    and "sw_access w' = (if se_healFails env (sd_subscriberId e) = Some Before_Sync then sw_access w
      else syncAccess (sw_purchases w) (se_products env) (sd_subscriberId e) (se_syncNow env (sd_subscriberId e)) (sw_access w))"
  using assms by (auto simp: heal_step_def Let_def split: sum.splits if_splits)

lemma heal_step_audit:
  assumes "heal_step env b e (st, w) = (st', w')" and "access_db_ok (sw_access w)"
    and "dates_in_range (sw_access w)" and "purchase_dates_in_range (sw_purchases w)"
  shows "\<exists>new. sw_audit w' = sw_audit w @ new
    \<and> map al_resourceId new = (if se_healFails env (sd_subscriberId e) = None \<and> still_drifts env w (sd_subscriberId e)
         then [sd_subscriberId e] else [])
    \<and> ss_healed st' = ss_healed st + (if se_healFails env (sd_subscriberId e) \<in> {None, Some In_Audit}
         \<and> still_drifts env w (sd_subscriberId e) then 1 else 0)"
proof -
  let ?s = "sd_subscriberId e"
  have same: "summarize lc (rows_of (sw_access w) ?s) = summarize lc (rows_of
      (syncAccess (sw_purchases w) (se_products env) ?s (se_syncNow env ?s) (sw_access w)) ?s)
    \<longleftrightarrow> \<not> still_drifts env w ?s" for lc
    unfolding still_drifts_def using summary_detects_repair [OF assms(2-4)] by simp
  have written: "\<exists>row. audit (se_sha256 env) u i (repair_entry b e x y) rows = Inr (rows @ [row]) \<and> al_resourceId row = ?s"
    for u i x y rows by (auto simp: audit_def repair_entry_def writeChained_def Let_def)
  consider "se_healFails env ?s = None" | "se_healFails env ?s = Some Before_Sync"
    | "se_healFails env ?s = Some After_Sync" | "se_healFails env ?s = Some In_Audit"
    by (cases "se_healFails env ?s"; cases "the (se_healFails env ?s)") auto
  then show ?thesis
  proof cases
    case 1
    let ?lc = "se_localeCompare env"
    obtain row where "audit (se_sha256 env) (se_auditNow env ?s) (se_auditId env ?s)
        (repair_entry b e (summarize ?lc (rows_of (sw_access w) ?s)) (summarize ?lc (rows_of
          (syncAccess (sw_purchases w) (se_products env) ?s (se_syncNow env ?s) (sw_access w)) ?s))) (sw_audit w)
      = Inr (sw_audit w @ [row])" "al_resourceId row = ?s" using written by blast
    then show ?thesis using assms(1) 1 by (auto simp: heal_step_def Let_def same split: if_splits)
  qed (use assms(1) in \<open>auto simp: heal_step_def Let_def same sweep_error_def split: if_splits\<close>)
qed

lemma heal_fold:
  assumes "fold (heal_step env b) es (st, w) = (st', w')" and "access_db_ok (sw_access w)"
    and "distinct (map sd_subscriberId es)"
  shows "access_db_ok (sw_access w') \<and> (one_row_per_grant (sw_access w) \<longrightarrow> one_row_per_grant (sw_access w'))"
    and "sw_subscribers w' = sw_subscribers w" and "sw_purchases w' = sw_purchases w"
    and "s \<notin> sd_subscriberId ` set es \<or> se_healFails env s = Some Before_Sync \<Longrightarrow>
      rows_of (sw_access w') s = rows_of (sw_access w) s"
    and "s \<in> sd_subscriberId ` set es \<Longrightarrow> se_healFails env s \<noteq> Some Before_Sync \<Longrightarrow>
      in_order env (sw_purchases w) (sw_access w') s"
proof -
  have "access_db_ok (sw_access w') \<and> (one_row_per_grant (sw_access w) \<longrightarrow> one_row_per_grant (sw_access w'))
    \<and> sw_subscribers w' = sw_subscribers w \<and> sw_purchases w' = sw_purchases w
    \<and> (s \<notin> sd_subscriberId ` set es \<or> se_healFails env s = Some Before_Sync \<longrightarrow>
         rows_of (sw_access w') s = rows_of (sw_access w) s)
    \<and> (s \<in> sd_subscriberId ` set es \<and> se_healFails env s \<noteq> Some Before_Sync \<longrightarrow>
         in_order env (sw_purchases w) (sw_access w') s)"
    using assms
  proof (induction es arbitrary: st w)
    case (Cons e es)
    let ?i = "sd_subscriberId e"
    obtain st1 w1 where step: "heal_step env b e (st, w) = (st1, w1)" by fastforce
    note tables = heal_step_tables [OF step]
    have ok1: "access_db_ok (sw_access w1)"
      using syncAccess_idempotent [OF Cons.prems(2)] Cons.prems(2) by (simp add: tables(3))
    have one1: "one_row_per_grant (sw_access w) \<Longrightarrow> one_row_per_grant (sw_access w1)"
      using syncAccess_unique [OF Cons.prems(2)] by (simp add: tables(3))
    have rest: "fold (heal_step env b) es (st1, w1) = (st', w')" using Cons.prems(1) step by simp
    note IH = Cons.IH [OF rest ok1]
    have fresh: "distinct (map sd_subscriberId es)" "?i \<notin> sd_subscriberId ` set es" using Cons.prems(3) by auto
    have other: "rows_of (sw_access w1) s = rows_of (sw_access w) s" if "s \<noteq> ?i \<or> se_healFails env s = Some Before_Sync"
      by (cases "s = ?i") (use that tables(3) sync_other_rows [OF Cons.prems(2)] in simp_all)
    have healed: "in_order env (sw_purchases w) (sw_access w') s" if "s = ?i" "se_healFails env s \<noteq> Some Before_Sync"
    proof -
      have "rows_of (sw_access w') s = rows_of (sw_access w1) s" using IH [OF fresh(1)] fresh(2) that(1) by simp
      moreover have "sw_access w1 = syncAccess (sw_purchases w) (se_products env) s (se_syncNow env s) (sw_access w)"
        using that tables(3) by simp
      ultimately show ?thesis using settled_after_syncAccess [OF Cons.prems(2)] by simp
    qed
    show ?case
    proof (cases "s = ?i")
      case True
      then show ?thesis using IH [OF fresh(1)] fresh(2) tables(1,2) one1 other healed by simp
    next
      case False
      then show ?thesis using IH [OF fresh(1)] tables(1,2) one1 other by simp
    qed
  qed simp
  note all = this
  show "access_db_ok (sw_access w') \<and> (one_row_per_grant (sw_access w) \<longrightarrow> one_row_per_grant (sw_access w'))"
    "sw_subscribers w' = sw_subscribers w" "sw_purchases w' = sw_purchases w"
    using all by blast+
  show "rows_of (sw_access w') s = rows_of (sw_access w) s"
    if "s \<notin> sd_subscriberId ` set es \<or> se_healFails env s = Some Before_Sync" using all that by (simp only: simp_thms)
  show "in_order env (sw_purchases w) (sw_access w') s"
    if "s \<in> sd_subscriberId ` set es" "se_healFails env s \<noteq> Some Before_Sync" using all that by (simp only: simp_thms)
qed

lemma heal_fold_audit:
  assumes "fold (heal_step env b) es (st, w) = (st', w')" and "access_db_ok (sw_access w)"
    and "distinct (map sd_subscriberId es)"
    and "dates_in_range (sw_access w)" and "purchase_dates_in_range (sw_purchases w)"
  shows "\<exists>new. sw_audit w' = sw_audit w @ new
    \<and> map al_resourceId new = filter (\<lambda>s. se_healFails env s = None \<and> still_drifts env w s) (map sd_subscriberId es)
    \<and> ss_healed st' = ss_healed st + length (filter (\<lambda>s. se_healFails env s \<in> {None, Some In_Audit} \<and> still_drifts env w s)
         (map sd_subscriberId es))"
  using assms
proof (induction es arbitrary: st w)
  case (Cons e es)
  let ?i = "sd_subscriberId e"
  obtain st1 w1 where step: "heal_step env b e (st, w) = (st1, w1)" by fastforce
  note tables = heal_step_tables [OF step]
  have ok1: "access_db_ok (sw_access w1)"
    using syncAccess_idempotent [OF Cons.prems(2)] Cons.prems(2) by (simp add: tables(3))
  have dates1: "dates_in_range (sw_access w1)" using sync_dates [OF Cons.prems(2,4,5)] Cons.prems(4) by (simp add: tables(3))
  have same: "still_drifts env w1 s = still_drifts env w s" if "s \<in> set (map sd_subscriberId es)" for s
  proof -
    have "?i \<notin> set (map sd_subscriberId es)" using Cons.prems(3) by simp
    then have "s \<noteq> ?i" using that by metis
    then have "rows_of (sw_access w1) s = rows_of (sw_access w) s"
      using sync_other_rows [OF Cons.prems(2)] by (simp add: tables(3))
    then show ?thesis unfolding still_drifts_rows [OF ok1] still_drifts_rows [OF Cons.prems(2)] tables(2) by simp
  qed
  obtain new1 where new1: "sw_audit w1 = sw_audit w @ new1"
    "map al_resourceId new1 = (if se_healFails env ?i = None \<and> still_drifts env w ?i then [?i] else [])"
    "ss_healed st1 = ss_healed st + (if se_healFails env ?i \<in> {None, Some In_Audit} \<and> still_drifts env w ?i then 1 else 0)"
    using heal_step_audit [OF step Cons.prems(2,4,5)] by blast
  have rest: "fold (heal_step env b) es (st1, w1) = (st', w')" using Cons.prems(1) step by simp
  obtain new2 where new2: "sw_audit w' = sw_audit w1 @ new2"
    "map al_resourceId new2 = filter (\<lambda>s. se_healFails env s = None \<and> still_drifts env w1 s) (map sd_subscriberId es)"
    "ss_healed st' = ss_healed st1 + length (filter (\<lambda>s. se_healFails env s \<in> {None, Some In_Audit} \<and> still_drifts env w1 s)
       (map sd_subscriberId es))"
    using Cons.IH [OF rest ok1 _ dates1] Cons.prems(3,5) tables(2) by auto
  have keep: "filter (\<lambda>s. P s \<and> still_drifts env w1 s) (map sd_subscriberId es)
      = filter (\<lambda>s. P s \<and> still_drifts env w s) (map sd_subscriberId es)" for P
    using same by (intro filter_cong) auto
  show ?case
    using new1 new2 unfolding keep by (intro exI [of _ "new1 @ new2"]) (simp del: filter_map)
qed simp

section \<open>What a sweep does\<close>

lemma distinct_candidates:
  assumes "distinct (map sb_id (sw_subscribers w))"
  shows "distinct (map rc_id (sweep_candidates now opts w))"
proof -
  have ids: "map rc_id (map (\<lambda>s. \<lparr>rc_id = sb_id s, rc_projectId = sb_projectId s\<rparr>) xs) = map sb_id xs" for xs by simp
  have "distinct (map sb_id (sort_key k (filter P (sw_subscribers w))))" for k :: "subscriber \<Rightarrow> int \<times> timestamp" and P
    using assms by (simp add: distinct_map inj_on_subset [of sb_id "set (sw_subscribers w)"])
  then show ?thesis
    unfolding sweep_candidates_def selectAccessReconciliationCandidates_def Let_def take_map [symmetric] ids
    by (simp add: take_map [symmetric] distinct_take)
qed

lemma candidates_bound: "length (sweep_candidates now opts w) \<le> 200"
  by (simp add: sweep_candidates_def selectAccessReconciliationCandidates_def Let_def MAX_SUBSCRIBERS_PER_SWEEP_def)

lemma distinct_targets:
  assumes "distinct (map sb_id (sw_subscribers w))"
  shows "distinct (sweep_targets env now opts w)"
  unfolding sweep_targets_def by (rule distinct_map_filterI [OF distinct_candidates [OF assms]])

lemma sweep_parts:
  assumes "runAccessReconciliationSweep env now opts w = (res, w')"
  obtains es st st' w2 where "map sd_subscriberId es = sweep_targets env now opts w" and "ss_healed st = 0"
    and "rr_candidates res = length (sweep_candidates now opts w)"
    and "rr_circuitBroken res = circuit_broken (length (sweep_candidates now opts w)) (length es)"
    and "(if \<not> rr_circuitBroken res \<and> so_dryRun opts \<noteq> Some True
          then fold (heal_step env (so_backfill opts = Some True)) es (st, w) else (st, w)) = (st', w2)"
    and "sw_access w' = sw_access w2" and "sw_purchases w' = sw_purchases w2" and "sw_audit w' = sw_audit w2"
    and "rr_healed res = ss_healed st'"
proof -
  let ?cs = "sweep_candidates now opts w"
  let ?st = "fold (detect_step env now w) ?cs sweep_start"
  have found: "map sd_subscriberId (ss_drifted ?st) = sweep_targets env now opts w" "ss_healed ?st = 0"
    using detect_fold [of env now w ?cs sweep_start] by (simp_all add: sweep_targets_def sweep_start_def)
  obtain st' w2 where passes: "(if \<not> circuit_broken (length ?cs) (length (ss_drifted ?st)) \<and> so_dryRun opts \<noteq> Some True
      then fold (heal_step env (so_backfill opts = Some True)) (ss_drifted ?st) (?st, w) else (?st, w)) = (st', w2)"
    by fastforce
  note body = assms [symmetric, unfolded runAccessReconciliationSweep_def Let_def passes prod.case prod.inject]
  show thesis
    by (rule that [of "ss_drifted ?st" ?st st' w2]) (use body passes found in simp_all)
qed

text \<open>Rows that a sweep changed are those of its targets, and it changes none when it stops.\<close>

lemma sweep_rows:
  assumes "access_db_ok (sw_access w)" and "distinct (map sb_id (sw_subscribers w))"
    and "runAccessReconciliationSweep env now opts w = (res, w')"
    and "s \<notin> set (sweep_targets env now opts w) \<or> rr_circuitBroken res \<or> so_dryRun opts = Some True"
  shows "rows_of (sw_access w') s = rows_of (sw_access w) s"
proof -
  obtain es st st' w2 where es: "map sd_subscriberId es = sweep_targets env now opts w"
    and run: "(if \<not> rr_circuitBroken res \<and> so_dryRun opts \<noteq> Some True
          then fold (heal_step env (so_backfill opts = Some True)) es (st, w) else (st, w)) = (st', w2)"
    and w2: "sw_access w' = sw_access w2" by (rule sweep_parts [OF assms(3)])
  show ?thesis
  proof (cases "\<not> rr_circuitBroken res \<and> so_dryRun opts \<noteq> Some True")
    case True
    then have "s \<notin> sd_subscriberId ` set es" using assms(4) es by (metis set_map)
    moreover have "fold (heal_step env (so_backfill opts = Some True)) es (st, w) = (st', w2)" using run True by simp
    ultimately show ?thesis
      using heal_fold(4) [OF _ assms(1)] distinct_targets [OF assms(2)] es w2 by metis
  next
    case False
    then have "w2 = w" using run by (auto split: if_splits)
    then show ?thesis using w2 by simp
  qed
qed

lemma unbroken_share:
  assumes "\<not> circuit_broken c d" and "20 \<le> c"
  shows "20 * d \<le> c"
proof -
  have "of_nat d / of_nat c \<le> (1 / 20 :: rat)"
    using assms by (auto simp: circuit_broken_def Let_def MIN_BATCH_FOR_CIRCUIT_BREAKER_def MAX_DRIFT_HEAL_RATIO_def)
  then have "of_nat (20 * d) \<le> (of_nat c :: rat)" using assms(2) by (simp add: field_simps)
  then show ?thesis by (simp only: of_nat_le_iff)
qed


text \<open>
  C9. A sweep touches few subscribers. Whatever fails, it changes the rows of at most nineteen
  subscribers, and of at most one in twenty of the candidates when there are twenty or more; it
  changes nothing when the breaker trips or the run is dry.
\<close>

theorem sweep_blast_radius:
  assumes "access_db_ok (sw_access w)" and "distinct (map sb_id (sw_subscribers w))"
    and "runAccessReconciliationSweep env now opts w = (res, w')"
  shows "card {s. rows_of (sw_access w') s \<noteq> rows_of (sw_access w) s} \<le> 19
    \<and> (20 \<le> rr_candidates res \<longrightarrow>
         20 * card {s. rows_of (sw_access w') s \<noteq> rows_of (sw_access w) s} \<le> rr_candidates res)
    \<and> (rr_circuitBroken res \<or> so_dryRun opts = Some True \<longrightarrow>
         {s. rows_of (sw_access w') s \<noteq> rows_of (sw_access w) s} = {})"
proof -
  let ?changed = "{s. rows_of (sw_access w') s \<noteq> rows_of (sw_access w) s}"
  obtain es st st' w2 where es: "map sd_subscriberId es = sweep_targets env now opts w"
    and "(if \<not> rr_circuitBroken res \<and> so_dryRun opts \<noteq> Some True
          then fold (heal_step env (so_backfill opts = Some True)) es (st, w) else (st, w)) = (st', w2)"
    and cs: "rr_candidates res = length (sweep_candidates now opts w)"
    and broken: "rr_circuitBroken res = circuit_broken (length (sweep_candidates now opts w)) (length es)"
    by (rule sweep_parts [OF assms(3)])
  have stopped: "?changed = {}" if "rr_circuitBroken res \<or> so_dryRun opts = Some True"
    using sweep_rows [OF assms] that by blast
  have "?changed \<subseteq> set (sweep_targets env now opts w)" using sweep_rows [OF assms] by blast
  then have "card ?changed \<le> card (set (sweep_targets env now opts w))" by (intro card_mono) simp_all
  also have "\<dots> \<le> length es" using card_length [of "sweep_targets env now opts w"] es by (metis length_map)
  finally have le: "card ?changed \<le> length es" .
  have "length es \<le> rr_candidates res"
    using arg_cong [OF es, of length] unfolding cs sweep_targets_def by (simp add: order_trans [OF length_filter_le])
  moreover have "20 * length es \<le> rr_candidates res" if "\<not> rr_circuitBroken res" "20 \<le> rr_candidates res"
    using unbroken_share that broken cs by simp
  moreover have "rr_candidates res \<le> 200" using candidates_bound cs by simp
  ultimately have small: "card ?changed \<le> 19 \<and> (20 \<le> rr_candidates res \<longrightarrow> 20 * card ?changed \<le> rr_candidates res)"
    if "\<not> rr_circuitBroken res" using le that by (cases "20 \<le> rr_candidates res") simp_all
  show ?thesis
  proof (cases "rr_circuitBroken res")
    case True
    then show ?thesis using stopped by simp
  next
    case False
    then show ?thesis using small stopped by simp
  qed
qed

text \<open>The audit log gains one row for each repair that changed something and did not fail, in order.\<close>

lemma sweep_audit_rows:
  assumes "access_db_ok (sw_access w)" and "distinct (map sb_id (sw_subscribers w))"
    and "dates_in_range (sw_access w)" and "purchase_dates_in_range (sw_purchases w)"
    and "runAccessReconciliationSweep env now opts w = (res, w')"
    and "\<not> rr_circuitBroken res" and "so_dryRun opts \<noteq> Some True"
  shows "\<exists>new. sw_audit w' = sw_audit w @ new
    \<and> map al_resourceId new = filter (\<lambda>s. se_healFails env s = None \<and> still_drifts env w s) (sweep_targets env now opts w)
    \<and> rr_healed res = length (filter (\<lambda>s. se_healFails env s \<in> {None, Some In_Audit} \<and> still_drifts env w s)
         (sweep_targets env now opts w))"
proof -
  obtain es st st' w2 where es: "map sd_subscriberId es = sweep_targets env now opts w" and "ss_healed st = 0"
    and run: "(if \<not> rr_circuitBroken res \<and> so_dryRun opts \<noteq> Some True
          then fold (heal_step env (so_backfill opts = Some True)) es (st, w) else (st, w)) = (st', w2)"
    and "sw_audit w' = sw_audit w2" "rr_healed res = ss_healed st'" by (rule sweep_parts [OF assms(5)])
  moreover have heals: "fold (heal_step env (so_backfill opts = Some True)) es (st, w) = (st', w2)"
    using run assms(6,7) by simp
  moreover have ids: "distinct (map sd_subscriberId es)" using es distinct_targets [OF assms(2)] by simp
  ultimately show ?thesis using heal_fold_audit [OF heals assms(1) ids assms(3,4)] unfolding es by simp
qed

text \<open>
  A repair can stay out of the audit log for good. When the sweep rewrites the access of a
  subscriber and the call after it throws, nothing names the repair: the rows have changed, no audit
  row of the sweep is about the subscriber, and a sweep that looks again finds no drift to repair or
  to report. (The comment on the batch size says every heal writes an audit row.)
\<close>

lemma repair_never_audited:
  assumes "access_db_ok (sw_access w)" and "distinct (map sb_id (sw_subscribers w))"
    and "dates_in_range (sw_access w)" and "purchase_dates_in_range (sw_purchases w)"
    and "runAccessReconciliationSweep env now opts w = (res, w')"
    and "\<not> rr_circuitBroken res" and "so_dryRun opts \<noteq> Some True"
    and "s \<in> set (sweep_targets env now opts w)" and "still_drifts env w s"
    and "se_healFails env s \<in> {Some After_Sync, Some In_Audit}" and "se_products later = se_products env"
  shows "rows_of (sw_access w') s \<noteq> rows_of (sw_access w) s
    \<and> (\<exists>new. sw_audit w' = sw_audit w @ new \<and> s \<notin> al_resourceId ` set new)
    \<and> s \<notin> set (sweep_targets later (se_syncNow env s) opts' w')"
proof -
  obtain es st st' w2 where es: "map sd_subscriberId es = sweep_targets env now opts w"
    and run: "(if \<not> rr_circuitBroken res \<and> so_dryRun opts \<noteq> Some True
          then fold (heal_step env (so_backfill opts = Some True)) es (st, w) else (st, w)) = (st', w2)"
    and w2: "sw_access w' = sw_access w2" "sw_purchases w' = sw_purchases w2" by (rule sweep_parts [OF assms(5)])
  have heals: "fold (heal_step env (so_backfill opts = Some True)) es (st, w) = (st', w2)"
    using run assms(6,7) by simp
  have ids: "distinct (map sd_subscriberId es)" using es distinct_targets [OF assms(2)] by simp
  note fold = heal_fold [OF heals assms(1) ids]
  have "s \<in> sd_subscriberId ` set es" using assms(8) unfolding es [symmetric] by simp
  then have settled: "in_order env (sw_purchases w) (sw_access w') s"
    using fold(5) [of s] assms(10) w2 by auto
  then have rows: "rows_of (sw_access w') s \<noteq> rows_of (sw_access w) s"
    using assms(9) unfolding still_drifts_rows [OF assms(1)] by metis
  note clean = settled_no_drift [OF settled]
  obtain new where new: "sw_audit w' = sw_audit w @ new"
    "map al_resourceId new = filter (\<lambda>s. se_healFails env s = None \<and> still_drifts env w s) (sweep_targets env now opts w)"
    using sweep_audit_rows [OF assms(1-7)] by blast
  have "s \<notin> set (map al_resourceId new)" unfolding new(2) using assms(10) by auto
  moreover have "s \<notin> set (sweep_targets later (se_syncNow env s) opts' w')"
    using clean fold(3) w2 assms(11) by (auto simp: sweep_targets_def drifts_def)
  ultimately show ?thesis using rows new(1) by auto
qed

section \<open>Every subscriber is reached\<close>

lemma sorted_prefix_filter:
  assumes "sorted (map k xs)" and "\<And>x y. k x \<le> k y \<Longrightarrow> P y \<Longrightarrow> P x"
  shows "length (filter P (take n xs)) = min n (length (filter P xs))"
  using assms
proof (induction xs arbitrary: n)
  case (Cons x xs)
  show ?case
  proof (cases "P x")
    case True
    then show ?thesis using Cons by (cases n) simp_all
  next
    case False
    then have "\<not> P y" if "y \<in> set xs" for y using Cons.prems that by auto
    then have "filter P xs = []" "filter P (take m xs) = []" for m by (auto simp: filter_empty_conv dest: in_set_takeD)
    then show ?thesis using False by (cases n) simp_all
  qed
qed simp

definition due_count :: "timestamp \<Rightarrow> sweep_world \<Rightarrow> nat" where
  "due_count due w = length (filter (reconcile_due due) (sw_subscribers w))"

lemma picked_length:
  assumes "distinct (map f db)" and sub: "set ys \<subseteq> set db" and "distinct ys"
    and same: "\<And>s. s \<in> set ys \<Longrightarrow> Q s \<longleftrightarrow> P s"
  shows "length (filter (\<lambda>s. Q s \<and> f s \<in> f ` set ys) db) = length (filter P ys)"
proof -
  have inj: "inj_on f (set db)" and db: "distinct db" using assms(1) by (simp_all add: distinct_map)
  have "set (filter (\<lambda>s. Q s \<and> f s \<in> f ` set ys) db) = set (filter P ys)"
  proof (rule set_eqI)
    fix s
    show "s \<in> set (filter (\<lambda>s. Q s \<and> f s \<in> f ` set ys) db) \<longleftrightarrow> s \<in> set (filter P ys)"
      using inj_on_image_mem_iff [OF inj _ sub, of s] same [of s] sub by auto
  qed
  then show ?thesis
    using distinct_card [OF distinct_filter [OF db]] distinct_card [OF distinct_filter [OF assms(3)]] by metis
qed

text \<open>Of the subscribers not checked since a time, the work list names as many as it can.\<close>

lemma oldest_first:
  assumes "due \<le> staleBefore" and ids: "distinct (map sb_id db)"
  shows "length (filter (\<lambda>s. reconcile_due due s
      \<and> sb_id s \<in> rc_id ` set (selectAccessReconciliationCandidates db staleBefore n)) db)
    = min n (length (filter (reconcile_due due) db))"
proof -
  let ?k = "\<lambda>s. nulls_first (sb_lastAccessReconciledAt s)"
  let ?P = "\<lambda>s. case sb_lastAccessReconciledAt s of None \<Rightarrow> True | Some t \<Rightarrow> t < due"
  let ?xs = "sort_key ?k (filter (reconcile_due staleBefore) db)"
  have down: "?P x" if "?k x \<le> ?k y" "?P y" for x y
    using that by (auto simp: nulls_first_def less_eq_prod_def split: option.splits)
  have prefix: "length (filter ?P (take n ?xs)) = min n (length (filter ?P ?xs))"
    by (rule sorted_prefix_filter [OF sorted_sort_key down])
  have due: "reconcile_due due s \<longleftrightarrow> reconcile_due staleBefore s \<and> ?P s" for s
    using assms(1) by (auto simp: reconcile_due_def split: option.splits)
  have all: "length (filter ?P ?xs) = length (filter (reconcile_due due) db)"
    by (simp add: filter_sort due [abs_def] conj_commute)
  have named: "rc_id ` set (selectAccessReconciliationCandidates db staleBefore n) = sb_id ` set (take n ?xs)"
    by (simp add: selectAccessReconciliationCandidates_def take_map image_image)
  have "length (filter (\<lambda>s. reconcile_due due s \<and> sb_id s \<in> sb_id ` set (take n ?xs)) db)
      = length (filter ?P (take n ?xs))"
  proof (rule picked_length [OF ids])
    show "set (take n ?xs) \<subseteq> set db" by (auto dest!: in_set_takeD)
    show "distinct (take n ?xs)" using ids by (simp add: distinct_map distinct_take)
    show "reconcile_due due s \<longleftrightarrow> ?P s" if "s \<in> set (take n ?xs)" for s
      using in_set_takeD [OF that] due [of s] by simp
  qed
  then show ?thesis unfolding named prefix all .
qed

lemma heal_fold_verified:
  assumes "fold (heal_step env b) es (st, w) = (st', w')" and "\<forall>s. se_healFails env s = None"
  shows "ss_unverified st' = ss_unverified st \<and> sw_subscribers w' = sw_subscribers w"
  using assms(1)
proof (induction es arbitrary: st w)
  case (Cons e es)
  obtain st1 w1 where step: "heal_step env b e (st, w) = (st1, w1)" by fastforce
  have "ss_unverified st1 = ss_unverified st"
    using step assms(2) by (auto simp: heal_step_def Let_def audit_def repair_entry_def split: if_splits)
  then show ?case using Cons.IH [of st1 w1] Cons.prems step heal_step_tables(1) [OF step] by simp
qed simp

lemma sweep_stamps:
  assumes "so_dryRun opts \<noteq> Some True" and "\<forall>s. \<not> se_detectFails env s" and "\<forall>s. se_healFails env s = None"
  shows "sw_subscribers (snd (runAccessReconciliationSweep env now opts w))
    = stampAccessReconciled (map rc_id (sweep_candidates now opts w)) now (sw_subscribers w)"
proof -
  let ?cs = "sweep_candidates now opts w"
  let ?st = "fold (detect_step env now w) ?cs sweep_start"
  have start: "ss_unverified ?st = []"
    using detect_fold [of env now w ?cs sweep_start] assms(2) by (simp add: sweep_start_def)
  obtain st' w2 where passes: "(if \<not> circuit_broken (length ?cs) (length (ss_drifted ?st)) \<and> so_dryRun opts \<noteq> Some True
      then fold (heal_step env (so_backfill opts = Some True)) (ss_drifted ?st) (?st, w) else (?st, w)) = (st', w2)"
    by fastforce
  have "ss_unverified st' = [] \<and> sw_subscribers w2 = sw_subscribers w"
  proof (cases "circuit_broken (length ?cs) (length (ss_drifted ?st))")
    case True
    then have "st' = ?st" "w2 = w" using passes by auto
    then show ?thesis using start by simp
  next
    case False
    then show ?thesis using passes start assms(1) heal_fold_verified [OF _ assms(3)] by auto
  qed
  then show ?thesis
    unfolding runAccessReconciliationSweep_def Let_def passes prod.case using assms(1) by simp
qed

text \<open>A sweep that may run, in a sequence that is to reach everyone not checked since \<open>due\<close>.\<close>

record sweep_call =
  sc_env :: sweep_env
  sc_now :: timestamp
  sc_opts :: sweep_opts

definition sweep_after :: "sweep_call \<Rightarrow> sweep_world \<Rightarrow> sweep_world" where
  "sweep_after c w = snd (runAccessReconciliationSweep (sc_env c) (sc_now c) (sc_opts c) w)"

definition full_sweep :: "timestamp \<Rightarrow> sweep_call \<Rightarrow> bool" where
  "full_sweep due c =
     (so_dryRun (sc_opts c) \<noteq> Some True \<and> (\<forall>s. \<not> se_detectFails (sc_env c) s) \<and> (\<forall>s. se_healFails (sc_env c) s = None)
      \<and> due \<le> sc_now c \<and> due \<le> sc_now c - (case so_staleAfterMs (sc_opts c) of Some ms \<Rightarrow> ms | None \<Rightarrow> ACCESS_RECONCILE_STALE_AFTER_MS))"

lemma stamped_due:
  assumes "due \<le> t"
  shows "filter (reconcile_due due) (stampAccessReconciled ids t db)
    = filter (\<lambda>s. reconcile_due due s \<and> sb_id s \<notin> set ids) db"
proof -
  have "filter (reconcile_due due) (map (\<lambda>s. if sb_id s \<in> set ids then s\<lparr>sb_lastAccessReconciledAt := Some t\<rparr> else s) db)
    = filter (\<lambda>s. reconcile_due due s \<and> sb_id s \<notin> set ids) db"
    using assms by (induction db) (simp_all add: reconcile_due_def)
  then show ?thesis by (simp add: stampAccessReconciled_def)
qed

lemma stamped_ids: "map sb_id (stampAccessReconciled ids t db) = map sb_id db"
  by (simp add: stampAccessReconciled_def comp_def)

lemma filter_split_length: "length (filter (\<lambda>s. P s \<and> \<not> Q s) xs) = length (filter P xs) - length (filter (\<lambda>s. P s \<and> Q s) xs)"
proof -
  have "length (filter P xs) = length (filter (\<lambda>s. P s \<and> Q s) xs) + length (filter (\<lambda>s. P s \<and> \<not> Q s) xs)"
    by (induction xs) auto
  then show ?thesis by simp
qed

lemma sweep_progress:
  assumes "distinct (map sb_id (sw_subscribers w))" and "full_sweep due c"
  shows "due_count due (sweep_after c w) = due_count due w - 200 \<and> map sb_id (sw_subscribers (sweep_after c w)) = map sb_id (sw_subscribers w)"
proof -
  let ?cs = "sweep_candidates (sc_now c) (sc_opts c) w"
  have subs: "sw_subscribers (sweep_after c w) = stampAccessReconciled (map rc_id ?cs) (sc_now c) (sw_subscribers w)"
    unfolding sweep_after_def using assms(2) by (intro sweep_stamps) (simp_all add: full_sweep_def)
  have "length (filter (\<lambda>s. reconcile_due due s \<and> sb_id s \<in> rc_id ` set ?cs) (sw_subscribers w)) = min 200 (due_count due w)"
    unfolding sweep_candidates_def Let_def due_count_def
    using oldest_first [OF _ assms(1), of due _ 200] assms(2) by (simp add: full_sweep_def MAX_SUBSCRIBERS_PER_SWEEP_def)
  then show ?thesis
    using assms(2) by (simp add: due_count_def subs stamped_due stamped_ids filter_split_length full_sweep_def)
qed

text \<open>
  Sweeps reach everyone. Each sweep whose calls succeed checks the two hundred live subscribers
  that wait longest, or all that are left, also when its breaker trips: after as many sweeps as
  there are batches, no live subscriber is unchecked since the given time.
\<close>

lemma sweeps_reach_everyone:
  assumes "distinct (map sb_id (sw_subscribers w))" and "\<forall>c \<in> set cs. full_sweep due c"
  shows "due_count due (fold sweep_after cs w) = due_count due w - 200 * length cs
    \<and> (due_count due w \<le> 200 * length cs \<longrightarrow>
         (\<forall>s \<in> set (sw_subscribers (fold sweep_after cs w)). sb_deletedAt s = None \<longrightarrow>
            (\<exists>t. sb_lastAccessReconciledAt s = Some t \<and> due \<le> t)))"
proof -
  have left: "due_count due (fold sweep_after cs w) = due_count due w - 200 * length cs"
    using assms
  proof (induction cs arbitrary: w)
    case (Cons c cs)
    have "full_sweep due c" using Cons.prems by simp
    note once = sweep_progress [OF Cons.prems(1) this]
    have "due_count due (fold sweep_after cs (sweep_after c w)) = due_count due (sweep_after c w) - 200 * length cs"
      using Cons.prems once by (intro Cons.IH) simp_all
    then show ?case using once by simp
  qed simp
  have "\<exists>t. sb_lastAccessReconciledAt s = Some t \<and> due \<le> t"
    if "due_count due w \<le> 200 * length cs" "s \<in> set (sw_subscribers (fold sweep_after cs w))" "sb_deletedAt s = None" for s
  proof -
    have "filter (reconcile_due due) (sw_subscribers (fold sweep_after cs w)) = []"
      using left that(1) unfolding due_count_def by simp
    then have "\<not> reconcile_due due s" using that(2) by (simp add: filter_empty_conv)
    then show ?thesis using that(3) by (auto simp: reconcile_due_def not_less split: option.splits)
  qed
  then show ?thesis using left by blast
qed

text \<open>
  A subscriber that was merged into another is retired, so no sweep looks at its rows again. (The
  comment on the query says that merged subscribers stay on the work list.)
\<close>

lemma merged_not_candidate:
  "i \<notin> rc_id ` set (selectAccessReconciliationCandidates (softDeleteSubscriberAsMerged i into t db) staleBefore n)"
proof
  assume "i \<in> rc_id ` set (selectAccessReconciliationCandidates (softDeleteSubscriberAsMerged i into t db) staleBefore n)"
  then obtain c where c: "c \<in> set (selectAccessReconciliationCandidates (softDeleteSubscriberAsMerged i into t db) staleBefore n)"
    and "rc_id c = i" by blast
  moreover obtain s where "s \<in> set (softDeleteSubscriberAsMerged i into t db)" "sb_id s = rc_id c" "reconcile_due staleBefore s"
    using c [unfolded selectAccessReconciliationCandidates_def, THEN in_set_takeD] by auto
  ultimately show False by (auto simp: softDeleteSubscriberAsMerged_def update_row_def reconcile_due_def split: if_splits)
qed

section \<open>A worked instance\<close>

definition sweep_sample_env :: "heal_failure option \<Rightarrow> sweep_env" where
  "sweep_sample_env f = \<lparr>se_products = sample_products, se_localeCompare = (\<lambda>_ _. 0), se_sha256 = (\<lambda>x. x),
     se_detectFails = (\<lambda>_. False), se_healFails = (\<lambda>_. f), se_syncNow = (\<lambda>_. 200), se_auditNow = (\<lambda>_. 200),
     se_auditId = (\<lambda>s. s)\<rparr>"

definition default_sweep :: sweep_opts where
  "default_sweep = \<lparr>so_dryRun = None, so_backfill = None, so_staleAfterMs = None\<rparr>"

definition sweep_sample :: sweep_world where
  "sweep_sample = \<lparr>sw_subscribers = [subscriber_sample ''sub'' ''r1'' (Some ''alice'')],
     sw_purchases = sample_table ACTIVE 500, sw_access = sample_access, sw_audit = []\<rparr>"

lemma sweep_sample_ok:
  "access_db_ok (sw_access sweep_sample)" "distinct (map sb_id (sw_subscribers sweep_sample))"
  "dates_in_range (sw_access sweep_sample)" "purchase_dates_in_range (sw_purchases sweep_sample)"
proof -
  have "iso_range 300" "iso_range 500" by code_simp+
  then show "dates_in_range (sw_access sweep_sample)" "purchase_dates_in_range (sw_purchases sweep_sample)"
    by (simp_all add: sweep_sample_def sample_access_def dates_in_range_def purchase_dates_in_range_def
        sample_table_def sample_purchase_def)
qed (simp_all add: sweep_sample_def sample_access_ok)

lemma sweep_sample_targets: "sweep_targets (sweep_sample_env f) 200 default_sweep sweep_sample = [''sub'']"
  by code_simp

lemma sweep_sample_runs: "\<not> rr_circuitBroken (fst (runAccessReconciliationSweep (sweep_sample_env f) 200 default_sweep sweep_sample))"
  by (simp add: runAccessReconciliationSweep_def Let_def case_prod_beta circuit_broken_def MIN_BATCH_FOR_CIRCUIT_BREAKER_def
      sweep_candidates_def selectAccessReconciliationCandidates_def sweep_sample_def)

lemma sweep_sample_grants: "open_grant (sw_purchases sweep_sample) sample_products ''sub'' ''pro'' 200"
  by (simp add: open_grant_def sweep_sample_def sample_purchases served_def pa_expiry_def entitlementExpiry_def)

lemma default_not_dry: "so_dryRun default_sweep \<noteq> Some True" by (simp add: default_sweep_def)


theorem sweep_blast_radius_witness:
  "card {s. rows_of (sw_access (snd (runAccessReconciliationSweep (sweep_sample_env None) 200 default_sweep sweep_sample))) s
      \<noteq> rows_of (sw_access sweep_sample) s} \<le> 19"
  using sweep_blast_radius [OF sweep_sample_ok(1,2) prod.collapse [symmetric]] by blast

end
