(* ===== verification/Spec2Isabelle.thy ===== *)
theory Spec2Isabelle
  imports Transition_Guard Access_Sync Currency_Grants Expiry_Checker Outbox_Dispatcher Apple_Chain Audit_Chain
    Circuit_Breaker Funnel_Graph Paywall_Diff Csv_Import Webhook_Processor Placement_Resolution Rate_Limits Request_Guards
    Google_Ingestion Access_Reconciliation
begin

text \<open>
  \<^bold>\<open>Rovenue: a model of the subscription back end\<close>

  Rovenue receives purchase notifications from the app stores, keeps one row per purchase, derives
  from the purchases what each subscriber may use, grants virtual currency, records revenue, and
  tells the project's own servers about all of it. The program is the TypeScript under
  \<^verbatim>\<open>src/apps/api/src\<close> and \<^verbatim>\<open>src/packages\<close>.

  \<^bold>\<open>Conventions.\<close> A table is a list of rows (a record per row) in a record with the next fresh
  key where the key is allocated by the database; a handler is a function from the tables it finds
  to the tables it leaves; a raise is the left summand of a sum or the option \<open>None\<close>. What the
  program does not decide itself is an argument: clocks, fresh ids, what the network answers, which
  calls throw. A transaction under an advisory lock, and a command or pipeline of Redis, is one step. Times are milliseconds (\<open>timestamp\<close>).
  The keyed and plain hash functions are parameters, with what is relied on as a hypothesis
  (a hash is not empty; it does not collide on the texts at hand). Logging and counters are left out.

  \<^bold>\<open>Parts and theories.\<close>
  \<^item> \<open>Rovenue_Prelude\<close>: named collections, list and map lemmas, the locale \<open>strict_weak\<close> of
    selections that keep the best entry per key.
  \<^item> \<open>Subscription_Status\<close>, \<open>Subscription_State\<close>: the status table
    (\<^verbatim>\<open>subscription-status.ts\<close>), the transition graph and the payment-failure stamp
    (\<^verbatim>\<open>subscription-state.ts\<close>); the locale \<open>absorbing_machine\<close> and its interpretation.
  \<^item> \<open>Purchase_Store\<close>: the purchases repository and its sweep queries; \<open>Transition_Guard\<close>: the
    guard every status write passes.
  \<^item> \<open>Access_Engine\<close>, \<open>Access_Sync\<close>: which entitlements follow from the purchases, the
    reconciliation of the stored rows, the reads and the drift detection; the closed form of the
    reconciliation and what follows from it.
  \<^item> \<open>Access_Reconciliation\<close>: the sweep over all subscribers that detects and repairs drift
    (\<^verbatim>\<open>workers/access-reconciliation.ts\<close>), with its breaker, its audit rows and its work list.
  \<^item> \<open>Json_Text\<close>, \<open>Canonical_Json\<close>, \<open>Iso_Dates\<close>: JSON values, their texts, the canonical encoding with
    its injectivity, and that the text of a date determines the date.
  \<^item> \<open>Outbox\<close>, \<open>Outbox_Dispatcher\<close>: the transactional outbox and the worker that publishes it.
  \<^item> \<open>Credit_Ledger\<close>, \<open>Currency_Grants\<close>: the append-only ledger of virtual currency and the grants
    a product makes; the locale \<open>replayable\<close>.
  \<^item> \<open>Revenue_Events\<close>: the revenue log with its idempotency claims.
  \<^item> \<open>Webhook_Delivery\<close>: the queue of outgoing webhooks and its delivery worker, as a transition
    system.
  \<^item> \<open>Expiry_Checker\<close>: the sweep that retires lapsed purchases.
  \<^item> \<open>Apple_Chain\<close>: the chain-wide notification handlers of the App Store.
  \<^item> \<open>Google_Ingestion\<close>: the handlers of Google Play notifications (\<^verbatim>\<open>services/google\<close>) with the
    plan-change helpers (\<^verbatim>\<open>subscription-plan-change.ts\<close>), as attempts that may stop after any commit.
  \<^item> \<open>Audit_Chain\<close>: the hash-chained audit log, its verifier, and the exported proof bundles.
  \<^item> \<open>Webhook_Events\<close>: the inbox of store notifications (\<^verbatim>\<open>webhook-events.ts\<close>), the claim under a
    lease, the reaper (\<^verbatim>\<open>webhook-reaper.ts\<close>), and the interleavings of handlers in flight;
    \<open>Webhook_Processor\<close>: access, credits and announcements after a notification
    (\<^verbatim>\<open>webhook-processor.ts\<close>), with the tables of public keys and categories.
  \<^item> \<open>Circuit_Breaker\<close>: the breaker in front of outside services (\<^verbatim>\<open>circuit-breaker.ts\<close>) and its
    refinement of a three-state machine.
  \<^item> \<open>Funnel_Rules\<close>, \<open>Funnel_Graph\<close>: the branching of funnels (\<^verbatim>\<open>funnel/evaluator.ts\<close>) and the checks
    at publication (\<^verbatim>\<open>funnel/validator.ts\<close>).
  \<^item> \<open>Paywall_Tree\<close>, \<open>Paywall_Diff\<close>: the tree of a paywall with its edits (\<^verbatim>\<open>paywall/tree-op.ts\<close>, the
    builder's \<^verbatim>\<open>tree-ops.ts\<close>), its size guard and the diff of two configurations.
  \<^item> \<open>Csv_Import\<close>: the streaming CSV reader of the data import (\<^verbatim>\<open>import/csv.ts\<close>).
  \<^item> \<open>Experiment_Bucketing\<close>: hash buckets, choice of a variant and targeting rules
    (\<^verbatim>\<open>packages/shared/src/experiments\<close>); \<open>Experiment_Engine\<close>: the evaluation of experiments and
    feature flags for a subscriber (\<^verbatim>\<open>experiment-engine.ts\<close>, \<^verbatim>\<open>flag-engine.ts\<close>) with the assignments table.
  \<^item> \<open>Subscriber_Attributes\<close>, \<open>Subscriber_Identity\<close>: the attributes of a subscriber; which subscriber a
    device is, signing in (\<^verbatim>\<open>identify.ts\<close>) and merging two subscribers (\<^verbatim>\<open>subscriber-transfer.ts\<close>) across
    the purchases, access, ledger, revenue and assignments tables.
  \<^item> \<open>Placement_Resolution\<close>: what a device is shown at a placement (\<^verbatim>\<open>placement-resolution.ts\<close>).
  \<^item> \<open>Rate_Limits\<close>: the sliding-window limiter in Redis and the in-process limiter behind it
    (\<^verbatim>\<open>middleware/rate-limit.ts\<close>, \<^verbatim>\<open>insurance-rate-limit.ts\<close>); \<open>Request_Guards\<close>: the Idempotency-Key
    middleware, the webhook replay guard and the Redis lock (\<^verbatim>\<open>idempotency.ts\<close>,
    \<^verbatim>\<open>webhook-replay-guard.ts\<close>, \<^verbatim>\<open>lib/redis-lock.ts\<close>).
  \<^item> this theory: what spans components.

  \<^bold>\<open>What the theorems show.\<close> Access follows from the purchases alone and reconciliation is
  idempotent and complete; refunds and revocations are final; balances are the sums of what was
  granted and spent; replays change nothing; the queue loses nothing and its retries are bounded;
  the expiry sweep drains; the drift sweep repairs what it finds, touches few and reaches everyone; published means sent; the audit chain verifies and binds its content; handlers of
  one notification exclude each other and its effects happen once however often it is retried; a
  refund from Google is booked at most once and a plan change announced as often as it happens; an
  accepted funnel ends; edits of a paywall lose no node; the reader gives back what was written;
  a subscriber keeps the variant once shown and is in one experiment of a group; a merge moves everything;
  a placement serves whole experiments and no drafts; the limiter is a sliding log, an event passes the
  replay guard once, a stored response is replayed, a lock has one holder. Where the
  code falls short of what it means, the failing behaviour is a theorem as well.

  \<^bold>\<open>Bounds.\<close> There is no fuel. Most loops are structural recursion or a fold over a finite list; the
  searches of the funnel graph end because a node that is entered is no longer white, the work lists of
  the paywall code because every pushed element is smaller than the popped one (\<open>stack_rel\<close>). Batch
  sizes, leases and retry schedules are the constants of the source.

  \<^bold>\<open>Not modelled.\<close> Stripe and the receipt path, the single-transaction handlers of the App Store,
  the HTTP clients of the stores, the per-type schemas and lint rules of
  paywalls, funnel sessions, routes and authentication, the dashboard, the client SDKs and the code
  around services the repository only calls.
\<close>

section \<open>Across components\<close>

lemma retire_access:
  "ex_access (snd (retireCandidate env now spd c w)) = ex_access (safeSyncAccess env c w)"
proof -
  have "ex_access w' = ex_access v" if "enqueueExpirationWebhook env c v = Some w'" for v w'
    using that by (auto simp: enqueueExpirationWebhook_def Let_def split: if_splits option.splits)
  moreover have "ex_access w' = ex_access v" if "recordCancellationRevenue env c now v = Some w'" for v w'
    using that by (auto simp: recordCancellationRevenue_def split: if_splits option.splits sum.splits)
  ultimately show ?thesis by (auto simp: retireCandidate_def Let_def split: option.splits)
qed

lemma swept_access:
  assumes "distinct (map pu_id (pd_rows (ex_purchases w)))" and "c \<in> set (pd_rows (ex_purchases w))"
    and "sweep_target now c = Some EXPIRED" and "\<not> xe_casFails env (pu_id c)" and "\<not> xe_syncFails env (pu_id c)"
  shows "ex_access (snd (processCandidate env now spd c w)) =
    syncAccess ((ex_purchases w)\<lparr>pd_rows := map (\<lambda>r. if r = c then c\<lparr>pu_status := EXPIRED\<rparr> else r) (pd_rows (ex_purchases w))\<rparr>)
      (xe_products env) (pu_subscriberId c) (xe_syncNow env (pu_id c)) (ex_access w)"
proof -
  have "\<not> hasActiveGrace c now" "\<not> graceWindowStillOpen c now"
    using assms(3) by (auto simp: sweep_target_def split: if_splits)
  then show ?thesis using assms(4,5)
    by (simp add: processCandidate_def cas_hit [OF assms(1,2)] retire_access safeSyncAccess_def)
qed

text \<open>Expiring one row removes its grants and no others.\<close>

definition granting :: "(timestamp option \<Rightarrow> bool) \<Rightarrow> string \<Rightarrow> purchase_access \<Rightarrow> bool" where
  "granting W a p = (pa_status p \<in> {TRIAL, ACTIVE, GRACE_PERIOD} \<and> a \<in> set (pa_accessIds p) \<and> W (pa_expiry p))"

definition unended :: "timestamp \<Rightarrow> timestamp option \<Rightarrow> bool" where
  "unended t e = (case e of None \<Rightarrow> True | Some e \<Rightarrow> t \<le> e)"

definition other_grants :: "(timestamp option \<Rightarrow> bool) \<Rightarrow> purchase_db \<Rightarrow> (string \<rightharpoonup> string list) \<Rightarrow> purchase \<Rightarrow> string \<Rightarrow> bool" where
  "other_grants W pdb products c a =
     (\<exists>p \<in> set (findPurchasesWithAccessIds pdb products (pu_subscriberId c)). pa_id p \<noteq> pu_id c \<and> granting W a p)"

definition access_of :: "(string \<rightharpoonup> string list) \<Rightarrow> string \<Rightarrow> purchase \<Rightarrow> purchase_access option" where
  "access_of products sub r =
     (if pu_subscriberId r = sub
      then map_option (\<lambda>ids. \<lparr>pa_id = pu_id r, pa_status = pu_status r, pa_expiresDate = pu_expiresDate r,
             pa_gracePeriodExpires = pu_gracePeriodExpires r, pa_store = pu_store r, pa_accessIds = ids\<rparr>)
             (products (pu_productId r))
      else None)"

lemma purchases_with_access:
  "(\<exists>p \<in> set (findPurchasesWithAccessIds db products sub). Q p) \<longleftrightarrow>
     (\<exists>r \<in> set (pd_rows db). \<exists>p. access_of products sub r = Some p \<and> Q p)"
proof -
  have "findPurchasesWithAccessIds db products sub = List.map_filter (access_of products sub) (pd_rows db)"
    by (simp add: findPurchasesWithAccessIds_def access_of_def [abs_def])
  then show ?thesis by (force simp: List.map_filter_def)
qed

lemma expired_row_grants:
  assumes "distinct (map pu_id (pd_rows db))" and "c \<in> set (pd_rows db)"
  shows "(\<exists>p \<in> set (findPurchasesWithAccessIds
            (db\<lparr>pd_rows := map (\<lambda>r. if r = c then c\<lparr>pu_status := EXPIRED\<rparr> else r) (pd_rows db)\<rparr>) products sub).
          granting W a p)
    \<longleftrightarrow> (\<exists>p \<in> set (findPurchasesWithAccessIds db products sub). pa_id p \<noteq> pu_id c \<and> granting W a p)"
proof -
  have expired: "\<not> granting W a p" if "access_of products sub (c\<lparr>pu_status := EXPIRED\<rparr>) = Some p" for p
    using that by (auto simp: access_of_def granting_def split: if_splits)
  have other: "pa_id p \<noteq> pu_id c \<longleftrightarrow> r \<noteq> c" if "access_of products sub r = Some p" "r \<in> set (pd_rows db)" for r p
  proof -
    have "pa_id p = pu_id r" using that(1) by (auto simp: access_of_def split: if_splits)
    then show ?thesis using assms that(2) distinct_map_eqD by metis
  qed
  show ?thesis unfolding purchases_with_access using expired other by fastforce
qed

lemma granting_open: "open_grant pdb products sub a t \<longleftrightarrow>
    (\<exists>p \<in> set (findPurchasesWithAccessIds pdb products sub). granting (served t) a p)"
  by (simp add: open_grant_def granting_def)

lemma granting_unended: "unended_grant pdb products sub a t \<longleftrightarrow>
    (\<exists>p \<in> set (findPurchasesWithAccessIds pdb products sub). granting (unended t) a p)"
  by (simp add: unended_grant_def granting_def unended_def)



end
